(* ===== verification/Go_Prelude.thy ===== *)
theory Go_Prelude
  imports Complex_Main "HOL-Library.Word" "HOL-Library.Sublist" "HOL-Library.AList" "HOL-Library.Multiset"
begin

text \<open>
  What the components share: Go's instants and durations, the string functions of
  the packages \<^verbatim>\<open>strings\<close> and \<^verbatim>\<open>strconv\<close> that the code calls, Go maps, and the
  lemmas on them.

  An instant (\<^verbatim>\<open>time.Time\<close>) is the number of nanoseconds since Go's zero time
  (1 January of year 1, UTC), so that \<^verbatim>\<open>t.IsZero()\<close> is \<^prop>\<open>(t::int) = 0\<close>. A duration
  (\<^verbatim>\<open>time.Duration\<close>) is a number of nanoseconds. \<^verbatim>\<open>t.Sub(u)\<close> saturates at the ends
  of int64, and so does its model.

  A Go map that the code ranges over is an association list: its order stands for
  the iteration order, which Go leaves open, and every theorem about it holds for
  every order. A map that is only read and written by key is a function to option.

  Strings are lists of bytes. \<^verbatim>\<open>strings.ToLower\<close> and \<^verbatim>\<open>strings.TrimSpace\<close> are
  modelled on ASCII, which is what the callers' inputs are made of.
\<close>

named_theorems go_time \<open>facts about instants, durations and saturating subtraction\<close>
named_theorems go_str \<open>facts about the string functions\<close>
named_theorems go_map \<open>facts about Go maps kept as association lists\<close>

section \<open>Instants and durations\<close>

type_synonym instant = int
type_synonym duration = int

definition max_duration :: duration where
  "max_duration = 2 ^ 63 - 1"

definition min_duration :: duration where
  "min_duration = - (2 ^ 63)"

definition second :: duration where
  "second = 1000000000"

definition minute :: duration where
  "minute = 60 * second"

definition hour :: duration where
  "hour = 60 * minute"

lemmas duration_defs = second_def minute_def hour_def max_duration_def min_duration_def

text \<open>\<^verbatim>\<open>t.Sub(u)\<close>: the difference, saturated.\<close>

definition time_sub :: "instant \<Rightarrow> instant \<Rightarrow> duration" where
  "time_sub t u = max min_duration (min max_duration (t - u))"

lemma time_sub_ge [go_time]:
  "min_duration < d \<Longrightarrow> d \<le> max_duration \<Longrightarrow> d \<le> time_sub t u \<longleftrightarrow> d \<le> t - u"
  by (auto simp: time_sub_def)

lemma time_sub_gt [go_time]:
  "min_duration \<le> d \<Longrightarrow> d < max_duration \<Longrightarrow> d < time_sub t u \<longleftrightarrow> d < t - u"
  by (auto simp: time_sub_def)

lemma time_sub_exact [go_time]:
  "min_duration \<le> t - u \<Longrightarrow> t - u \<le> max_duration \<Longrightarrow> time_sub t u = t - u"
  by (auto simp: time_sub_def)

lemma time_sub_mono [go_time]: "t \<le> t' \<Longrightarrow> time_sub t u \<le> time_sub t' u"
  by (auto simp: time_sub_def)

lemma time_sub_self [simp]: "time_sub t t = 0"
  by (simp add: time_sub_def duration_defs)

section \<open>64-bit signed integers\<close>

text \<open>Go's \<^verbatim>\<open>int\<close> is 64 bits wide on the platforms the program is built for.\<close>

definition wrap64 :: "int \<Rightarrow> int" where
  "wrap64 x = (x + 2 ^ 63) mod 2 ^ 64 - 2 ^ 63"

definition in_int64 :: "int \<Rightarrow> bool" where
  "in_int64 x \<longleftrightarrow> min_duration \<le> x \<and> x \<le> max_duration"

lemma wrap64_id: "in_int64 x \<Longrightarrow> wrap64 x = x"
  by (simp add: wrap64_def in_int64_def duration_defs)

lemma wrap64_in: "in_int64 (wrap64 x)"
proof -
  have "0 \<le> (x + 2 ^ 63) mod 2 ^ 64" and "(x + 2 ^ 63) mod 2 ^ 64 < (2::int) ^ 64"
    by (simp_all add: pos_mod_sign pos_mod_bound)
  then show ?thesis by (simp add: wrap64_def in_int64_def duration_defs)
qed

section \<open>Strings\<close>

definition is_space :: "char \<Rightarrow> bool" where
  "is_space c \<longleftrightarrow> c \<in> {CHR '' '', CHR 0x09, CHR 0x0A, CHR 0x0B, CHR 0x0C, CHR 0x0D}"

definition is_digit :: "char \<Rightarrow> bool" where
  "is_digit c \<longleftrightarrow> 48 \<le> (of_char c :: nat) \<and> (of_char c :: nat) \<le> 57"

definition digit_val :: "char \<Rightarrow> int" where
  "digit_val c = int (of_char c) - 48"

definition lower_char :: "char \<Rightarrow> char" where
  "lower_char c =
     (let n = (of_char c :: nat) in if 65 \<le> n \<and> n \<le> 90 then char_of (n + 32) else c)"

definition to_lower :: "string \<Rightarrow> string" where
  "to_lower = map lower_char"

definition trim_space :: "string \<Rightarrow> string" where
  "trim_space s = rev (dropWhile is_space (rev (dropWhile is_space s)))"

text \<open>\<^verbatim>\<open>strings.Cut\<close> at a one-byte separator: before, after, found.\<close>

definition cut_at :: "char \<Rightarrow> string \<Rightarrow> string \<times> string \<times> bool" where
  "cut_at c s = (takeWhile (\<lambda>x. x \<noteq> c) s, drop 1 (dropWhile (\<lambda>x. x \<noteq> c) s), c \<in> set s)"

text \<open>\<^verbatim>\<open>strings.Split\<close> at a one-byte separator: never the empty list.\<close>

fun split_at_char :: "char \<Rightarrow> string \<Rightarrow> string list" where
  "split_at_char c [] = [[]]"
| "split_at_char c (x # xs) =
     (if x = c then [] # split_at_char c xs
      else (case split_at_char c xs of [] \<Rightarrow> [[x]] | p # ps \<Rightarrow> (x # p) # ps))"

text \<open>\<^verbatim>\<open>strings.Join\<close>.\<close>

fun join_with :: "string \<Rightarrow> string list \<Rightarrow> string" where
  "join_with sep [] = []"
| "join_with sep [x] = x"
| "join_with sep (x # y # xs) = x @ sep @ join_with sep (y # xs)"

text \<open>\<^verbatim>\<open>strings.Fields\<close>: the maximal runs of bytes that are not white space.\<close>

fun str_fields_acc :: "string \<Rightarrow> string \<Rightarrow> string list" where
  "str_fields_acc cur [] = (if cur = [] then [] else [rev cur])"
| "str_fields_acc cur (x # xs) =
     (if is_space x then (if cur = [] then str_fields_acc [] xs else rev cur # str_fields_acc [] xs)
      else str_fields_acc (x # cur) xs)"

definition str_fields :: "string \<Rightarrow> string list" where
  "str_fields = str_fields_acc []"

text \<open>\<^verbatim>\<open>strconv.Atoi\<close>: an optional sign, one or more digits, in the range of int64.\<close>

definition digits_val :: "string \<Rightarrow> int" where
  "digits_val s = foldl (\<lambda>n c. 10 * n + digit_val c) 0 s"

definition atoi :: "string \<Rightarrow> int option" where
  "atoi s =
     (let neg = (s \<noteq> [] \<and> hd s = CHR ''-'');
          body = (if s \<noteq> [] \<and> (hd s = CHR ''-'' \<or> hd s = CHR ''+'') then tl s else s);
          v = (if neg then - digits_val body else digits_val body)
      in if body \<noteq> [] \<and> list_all is_digit body \<and> in_int64 v then Some v else None)"

lemma split_at_char_nonempty [simp, go_str]: "split_at_char c s \<noteq> []"
  by (induction s) (auto split: list.splits)

lemma split_at_char_no_sep: "p \<in> set (split_at_char c s) \<Longrightarrow> c \<notin> set p"
proof (induction s arbitrary: p)
  case Nil
  then show ?case by simp
next
  case (Cons x xs)
  then show ?case
    by (cases "split_at_char c xs") (auto split: if_splits)
qed

lemma to_lower_idem [simp, go_str]: "to_lower (to_lower s) = to_lower s"
proof -
  have "lower_char (lower_char c) = lower_char c" for c
    by (simp add: lower_char_def Let_def)
  then show ?thesis by (simp add: to_lower_def comp_def)
qed

lemma length_to_lower [simp, go_str]: "length (to_lower s) = length s"
  by (simp add: to_lower_def)

lemma atoi_in_range: "atoi s = Some v \<Longrightarrow> in_int64 v"
  by (auto simp: atoi_def Let_def split: if_splits)

text \<open>\<^verbatim>\<open>%d\<close>: decimal digits, with a sign for negative numbers.\<close>

fun show_nat :: "nat \<Rightarrow> string" where
  "show_nat n = (if n < 10 then [char_of (48 + n)] else show_nat (n div 10) @ [char_of (48 + n mod 10)])"

declare show_nat.simps [simp del]

definition show_int :: "int \<Rightarrow> string" where
  "show_int n = (if n < 0 then CHR ''-'' # show_nat (nat (- n)) else show_nat (nat n))"

lemma digits_val_append: "digits_val (s @ [c]) = 10 * digits_val s + digit_val c"
  by (simp add: digits_val_def)

lemma digits_val_show_nat: "digits_val (show_nat n) = int n"
proof (induction n rule: show_nat.induct)
  case (1 n)
  show ?case
  proof (cases "n < 10")
    case True
    then show ?thesis by (simp add: show_nat.simps [of n] digits_val_def digit_val_def)
  next
    case False
    have "10 * int (n div 10) + int (n mod 10) = int n"
      by (metis mult_div_mod_eq of_nat_add of_nat_mult of_nat_numeral)
    with False "1.IH" show ?thesis
      by (simp add: show_nat.simps [of n] digits_val_append digit_val_def)
  qed
qed

lemma show_nat_inj: "show_nat m = show_nat n \<longleftrightarrow> m = n"
  by (metis digits_val_show_nat of_nat_eq_iff)

lemma show_nat_nonempty [simp]: "show_nat n \<noteq> []"
  by (subst show_nat.simps) simp

lemma show_nat_digits: "list_all is_digit (show_nat n)"
proof (induction n rule: show_nat.induct)
  case (1 n)
  have "is_digit (char_of (48 + k))" if "k < 10" for k :: nat
    using that by (simp add: is_digit_def)
  with 1 show ?case by (subst show_nat.simps) simp
qed

lemma digit_not_sign: "is_digit c \<Longrightarrow> c \<noteq> CHR ''-'' \<and> c \<noteq> CHR ''+''"
  by (auto simp: is_digit_def)

text \<open>What \<^verbatim>\<open>%d\<close> prints, \<^verbatim>\<open>strconv.Atoi\<close> reads back.\<close>

lemma atoi_show_int: "in_int64 n \<Longrightarrow> atoi (show_int n) = Some n"
proof -
  assume n: "in_int64 n"
  have hd: "hd (show_nat k) \<noteq> CHR ''-'' \<and> hd (show_nat k) \<noteq> CHR ''+''" for k
    using show_nat_digits [of k] by (cases "show_nat k") (auto dest: digit_not_sign)
  show ?thesis
    using n hd [of "nat n"] show_nat_digits
    by (cases "n < 0") (simp_all add: atoi_def show_int_def Let_def digits_val_show_nat)
qed

section \<open>Go maps as association lists\<close>

lemma map_of_AList_update [go_map]:
  "map_of (AList.update k v m) k' = (if k' = k then Some v else map_of m k')"
  by (simp add: update_conv')

lemma map_of_AList_delete [go_map]:
  "map_of (AList.delete k m) k' = (if k' = k then None else map_of m k')"
  by (simp add: delete_conv')

lemma distinct_AList_update [go_map]:
  "distinct (map fst m) \<Longrightarrow> distinct (map fst (AList.update k v m))"
  by (rule distinct_update)

lemma distinct_AList_delete [go_map]:
  "distinct (map fst m) \<Longrightarrow> distinct (map fst (AList.delete k m))"
  by (rule distinct_delete)

lemma set_AList_delete [go_map]: "set (AList.delete k m) = {p \<in> set m. fst p \<noteq> k}"
  by (auto simp: AList.delete_eq)

lemma set_AList_update [go_map]: "set (AList.update k v m) \<subseteq> insert (k, v) (set m)"
  by (induction m) auto

section \<open>Machines with an invariant\<close>

text \<open>
  Most components are a state and operations on it, run in any order. The contract of
  such a component is that every operation whose precondition holds keeps the
  invariant; that every run then keeps it is proved here once.
\<close>

fun run_ok :: "('s \<Rightarrow> 'e \<Rightarrow> 's) \<Rightarrow> ('s \<Rightarrow> 'e \<Rightarrow> bool) \<Rightarrow> 's \<Rightarrow> 'e list \<Rightarrow> bool" where
  "run_ok st ok s [] = True"
| "run_ok st ok s (e # es) = (ok s e \<and> run_ok st ok (st s e) es)"

lemma run_ok_append:
  "run_ok st ok s (es @ fs) \<longleftrightarrow> run_ok st ok s es \<and> run_ok st ok (foldl st s es) fs"
  by (induction es arbitrary: s) auto

lemma run_ok_True [simp]: "run_ok st (\<lambda>s e. True) s es"
  by (induction es arbitrary: s) auto

locale invariant_machine =
  fixes mstep :: "'s \<Rightarrow> 'e \<Rightarrow> 's"
    and mok :: "'s \<Rightarrow> 'e \<Rightarrow> bool"
    and minv :: "'s \<Rightarrow> bool"
  assumes step_keeps: "minv s \<Longrightarrow> mok s e \<Longrightarrow> minv (mstep s e)"
begin

lemma run_keeps: "minv s \<Longrightarrow> run_ok mstep mok s es \<Longrightarrow> minv (foldl mstep s es)"
  by (induction es arbitrary: s) (auto intro: step_keeps)

lemma prefix_keeps:
  "minv s \<Longrightarrow> run_ok mstep mok s (es @ fs) \<Longrightarrow> minv (foldl mstep s es)"
  by (simp add: run_ok_append run_keeps)

end

end
