(* ===== verification/Site_Model.thy ===== *)
theory Site_Model
  imports Go_Prelude
begin

text \<open>
  The configuration that the components read (\<^verbatim>\<open>internal/model\<close>): sites, their
  bindings, process settings, scheduled tasks and alert rules. A record has the fields
  of the Go struct that the modelled code reads. Go's \<^verbatim>\<open>float64\<close> is \<^typ>\<open>rat\<close>; a pointer
  that may be nil is an option. Also here: slot keys, with their round trip.
\<close>

section \<open>Alert rules\<close>

record alert_rule =
  ar_ID :: string
  ar_Metric :: string
  ar_Threshold :: rat
  ar_ForMinutes :: int
  ar_Severity :: string
  ar_WindowMinutes :: int
  ar_MinRequests :: int
  ar_RepeatHours :: int
  ar_Disabled :: bool

record site_alerts =
  sa_Disabled :: bool
  sa_Rules :: "alert_rule list"

record alert_settings =
  as_Enabled :: bool
  as_SiteRules :: "alert_rule list"
  as_ServerRules :: "alert_rule list"
  as_RecoveryMinutes :: int
  as_EmailTo :: "string list"

section \<open>Scheduled tasks\<close>

record scheduled_task =
  task_ID :: string
  task_Name :: string
  task_Schedule :: string
  task_Script :: string
  task_NpmScript :: string
  task_Enabled :: bool
  task_TimeoutSec :: int
  task_Overlap :: string

section \<open>Sites\<close>

datatype site_type = SiteNode | SiteProxy | SiteStatic | SiteRedirect | SiteWorker | OtherSiteType string

record client_cert_config =
  cl_Mode :: string
  cl_CAPEM :: string
  cl_AllowedSubjects :: "string list"
  cl_AllowedFingerprints :: "string list"
  cl_RequirePaths :: "string list"

record binding =
  b_Protocol :: string
  b_IP :: string
  b_Port :: int
  b_Host :: string
  b_CertMode :: string
  b_CertificateID :: string
  b_ClientCert :: "client_cert_config option"
  b_Slot :: string

text \<open>Variables of processes; \<^verbatim>\<open>From\<close> names a secret in a secret store.\<close>

record secret_ref =
  sr_Store :: string
  sr_Ref :: string

record env_var =
  ev_Name :: string
  ev_Value :: string
  ev_Secret :: bool
  ev_From :: "secret_ref option"
  ev_SlotSetting :: bool

record python_config =
  py_Module :: string
  py_Server :: string
  py_App :: string
  py_Venv :: string

record run_as_config =
  ra_Enabled :: bool
  ra_Username :: string
  ra_Password :: string

record health_check =
  hc_Enabled :: bool
  hc_Path :: string
  hc_IntervalSec :: int
  hc_TimeoutSec :: int
  hc_UnhealthyThreshold :: int

record recycle_config =
  rc_MemoryLimitMB :: int
  rc_PeriodicMinutes :: int
  rc_ScheduleTimes :: "string list"
  rc_MaxRequests :: int

record process_limits =
  pl_CPUPercent :: int
  pl_MemoryLimitMB :: int

record load_balancer_config =
  lb_Enabled :: bool
  lb_LocalWeight :: int
  lb_Servers :: "(string \<times> int) list"
  lb_Strategy :: string
  lb_HealthCheck :: health_check
  lb_InsecureSkipVerify :: bool

record node_config =
  n_AppRoot :: string
  n_Script :: string
  n_NpmScript :: string
  n_Args :: "string list"
  n_NodeArgs :: "string list"
  n_NodeVersion :: string
  n_Env :: "env_var list"
  n_Runtime :: string
  n_RuntimeVersion :: string
  n_Python :: "python_config option"
  n_Instances :: int
  n_PortMode :: string
  n_FixedPort :: int
  n_RestartPolicy :: string
  n_MaxRestarts :: int
  n_RestartWindowSec :: int
  n_RapidFailAction :: string
  n_RecoverAfterSec :: int
  n_StartupTimeoutSec :: int
  n_ShutdownTimeoutSec :: int
  n_AgentEnabled :: bool
  n_WatchFiles :: bool
  n_WatchIgnore :: "string list"
  n_HealthCheck :: health_check
  n_Recycle :: recycle_config
  n_Limits :: process_limits
  n_RunAs :: run_as_config
  n_LoadBalancer :: load_balancer_config

text \<open>Deployment slots: second copies of a site, with a release of their own.\<close>

record warmup_config =
  wu_Paths :: "string list"
  wu_Statuses :: string
  wu_TimeoutSec :: int

record deployment_slot =
  ds_Name :: string
  ds_Env :: "env_var list"
  ds_Instances :: int
  ds_AutoSwap :: bool
  ds_Warmup :: warmup_config
  ds_ActiveRelease :: string

record site =
  site_ID :: string
  site_Name :: string
  site_Type :: site_type
  site_Bindings :: "binding list"
  site_Node :: "node_config option"
  site_Tasks :: "scheduled_task list"
  site_Alerts :: site_alerts
  site_ActiveRelease :: string
  site_Slots :: "deployment_slot list"
  site_Slot :: string

definition RunsNode :: "site \<Rightarrow> bool" where
  "RunsNode s \<longleftrightarrow> site_Type s = SiteNode \<or> site_Type s = SiteWorker"

text \<open>The smaller of the two memory limits that are set; 0 when none is.\<close>

definition MemoryLimitMB :: "node_config \<Rightarrow> int" where
  "MemoryLimitMB n =
     foldl (\<lambda>limit v. if v > 0 \<and> (limit = 0 \<or> v < limit) then v else limit) 0
       [pl_MemoryLimitMB (n_Limits n), rc_MemoryLimitMB (n_Recycle n)]"

lemma MemoryLimitMB_nonneg: "0 \<le> MemoryLimitMB n"
  by (simp add: MemoryLimitMB_def)

section \<open>Slot keys\<close>

definition ProductionSlot :: string where
  "ProductionSlot = ''production''"

definition slotKeySep :: char where
  "slotKeySep = CHR ''@''"

definition SlotKey :: "string \<Rightarrow> string \<Rightarrow> string" where
  "SlotKey siteID slot =
     (if slot = [] \<or> slot = ProductionSlot then siteID else siteID @ slotKeySep # slot)"

definition SplitSlotKey :: "string \<Rightarrow> string \<times> string" where
  "SplitSlotKey k = (case cut_at slotKeySep k of (siteID, slot, _) \<Rightarrow> (siteID, slot))"

definition NormalizeSlot :: "string \<Rightarrow> string" where
  "NormalizeSlot name =
     (let n = to_lower (trim_space name) in if n = ProductionSlot then [] else n)"

lemma cut_at_fresh:
  "c \<notin> set a \<Longrightarrow> cut_at c (a @ c # b) = (a, b, True)"
  "c \<notin> set a \<Longrightarrow> cut_at c a = (a, [], False)"
  by (induction a) (auto simp: cut_at_def)

lemma SplitSlotKey_SlotKey:
  "slotKeySep \<notin> set siteID \<Longrightarrow>
   SplitSlotKey (SlotKey siteID slot) = (siteID, if slot = ProductionSlot then [] else slot)"
  by (auto simp: SplitSlotKey_def SlotKey_def cut_at_fresh)

lemma SlotKey_inj:
  assumes "slotKeySep \<notin> set a" and "slotKeySep \<notin> set b"
    and "SlotKey a s = SlotKey b t" and "s \<noteq> ProductionSlot" and "t \<noteq> ProductionSlot"
  shows "a = b \<and> s = t"
proof -
  have "(a, s) = SplitSlotKey (SlotKey a s)" using assms(4) by (simp add: SplitSlotKey_SlotKey [OF assms(1)])
  also have "\<dots> = (b, t)" unfolding assms(3) using assms(5) by (simp add: SplitSlotKey_SlotKey [OF assms(2)])
  finally show ?thesis by simp
qed

end
