(* ===== verification/Alert_State.thy ===== *)
theory Alert_State
  imports Go_Prelude
begin

text \<open>
  The state machine of one alert rule on one subject (\<^verbatim>\<open>internal/alerts/state.go\<close>):
  \<open>alert_step\<close> is the Go function \<^verbatim>\<open>Step\<close>. The lemmas say when it may fire and
  resolve in terms of the evaluations it has seen: an alert fires only at the end of
  an unbroken stretch of evaluations past the limit that is at least \<^verbatim>\<open>For\<close> long, and
  always does at the end of such a stretch; it resolves only after an unbroken clear
  stretch of at least \<^verbatim>\<open>Recovery\<close>, and always does then.
\<close>

section \<open>The state machine\<close>

datatype observation = Clear | Breach | NoData

datatype phase = Inactive | Pending | Firing

record timing =
  For :: duration
  Recovery :: duration
  Repeat :: duration

definition MaxGap :: duration where
  "MaxGap = minute"

record alert_state =
  Phase :: phase
  Since :: instant
  FiredAt :: instant
  ClearSince :: instant
  LastSeen :: instant
  LastNotified :: instant

definition zero_state :: alert_state where
  "zero_state = \<lparr>Phase = Inactive, Since = 0, FiredAt = 0, ClearSince = 0, LastSeen = 0,
     LastNotified = 0\<rparr>"

datatype alert_transition = NoTransition | Fire | Remind | Resolve

definition sustained :: "instant \<Rightarrow> instant \<Rightarrow> timing \<Rightarrow> bool" where
  "sustained since now t \<longleftrightarrow> time_sub now since \<ge> For t"

definition recovered :: "instant \<Rightarrow> instant \<Rightarrow> timing \<Rightarrow> bool" where
  "recovered clearSince now t \<longleftrightarrow> time_sub now clearSince \<ge> Recovery t"

text \<open>
  The part of \<^verbatim>\<open>Step\<close> for a pending rule and the part for a firing one are definitions
  of their own; \<open>gap\<close> says that the previous evaluation is too long ago.
\<close>

definition step_pending ::
  "alert_state \<Rightarrow> bool \<Rightarrow> observation \<Rightarrow> instant \<Rightarrow> timing \<Rightarrow> alert_state \<times> alert_transition" where
  "step_pending s0 gap obs now t =
     (let s = (if gap then s0\<lparr>Since := now\<rparr> else s0) in
      case obs of
        Clear \<Rightarrow> (zero_state\<lparr>LastSeen := now\<rparr>, NoTransition)
      | NoData \<Rightarrow> (s, NoTransition)
      | Breach \<Rightarrow>
          (if \<not> sustained (Since s) now t then (s, NoTransition)
           else (s\<lparr>Phase := Firing, FiredAt := now, LastNotified := now, ClearSince := 0\<rparr>, Fire)))"

definition step_firing ::
  "alert_state \<Rightarrow> bool \<Rightarrow> observation \<Rightarrow> instant \<Rightarrow> timing \<Rightarrow> alert_state \<times> alert_transition" where
  "step_firing s gap obs now t =
     (if obs = Breach then
        (let s = s\<lparr>ClearSince := 0\<rparr> in
         if Repeat t > 0 \<and> time_sub now (LastNotified s) \<ge> Repeat t
         then (s\<lparr>LastNotified := now\<rparr>, Remind) else (s, NoTransition))
      else
        (let s = (if ClearSince s = 0 \<or> gap then s\<lparr>ClearSince := now\<rparr> else s) in
         if recovered (ClearSince s) now t then (zero_state\<lparr>LastSeen := now\<rparr>, Resolve)
         else (s, NoTransition)))"

definition alert_step ::
  "alert_state \<Rightarrow> observation \<Rightarrow> instant \<Rightarrow> timing \<Rightarrow> alert_state \<times> alert_transition" where
  "alert_step s0 obs now t =
     (let gap = (LastSeen s0 \<noteq> 0 \<and> time_sub now (LastSeen s0) > MaxGap);
          s = s0\<lparr>LastSeen := now\<rparr>
      in case Phase s of
           Inactive \<Rightarrow>
             (if obs \<noteq> Breach then (s, NoTransition)
              else step_pending (s\<lparr>Phase := Pending, Since := now\<rparr>) False obs now t)
         | Pending \<Rightarrow> step_pending s gap obs now t
         | Firing \<Rightarrow> step_firing s gap obs now t)"

lemmas alert_step_defs = alert_step_def step_pending_def step_firing_def sustained_def
  recovered_def zero_state_def

section \<open>Runs\<close>

text \<open>An evaluation is what was observed and when; a run feeds evaluations in order.\<close>

type_synonym evaluation = "observation \<times> instant"

definition feed :: "timing \<Rightarrow> alert_state \<Rightarrow> evaluation \<Rightarrow> alert_state" where
  "feed t s e = fst (alert_step s (fst e) (snd e) t)"

definition emitted :: "timing \<Rightarrow> alert_state \<Rightarrow> evaluation \<Rightarrow> alert_transition" where
  "emitted t s e = snd (alert_step s (fst e) (snd e) t)"

definition alert_run :: "timing \<Rightarrow> evaluation list \<Rightarrow> alert_state" where
  "alert_run t es = foldl (feed t) zero_state es"

text \<open>Evaluations are made at times after the zero time, in order.\<close>

definition in_order :: "evaluation list \<Rightarrow> bool" where
  "in_order es \<longleftrightarrow> sorted (map snd es) \<and> (\<forall>e \<in> set es. 0 < snd e)"

text \<open>A stretch of evaluations with no gap longer than \<^verbatim>\<open>MaxGap\<close>.\<close>

definition watched :: "evaluation list \<Rightarrow> bool" where
  "watched es \<longleftrightarrow> successively (\<lambda>a b. snd b - snd a \<le> MaxGap) es"

definition span :: "evaluation list \<Rightarrow> duration" where
  "span es = snd (last es) - snd (hd es)"

text \<open>
  The history of a run agrees with the state: a pending rule's \<^verbatim>\<open>Since\<close> starts an
  unbroken stretch without a clear evaluation, a firing rule's \<^verbatim>\<open>ClearSince\<close> an unbroken
  stretch without a breach.
\<close>

definition stretch :: "observation \<Rightarrow> instant \<Rightarrow> evaluation list \<Rightarrow> bool" where
  "stretch bad start h \<longleftrightarrow>
     (\<exists>seg. suffix seg h \<and> seg \<noteq> [] \<and> snd (hd seg) = start \<and> bad \<notin> fst ` set seg \<and> watched seg)"

definition history_inv :: "evaluation list \<times> alert_state \<Rightarrow> bool" where
  "history_inv hs \<longleftrightarrow>
     (let h = fst hs; s = snd hs in
        in_order h \<and>
        LastSeen s = (if h = [] then 0 else snd (last h)) \<and>
        (h = [] \<longrightarrow> Phase s = Inactive) \<and>
        (Phase s = Pending \<longrightarrow> stretch Clear (Since s) h) \<and>
        (Phase s = Firing \<and> ClearSince s \<noteq> 0 \<longrightarrow> stretch Breach (ClearSince s) h))"

definition feed_history ::
  "timing \<Rightarrow> evaluation list \<times> alert_state \<Rightarrow> evaluation \<Rightarrow> evaluation list \<times> alert_state" where
  "feed_history t hs e = (fst hs @ [e], feed t (snd hs) e)"

definition later :: "evaluation list \<times> alert_state \<Rightarrow> evaluation \<Rightarrow> bool" where
  "later hs e \<longleftrightarrow> 0 < snd e \<and> LastSeen (snd hs) \<le> snd e"

lemma stretch_single: "fst e \<noteq> bad \<Longrightarrow> start = snd e \<Longrightarrow> stretch bad start (h @ [e])"
  unfolding stretch_def
  by (rule exI [where x = "[e]"]) (auto simp: watched_def suffix_def)

lemma stretch_extend:
  assumes "stretch bad start h" and "fst e \<noteq> bad" and "h \<noteq> []" and "snd e - snd (last h) \<le> MaxGap"
  shows "stretch bad start (h @ [e])"
proof -
  from assms(1) obtain seg where seg: "suffix seg h" "seg \<noteq> []" "snd (hd seg) = start"
    "bad \<notin> fst ` set seg" "watched seg" by (auto simp: stretch_def)
  from seg(1,2) have "last seg = last h" by (auto simp: suffix_def)
  with seg assms(2,4) have "watched (seg @ [e])"
    by (auto simp: watched_def successively_append_iff)
  moreover from seg(1) have "suffix (seg @ [e]) (h @ [e])" by (auto simp: suffix_def)
  ultimately show ?thesis
    unfolding stretch_def using seg assms(2)
    by (intro exI [where x = "seg @ [e]"]) auto
qed

section \<open>The history invariant\<close>

lemma MaxGap_cmp: "MaxGap < time_sub a b \<longleftrightarrow> MaxGap < a - b"
  by (rule time_sub_gt) (simp_all add: MaxGap_def duration_defs)

lemma in_order_snoc:
  "in_order (h @ [e]) \<longleftrightarrow> in_order h \<and> 0 < snd e \<and> (h \<noteq> [] \<longrightarrow> snd (last h) \<le> snd e)"
proof (cases h rule: rev_cases)
  case Nil
  then show ?thesis by (simp add: in_order_def)
next
  case (snoc ys y)
  then show ?thesis by (auto simp: in_order_def sorted_append)
qed

lemma in_order_last: "in_order h \<Longrightarrow> h \<noteq> [] \<Longrightarrow> 0 < snd (last h)"
  by (simp add: in_order_def)

text \<open>
  One step: how a rule comes to be pending, or firing and clear. \<open>unwatched\<close> is the
  source's \<^verbatim>\<open>gap\<close>.
\<close>

definition unwatched :: "alert_state \<Rightarrow> instant \<Rightarrow> bool" where
  "unwatched s now \<longleftrightarrow> LastSeen s \<noteq> 0 \<and> time_sub now (LastSeen s) > MaxGap"

lemma alert_step_unwatched:
  "alert_step s obs now t =
     (case Phase s of
        Inactive \<Rightarrow>
          (if obs \<noteq> Breach then (s\<lparr>LastSeen := now\<rparr>, NoTransition)
           else step_pending (s\<lparr>LastSeen := now, Phase := Pending, Since := now\<rparr>) False obs now t)
      | Pending \<Rightarrow> step_pending (s\<lparr>LastSeen := now\<rparr>) (unwatched s now) obs now t
      | Firing \<Rightarrow> step_firing (s\<lparr>LastSeen := now\<rparr>) (unwatched s now) obs now t)"
  by (cases "Phase s") (simp_all add: alert_step_def unwatched_def Let_def)

lemmas alert_step_cases = alert_step_unwatched step_pending_def step_firing_def zero_state_def Let_def

lemma to_pending:
  assumes "Phase (feed t s (obs, now)) = Pending"
  shows "obs \<noteq> Clear" and "Since (feed t s (obs, now)) = now \<or>
    (Phase s = Pending \<and> Since (feed t s (obs, now)) = Since s \<and> \<not> unwatched s now)"
  using assms
  by (cases "Phase s"; cases obs; simp add: feed_def alert_step_cases split: if_splits)+

lemma to_recovering:
  assumes "Phase (feed t s (obs, now)) = Firing" and "ClearSince (feed t s (obs, now)) \<noteq> 0"
  shows "obs \<noteq> Breach" and "ClearSince (feed t s (obs, now)) = now \<or>
    (Phase s = Firing \<and> ClearSince s \<noteq> 0 \<and> ClearSince (feed t s (obs, now)) = ClearSince s \<and>
     \<not> unwatched s now)"
  using assms
  by (cases "Phase s"; cases obs; cases "ClearSince s = 0"; cases "unwatched s now";
      simp add: feed_def alert_step_cases split: if_splits)+

lemma feed_LastSeen [simp]: "LastSeen (feed t s e) = snd e"
  by (cases "Phase s"; cases "fst e"; simp add: feed_def alert_step_defs Let_def)

lemma feed_keeps_history:
  assumes inv: "history_inv hs" and later: "later hs e"
  shows "history_inv (feed_history t hs e)"
proof -
  obtain h s where hs: "hs = (h, s)" by (cases hs)
  obtain obs now where e: "e = (obs, now)" by (cases e)
  have ord: "in_order (h @ [e])" and seen: "LastSeen s = (if h = [] then 0 else snd (last h))"
    and start: "h = [] \<longrightarrow> Phase s = Inactive"
    and pend: "Phase s = Pending \<longrightarrow> stretch Clear (Since s) h"
    and clear: "Phase s = Firing \<and> ClearSince s \<noteq> 0 \<longrightarrow> stretch Breach (ClearSince s) h"
    using inv later by (auto simp: history_inv_def later_def hs in_order_snoc)
  have near: "snd e - snd (last h) \<le> MaxGap" if "h \<noteq> []" "\<not> unwatched s now"
    using that seen in_order_last [of h] ord by (auto simp: unwatched_def MaxGap_cmp e in_order_snoc)
  have "stretch Clear (Since (feed t s e)) (h @ [e])" if "Phase (feed t s e) = Pending"
    using to_pending [OF that [unfolded e]] pend start near
    by (auto simp: e intro: stretch_single stretch_extend)
  moreover have "stretch Breach (ClearSince (feed t s e)) (h @ [e])"
    if "Phase (feed t s e) = Firing" "ClearSince (feed t s e) \<noteq> 0"
    using to_recovering [OF that [unfolded e]] clear start near
    by (auto simp: e intro: stretch_single stretch_extend)
  ultimately show ?thesis using ord
    by (simp add: history_inv_def feed_history_def hs)
qed

interpretation alert_history: invariant_machine "feed_history t" later history_inv
  by unfold_locales (rule feed_keeps_history)

lemma feed_history_foldl:
  "foldl (feed_history t) (h, s) es = (h @ es, foldl (feed t) s es)"
  by (induction es arbitrary: h s) (simp_all add: feed_history_def)

lemma in_order_run_ok:
  "sorted (LastSeen s # map snd es) \<Longrightarrow> \<forall>e \<in> set es. 0 < snd e \<Longrightarrow>
   run_ok (feed_history t) later (h, s) es"
  by (induction es arbitrary: h s) (auto simp: later_def feed_history_def)

lemma run_history:
  assumes "in_order es"
  shows "history_inv (es, alert_run t es)"
proof -
  have "run_ok (feed_history t) later ([], zero_state) es"
    using assms by (intro in_order_run_ok) (auto simp: in_order_def zero_state_def less_imp_le)
  moreover have "history_inv ([], zero_state)"
    by (simp add: history_inv_def in_order_def zero_state_def)
  ultimately have "history_inv (foldl (feed_history t) ([], zero_state) es)"
    by (rule alert_history.run_keeps [rotated])
  then show ?thesis by (simp add: feed_history_foldl alert_run_def)
qed

lemma alert_run_snoc [simp]: "alert_run t (es @ [e]) = feed t (alert_run t es) e"
  by (simp add: alert_run_def)

section \<open>When an alert fires\<close>

text \<open>A time between zero and the longest Go duration compares without saturating.\<close>

definition proper_duration :: "duration \<Rightarrow> bool" where
  "proper_duration d \<longleftrightarrow> 0 \<le> d \<and> d \<le> max_duration"

lemma proper_time_sub: "proper_duration d \<Longrightarrow> d \<le> time_sub a b \<longleftrightarrow> d \<le> a - b"
  by (rule time_sub_ge) (simp_all add: proper_duration_def duration_defs)

lemma emitted_Fire:
  assumes "emitted t s (obs, now) = Fire"
  shows "obs = Breach" and "Phase s \<noteq> Firing" and
    "For t \<le> 0 \<or> (Phase s = Pending \<and> \<not> unwatched s now \<and> For t \<le> time_sub now (Since s))"
  using assms
  by (cases "Phase s"; cases obs; cases "unwatched s now";
      simp add: emitted_def alert_step_cases sustained_def split: if_splits)+

lemma emitted_Resolve:
  assumes "emitted t s (obs, now) = Resolve"
  shows "obs \<noteq> Breach" and "Phase s = Firing" and
    "Recovery t \<le> 0 \<or> (ClearSince s \<noteq> 0 \<and> \<not> unwatched s now \<and> Recovery t \<le> time_sub now (ClearSince s))"
  using assms
  by (cases "Phase s"; cases obs; cases "unwatched s now"; cases "ClearSince s = 0";
      simp add: emitted_def alert_step_cases recovered_def split: if_splits)+

text \<open>The stretch of the history that a threshold in the past refers to.\<close>

lemma stretch_witness:
  assumes "stretch bad start (es @ [e])" and "d \<le> snd e - start"
  shows "\<exists>seg. suffix seg (es @ [e]) \<and> seg \<noteq> [] \<and> bad \<notin> fst ` set seg \<and> watched seg \<and> d \<le> span seg"
proof -
  from assms(1) obtain seg where seg: "suffix seg (es @ [e])" "seg \<noteq> []" "snd (hd seg) = start"
    "bad \<notin> fst ` set seg" "watched seg" by (auto simp: stretch_def)
  from seg(1,2) have "last seg = e"
    by (metis last_snoc last_appendR suffix_def)
  with seg assms(2) show ?thesis by (intro exI [where x = seg]) (simp add: span_def)
qed

lemma run_stretches:
  assumes "in_order (es @ [e])" and "\<not> unwatched (alert_run t es) (snd e)"
  shows "Phase (alert_run t es) = Pending \<Longrightarrow> fst e \<noteq> Clear \<Longrightarrow>
      stretch Clear (Since (alert_run t es)) (es @ [e])"
    and "Phase (alert_run t es) = Firing \<Longrightarrow> ClearSince (alert_run t es) \<noteq> 0 \<Longrightarrow> fst e \<noteq> Breach \<Longrightarrow>
      stretch Breach (ClearSince (alert_run t es)) (es @ [e])"
proof -
  have ord: "in_order es" using assms(1) by (simp add: in_order_snoc)
  note inv = run_history [OF ord, of t, unfolded history_inv_def Let_def fst_conv snd_conv]
  have near: "snd e - snd (last es) \<le> MaxGap" if "es \<noteq> []"
    using that inv assms(2) in_order_last [OF ord that] by (auto simp: unwatched_def MaxGap_cmp)
  from inv near show "Phase (alert_run t es) = Pending \<Longrightarrow> fst e \<noteq> Clear \<Longrightarrow>
      stretch Clear (Since (alert_run t es)) (es @ [e])"
    by (cases "es = []") (auto intro: stretch_extend)
  from inv near show "Phase (alert_run t es) = Firing \<Longrightarrow> ClearSince (alert_run t es) \<noteq> 0 \<Longrightarrow>
      fst e \<noteq> Breach \<Longrightarrow> stretch Breach (ClearSince (alert_run t es)) (es @ [e])"
    by (cases "es = []") (auto intro: stretch_extend)
qed

text \<open>
  C12. An alert fires only when its condition has held for the rule's \<^verbatim>\<open>For\<close> period:
  the evaluation that fires is a breach, and it ends a stretch of the rule's
  evaluations, none of them clear and no two consecutive ones more than \<^verbatim>\<open>MaxGap\<close>
  apart, that spans at least \<^verbatim>\<open>For\<close>.
\<close>

theorem alert_fires_after_hold:
  assumes "in_order (es @ [e])" and "proper_duration (For t)"
    and "emitted t (alert_run t es) e = Fire"
  shows "fst e = Breach \<and>
    (\<exists>seg. suffix seg (es @ [e]) \<and> seg \<noteq> [] \<and> Clear \<notin> fst ` set seg \<and> watched seg \<and> For t \<le> span seg)"
proof -
  obtain obs now where e: "e = (obs, now)" by (cases e)
  note fire = emitted_Fire [OF assms(3) [unfolded e]]
  show ?thesis
  proof (cases "For t \<le> 0")
    case True
    have "stretch Clear (snd e) (es @ [e])"
      by (rule stretch_single) (simp_all add: e fire(1))
    from this have "\<exists>seg. suffix seg (es @ [e]) \<and> seg \<noteq> [] \<and> Clear \<notin> fst ` set seg \<and> watched seg \<and>
        For t \<le> span seg"
      by (rule stretch_witness) (simp add: True)
    then show ?thesis using fire(1) by (simp only: e fst_conv simp_thms)
  next
    case False
    with fire(3) have pend: "Phase (alert_run t es) = Pending"
      and nogap: "\<not> unwatched (alert_run t es) (snd e)"
      and long: "For t \<le> snd e - Since (alert_run t es)"
      by (simp_all add: e proper_time_sub [OF assms(2)])
    have "stretch Clear (Since (alert_run t es)) (es @ [e])"
      by (rule run_stretches(1) [OF assms(1) nogap pend]) (simp add: e fire(1))
    from stretch_witness [OF this long] fire(1) show ?thesis by (simp only: e fst_conv simp_thms)
  qed
qed

theorem alert_fires_after_hold_witness:
  "let t = \<lparr>For = 2 * second, Recovery = second, Repeat = 0\<rparr>;
       es = [(Breach, second), (NoData, 2 * second)]; e = (Breach, 3 * second)
   in in_order (es @ [e]) \<and> proper_duration (For t) \<and> emitted t (alert_run t es) e = Fire \<and>
      fst e = Breach \<and>
      (\<exists>seg. suffix seg (es @ [e]) \<and> seg \<noteq> [] \<and> Clear \<notin> fst ` set seg \<and> watched seg \<and> For t \<le> span seg)"
proof -
  let ?t = "\<lparr>For = 2 * second, Recovery = second, Repeat = 0\<rparr>"
  let ?es = "[(Breach, second), (NoData, 2 * second)]"
  have a: "in_order (?es @ [(Breach, 3 * second)])" by (simp add: in_order_def duration_defs)
  have b: "proper_duration (For ?t)" by (simp add: proper_duration_def duration_defs)
  have c: "emitted ?t (alert_run ?t ?es) (Breach, 3 * second) = Fire"
    by (simp add: emitted_def alert_run_def feed_def alert_step_def step_pending_def sustained_def
        zero_state_def time_sub_def MaxGap_def duration_defs)
  show ?thesis using a b c alert_fires_after_hold [OF a b c] unfolding Let_def by blast
qed

section \<open>That it does fire and resolve\<close>

lemma feed_Breach:
  "Phase (feed t s (Breach, now)) = Firing \<or>
   (Phase (feed t s (Breach, now)) = Pending \<and> Phase s \<noteq> Firing \<and>
    \<not> For t \<le> time_sub now (Since (feed t s (Breach, now))))"
  by (cases "Phase s"; cases "unwatched s now"; simp add: feed_def alert_step_cases sustained_def)

lemma feed_Firing_Breach: "Phase s = Firing \<Longrightarrow> Phase (feed t s (Breach, now)) = Firing"
  by (simp add: feed_def alert_step_cases)

lemma feed_Since:
  "Phase s = Pending \<Longrightarrow> \<not> unwatched s now \<Longrightarrow> Phase (feed t s (obs, now)) = Pending \<Longrightarrow>
   Since (feed t s (obs, now)) = Since s"
  by (cases obs) (simp_all add: feed_def alert_step_cases zero_state_def split: if_splits)

lemma feed_ClearSince:
  "obs \<noteq> Breach \<Longrightarrow> Phase (feed t s (obs, now)) = Firing \<Longrightarrow>
   ClearSince (feed t s (obs, now)) = (if ClearSince s = 0 \<or> unwatched s now then now else ClearSince s)"
  by (cases "Phase s"; cases obs; cases "unwatched s now"; cases "ClearSince s = 0";
      simp add: feed_def alert_step_cases split: if_splits)

lemma feed_not_Breach:
  "obs \<noteq> Breach \<Longrightarrow> Phase (feed t s (obs, now)) = Firing \<Longrightarrow>
   Phase s = Firing \<and> \<not> Recovery t \<le> time_sub now (ClearSince (feed t s (obs, now)))"
  by (cases "Phase s"; cases obs; cases "unwatched s now"; cases "ClearSince s = 0";
      simp add: feed_def alert_step_cases recovered_def split: if_splits)

lemma watched_snoc:
  "watched (seg @ [e]) \<longleftrightarrow> watched seg \<and> (seg \<noteq> [] \<longrightarrow> snd e - snd (last seg) \<le> MaxGap)"
  by (auto simp: watched_def successively_append_iff)

text \<open>
  Through a stretch of breaches without a gap the rule is firing, or pending since the
  stretch began; through a clear stretch a firing rule has been clear since it began.
\<close>

lemma breach_stretch:
  assumes "seg \<noteq> []" and "fst ` set seg \<subseteq> {Breach}" and "watched seg" and "sorted (map snd seg)"
    and "Phase s = Pending \<longrightarrow> Since s \<le> snd (hd seg)"
  shows "Phase (foldl (feed t) s seg) = Firing \<or>
    (Phase (foldl (feed t) s seg) = Pending \<and> Since (foldl (feed t) s seg) \<le> snd (hd seg) \<and>
     \<not> For t \<le> time_sub (snd (last seg)) (Since (foldl (feed t) s seg)))"
  using assms
proof (induction seg rule: rev_nonempty_induct)
  case (single e)
  then obtain now where e: "e = (Breach, now)" by (cases e) auto
  show ?case using feed_Breach [of t s now] to_pending(2) [of t s Breach now] single.prems(4)
    by (auto simp: e)
next
  case (snoc e seg)
  obtain now where e: "e = (Breach, now)" using snoc.prems by (cases e) auto
  let ?s = "foldl (feed t) s seg"
  have seen: "LastSeen ?s = snd (last seg)"
    using snoc.hyps by (cases seg rule: rev_cases) auto
  have "\<not> unwatched ?s now"
    using snoc.prems(2) snoc.hyps seen by (auto simp: unwatched_def MaxGap_cmp watched_snoc e)
  moreover have "Phase ?s = Firing \<or> Phase ?s = Pending \<and> Since ?s \<le> snd (hd seg)"
    using snoc by (auto simp: watched_snoc sorted_append)
  ultimately show ?case
    using snoc.hyps feed_Breach [of t ?s now] feed_Firing_Breach [of ?s t now] feed_Since [of ?s now t Breach]
    by (auto simp: e)
qed

lemma clear_stretch:
  assumes "seg \<noteq> []" and "Breach \<notin> fst ` set seg" and "watched seg" and "sorted (map snd seg)"
    and "\<forall>e \<in> set seg. 0 < snd e" and "Phase s = Firing \<longrightarrow> ClearSince s \<le> snd (hd seg)"
    and "Phase (foldl (feed t) s seg) = Firing"
  shows "ClearSince (foldl (feed t) s seg) \<le> snd (hd seg) \<and> ClearSince (foldl (feed t) s seg) \<noteq> 0 \<and>
     \<not> Recovery t \<le> time_sub (snd (last seg)) (ClearSince (foldl (feed t) s seg))"
  using assms
proof (induction seg rule: rev_nonempty_induct)
  case (single e)
  obtain obs now where e: "e = (obs, now)" by (cases e)
  show ?case using single.prems feed_ClearSince [of obs t s now] feed_not_Breach [of obs t s now]
    by (simp add: e)
next
  case (snoc e seg)
  obtain obs now where e: "e = (obs, now)" by (cases e)
  let ?s = "foldl (feed t) s seg"
  have obs: "obs \<noteq> Breach" using snoc.prems(1) by (auto simp: e)
  from snoc.prems(6) feed_not_Breach [OF obs, of t ?s now] have firing: "Phase ?s = Firing"
    and not_yet: "\<not> Recovery t \<le> time_sub now (ClearSince (feed t ?s e))" by (simp_all add: e)
  have IH: "ClearSince ?s \<le> snd (hd seg) \<and> ClearSince ?s \<noteq> 0"
    using snoc firing by (auto simp: watched_snoc sorted_append)
  have seen: "LastSeen ?s = snd (last seg)"
    using snoc.hyps by (cases seg rule: rev_cases) auto
  have "\<not> unwatched ?s now"
    using snoc.prems(2) snoc.hyps seen by (auto simp: unwatched_def MaxGap_cmp watched_snoc e)
  then have "ClearSince (feed t ?s e) = ClearSince ?s"
    using feed_ClearSince [OF obs, of t ?s now] IH snoc.prems(6) by (simp add: e)
  then show ?case using IH not_yet snoc.hyps by (simp add: e)
qed

lemma in_order_split:
  assumes "in_order (es @ seg)" and "seg \<noteq> []"
  shows "in_order es" and "sorted (map snd seg)" and "\<forall>e \<in> set seg. 0 < snd e"
    and "\<forall>x \<in> set es. snd x \<le> snd (hd seg)"
  using assms by (auto simp: in_order_def sorted_append)

lemma stretch_before:
  assumes "stretch bad start es" and "\<forall>x \<in> set es. snd x \<le> b"
  shows "start \<le> b"
proof -
  from assms(1) obtain seg where "suffix seg es" "seg \<noteq> []" "snd (hd seg) = start"
    by (auto simp: stretch_def)
  then show ?thesis using assms(2) by (metis hd_in_set set_mono_suffix subsetD)
qed

text \<open>
  C24. A condition that holds long enough does fire: whatever a rule saw before, after
  a stretch of breaches with no gap longer than \<^verbatim>\<open>MaxGap\<close> that spans at least \<^verbatim>\<open>For\<close>, it
  is firing.
\<close>

theorem alert_fires:
  assumes "in_order (es @ seg)" and "proper_duration (For t)" and "seg \<noteq> []"
    and "fst ` set seg \<subseteq> {Breach}" and "watched seg" and "For t \<le> span seg"
  shows "Phase (alert_run t (es @ seg)) = Firing"
proof -
  note ord = in_order_split [OF assms(1,3)]
  have "Since (alert_run t es) \<le> snd (hd seg)" if "Phase (alert_run t es) = Pending"
    using run_history [OF ord(1), of t] that
    by (intro stretch_before [OF _ ord(4), of Clear]) (simp add: history_inv_def Let_def)
  then show ?thesis
    using breach_stretch [OF assms(3-5) ord(2), of "alert_run t es" t] assms(6)
      proper_time_sub [OF assms(2)]
    by (auto simp: alert_run_def span_def)
qed

theorem alert_fires_witness:
  "let t = \<lparr>For = second, Recovery = second, Repeat = 0\<rparr>;
       es = [(Clear, second)]; seg = [(Breach, 2 * second), (Breach, 3 * second)]
   in in_order (es @ seg) \<and> For t \<le> span seg \<and> Phase (alert_run t (es @ seg)) = Firing"
proof -
  let ?t = "\<lparr>For = second, Recovery = second, Repeat = 0\<rparr>"
  let ?es = "[(Clear, second)]" and ?seg = "[(Breach, 2 * second), (Breach, 3 * second)]"
  have a: "in_order (?es @ ?seg)" by (simp add: in_order_def duration_defs)
  have b: "proper_duration (For ?t)" by (simp add: proper_duration_def duration_defs)
  have c: "watched ?seg" "For ?t \<le> span ?seg"
    by (simp_all add: watched_def span_def MaxGap_def duration_defs)
  show ?thesis using a c alert_fires [OF a b _ _ c] by (simp add: Let_def)
qed

text \<open>
  C23. An alert resolves only after its recovery period: it was firing, and the
  evaluation that resolves it ends a stretch without a breach and without a gap that
  spans at least \<^verbatim>\<open>Recovery\<close>.
\<close>

theorem alert_resolves_after_recovery:
  assumes "in_order (es @ [e])" and "proper_duration (Recovery t)"
    and "emitted t (alert_run t es) e = Resolve"
  shows "Phase (alert_run t es) = Firing \<and>
    (\<exists>seg. suffix seg (es @ [e]) \<and> seg \<noteq> [] \<and> Breach \<notin> fst ` set seg \<and> watched seg \<and>
       Recovery t \<le> span seg)"
proof -
  obtain obs now where e: "e = (obs, now)" by (cases e)
  note res = emitted_Resolve [OF assms(3) [unfolded e]]
  have "\<exists>start. stretch Breach start (es @ [e]) \<and> Recovery t \<le> snd e - start"
  proof (cases "Recovery t \<le> 0")
    case True
    moreover have "stretch Breach now (es @ [e])"
      by (rule stretch_single) (simp_all add: e res(1))
    ultimately show ?thesis by (auto simp: e intro!: exI [where x = now])
  next
    case False
    with res(3) have clear: "ClearSince (alert_run t es) \<noteq> 0"
      and nogap: "\<not> unwatched (alert_run t es) (snd e)"
      and long: "Recovery t \<le> snd e - ClearSince (alert_run t es)"
      by (simp_all add: e proper_time_sub [OF assms(2)])
    have "stretch Breach (ClearSince (alert_run t es)) (es @ [e])"
      by (rule run_stretches(2) [OF assms(1) nogap res(2) clear]) (simp add: e res(1))
    with long show ?thesis by blast
  qed
  then show ?thesis using res(2) stretch_witness by blast
qed

theorem alert_resolves_after_recovery_witness:
  "let t = \<lparr>For = 0, Recovery = second, Repeat = 0\<rparr>;
       es = [(Breach, second), (Clear, 2 * second)]; e = (NoData, 3 * second)
   in in_order (es @ [e]) \<and> emitted t (alert_run t es) e = Resolve \<and>
      Phase (alert_run t es) = Firing \<and>
      (\<exists>seg. suffix seg (es @ [e]) \<and> seg \<noteq> [] \<and> Breach \<notin> fst ` set seg \<and> watched seg \<and>
         Recovery t \<le> span seg)"
proof -
  let ?t = "\<lparr>For = 0, Recovery = second, Repeat = 0\<rparr>"
  let ?es = "[(Breach, second), (Clear, 2 * second)]"
  have a: "in_order (?es @ [(NoData, 3 * second)])" by (simp add: in_order_def duration_defs)
  have b: "proper_duration (Recovery ?t)" by (simp add: proper_duration_def duration_defs)
  have c: "emitted ?t (alert_run ?t ?es) (NoData, 3 * second) = Resolve"
    by (simp add: emitted_def alert_run_def feed_def alert_step_def step_pending_def step_firing_def
        sustained_def recovered_def zero_state_def time_sub_def MaxGap_def duration_defs)
  show ?thesis using a c alert_resolves_after_recovery [OF a b c] unfolding Let_def by blast
qed

text \<open>
  C24. It does resolve: after a stretch without a breach and without a gap that spans
  at least \<^verbatim>\<open>Recovery\<close>, the rule is not firing, whatever it saw before.
\<close>

theorem alert_resolves:
  assumes "in_order (es @ seg)" and "proper_duration (Recovery t)" and "seg \<noteq> []"
    and "Breach \<notin> fst ` set seg" and "watched seg" and "Recovery t \<le> span seg"
  shows "Phase (alert_run t (es @ seg)) \<noteq> Firing"
proof
  assume firing: "Phase (alert_run t (es @ seg)) = Firing"
  note ord = in_order_split [OF assms(1,3)]
  have "ClearSince (alert_run t es) \<le> snd (hd seg)" if "Phase (alert_run t es) = Firing"
  proof (cases "ClearSince (alert_run t es) = 0")
    case True
    then show ?thesis using bspec [OF ord(3) hd_in_set [OF assms(3)]] by simp
  next
    case False
    then show ?thesis using run_history [OF ord(1), of t] that
      by (intro stretch_before [OF _ ord(4), of Breach]) (simp add: history_inv_def Let_def)
  qed
  then have "\<not> Recovery t \<le> time_sub (snd (last seg)) (ClearSince (alert_run t (es @ seg)))"
    and "ClearSince (alert_run t (es @ seg)) \<le> snd (hd seg)"
    using clear_stretch [OF assms(3-5) ord(2,3), of "alert_run t es" t] firing
    by (simp_all add: alert_run_def)
  then show False using assms(6) by (simp add: span_def proper_time_sub [OF assms(2)])
qed

theorem alert_resolves_witness:
  "let t = \<lparr>For = 0, Recovery = second, Repeat = 0\<rparr>;
       es = [(Breach, second)]; seg = [(Clear, 2 * second), (Clear, 3 * second)]
   in in_order (es @ seg) \<and> Recovery t \<le> span seg \<and> Phase (alert_run t es) = Firing \<and>
      Phase (alert_run t (es @ seg)) \<noteq> Firing"
proof -
  let ?t = "\<lparr>For = 0, Recovery = second, Repeat = 0\<rparr>"
  let ?es = "[(Breach, second)]" and ?seg = "[(Clear, 2 * second), (Clear, 3 * second)]"
  have a: "in_order (?es @ ?seg)" by (simp add: in_order_def duration_defs)
  have b: "proper_duration (Recovery ?t)" by (simp add: proper_duration_def duration_defs)
  have c: "watched ?seg" "Recovery ?t \<le> span ?seg"
    by (simp_all add: watched_def span_def MaxGap_def duration_defs)
  have d: "Phase (alert_run ?t ?es) = Firing"
    by (simp add: alert_run_def feed_def alert_step_def step_pending_def sustained_def zero_state_def)
  show ?thesis using a c d alert_resolves [OF a b _ _ c] by (simp add: Let_def)
qed

section \<open>What is announced over a run\<close>

fun emissions :: "timing \<Rightarrow> alert_state \<Rightarrow> evaluation list \<Rightarrow> alert_transition list" where
  "emissions t s [] = []"
| "emissions t s (e # es) = emitted t s e # emissions t (feed t s e) es"

lemma emitted_phase:
  "(if emitted t s e = Fire then 1 else 0) + (if Phase s = Firing then 1 else 0) =
   (if emitted t s e = Resolve then 1 else 0) + (if Phase (feed t s e) = Firing then 1 else (0::nat))"
  by (cases "Phase s"; cases "fst e"; simp add: emitted_def feed_def alert_step_cases)

text \<open>
  Every firing is followed by exactly one resolution before the next: at any moment
  the rule has announced as many resolutions as firings, one less while it fires.
\<close>

theorem alert_announcements_balance:
  "count_list (emissions t s es) Fire + (if Phase s = Firing then 1 else 0) =
   count_list (emissions t s es) Resolve + (if Phase (foldl (feed t) s es) = Firing then 1 else 0)"
proof (induction es arbitrary: s)
  case Nil
  then show ?case by simp
next
  case (Cons e es)
  show ?case using Cons.IH [of "feed t s e"] emitted_phase [of t s e] by (simp split: if_splits)
qed

end
