(* ===== verification/Alert_Rules.thy ===== *)
theory Alert_Rules
  imports Site_Model Alert_State
begin

text \<open>
  The alert rules of the configuration (\<^verbatim>\<open>internal/model/alerts.go\<close>): the catalog of
  metrics, validation of rules and settings, and which rules are evaluated for a site.
  A validation error is the path of the field and which message it is.
\<close>

section \<open>The catalog\<close>

record metric_info =
  mi_Server :: bool
  mi_Below :: bool
  mi_Max :: rat
  mi_Node :: bool
  mi_HTTP :: bool
  mi_Windowed :: bool

definition plain_metric :: metric_info where
  "plain_metric = \<lparr>mi_Server = False, mi_Below = False, mi_Max = 0, mi_Node = False, mi_HTTP = False,
     mi_Windowed = False\<rparr>"

definition AlertMetrics :: "(string \<times> metric_info) list" where
  "AlertMetrics =
     [(''cpu'', plain_metric\<lparr>mi_Max := 100000, mi_Node := True\<rparr>),
      (''instanceCpu'', plain_metric\<lparr>mi_Max := 10000, mi_Node := True\<rparr>),
      (''memory'', plain_metric\<lparr>mi_Max := 10 * 2 ^ 20, mi_Node := True\<rparr>),
      (''memoryPercent'', plain_metric\<lparr>mi_Max := 1000, mi_Node := True\<rparr>),
      (''eventLoopLag'', plain_metric\<lparr>mi_Max := 600000, mi_Node := True\<rparr>),
      (''errorRate'', plain_metric\<lparr>mi_Max := 100, mi_HTTP := True, mi_Windowed := True\<rparr>),
      (''latency'', plain_metric\<lparr>mi_Max := 600000, mi_HTTP := True, mi_Windowed := True\<rparr>),
      (''latencyP95'', plain_metric\<lparr>mi_Max := 600000, mi_HTTP := True, mi_Windowed := True\<rparr>),
      (''instancesDown'', plain_metric\<lparr>mi_Max := 1000, mi_Node := True\<rparr>),
      (''serverCpu'', plain_metric\<lparr>mi_Server := True, mi_Max := 100\<rparr>),
      (''serverMemory'', plain_metric\<lparr>mi_Server := True, mi_Max := 100\<rparr>),
      (''diskFree'', plain_metric\<lparr>mi_Server := True, mi_Below := True, mi_Max := 100\<rparr>)]"

text \<open>Reading the Go map without the second result gives the zero value for a missing key.\<close>

definition metric_of :: "string \<Rightarrow> metric_info" where
  "metric_of m = (case map_of AlertMetrics m of None \<Rightarrow> plain_metric | Some i \<Rightarrow> i)"

definition SeverityWarning :: string where "SeverityWarning = ''warning''"
definition SeverityCritical :: string where "SeverityCritical = ''critical''"

definition MaxAlertWindowMinutes :: int where
  "MaxAlertWindowMinutes = 30"

section \<open>Validation\<close>

datatype rule_error =
    BadRuleID | UnknownMetric string | IsSiteMetric string | IsServerMetric string
  | ThresholdOutOfRange rat | ForMinutesOutOfRange | BadSeverity | WindowOutOfRange
  | TooManyMinRequests | RepeatOutOfRange | DuplicateRuleID string | TooManyRules
  | RecoveryOutOfRange | TooManyRecipients | NotAnEmail | NodeSitesOnly string | HTTPSitesOnly string

type_synonym field_error = "string \<times> rule_error"

text \<open>The regular expression \<^verbatim>\<open>^[a-zA-Z0-9][a-zA-Z0-9_.-]{0,47}$\<close>.\<close>

definition is_alnum :: "char \<Rightarrow> bool" where
  "is_alnum c \<longleftrightarrow> (let n = (of_char c :: nat) in
     (48 \<le> n \<and> n \<le> 57) \<or> (65 \<le> n \<and> n \<le> 90) \<or> (97 \<le> n \<and> n \<le> 122))"

definition rule_id_matches :: "string \<Rightarrow> bool" where
  "rule_id_matches s \<longleftrightarrow>
     (case s of [] \<Rightarrow> False
      | c # cs \<Rightarrow> is_alnum c \<and> list_all (\<lambda>x. is_alnum x \<or> x \<in> set ''_.-'') cs \<and> length cs \<le> 47)"

definition rule_validate :: "alert_rule \<Rightarrow> string \<Rightarrow> bool \<Rightarrow> field_error option" where
  "rule_validate r f server =
     (if \<not> rule_id_matches (ar_ID r) then Some (f @ ''.id'', BadRuleID)
      else case map_of AlertMetrics (ar_Metric r) of
        None \<Rightarrow> Some (f @ ''.metric'', UnknownMetric (ar_Metric r))
      | Some info \<Rightarrow>
         if mi_Server info \<noteq> server then
           Some (f @ ''.metric'',
             if server then IsSiteMetric (ar_Metric r) else IsServerMetric (ar_Metric r))
         else if ar_Threshold r < 0 \<or> ar_Threshold r > mi_Max info then
           Some (f @ ''.threshold'', ThresholdOutOfRange (mi_Max info))
         else if ar_ForMinutes r < 0 \<or> ar_ForMinutes r > 1440 then
           Some (f @ ''.forMinutes'', ForMinutesOutOfRange)
         else if ar_Severity r \<noteq> SeverityWarning \<and> ar_Severity r \<noteq> SeverityCritical then
           Some (f @ ''.severity'', BadSeverity)
         else if mi_Windowed info \<and>
             (ar_WindowMinutes r < 1 \<or> ar_WindowMinutes r > MaxAlertWindowMinutes) then
           Some (f @ ''.windowMinutes'', WindowOutOfRange)
         else if mi_Windowed info \<and> ar_MinRequests r > 1000000 then
           Some (f @ ''.minRequests'', TooManyMinRequests)
         else if ar_RepeatHours r < 0 \<or> ar_RepeatHours r > 168 then
           Some (f @ ''.repeatHours'', RepeatOutOfRange)
         else None)"

text \<open>\<^verbatim>\<open>fmt.Sprintf("%s[%d]", f, i)\<close>.\<close>

definition indexed :: "string \<Rightarrow> nat \<Rightarrow> string" where
  "indexed f i = f @ ''['' @ show_nat i @ '']''"

text \<open>One list of rules: \<open>ids\<close> are the lower-cased names taken so far.\<close>

fun validate_rules ::
  "string \<Rightarrow> bool \<Rightarrow> nat \<Rightarrow> string list \<Rightarrow> alert_rule list \<Rightarrow> field_error + string list" where
  "validate_rules f server i ids [] = Inr ids"
| "validate_rules f server i ids (r # rs) =
     (case rule_validate r (indexed f i) server of
        Some e \<Rightarrow> Inl e
      | None \<Rightarrow>
         if to_lower (ar_ID r) \<in> set ids then Inl (indexed f i @ ''.id'', DuplicateRuleID (ar_ID r))
         else validate_rules f server (Suc i) (to_lower (ar_ID r) # ids) rs)"

definition plausibleEmail :: "string \<Rightarrow> bool" where
  "plausibleEmail a =
     (case cut_at CHR ''@'' a of (local, domain, ok) \<Rightarrow>
        ok \<and> local \<noteq> [] \<and> domain \<noteq> [] \<and> count_list a CHR ''@'' = 1 \<and>
        list_all (\<lambda>c. c \<notin> {CHR '' '', CHR 0x09, CHR 0x0D, CHR 0x0A, CHR '','', CHR '';'', CHR ''<'',
          CHR ''>'', CHR 0x22}) a)"

fun validate_emails :: "nat \<Rightarrow> string list \<Rightarrow> field_error option" where
  "validate_emails i [] = None"
| "validate_emails i (a # as) =
     (if \<not> plausibleEmail a then Some (indexed ''alerts.emailTo'' i, NotAnEmail)
      else validate_emails (Suc i) as)"

definition settings_validate :: "alert_settings \<Rightarrow> field_error option" where
  "settings_validate s =
     (if as_RecoveryMinutes s > 60 then Some (''alerts.recoveryMinutes'', RecoveryOutOfRange)
      else if length (as_SiteRules s) > 100 then Some (''alerts.siteRules'', TooManyRules)
      else case validate_rules ''alerts.siteRules'' False 0 [] (as_SiteRules s) of
        Inl e \<Rightarrow> Some e
      | Inr ids \<Rightarrow>
         if length (as_ServerRules s) > 100 then Some (''alerts.serverRules'', TooManyRules)
         else case validate_rules ''alerts.serverRules'' True 0 ids (as_ServerRules s) of
           Inl e \<Rightarrow> Some e
         | Inr _ \<Rightarrow>
            if length (as_EmailTo s) > 20 then Some (''alerts.emailTo'', TooManyRecipients)
            else validate_emails 0 (as_EmailTo s))"

fun validate_site_rules ::
  "site \<Rightarrow> nat \<Rightarrow> string list \<Rightarrow> alert_rule list \<Rightarrow> field_error option" where
  "validate_site_rules st i ids [] = None"
| "validate_site_rules st i ids (r # rs) =
     (let f = indexed ''alerts.rules'' i; info = metric_of (ar_Metric r) in
      case rule_validate r f False of
        Some e \<Rightarrow> Some e
      | None \<Rightarrow>
         if to_lower (ar_ID r) \<in> set ids then Some (f @ ''.id'', DuplicateRuleID (ar_ID r))
         else if \<not> ar_Disabled r \<and> mi_Node info \<and> \<not> RunsNode st then
           Some (f @ ''.metric'', NodeSitesOnly (ar_Metric r))
         else if \<not> ar_Disabled r \<and> mi_HTTP info \<and> site_Type st = SiteWorker then
           Some (f @ ''.metric'', HTTPSitesOnly (ar_Metric r))
         else validate_site_rules st (Suc i) (to_lower (ar_ID r) # ids) rs)"

definition site_alerts_validate :: "site_alerts \<Rightarrow> site \<Rightarrow> field_error option" where
  "site_alerts_validate s st =
     (if length (sa_Rules s) > 100 then Some (''alerts.rules'', TooManyRules)
      else validate_site_rules st 0 [] (sa_Rules s))"

section \<open>The rules of a site\<close>

definition AlertRuleApplies :: "alert_rule \<Rightarrow> site \<Rightarrow> bool" where
  "AlertRuleApplies r s =
     (case map_of AlertMetrics (ar_Metric r) of
        None \<Rightarrow> False
      | Some info \<Rightarrow>
         if mi_Server info then False
         else if mi_Node info \<and> (\<not> RunsNode s \<or> site_Node s = None) then False
         else if mi_HTTP info \<and> site_Type s = SiteWorker then False
         else case site_Node s of
             None \<Rightarrow> True
           | Some n \<Rightarrow>
              (if ar_Metric r = ''memoryPercent'' then MemoryLimitMB n > 0
               else if ar_Metric r = ''eventLoopLag'' then n_AgentEnabled n
               else True))"

text \<open>
  \<^verbatim>\<open>own\<close> is built by writing every rule under its lower-cased ID, so that the last rule
  of a name is the one found.
\<close>

definition own_rules :: "site \<Rightarrow> string \<rightharpoonup> alert_rule" where
  "own_rules s = map_of (rev (map (\<lambda>r. (to_lower (ar_ID r), r)) (sa_Rules (site_Alerts s))))"

definition EffectiveAlertRules :: "alert_rule list \<Rightarrow> site \<Rightarrow> alert_rule list" where
  "EffectiveAlertRules defaults s =
     (if sa_Disabled (site_Alerts s) then []
      else filter (\<lambda>r. \<not> ar_Disabled r \<and> AlertRuleApplies r s)
        (map (\<lambda>d. case own_rules s (to_lower (ar_ID d)) of None \<Rightarrow> d | Some r \<Rightarrow> r) defaults @
         filter (\<lambda>r. to_lower (ar_ID r) \<notin> set (map (\<lambda>d. to_lower (ar_ID d)) defaults))
           (sa_Rules (site_Alerts s))))"

section \<open>Defaults\<close>

definition rule_default :: "string \<Rightarrow> string \<Rightarrow> rat \<Rightarrow> int \<Rightarrow> string \<Rightarrow> int \<Rightarrow> int \<Rightarrow> alert_rule" where
  "rule_default name metric threshold forMin severity win reqs =
     \<lparr>ar_ID = name, ar_Metric = metric, ar_Threshold = threshold, ar_ForMinutes = forMin, ar_Severity = severity,
      ar_WindowMinutes = win, ar_MinRequests = reqs, ar_RepeatHours = 0, ar_Disabled = False\<rparr>"

definition DefaultAlerts :: alert_settings where
  "DefaultAlerts =
     \<lparr>as_Enabled = False,
      as_SiteRules =
        [rule_default ''cpu'' ''instanceCpu'' 90 10 SeverityWarning 0 0,
         rule_default ''memory-limit'' ''memoryPercent'' 90 5 SeverityWarning 0 0,
         rule_default ''event-loop-lag'' ''eventLoopLag'' 250 5 SeverityWarning 0 0,
         rule_default ''errors'' ''errorRate'' 5 5 SeverityCritical 5 20,
         rule_default ''latency-p95'' ''latencyP95'' 2000 10 SeverityWarning 5 20,
         rule_default ''instances-down'' ''instancesDown'' 0 5 SeverityCritical 0 0],
      as_ServerRules =
        [rule_default ''server-cpu'' ''serverCpu'' 90 15 SeverityWarning 0 0,
         rule_default ''server-memory'' ''serverMemory'' 90 10 SeverityWarning 0 0,
         rule_default ''disk-free'' ''diskFree'' 10 5 SeverityCritical 0 0],
      as_RecoveryMinutes = 2, as_EmailTo = []\<rparr>"

text \<open>
  The loop that looks for a free name, \<open>base\<close>, \<open>base-2\<close>, \<open>base-3\<close> and so on. One of the first
  \<open>length taken + 1\<close> names is free, so the bounded search finds what the loop finds.
\<close>

definition numbered :: "string \<Rightarrow> nat \<Rightarrow> string" where
  "numbered base n = (if n < 2 then base else base @ ''-'' @ show_nat n)"

definition free_name :: "string list \<Rightarrow> string \<Rightarrow> string" where
  "free_name taken base =
     (case find (\<lambda>x. x \<notin> set taken) (map (numbered base) [1..<length taken + 2]) of
        None \<Rightarrow> base
      | Some x \<Rightarrow> x)"

fun apply_rule_defaults :: "string \<Rightarrow> string list \<Rightarrow> alert_rule list \<Rightarrow> alert_rule list" where
  "apply_rule_defaults pre taken [] = []"
| "apply_rule_defaults pre taken (r # rs) =
     (let name = trim_space (ar_ID r);
          fill = (name = [] \<and> ar_Metric r \<noteq> []);
          name = (if fill then free_name taken (pre @ to_lower (ar_Metric r)) else name);
          r = r\<lparr>ar_ID := name, ar_Severity := if ar_Severity r = [] then SeverityWarning else ar_Severity r\<rparr>;
          r = (if mi_Windowed (metric_of (ar_Metric r)) then
                 r\<lparr>ar_WindowMinutes := if ar_WindowMinutes r \<le> 0 then 5 else ar_WindowMinutes r,
                   ar_MinRequests := if ar_MinRequests r \<le> 0 then 20 else ar_MinRequests r\<rparr>
               else r\<lparr>ar_WindowMinutes := 0, ar_MinRequests := 0\<rparr>)
      in r # apply_rule_defaults pre (if fill then name # taken else taken) rs)"

definition applyRuleDefaults :: "alert_rule list \<Rightarrow> alert_rule list \<Rightarrow> string \<Rightarrow> alert_rule list" where
  "applyRuleDefaults rules others pre =
     apply_rule_defaults pre (map ar_ID rules @ map ar_ID others) rules"

section \<open>What validation guarantees\<close>

abbreviation rule_key :: "alert_rule \<Rightarrow> string" where
  "rule_key r \<equiv> to_lower (ar_ID r)"

lemma rule_validate_ok:
  assumes "rule_validate r f server = None"
  shows "0 \<le> ar_ForMinutes r" "ar_ForMinutes r \<le> 1440" "0 \<le> ar_RepeatHours r" "ar_RepeatHours r \<le> 168"
  using assms by (auto simp: rule_validate_def split: option.splits if_splits)

lemma validate_rules_ok:
  assumes "validate_rules f server i ids rs = Inr ids'"
  shows "set ids' = set ids \<union> rule_key ` set rs" and "distinct (map rule_key rs)"
    and "set ids \<inter> rule_key ` set rs = {}"
    and "\<forall>r \<in> set rs. \<exists>f'. rule_validate r f' server = None"
proof -
  have "set ids' = set ids \<union> rule_key ` set rs \<and> distinct (map rule_key rs) \<and>
    set ids \<inter> rule_key ` set rs = {} \<and> (\<forall>r \<in> set rs. \<exists>f'. rule_validate r f' server = None)"
    using assms
    by (induction f server i ids rs rule: validate_rules.induct) (auto split: option.splits if_splits)
  then show "set ids' = set ids \<union> rule_key ` set rs" and "distinct (map rule_key rs)"
    and "set ids \<inter> rule_key ` set rs = {}"
    and "\<forall>r \<in> set rs. \<exists>f'. rule_validate r f' server = None" by blast+
qed

lemma validate_site_rules_ok:
  assumes "validate_site_rules st i ids rs = None"
  shows "distinct (map rule_key rs) \<and> set ids \<inter> rule_key ` set rs = {} \<and>
    (\<forall>r \<in> set rs. \<exists>f'. rule_validate r f' False = None)"
  using assms
  by (induction st i ids rs rule: validate_site_rules.induct)
     (auto simp: Let_def split: option.splits if_splits)

lemma settings_validate_ok:
  assumes "settings_validate s = None"
  shows "distinct (map rule_key (as_SiteRules s @ as_ServerRules s))"
    and "\<forall>r \<in> set (as_SiteRules s @ as_ServerRules s). \<exists>f server. rule_validate r f server = None"
    and "as_RecoveryMinutes s \<le> 60"
proof -
  from assms obtain ids ids' where
    a: "validate_rules ''alerts.siteRules'' False 0 [] (as_SiteRules s) = Inr ids" and
    b: "validate_rules ''alerts.serverRules'' True 0 ids (as_ServerRules s) = Inr ids'" and
    c: "as_RecoveryMinutes s \<le> 60"
    by (auto simp: settings_validate_def split: if_splits sum.splits)
  show "as_RecoveryMinutes s \<le> 60" by (rule c)
  show "distinct (map rule_key (as_SiteRules s @ as_ServerRules s))"
    using validate_rules_ok(1-3) [OF a] validate_rules_ok(2,3) [OF b] by simp
  show "\<forall>r \<in> set (as_SiteRules s @ as_ServerRules s). \<exists>f server. rule_validate r f server = None"
    using validate_rules_ok(4) [OF a] validate_rules_ok(4) [OF b]
    unfolding set_append by blast
qed

section \<open>Overrides\<close>

lemma own_rules_Some:
  assumes "distinct (map rule_key (sa_Rules (site_Alerts s)))"
  shows "own_rules s k = Some r \<longleftrightarrow> r \<in> set (sa_Rules (site_Alerts s)) \<and> rule_key r = k"
proof -
  have "distinct (map fst (rev (map (\<lambda>r. (rule_key r, r)) (sa_Rules (site_Alerts s)))))"
    using assms by (simp add: rev_map [symmetric] comp_def)
  then have "own_rules s k = Some r \<longleftrightarrow>
      (k, r) \<in> set (rev (map (\<lambda>r. (rule_key r, r)) (sa_Rules (site_Alerts s))))"
    unfolding own_rules_def by (rule map_of_eq_Some_iff)
  then show ?thesis by auto
qed

lemma numbered_inj: "inj_on (numbered base) {1..}"
proof (rule inj_onI)
  fix m n assume "m \<in> {1::nat..}" "n \<in> {1..}" "numbered base m = numbered base n"
  then show "m = n"
    by (cases "m < 2"; cases "n < 2") (auto simp: numbered_def show_nat_inj)
qed

lemma free_name_free: "free_name taken base \<notin> set taken"
proof (cases "find (\<lambda>x. x \<notin> set taken) (map (numbered base) [1..<length taken + 2])")
  case None
  then have "numbered base ` {1..<length taken + 2} \<subseteq> set taken"
    unfolding find_None_iff set_map set_upt by blast
  then have "card (numbered base ` {1..<length taken + 2}) \<le> length taken"
    by (meson card_length card_mono finite_set order_trans)
  moreover have "card (numbered base ` {1..<length taken + 2}) = length taken + 1"
    by (subst card_image) (auto intro: inj_on_subset [OF numbered_inj])
  ultimately show ?thesis by simp
next
  case (Some x)
  then have "x \<notin> set taken" unfolding find_Some_iff by blast
  then show ?thesis unfolding free_name_def Some by simp
qed

text \<open>
  The rules the program starts with pass its own validation, and filling in defaults
  leaves them as they are. A rule saved without a name gets one that no other rule of
  the settings has, spelled that way.
\<close>

theorem default_rules_valid:
  "settings_validate DefaultAlerts = None \<and>
   applyRuleDefaults (as_SiteRules DefaultAlerts) (as_ServerRules DefaultAlerts) [] = as_SiteRules DefaultAlerts \<and>
   applyRuleDefaults (as_ServerRules DefaultAlerts) (as_SiteRules DefaultAlerts) [] = as_ServerRules DefaultAlerts \<and>
   free_name taken base \<notin> set taken"
proof -
  have "settings_validate DefaultAlerts = None" by code_simp
  moreover have "applyRuleDefaults (as_SiteRules DefaultAlerts) (as_ServerRules DefaultAlerts) [] = as_SiteRules DefaultAlerts"
    by code_simp
  moreover have "applyRuleDefaults (as_ServerRules DefaultAlerts) (as_SiteRules DefaultAlerts) [] = as_ServerRules DefaultAlerts"
    by code_simp
  ultimately show ?thesis using free_name_free by simp
qed

lemma own_rules_key: "own_rules s k = Some r \<Longrightarrow> rule_key r = k"
  by (auto simp: own_rules_def dest!: map_of_SomeD)

lemma image_filter_disjoint: "f ` A \<inter> f ` {x \<in> B. f x \<notin> f ` A} = {}"
proof (rule equals0I)
  fix y assume "y \<in> f ` A \<inter> f ` {x \<in> B. f x \<notin> f ` A}"
  then obtain x where "y \<in> f ` A" "f x \<notin> f ` A" "y = f x" by blast
  then show False by simp
qed

text \<open>
  The rules evaluated for a site are the right ones: with validated settings and a
  validated site, a rule is evaluated exactly when the site has not opted out, the rule
  is on and suits the site, and it is one of the site's own rules or a server-wide one
  that no rule of the site replaces by its name; and no name is evaluated twice.
\<close>

theorem effective_rules_override:
  assumes "settings_validate st = None" and "site_alerts_validate (site_Alerts s) s = None"
  shows "distinct (map rule_key (EffectiveAlertRules (as_SiteRules st) s)) \<and>
    (\<forall>r. r \<in> set (EffectiveAlertRules (as_SiteRules st) s) \<longleftrightarrow>
       \<not> sa_Disabled (site_Alerts s) \<and> \<not> ar_Disabled r \<and> AlertRuleApplies r s \<and>
       (r \<in> set (sa_Rules (site_Alerts s)) \<or>
        (r \<in> set (as_SiteRules st) \<and> rule_key r \<notin> rule_key ` set (sa_Rules (site_Alerts s)))))"
proof -
  define own where "own = sa_Rules (site_Alerts s)"
  define defs where "defs = as_SiteRules st"
  define pick where "pick d = (case own_rules s (rule_key d) of None \<Rightarrow> d | Some r \<Rightarrow> r)" for d
  have dd: "distinct (map rule_key defs)" using settings_validate_ok(1) [OF assms(1)] by (simp add: defs_def)
  have do: "distinct (map rule_key own)"
    using assms(2) validate_site_rules_ok by (auto simp: site_alerts_validate_def own_def split: if_splits)
  note own_Some = own_rules_Some [of s, folded own_def, OF do]
  have pick_key: "rule_key (pick d) = rule_key d" for d
    by (auto simp: pick_def dest: own_rules_key split: option.splits)
  have pick_set: "r \<in> pick ` set defs \<longleftrightarrow>
      (r \<in> set own \<and> rule_key r \<in> rule_key ` set defs) \<or>
      (r \<in> set defs \<and> rule_key r \<notin> rule_key ` set own)" for r
  proof
    assume "r \<in> pick ` set defs"
    then obtain d where d: "d \<in> set defs" "r = pick d" by blast
    show "(r \<in> set own \<and> rule_key r \<in> rule_key ` set defs) \<or>
      (r \<in> set defs \<and> rule_key r \<notin> rule_key ` set own)"
    proof (cases "own_rules s (rule_key d)")
      case None
      have "rule_key d \<notin> rule_key ` set own"
      proof
        assume "rule_key d \<in> rule_key ` set own"
        then obtain x where "x \<in> set own" "rule_key x = rule_key d" by auto
        then show False using own_Some [of "rule_key d" x] None by simp
      qed
      with None d show ?thesis by (simp add: pick_def)
    next
      case (Some x)
      have "x \<in> set own" "rule_key x = rule_key d" using own_Some [of "rule_key d" x] Some by simp_all
      moreover have "r = x" using Some d by (simp add: pick_def)
      ultimately show ?thesis using d by simp
    qed
  next
    assume "(r \<in> set own \<and> rule_key r \<in> rule_key ` set defs) \<or>
      (r \<in> set defs \<and> rule_key r \<notin> rule_key ` set own)"
    then consider d where "r \<in> set own" "d \<in> set defs" "rule_key r = rule_key d"
      | "r \<in> set defs" "rule_key r \<notin> rule_key ` set own" by blast
    then show "r \<in> pick ` set defs"
    proof cases
      case 1
      then have "own_rules s (rule_key d) = Some r" using own_Some by blast
      then have "pick d = r" by (simp add: pick_def)
      with 1 show ?thesis by blast
    next
      case 2
      then have "own_rules s (rule_key r) = None" using own_Some by (metis image_eqI not_None_eq)
      then have "pick r = r" by (simp add: pick_def)
      with 2 show ?thesis by (metis image_eqI)
    qed
  qed
  let ?all = "map pick defs @ filter (\<lambda>r. rule_key r \<notin> rule_key ` set defs) own"
  have eff: "EffectiveAlertRules defs s =
      (if sa_Disabled (site_Alerts s) then [] else filter (\<lambda>r. \<not> ar_Disabled r \<and> AlertRuleApplies r s) ?all)"
    by (simp add: EffectiveAlertRules_def pick_def [abs_def] own_def)
  have kd: "map rule_key (map pick defs) = map rule_key defs" by (simp add: pick_key)
  have "set (map rule_key defs) \<inter>
      set (map rule_key (filter (\<lambda>r. rule_key r \<notin> rule_key ` set defs) own)) = {}"
    unfolding set_map set_filter by (rule image_filter_disjoint)
  then have "distinct (map rule_key ?all)"
    unfolding map_append kd using dd distinct_map_filter [OF do] by (simp only: distinct_append)
  then have "distinct (map rule_key (EffectiveAlertRules defs s))"
    unfolding eff by (cases "sa_Disabled (site_Alerts s)") (simp_all only: if_True if_False distinct_map_filter list.map distinct.simps)
  moreover have "set ?all = {r. r \<in> set own \<or> (r \<in> set defs \<and> rule_key r \<notin> rule_key ` set own)}"
    using pick_set by auto
  ultimately show ?thesis unfolding defs_def [symmetric] own_def [symmetric] eff by auto
qed

definition sample_site :: "alert_rule list \<Rightarrow> site" where
  "sample_site rs =
     \<lparr>site_ID = ''s1'', site_Name = ''shop'', site_Type = SiteStatic, site_Bindings = [], site_Node = None,
      site_Tasks = [], site_Alerts = \<lparr>sa_Disabled = False, sa_Rules = rs\<rparr>, site_ActiveRelease = [],
      site_Slots = [], site_Slot = []\<rparr>"

definition sample_rule :: "string \<Rightarrow> rat \<Rightarrow> alert_rule" where
  "sample_rule name limit =
     \<lparr>ar_ID = name, ar_Metric = ''errorRate'', ar_Threshold = limit, ar_ForMinutes = 5,
      ar_Severity = ''warning'', ar_WindowMinutes = 5, ar_MinRequests = 20, ar_RepeatHours = 0,
      ar_Disabled = False\<rparr>"

definition sample_settings :: "alert_rule list \<Rightarrow> alert_settings" where
  "sample_settings rs =
     \<lparr>as_Enabled = True, as_SiteRules = rs, as_ServerRules = [], as_RecoveryMinutes = 5,
      as_EmailTo = [''ops@example.org'']\<rparr>"

theorem effective_rules_override_witness:
  "sample_rule ''ERRORS'' 9 \<in>
     set (EffectiveAlertRules (as_SiteRules (sample_settings [sample_rule ''errors'' 5]))
       (sample_site [sample_rule ''ERRORS'' 9])) \<and>
   sample_rule ''errors'' 5 \<notin>
     set (EffectiveAlertRules (as_SiteRules (sample_settings [sample_rule ''errors'' 5]))
       (sample_site [sample_rule ''ERRORS'' 9]))"
proof -
  let ?st = "sample_settings [sample_rule ''errors'' 5]" and ?s = "sample_site [sample_rule ''ERRORS'' 9]"
  have "settings_validate ?st = None" by code_simp
  moreover have "site_alerts_validate (site_Alerts ?s) ?s = None" by code_simp
  moreover have "AlertRuleApplies (sample_rule ''ERRORS'' 9) ?s" by code_simp
  moreover have "\<not> sa_Disabled (site_Alerts ?s)" "\<not> ar_Disabled (sample_rule ''ERRORS'' 9)"
    "sa_Rules (site_Alerts ?s) = [sample_rule ''ERRORS'' 9]"
    by (simp_all add: sample_site_def sample_rule_def)
  moreover have "rule_key (sample_rule ''errors'' 5) = rule_key (sample_rule ''ERRORS'' 9)" by code_simp
  moreover have "sample_rule ''errors'' 5 \<noteq> sample_rule ''ERRORS'' 9" by (simp add: sample_rule_def)
  ultimately show ?thesis using effective_rules_override [of ?st ?s] by simp
qed

text \<open>
  The free name is compared by its spelling, while validation compares names without
  case: a rule saved without a name next to one named \<open>CPU\<close> is named \<open>cpu\<close>, and the settings
  are then refused as having two rules of one name.
\<close>

lemma filled_name_refused:
  "let own = rule_default ''CPU'' ''instanceCpu'' 90 10 ''warning'' 0 0;
       unnamed = rule_default [] ''cpu'' 90 10 ''warning'' 0 0
   in settings_validate (sample_settings (applyRuleDefaults [own, unnamed] [] [])) =
      Some (''alerts.siteRules[1].id'', DuplicateRuleID ''cpu'')"
  by code_simp

end
