(* ===== verification/Alert_Message.thy ===== *)
theory Alert_Message
  imports Alert_Rules
begin

text \<open>
  The texts of alert notifications (\<^verbatim>\<open>internal/alerts/message.go\<close>), and the data they
  are about: alerts, silences (\<^verbatim>\<open>internal/model/alerts.go\<close>) and notices
  (\<^verbatim>\<open>internal/alerts/engine.go\<close>). A \<^verbatim>\<open>float64\<close> is a \<^typ>\<open>rat\<close>: \<^verbatim>\<open>math.Round\<close> rounds
  half away from zero, and \<^verbatim>\<open>FormatFloat\<close> is only applied to multiples of a tenth.
\<close>

section \<open>Alerts and notices\<close>

record alert_silence =
  sil_Until :: "instant option"
  sil_By :: string
  sil_At :: instant
  sil_Note :: string

definition silence_Active :: "alert_silence option \<Rightarrow> instant \<Rightarrow> bool" where
  "silence_Active s now \<longleftrightarrow>
     (case s of None \<Rightarrow> False
      | Some x \<Rightarrow> (case sil_Until x of None \<Rightarrow> True | Some u \<Rightarrow> now < u))"

definition AlertPending :: string where "AlertPending = ''pending''"
definition AlertFiring :: string where "AlertFiring = ''firing''"
definition AlertResolved :: string where "AlertResolved = ''resolved''"

lemmas alert_state_names = AlertPending_def AlertFiring_def AlertResolved_def

record alert =
  a_ID :: string
  a_RuleID :: string
  a_SiteID :: string
  a_Slot :: string
  a_SiteName :: string
  a_Metric :: string
  a_Severity :: string
  a_Threshold :: rat
  a_ForMinutes :: int
  a_State :: string
  a_Value :: rat
  a_Peak :: rat
  a_Detail :: string
  a_Message :: string
  a_Since :: instant
  a_FiredAt :: "instant option"
  a_ResolvedAt :: "instant option"
  a_ResolveNote :: string
  a_Notified :: bool
  a_LastNotifiedAt :: "instant option"
  a_Silence :: "alert_silence option"

definition zero_alert :: alert where
  "zero_alert =
     \<lparr>a_ID = [], a_RuleID = [], a_SiteID = [], a_Slot = [], a_SiteName = [], a_Metric = [],
      a_Severity = [], a_Threshold = 0, a_ForMinutes = 0, a_State = [], a_Value = 0, a_Peak = 0,
      a_Detail = [], a_Message = [], a_Since = 0, a_FiredAt = None, a_ResolvedAt = None,
      a_ResolveNote = [], a_Notified = False, a_LastNotifiedAt = None, a_Silence = None\<rparr>"

record notice =
  nt_Kind :: alert_transition
  nt_Alert :: alert
  nt_Message :: string

section \<open>Numbers and durations as text\<close>

text \<open>\<^verbatim>\<open>math.Round\<close> and \<^verbatim>\<open>math.Trunc\<close>.\<close>

definition math_round :: "rat \<Rightarrow> int" where
  "math_round v = (if v < 0 then - \<lfloor>1 / 2 - v\<rfloor> else \<lfloor>v + 1 / 2\<rfloor>)"

definition math_trunc :: "rat \<Rightarrow> int" where
  "math_trunc v = (if v < 0 then \<lceil>v\<rceil> else \<lfloor>v\<rfloor>)"

text \<open>
  \<^verbatim>\<open>FormatFloat(n / 10, 'f', -1, 64)\<close>: the shortest decimal form, for a number of tenths.
\<close>

definition format_tenths :: "int \<Rightarrow> string" where
  "format_tenths n =
     (let m = nat \<bar>n\<bar> in
      (if n < 0 then ''-'' else []) @ show_nat (m div 10) @
      (if m mod 10 = 0 then [] else CHR ''.'' # show_nat (m mod 10)))"

text \<open>The loop of \<^verbatim>\<open>groupThousands\<close>: a comma at \<open>i\<close>, then at \<open>i - 3\<close>, while \<open>i\<close> is positive.\<close>

function group_loop :: "int \<Rightarrow> string \<Rightarrow> string" where
  "group_loop i s =
     (if i > 0 then group_loop (i - 3) (take (nat i) s @ '','' @ drop (nat i) s) else s)"
  by auto
termination by (relation "measure (\<lambda>(i, s). nat i)") auto

declare group_loop.simps [simp del]

definition groupThousands :: "int \<Rightarrow> string" where
  "groupThousands v =
     (let s = show_int v; neg = (take 1 s = ''-''); d = (if neg then drop 1 s else s);
          g = group_loop (int (length d) - 3) d
      in if neg then ''-'' @ g else g)"

text \<open>\<^verbatim>\<open>Duration.Round\<close>, half away from zero, saturating, and Go's \<^verbatim>\<open>/\<close>, which truncates.\<close>

definition go_quot :: "int \<Rightarrow> int \<Rightarrow> int" where
  "go_quot a b = sgn a * sgn b * (\<bar>a\<bar> div \<bar>b\<bar>)"

definition go_rem :: "int \<Rightarrow> int \<Rightarrow> int" where
  "go_rem a b = a - b * go_quot a b"

definition duration_Round :: "duration \<Rightarrow> duration \<Rightarrow> duration" where
  "duration_Round d m =
     (if m \<le> 0 then d
      else if d < 0 then
        (let r = - go_rem d m in
         if r + r < m then d + r else if in_int64 (d - m + r) then d - m + r else min_duration)
      else
        (let r = go_rem d m in
         if r + r < m then d - r else if in_int64 (d + m - r) then d + m - r else max_duration))"

definition minutes :: "duration \<Rightarrow> string" where
  "minutes d =
     (if d < minute then show_int (go_quot (duration_Round d second) second) @ '' s''
      else if d < hour then show_int (go_quot (duration_Round d minute) minute) @ '' min''
      else
        (let d = duration_Round d minute; h = go_quot d hour; m = go_quot (go_rem d hour) minute in
         if m = 0 then show_int h @ '' h'' else show_int h @ '' h '' @ show_int m @ '' min''))"

section \<open>The messages\<close>

definition MetricName :: "string \<Rightarrow> string" where
  "MetricName metric =
     (if metric = ''cpu'' \<or> metric = ''instanceCpu'' then ''CPU''
      else if metric = ''memory'' \<or> metric = ''memoryPercent'' then ''Memory''
      else if metric = ''eventLoopLag'' then ''Event-loop lag''
      else if metric = ''errorRate'' then ''5xx error rate''
      else if metric = ''latency'' then ''Average response time''
      else if metric = ''latencyP95'' then ''95th percentile response time''
      else if metric = ''instancesDown'' then ''Instances down''
      else if metric = ''serverCpu'' then ''Server CPU''
      else if metric = ''serverMemory'' then ''Server memory''
      else if metric = ''diskFree'' then ''Free disk space''
      else metric)"

definition FormatValue :: "string \<Rightarrow> rat \<Rightarrow> string" where
  "FormatValue metric v =
     (if metric = ''memory'' then groupThousands (math_round v) @ '' MB''
      else if metric = ''eventLoopLag'' \<or> metric = ''latency'' \<or> metric = ''latencyP95'' then
        (if v \<ge> 1000 then format_tenths (math_round (v / 100)) @ '' s''
         else show_int (math_round v) @ '' ms'')
      else if metric = ''instancesDown'' then show_int (math_round v)
      else if v < 10 \<and> v \<noteq> of_int (math_trunc v) then format_tenths (math_round (v * 10)) @ ''%''
      else show_int (math_round v) @ ''%'')"

definition reading_text :: "alert \<Rightarrow> rat \<Rightarrow> string" where
  "reading_text a v =
     (if a_Metric a = ''instancesDown'' then
        trim_space (FormatValue (a_Metric a) v @ '' '' @ a_Detail a @ '' instances down'')
      else if a_Metric a = ''memoryPercent'' then
        ''Memory '' @ FormatValue (a_Metric a) v @ '' of the limit'' @
        (if a_Detail a \<noteq> [] then '' ('' @ a_Detail a @ '')'' else [])
      else if a_Metric a = ''diskFree'' then
        ''Free disk space '' @ FormatValue (a_Metric a) v @
        (if a_Detail a \<noteq> [] then '' on '' @ a_Detail a else [])
      else
        MetricName (a_Metric a) @ '' '' @ FormatValue (a_Metric a) v @
        (if a_Detail a \<noteq> [] then '' ('' @ a_Detail a @ '')'' else []))"

definition limit_text :: "alert \<Rightarrow> string" where
  "limit_text a = ''(limit '' @ FormatValue (a_Metric a) (a_Threshold a) @ '')''"

definition firingMessage :: "alert \<Rightarrow> instant \<Rightarrow> string" where
  "firingMessage a now =
     (if time_sub now (a_Since a) < second then reading_text a (a_Value a) @ '' '' @ limit_text a
      else reading_text a (a_Value a) @ '' for '' @ minutes (time_sub now (a_Since a)) @ '' '' @ limit_text a)"

definition pendingMessage :: "alert \<Rightarrow> instant \<Rightarrow> string" where
  "pendingMessage a now =
     firingMessage a now @ ''; fires after '' @ minutes (wrap64 (a_ForMinutes a * minute))"

definition reminderMessage :: "alert \<Rightarrow> instant \<Rightarrow> string" where
  "reminderMessage a now = ''Still firing: '' @ firingMessage a now"

definition resolvedMessage :: "alert \<Rightarrow> instant \<Rightarrow> string" where
  "resolvedMessage a now =
     (let start = (case a_FiredAt a of None \<Rightarrow> a_Since a | Some t \<Rightarrow> t);
          head = ''Resolved after '' @ minutes (time_sub now start)
      in if a_ResolveNote a \<noteq> [] then
           head @ '' ('' @ a_ResolveNote a @ ''): '' @ MetricName (a_Metric a) @ '' was '' @
           FormatValue (a_Metric a) (a_Peak a) @ '' at worst '' @ limit_text a
         else head @ '': '' @ reading_text a (a_Value a) @ '' '' @ limit_text a)"

text \<open>The ellipsis is the UTF-8 encoding of U+2026.\<close>

definition more :: "bool \<Rightarrow> string" where
  "more b = (if b then [CHR 0xE2, CHR 0x80, CHR 0xA6] else [])"

definition kind_count :: "alert_transition \<Rightarrow> notice list \<Rightarrow> nat" where
  "kind_count k rest = length (filter (\<lambda>n. nt_Kind n = k) rest)"

definition summary_names :: "notice list \<Rightarrow> string list" where
  "summary_names rest =
     foldl (\<lambda>names n.
         let name = (if a_SiteName (nt_Alert n) = [] then ''server'' else a_SiteName (nt_Alert n)) in
         if length names < 5 \<and> name \<notin> set names then names @ [name] else names) [] rest"

definition summaryMessage :: "notice list \<Rightarrow> string" where
  "summaryMessage rest =
     (let names = summary_names rest;
          parts = map (\<lambda>p. show_nat (fst p) @ '' '' @ snd p)
            (filter (\<lambda>p. fst p > 0)
              [(kind_count Fire rest, ''fired''), (kind_count Resolve rest, ''resolved''),
               (kind_count Remind rest, ''still firing'')])
      in show_nat (length rest) @ '' more alert notifications ('' @ join_with '', '' parts @ ''), for '' @
         join_with '', '' names @ more (length names = 5) @ ''; see the Alerts page'')"

section \<open>Grouping of thousands\<close>

text \<open>The reference: groups of three from the right.\<close>

function groups :: "string \<Rightarrow> string" where
  "groups s =
     (if length s \<le> 3 then s
      else groups (take (length s - 3) s) @ '','' @ drop (length s - 3) s)"
  by auto
termination by (relation "measure length") auto

declare groups.simps [simp del]

lemma group_loop_append:
  "i \<le> int (length s) \<Longrightarrow> group_loop i (s @ t) = group_loop i s @ t"
proof (induction i s arbitrary: t rule: group_loop.induct)
  case (1 i s)
  show ?case
  proof (cases "i > 0")
    case True
    with 1 have "group_loop (i - 3) ((take (nat i) s @ '','' @ drop (nat i) s) @ t) =
        group_loop (i - 3) (take (nat i) s @ '','' @ drop (nat i) s) @ t"
      by (intro "1.IH") auto
    with True 1 show ?thesis by (simp add: group_loop.simps [of i])
  qed (simp add: group_loop.simps)
qed

lemma group_loop_groups: "group_loop (int (length s) - 3) s = groups s"
proof (induction s rule: groups.induct)
  case (1 s)
  show ?case
  proof (cases "length s \<le> 3")
    case True
    then show ?thesis by (simp add: groups.simps [of s] group_loop.simps)
  next
    case False
    let ?l = "take (length s - 3) s" and ?r = "'','' @ drop (length s - 3) s"
    have "nat (int (length s) - 3) = length s - 3" by arith
    then have "group_loop (int (length s) - 3) s = group_loop (int (length s) - 3 - 3) (?l @ ?r)"
      using False by (subst group_loop.simps) simp
    also have "\<dots> = group_loop (int (length s) - 3 - 3) ?l @ ?r"
      by (rule group_loop_append) simp
    also have "int (length s) - 3 - 3 = int (length ?l) - 3" using False by simp
    finally show ?thesis using "1.IH" False by (simp add: groups.simps [of s])
  qed
qed

lemma groups_content: "CHR '','' \<notin> set s \<Longrightarrow> filter (\<lambda>c. c \<noteq> CHR '','') (groups s) = s"
proof (induction s rule: groups.induct)
  case (1 s)
  have *: "filter (\<lambda>c. c \<noteq> CHR '','') xs = xs" if "set xs \<subseteq> set s" for xs
    using that 1(2) by (auto simp: filter_id_conv)
  have "CHR '','' \<notin> set (take (length s - 3) s)" using 1(2) by (meson in_set_takeD)
  with 1 show ?case
    by (subst groups.simps) (auto simp: * set_drop_subset)
qed

lemma digit_not_comma: "list_all is_digit s \<Longrightarrow> CHR '','' \<notin> set s"
  by (auto simp: list_all_iff is_digit_def)

text \<open>
  C16. \<^verbatim>\<open>groupThousands\<close> writes a number in groups of three digits from the right, after
  its sign, and adds nothing but the commas.
\<close>

theorem groupThousands_groups:
  "groupThousands v = (if v < 0 then ''-'' else []) @ groups (show_nat (nat \<bar>v\<bar>)) \<and>
   filter (\<lambda>c. c \<noteq> CHR '','') (groupThousands v) = show_int v"
proof -
  have sign: "take 1 (show_int v) = ''-'' \<longleftrightarrow> v < 0"
    using show_nat_digits [of "nat v"] by (cases "show_nat (nat v)") (auto simp: show_int_def is_digit_def)
  have 1: "groupThousands v = (if v < 0 then ''-'' else []) @ groups (show_nat (nat \<bar>v\<bar>))"
    unfolding groupThousands_def Let_def sign by (auto simp: show_int_def group_loop_groups)
  have "filter (\<lambda>c. c \<noteq> CHR '','') (groups (show_nat n)) = show_nat n" for n
    by (intro groups_content digit_not_comma show_nat_digits)
  then show ?thesis unfolding 1 by (simp add: show_int_def)
qed

end
