(* ===== verification/Alert_Measure.thy ===== *)
theory Alert_Measure
  imports Alert_Message
begin

text \<open>
  Measuring what a rule watches (\<^verbatim>\<open>internal/alerts/measure.go\<close>): the window of traffic
  counters of a site, the percentile of a histogram, and the observation a rule makes of
  a site or the server. Memory is a 64-bit word, as in Go; the counters are below 2^63,
  so that their differences do not wrap. The lemmas say which samples a window holds,
  in which bucket the percentile lies, and what a breach requires.
\<close>

section \<open>Samples\<close>

datatype site_state = StateStopped | StateStarting | StateRunning | StateDegraded | StateStopping | StateFailed

record instance_status =
  is_Index :: int
  is_PID :: int
  is_State :: string
  is_Healthy :: bool
  is_CPUPercent :: rat
  is_MemoryBytes :: "64 word"
  is_EventLoopLagMs :: rat

record traffic_stats =
  tr_Requests :: int
  tr_Status5xx :: int
  tr_AvgLatencyMs :: rat

record site_status =
  ss_State :: site_state
  ss_Traffic :: traffic_stats
  ss_Instances :: "instance_status list"

record site_sample =
  sm_Site :: site
  sm_Status :: site_status
  sm_Latency :: "int list"
  sm_Hold :: bool

record disk =
  dk_Path :: string
  dk_FreePercent :: rat

record server_sample =
  sv_CPUPercent :: rat
  sv_MemoryPercent :: rat
  sv_Disks :: "disk list"

record reading =
  rd_Value :: rat
  rd_Detail :: string

definition zero_reading :: reading where
  "zero_reading = \<lparr>rd_Value = 0, rd_Detail = []\<rparr>"

section \<open>Traffic windows\<close>

record counters =
  c_at :: instant
  c_requests :: int
  c_errors :: int
  c_latMs :: rat
  c_hist :: "int list"

type_synonym window = "counters list"

definition keepWindow :: duration where
  "keepWindow = MaxAlertWindowMinutes * minute + minute"

definition maxWindowEntries :: nat where
  "maxWindowEntries = 512"

definition sampleCounters :: "instant \<Rightarrow> site_sample \<Rightarrow> counters" where
  "sampleCounters now i =
     (let t = ss_Traffic (sm_Status i) in
      \<lparr>c_at = now, c_requests = tr_Requests t, c_errors = tr_Status5xx t,
       c_latMs = tr_AvgLatencyMs t * of_int (tr_Requests t), c_hist = sm_Latency i\<rparr>)"

text \<open>The loop that drops the oldest entries; the entries left are the argument.\<close>

fun window_trim :: "counters \<Rightarrow> window \<Rightarrow> window" where
  "window_trim c [] = []"
| "window_trim c (x # xs) =
     (if xs \<noteq> [] \<and> (time_sub (c_at c) (c_at x) > keepWindow \<or> length (x # xs) > maxWindowEntries)
      then window_trim c xs else x # xs)"

definition window_add :: "window \<Rightarrow> counters \<Rightarrow> window" where
  "window_add buf c =
     (let buf = (if buf \<noteq> [] \<and> (c_requests c < c_requests (last buf) \<or> c_errors c < c_errors (last buf))
                 then [] else buf)
      in window_trim c (buf @ [c]))"

definition delta_base :: "window \<Rightarrow> duration \<Rightarrow> counters" where
  "delta_base buf d =
     (case find (\<lambda>x. time_sub (c_at (last buf)) (c_at x) \<ge> d) (rev (butlast buf)) of
        None \<Rightarrow> hd buf
      | Some x \<Rightarrow> x)"

definition window_delta :: "window \<Rightarrow> duration \<Rightarrow> counters option" where
  "window_delta buf d =
     (if length buf < 2 then None
      else
        (let lst = last buf; base = delta_base buf d in
         Some \<lparr>c_at = c_at base, c_requests = c_requests lst - c_requests base,
               c_errors = c_errors lst - c_errors base, c_latMs = c_latMs lst - c_latMs base,
               c_hist = (if length (c_hist lst) = length (c_hist base)
                         then map2 (\<lambda>a b. a - b) (c_hist lst) (c_hist base) else [])\<rparr>))"

section \<open>Percentiles\<close>

text \<open>The loop over the buckets: \<open>i\<close> is the index of the next, \<open>cum\<close> what was counted.\<close>

fun percentile_loop :: "rat list \<Rightarrow> rat \<Rightarrow> nat \<Rightarrow> rat \<Rightarrow> int list \<Rightarrow> rat" where
  "percentile_loop bounds rank i cum [] = bounds ! (length bounds - 1)"
| "percentile_loop bounds rank i cum (c # cs) =
     (if c \<le> 0 then percentile_loop bounds rank (Suc i) cum cs
      else if cum + of_int c \<ge> rank then
        (let lo = (if i > 0 \<and> length bounds > 0 then bounds ! (min i (length bounds) - 1) else 0) in
         if i \<ge> length bounds then lo
         else lo + (bounds ! i - lo) * (rank - cum) / of_int c)
      else percentile_loop bounds rank (Suc i) (cum + of_int c) cs)"

definition Percentile :: "rat list \<Rightarrow> int list \<Rightarrow> rat \<Rightarrow> rat option" where
  "Percentile bounds counts p =
     (let total = sum_list counts in
      if total = 0 \<or> length bounds = 0 then None
      else Some (percentile_loop bounds (p * of_int total) 0 0 counts))"

section \<open>Measuring\<close>

definition past :: "string \<Rightarrow> rat \<Rightarrow> rat \<Rightarrow> bool" where
  "past metric v threshold = (if mi_Below (metric_of metric) then v < threshold else v > threshold)"

definition worse :: "string \<Rightarrow> rat \<Rightarrow> rat \<Rightarrow> bool" where
  "worse metric a b = (if mi_Below (metric_of metric) then a < b else a > b)"

definition observe :: "alert_rule \<Rightarrow> reading \<Rightarrow> observation \<times> reading" where
  "observe r rd = (if past (ar_Metric r) (rd_Value rd) (ar_Threshold r) then (Breach, rd) else (Clear, rd))"

text \<open>\<^verbatim>\<open>float64(x) / (1 << 20)\<close>.\<close>

definition megabytes :: "64 word \<Rightarrow> rat" where
  "megabytes b = of_nat (unat b) / 2 ^ 20"

definition instance_value :: "string \<Rightarrow> int \<Rightarrow> instance_status \<Rightarrow> rat" where
  "instance_value metric limit i =
     (if metric = ''eventLoopLag'' then is_EventLoopLagMs i
      else if metric = ''memoryPercent'' then megabytes (is_MemoryBytes i) / of_int limit * 100
      else is_CPUPercent i)"

definition measurable :: "instance_status \<Rightarrow> bool" where
  "measurable i \<longleftrightarrow> is_PID i \<noteq> 0 \<and> (is_State i = ''ready'' \<or> is_State i = ''unhealthy'')"

text \<open>The loop that keeps the first instance with the highest value.\<close>

definition best_instance :: "string \<Rightarrow> int \<Rightarrow> instance_status list \<Rightarrow> (instance_status \<times> rat) option" where
  "best_instance metric limit inst =
     foldl (\<lambda>best i.
         if \<not> measurable i then best
         else
           (let v = instance_value metric limit i in
            case best of
              None \<Rightarrow> Some (i, v)
            | Some (b, bv) \<Rightarrow> if v > bv then Some (i, v) else best)) None inst"

definition measure_instances :: "alert_rule \<Rightarrow> site_sample \<Rightarrow> observation \<times> reading" where
  "measure_instances r i =
     (let limit = (case site_Node (sm_Site i) of None \<Rightarrow> 0 | Some n \<Rightarrow> MemoryLimitMB n);
          pct = (ar_Metric r = ''memoryPercent'')
      in if pct \<and> limit \<le> 0 then (NoData, zero_reading)
         else case best_instance (ar_Metric r) limit (ss_Instances (sm_Status i)) of
             None \<Rightarrow> (NoData, zero_reading)
           | Some (b, bv) \<Rightarrow>
               observe r
                 \<lparr>rd_Value = bv,
                  rd_Detail =
                    (if pct then
                       ''instance '' @ show_int (is_Index b) @ '': '' @
                       show_nat (unat (drop_bit 20 (is_MemoryBytes b))) @ '' of '' @ show_int limit @ '' MB''
                     else ''instance '' @ show_int (is_Index b))\<rparr>)"

definition measure_down :: "alert_rule \<Rightarrow> site_sample \<Rightarrow> observation \<times> reading" where
  "measure_down r i =
     (let expected = (case site_Node (sm_Site i) of None \<Rightarrow> 1
                      | Some n \<Rightarrow> if n_Instances n > 1 then n_Instances n else 1);
          healthy = int (length (filter (\<lambda>i. is_State i = ''ready'' \<and> is_Healthy i) (ss_Instances (sm_Status i))));
          down = max (expected - healthy) 0
      in observe r \<lparr>rd_Value = of_int down, rd_Detail = ''of '' @ show_int expected\<rparr>)"

text \<open>The reading of a rate; none when a percentile has nothing to go by.\<close>

definition traffic_reading :: "alert_rule \<Rightarrow> counters \<Rightarrow> rat list \<Rightarrow> reading option" where
  "traffic_reading r d bounds =
     (let span = ''in '' @ minutes (wrap64 (ar_WindowMinutes r * minute));
          detail = show_int (c_requests d) @ '' requests '' @ span
      in if ar_Metric r = ''errorRate'' then
           Some \<lparr>rd_Value = of_int (c_errors d) / of_int (c_requests d) * 100,
                 rd_Detail = show_int (c_errors d) @ '' of '' @ detail\<rparr>
         else if ar_Metric r = ''latency'' then
           Some \<lparr>rd_Value = c_latMs d / of_int (c_requests d), rd_Detail = detail\<rparr>
         else map_option (\<lambda>p. \<lparr>rd_Value = p, rd_Detail = detail\<rparr>)
                (Percentile bounds (c_hist d) (95 / 100)))"

definition no_requests :: reading where
  "no_requests = \<lparr>rd_Value = 0, rd_Detail = ''no requests''\<rparr>"

definition measure_traffic :: "alert_rule \<Rightarrow> window \<Rightarrow> rat list \<Rightarrow> observation \<times> reading" where
  "measure_traffic r w bounds =
     (case window_delta w (wrap64 (ar_WindowMinutes r * minute)) of
        None \<Rightarrow> (Clear, no_requests)
      | Some d \<Rightarrow>
         if c_requests d \<le> 0 then (Clear, no_requests)
         else case traffic_reading r d bounds of
             None \<Rightarrow> (Clear, no_requests)
           | Some rd \<Rightarrow>
              if c_requests d < ar_MinRequests r then (Clear, rd\<lparr>rd_Detail := ''only '' @ rd_Detail rd\<rparr>)
              else observe r rd)"

definition measure_metric ::
  "alert_rule \<Rightarrow> site_sample \<Rightarrow> window \<Rightarrow> rat list \<Rightarrow> observation \<times> reading" where
  "measure_metric r i w bounds =
     (if ar_Metric r = ''cpu'' then
        observe r \<lparr>rd_Value = sum_list (map is_CPUPercent (ss_Instances (sm_Status i))), rd_Detail = []\<rparr>
      else if ar_Metric r = ''memory'' then
        observe r \<lparr>rd_Value = megabytes (sum_list (map is_MemoryBytes (ss_Instances (sm_Status i)))),
                   rd_Detail = []\<rparr>
      else if ar_Metric r \<in> {''instanceCpu'', ''eventLoopLag'', ''memoryPercent''} then measure_instances r i
      else if ar_Metric r = ''instancesDown'' then measure_down r i
      else if ar_Metric r \<in> {''errorRate'', ''latency'', ''latencyP95''} then measure_traffic r w bounds
      else (NoData, zero_reading))"

definition measureSite ::
  "alert_rule \<Rightarrow> site_sample \<Rightarrow> window \<Rightarrow> rat list \<Rightarrow> observation \<times> reading" where
  "measureSite r i w bounds =
     (case ss_State (sm_Status i) of
        StateStopped \<Rightarrow> (Clear, \<lparr>rd_Value = 0, rd_Detail = ''site stopped''\<rparr>)
      | StateStopping \<Rightarrow> (Clear, \<lparr>rd_Value = 0, rd_Detail = ''site stopped''\<rparr>)
      | StateStarting \<Rightarrow> (NoData, zero_reading)
      | StateFailed \<Rightarrow>
          (if ar_Metric r \<noteq> ''instancesDown'' then (Clear, \<lparr>rd_Value = 0, rd_Detail = ''site failed''\<rparr>)
           else measure_metric r i w bounds)
      | _ \<Rightarrow> measure_metric r i w bounds)"

definition worst_disk :: "disk list \<Rightarrow> disk option" where
  "worst_disk disks =
     foldl (\<lambda>worst d. case worst of None \<Rightarrow> Some d
              | Some x \<Rightarrow> if dk_FreePercent d < dk_FreePercent x then Some d else worst) None disks"

definition measureServer :: "alert_rule \<Rightarrow> server_sample \<Rightarrow> observation \<times> reading" where
  "measureServer r i =
     (if ar_Metric r = ''serverCpu'' then
        (if sv_CPUPercent i < 0 then (NoData, zero_reading)
         else observe r \<lparr>rd_Value = sv_CPUPercent i, rd_Detail = []\<rparr>)
      else if ar_Metric r = ''serverMemory'' then
        (if sv_MemoryPercent i < 0 then (NoData, zero_reading)
         else observe r \<lparr>rd_Value = sv_MemoryPercent i, rd_Detail = []\<rparr>)
      else if ar_Metric r = ''diskFree'' then
        (case worst_disk (sv_Disks i) of
           None \<Rightarrow> (NoData, zero_reading)
         | Some d \<Rightarrow> observe r \<lparr>rd_Value = dk_FreePercent d, rd_Detail = dk_Path d\<rparr>)
      else (NoData, zero_reading))"

text \<open>\<^verbatim>\<open>round\<close>; a \<^typ>\<open>rat\<close> is neither NaN nor infinite.\<close>

definition round_reading :: "rat \<Rightarrow> rat" where
  "round_reading v = of_int (math_round (v * 10)) / 10"

section \<open>What a window holds\<close>

lemma find_skip: "\<forall>x \<in> set xs. \<not> P x \<Longrightarrow> P b \<Longrightarrow> find P (xs @ b # ys) = Some b"
  by (induction xs) auto

definition lastn :: "nat \<Rightarrow> 'a list \<Rightarrow> 'a list" where
  "lastn n xs = drop (length xs - n) xs"

lemma filter_drop_upward:
  assumes "sorted_wrt (\<lambda>x y. P x \<longrightarrow> P y) ys"
  shows "filter P (drop m ys) = drop (length (filter P ys) - (length ys - m)) (filter P ys)"
  using assms
proof (induction ys arbitrary: m)
  case (Cons y ys)
  show ?case
  proof (cases "P y")
    case True
    with Cons.prems have "filter P (y # ys) = y # ys" by (auto simp: filter_id_conv)
    moreover have "filter P (drop m (y # ys)) = drop m (y # ys)"
      using calculation by (metis filter_id_conv in_set_dropD)
    ultimately show ?thesis by (cases "m \<le> length (y # ys)") auto
  next
    case False
    have "length (filter P ys) - length ys = 0" "length (filter P ys) \<le> Suc (length ys)"
      using length_filter_le [of P ys] by (simp_all add: le_SucI)
    with False Cons show ?thesis by (cases m) simp_all
  qed
qed simp

lemma filter_lastn:
  assumes "sorted_wrt (\<lambda>x y. P x \<longrightarrow> P y) ys"
  shows "filter P (lastn n ys) = lastn n (filter P ys)"
proof (cases "n \<le> length ys")
  case True
  then show ?thesis unfolding lastn_def filter_drop_upward [OF assms] by simp
next
  case False
  then have "length (filter P ys) - n = 0" "length ys - n = 0"
    using length_filter_le [of P ys] by linarith+
  then show ?thesis by (simp only: lastn_def drop_0)
qed

lemma lastn_lastn_snoc: "lastn n (lastn n zs @ [c]) = lastn n (zs @ [c])"
  by (cases "n \<le> length zs") (auto simp: lastn_def Suc_diff_le)

definition recent :: "counters \<Rightarrow> counters \<Rightarrow> bool" where
  "recent c x \<longleftrightarrow> time_sub (c_at c) (c_at x) \<le> keepWindow"

lemma time_sub_antimono: "u \<le> u' \<Longrightarrow> time_sub t u' \<le> time_sub t u"
  by (auto simp: time_sub_def)

lemma recent_upward: "sorted (map c_at xs) \<Longrightarrow> sorted_wrt (\<lambda>x y. recent c x \<longrightarrow> recent c y) xs"
  unfolding sorted_wrt_map sorted_map recent_def
  by (erule sorted_wrt_mono_rel [rotated]) (metis time_sub_antimono order_trans)

lemma window_trim_recent:
  assumes "sorted (map c_at xs)" and "xs \<noteq> []" and "last xs = c"
  shows "window_trim c xs = lastn maxWindowEntries (filter (recent c) xs)"
  using assms
proof (induction xs)
  case (Cons x xs)
  show ?case
  proof (cases "xs = []")
    case True
    with Cons show ?thesis by (simp add: lastn_def recent_def keepWindow_def maxWindowEntries_def
        MaxAlertWindowMinutes_def duration_defs)
  next
    case False
    with Cons have IH: "window_trim c xs = lastn maxWindowEntries (filter (recent c) xs)" by simp
    show ?thesis
    proof (cases "recent c x")
      case True
      then have full: "filter (recent c) (x # xs) = x # xs"
        using recent_upward [OF Cons.prems(1), of c] by (auto simp: filter_id_conv)
      with True have "filter (recent c) xs = xs" by (simp del: filter_id_conv)
      then show ?thesis unfolding full using True False IH
        by (auto simp: recent_def lastn_def Suc_diff_le)
    next
      case False
      then have "keepWindow < time_sub (c_at c) (c_at x)" by (simp add: recent_def)
      with False show ?thesis using IH \<open>xs \<noteq> []\<close> by simp
    qed
  qed
qed simp

lemma lastn_snoc: "n > 0 \<Longrightarrow> lastn n (zs @ [c]) = lastn (n - 1) zs @ [c]"
  by (auto simp: lastn_def)

lemma window_add_recent:
  assumes "sorted (map c_at (cs @ [c]))"
    and "cs \<noteq> [] \<Longrightarrow> c_requests (last cs) \<le> c_requests c \<and> c_errors (last cs) \<le> c_errors c"
    and buf: "buf = lastn maxWindowEntries (filter (recent (last cs)) cs)"
  shows "window_add buf c = lastn maxWindowEntries (filter (recent c) (cs @ [c]))"
proof -
  let ?n = maxWindowEntries
  have self: "recent x x" for x
    by (simp add: recent_def keepWindow_def MaxAlertWindowMinutes_def duration_defs)
  have last_buf: "buf \<noteq> [] \<Longrightarrow> cs \<noteq> [] \<and> last buf = last cs"
    unfolding buf by (cases cs rule: rev_cases) (auto simp: self lastn_snoc maxWindowEntries_def lastn_def)
  have sorted: "sorted (map c_at (buf @ [c]))"
    using assms(1) unfolding buf lastn_def
    by (auto simp: sorted_append drop_map [symmetric] intro!: sorted_filter sorted_wrt_drop dest!: in_set_dropD)
  have weaker: "recent (last cs) x" if "recent c x" "x \<in> set cs" for x
  proof -
    have "c_at (last cs) \<le> c_at c" using assms(1) that by (cases cs rule: rev_cases) (auto simp: sorted_append)
    then show ?thesis using that time_sub_mono unfolding recent_def by (meson order_trans)
  qed
  have "window_add buf c = window_trim c (buf @ [c])"
    using last_buf assms(2) by (auto simp: window_add_def Let_def)
  also have "\<dots> = lastn ?n (filter (recent c) (buf @ [c]))"
    using sorted by (intro window_trim_recent) auto
  also have "filter (recent c) (buf @ [c]) = filter (recent c) buf @ [c]" by (simp add: self)
  also have "filter (recent c) buf = lastn ?n (filter (recent c) (filter (recent (last cs)) cs))"
    unfolding buf using assms(1) by (intro filter_lastn recent_upward sorted_filter) (simp add: sorted_append)
  also have "filter (recent c) (filter (recent (last cs)) cs) = filter (recent c) cs"
    using weaker by (auto intro!: filter_cong)
  also have "lastn ?n (lastn ?n (filter (recent c) cs) @ [c]) = lastn ?n (filter (recent c) (cs @ [c]))"
    by (simp add: lastn_lastn_snoc self)
  finally show ?thesis .
qed

text \<open>Samples taken in order, of counters that have not started over.\<close>

definition steady :: "counters list \<Rightarrow> bool" where
  "steady cs \<longleftrightarrow> sorted (map c_at cs) \<and> sorted (map c_requests cs) \<and> sorted (map c_errors cs)"

lemma window_run:
  "steady cs \<Longrightarrow> foldl window_add [] cs = lastn maxWindowEntries (filter (recent (last cs)) cs)"
proof (induction cs rule: rev_induct)
  case (snoc c cs)
  then have "steady cs" by (auto simp: steady_def sorted_append)
  then have "foldl window_add [] cs = lastn maxWindowEntries (filter (recent (last cs)) cs)" by (rule snoc.IH)
  moreover have "sorted (map c_at (cs @ [c]))" using snoc.prems by (simp add: steady_def)
  moreover have "c_requests (last cs) \<le> c_requests c \<and> c_errors (last cs) \<le> c_errors c" if "cs \<noteq> []"
    using snoc.prems last_in_set [OF that] by (auto simp: steady_def sorted_append)
  ultimately show ?case using window_add_recent [of cs c] by simp
qed (simp add: lastn_def)

text \<open>
  C12. A rate over the last \<open>d\<close> is measured over exactly that: when the samples of a site
  came in order and the newest one at least \<open>d\<close> old is among the last 512 and not older
  than the window keeps, \<^verbatim>\<open>delta\<close> is the latest counters minus those.
\<close>

theorem window_delta_exact:
  assumes "steady (pre @ b # post)" and "post \<noteq> []" and "length post < maxWindowEntries"
    and "d \<le> time_sub (c_at (last post)) (c_at b)"
    and "time_sub (c_at (last post)) (c_at b) \<le> keepWindow"
    and "\<forall>x \<in> set (butlast post). time_sub (c_at (last post)) (c_at x) < d"
  shows "window_delta (foldl window_add [] (pre @ b # post)) d =
    Some \<lparr>c_at = c_at b, c_requests = c_requests (last post) - c_requests b,
          c_errors = c_errors (last post) - c_errors b, c_latMs = c_latMs (last post) - c_latMs b,
          c_hist = (if length (c_hist (last post)) = length (c_hist b)
                    then map2 (\<lambda>x y. x - y) (c_hist (last post)) (c_hist b) else [])\<rparr>"
proof -
  let ?l = "last post" and ?w = "foldl window_add [] (pre @ b # post)"
  have rb: "recent ?l b" using assms(5) by (simp add: recent_def)
  have "sorted_wrt (\<lambda>x y. recent ?l x \<longrightarrow> recent ?l y) (b # post)"
    using assms(1) by (intro recent_upward) (simp add: steady_def sorted_append)
  then have keep: "filter (recent ?l) (b # post) = b # post" using rb by (auto simp: filter_id_conv)
  have "?w = lastn maxWindowEntries (filter (recent ?l) pre @ b # post)"
    using window_run [OF assms(1)] assms(2) keep by simp
  moreover obtain pre' where "lastn maxWindowEntries (filter (recent ?l) pre @ b # post) = pre' @ b # post"
    using assms(3) by (auto simp: lastn_def)
  ultimately have w: "?w = pre' @ b # post" by simp
  then have "rev (butlast ?w) = rev (butlast post) @ b # rev pre'" using assms(2) by (simp add: butlast_append)
  moreover have "find (\<lambda>x. time_sub (c_at ?l) (c_at x) \<ge> d) (rev (butlast post) @ b # rev pre') = Some b"
    using assms(4,6) by (intro find_skip) auto
  ultimately have "delta_base ?w d = b" using w assms(2) by (simp add: delta_base_def)
  moreover have "last ?w = ?l" "length ?w \<ge> 2" using w assms(2) by (auto simp: Suc_le_eq)
  ultimately show ?thesis by (simp add: window_delta_def Let_def)
qed

definition sample_counters :: "int \<Rightarrow> int \<Rightarrow> int \<Rightarrow> counters" where
  "sample_counters t req err = \<lparr>c_at = t, c_requests = req, c_errors = err, c_latMs = 0, c_hist = []\<rparr>"

theorem window_delta_exact_witness:
  "window_delta (foldl window_add []
     [sample_counters minute 100 1, sample_counters (2 * minute) 150 3, sample_counters (3 * minute) 180 9]) minute =
   Some (sample_counters (2 * minute) 30 6)"
  using window_delta_exact [of "[sample_counters minute 100 1]" "sample_counters (2 * minute) 150 3"
      "[sample_counters (3 * minute) 180 9]" minute]
  by (simp add: steady_def sample_counters_def maxWindowEntries_def keepWindow_def MaxAlertWindowMinutes_def
      time_sub_def duration_defs)

section \<open>In which bucket a percentile lies\<close>

definition bucket_low :: "rat list \<Rightarrow> nat \<Rightarrow> rat" where
  "bucket_low bounds k = (if k = 0 then 0 else bounds ! (k - 1))"

definition bucket_high :: "rat list \<Rightarrow> nat \<Rightarrow> rat" where
  "bucket_high bounds k = (if k < length bounds then bounds ! k else bounds ! (length bounds - 1))"

definition interpolate :: "rat list \<Rightarrow> nat \<Rightarrow> rat \<Rightarrow> rat" where
  "interpolate bounds k q = bucket_low bounds k + (bucket_high bounds k - bucket_low bounds k) * q"

lemma percentile_loop_bucket:
  assumes "\<forall>c \<in> set cs. 0 \<le> c" and "cum < rank" and "rank \<le> cum + of_int (sum_list cs)"
    and "i + length cs = Suc (length bounds)" and "bounds \<noteq> []"
  shows "\<exists>k q. k < length cs \<and> cum + of_int (sum_list (take k cs)) < rank \<and>
    rank \<le> cum + of_int (sum_list (take (Suc k) cs)) \<and> 0 \<le> q \<and> q \<le> 1 \<and>
    percentile_loop bounds rank i cum cs = interpolate bounds (i + k) q"
  using assms
proof (induction cs arbitrary: i cum)
  case (Cons c cs)
  show ?case
  proof (cases "c > 0 \<and> rank \<le> cum + of_int c")
    case True
    define q where "q = (if i < length bounds then (rank - cum) / of_int c else 0)"
    have "percentile_loop bounds rank i cum (c # cs) = interpolate bounds (i + 0) q"
      using True Cons.prems
      by (auto simp: Let_def interpolate_def bucket_low_def bucket_high_def q_def min_def)
    moreover have "0 \<le> q" "q \<le> 1" using True Cons.prems(2) by (auto simp: q_def field_simps)
    ultimately show ?thesis using True Cons.prems(2)
      by (intro exI [of _ 0] exI [of _ q]) auto
  next
    case False
    have c0: "0 \<le> c" using Cons.prems(1) by simp
    have rest: "cum + of_int c < rank"
      using False c0 Cons.prems(2) by (cases "c = 0") auto
    have sum: "rank \<le> cum + of_int c + of_int (sum_list cs)" using Cons.prems(3) by (simp add: add.assoc)
    have loop: "percentile_loop bounds rank i cum (c # cs) = percentile_loop bounds rank (Suc i) (cum + of_int c) cs"
      using False c0 by (cases "c = 0") auto
    obtain k q where kq: "k < length cs" "cum + of_int c + of_int (sum_list (take k cs)) < rank"
      "rank \<le> cum + of_int c + of_int (sum_list (take (Suc k) cs))" "0 \<le> q" "q \<le> 1"
      "percentile_loop bounds rank (Suc i) (cum + of_int c) cs = interpolate bounds (Suc i + k) q"
      using Cons.IH [of "cum + of_int c" "Suc i"] Cons.prems rest sum by auto
    then show ?thesis unfolding loop
      by (intro exI [of _ "Suc k"] exI [of _ q]) (simp add: add.assoc)
  qed
qed simp

lemma interpolate_between:
  "0 \<le> q \<Longrightarrow> q \<le> 1 \<Longrightarrow> bucket_low bounds k \<le> bucket_high bounds k \<Longrightarrow>
   bucket_low bounds k \<le> interpolate bounds k q \<and> interpolate bounds k q \<le> bucket_high bounds k"
  using mult_left_mono [of q 1 "bucket_high bounds k - bucket_low bounds k"]
  by (simp add: interpolate_def)

lemma bucket_order:
  assumes "sorted bounds" and "bounds \<noteq> []" and "0 \<le> hd bounds" and "k \<le> length bounds"
  shows "bucket_low bounds k \<le> bucket_high bounds k"
proof (cases "k = 0")
  case True
  then show ?thesis using assms by (simp add: bucket_low_def bucket_high_def hd_conv_nth)
next
  case False
  then show ?thesis using assms by (auto simp: bucket_low_def bucket_high_def intro!: sorted_nth_mono)
qed

text \<open>
  C26. The percentile of a histogram lies in the bucket that holds the value of that rank:
  fewer than \<open>p\<close> of the values are in the buckets below it, and at least \<open>p\<close> of them are in
  it or below. It always has a result when there are values.
\<close>

theorem percentile_in_bucket:
  assumes "\<forall>c \<in> set counts. 0 \<le> c" and "0 < sum_list counts" and "0 < p" and "p \<le> 1"
    and "length counts = Suc (length bounds)" and "bounds \<noteq> []" and "sorted bounds" and "0 \<le> hd bounds"
  shows "\<exists>k v. Percentile bounds counts p = Some v \<and> k < length counts \<and>
    of_int (sum_list (take k counts)) < p * of_int (sum_list counts) \<and>
    p * of_int (sum_list counts) \<le> of_int (sum_list (take (Suc k) counts)) \<and>
    bucket_low bounds k \<le> v \<and> v \<le> bucket_high bounds k"
proof -
  let ?rank = "p * of_int (sum_list counts)"
  have "0 < ?rank" using assms(2,3) by simp
  moreover have "?rank \<le> 0 + of_int (sum_list counts)"
    using mult_right_mono [OF assms(4), of "of_int (sum_list counts)"] assms(2) by simp
  ultimately obtain k q where kq: "k < length counts" "0 + of_int (sum_list (take k counts)) < ?rank"
    "?rank \<le> 0 + of_int (sum_list (take (Suc k) counts))" "0 \<le> q" "q \<le> 1"
    "percentile_loop bounds ?rank 0 0 counts = interpolate bounds (0 + k) q"
    using percentile_loop_bucket [of counts 0 ?rank 0 bounds] assms by auto
  have "bucket_low bounds k \<le> bucket_high bounds k"
    using assms kq(1) by (intro bucket_order) auto
  then have "bucket_low bounds k \<le> interpolate bounds k q \<and> interpolate bounds k q \<le> bucket_high bounds k"
    by (rule interpolate_between [OF kq(4,5)])
  moreover have "Percentile bounds counts p = Some (interpolate bounds k q)"
    using assms(2,6) kq(6) by (simp add: Percentile_def)
  ultimately show ?thesis using kq(1-3) by (intro exI [of _ k] exI [of _ "interpolate bounds k q"]) simp
qed

theorem percentile_in_bucket_witness:
  "\<exists>k v. Percentile [10, 100] [5, 90, 5] (95 / 100) = Some v \<and> k < length [5, 90, 5::int] \<and>
    of_int (sum_list (take k [5, 90, 5])) < 95 / 100 * rat_of_int (sum_list [5, 90, 5]) \<and>
    95 / 100 * rat_of_int (sum_list [5, 90, 5]) \<le> of_int (sum_list (take (Suc k) [5, 90, 5])) \<and>
    bucket_low [10, 100] k \<le> v \<and> v \<le> bucket_high [10, 100] k"
  by (rule percentile_in_bucket) simp_all

section \<open>What a breach requires\<close>

lemma observe_breach: "fst (observe r rd) = Breach \<Longrightarrow> past (ar_Metric r) (rd_Value (snd (observe r rd))) (ar_Threshold r)"
  by (simp add: observe_def split: if_splits)

text \<open>Every breach comes from the comparison in \<^verbatim>\<open>observe\<close>.\<close>

lemma measure_instances_observe:
  "fst (measure_instances r i) = Breach \<Longrightarrow> \<exists>rd. measure_instances r i = observe r rd"
  unfolding measure_instances_def Let_def by (auto split: option.split_asm option.split if_split_asm if_split)

lemma measure_traffic_observe:
  assumes "fst (measure_traffic r w bounds) = Breach"
  shows "\<exists>d rd. window_delta w (wrap64 (ar_WindowMinutes r * minute)) = Some d \<and> 0 < c_requests d \<and>
    ar_MinRequests r \<le> c_requests d \<and> measure_traffic r w bounds = observe r rd"
  using assms unfolding measure_traffic_def
  by (auto split: option.split_asm option.split if_split_asm if_split)

lemma measure_down_observe: "\<exists>rd. measure_down r i = observe r rd"
  unfolding measure_down_def Let_def by blast

lemma measure_metric_past:
  assumes "fst (measure_metric r i w bounds) = Breach"
  shows "past (ar_Metric r) (rd_Value (snd (measure_metric r i w bounds))) (ar_Threshold r)"
proof -
  let ?m = "measure_metric r i w bounds"
  have "\<exists>rd. observe r x = observe r rd" for x by blast
  then have "(\<exists>rd. ?m = observe r rd) \<or> ?m = measure_instances r i \<or> ?m = measure_down r i \<or>
      ?m = measure_traffic r w bounds \<or> ?m = (NoData, zero_reading)"
    unfolding measure_metric_def by (simp split: if_split)
  then consider rd where "?m = observe r rd" | "?m = measure_instances r i" | "?m = measure_down r i"
    | "?m = measure_traffic r w bounds" | "?m = (NoData, zero_reading)" by blast
  then have "\<exists>rd. ?m = observe r rd"
  proof cases
    case 2
    then show ?thesis using assms measure_instances_observe [of r i] by simp
  next
    case 3
    then show ?thesis using measure_down_observe by simp
  next
    case 4
    then show ?thesis using assms measure_traffic_observe [of r w bounds] by auto
  qed (use assms in auto)
  with assms observe_breach show ?thesis by metis
qed

text \<open>
  A site rule is seen as breached only when the site is up (or failed, for the rule
  on instances down), the reading is past the limit, and, for a rate, the window has
  requests, and as many as the rule asks for.
\<close>

theorem site_breach_requires:
  assumes "measureSite r i w bounds = (Breach, rd)"
  shows "(ss_State (sm_Status i) \<in> {StateRunning, StateDegraded} \<or>
      ss_State (sm_Status i) = StateFailed \<and> ar_Metric r = ''instancesDown'') \<and>
    past (ar_Metric r) (rd_Value rd) (ar_Threshold r) \<and>
    (ar_Metric r \<in> {''errorRate'', ''latency'', ''latencyP95''} \<longrightarrow>
      (\<exists>d. window_delta w (wrap64 (ar_WindowMinutes r * minute)) = Some d \<and> 0 < c_requests d \<and>
        ar_MinRequests r \<le> c_requests d))"
proof -
  have m: "measure_metric r i w bounds = (Breach, rd)"
    and st: "ss_State (sm_Status i) \<in> {StateRunning, StateDegraded} \<or>
      ss_State (sm_Status i) = StateFailed \<and> ar_Metric r = ''instancesDown''"
    using assms by (auto simp: measureSite_def split: site_state.splits if_splits)
  have "past (ar_Metric r) (rd_Value rd) (ar_Threshold r)"
    using measure_metric_past [of r i w bounds] m by simp
  moreover have "fst (measure_traffic r w bounds) = Breach"
    if "ar_Metric r \<in> {''errorRate'', ''latency'', ''latencyP95''}"
    using m that by (auto simp: measure_metric_def)
  ultimately show ?thesis using st measure_traffic_observe [of r w bounds] by blast
qed

definition sample_watch :: "site_state \<Rightarrow> site_sample" where
  "sample_watch st =
     \<lparr>sm_Site = sample_site [],
      sm_Status = \<lparr>ss_State = st, ss_Traffic = \<lparr>tr_Requests = 180, tr_Status5xx = 9, tr_AvgLatencyMs = 0\<rparr>,
        ss_Instances = []\<rparr>, sm_Latency = [], sm_Hold = False\<rparr>"

definition sample_window :: window where
  "sample_window = [sample_counters minute 100 1, sample_counters (2 * minute) 180 9]"

theorem site_breach_requires_witness:
  "\<exists>rd. measureSite (sample_rule ''errors'' 5) (sample_watch StateRunning) sample_window [] = (Breach, rd) \<and>
     past ''errorRate'' (rd_Value rd) 5"
proof -
  have "fst (measureSite (sample_rule ''errors'' 5) (sample_watch StateRunning) sample_window []) = Breach"
    by code_simp
  then obtain rd where m: "measureSite (sample_rule ''errors'' 5) (sample_watch StateRunning) sample_window [] = (Breach, rd)"
    by (metis prod.collapse)
  moreover have "past ''errorRate'' (rd_Value rd) 5"
    using site_breach_requires [OF m] by (simp add: sample_rule_def)
  ultimately show ?thesis by blast
qed

end
