(* ===== verification/Alert_Engine.thy ===== *)
theory Alert_Engine
  imports Alert_Measure
begin

text \<open>
  The alert engine (\<^verbatim>\<open>internal/alerts/engine.go\<close>): what is pending or firing, the timed
  silences, the traffic windows, and the operations on them. The store is the list of
  the alerts handed to \<^verbatim>\<open>PutAlert\<close>, in order (a failed write is only logged); \<^verbatim>\<open>NewID\<close> is
  a parameter, the function from how many IDs were drawn to the next one. The lock is
  held for the whole of every operation, so that operations are steps of a machine.
\<close>

section \<open>State\<close>

record tracked =
  tk_key :: string
  tk_state :: alert_state
  tk_alert :: alert
  tk_peaked :: bool
  tk_savedAt :: instant

record engine =
  e_active :: "(string \<times> tracked) list"
  e_silences :: "(string \<times> alert_silence) list"
  e_windows :: "(string \<times> window) list"
  e_stored :: "alert list"
  e_drawn :: nat

definition new_engine :: engine where
  "new_engine = \<lparr>e_active = [], e_silences = [], e_windows = [], e_stored = [], e_drawn = 0\<rparr>"

definition maxNotices :: nat where
  "maxNotices = 10"

definition saveEvery :: duration where
  "saveEvery = 5 * minute"

definition alert_key :: "string \<Rightarrow> string \<Rightarrow> string" where
  "alert_key ruleID siteID = to_lower ruleID @ ''|'' @ siteID"

definition subject_key :: "alert \<Rightarrow> string" where
  "subject_key a = alert_key (a_RuleID a) (SlotKey (a_SiteID a) (a_Slot a))"

section \<open>Load\<close>

definition load_firing :: "instant \<Rightarrow> engine \<Rightarrow> alert \<Rightarrow> engine" where
  "load_firing now e a =
     (case a_FiredAt a of
        None \<Rightarrow> e
      | Some fired \<Rightarrow>
         (let k = subject_key a;
              st = zero_state\<lparr>Phase := Firing, Since := a_Since a, FiredAt := fired,
                LastNotified := (case a_LastNotifiedAt a of None \<Rightarrow> fired | Some n \<Rightarrow> n)\<rparr>
          in e\<lparr>e_active := AList.update k
                 \<lparr>tk_key = k, tk_state = st, tk_alert = a, tk_peaked = True, tk_savedAt = now\<rparr> (e_active e)\<rparr>))"

definition load_silence :: "instant \<Rightarrow> engine \<Rightarrow> alert \<Rightarrow> engine" where
  "load_silence now e a =
     (case a_Silence a of
        None \<Rightarrow> e
      | Some s \<Rightarrow>
         if a_State a = AlertResolved \<and> sil_Until s \<noteq> None \<and> silence_Active (Some s) now
         then e\<lparr>e_silences := AList.update (subject_key a) s (e_silences e)\<rparr> else e)"

text \<open>
  \<^verbatim>\<open>Load\<close> with what the store returned: the firing alerts, oldest first, and the recent
  ones, newest first; \<^const>\<open>None\<close> is a failed query.
\<close>

definition Load :: "alert list option \<Rightarrow> alert list option \<Rightarrow> instant \<Rightarrow> engine \<Rightarrow> engine option" where
  "Load firing latest now e =
     (case firing of None \<Rightarrow> None
      | Some fs \<Rightarrow>
         (case latest of None \<Rightarrow> None
          | Some rs \<Rightarrow> Some (foldl (load_silence now) (foldl (load_firing now) e fs) (rev rs))))"

section \<open>Steps\<close>

definition save :: "instant \<Rightarrow> engine \<Rightarrow> tracked \<Rightarrow> engine \<times> tracked" where
  "save now e t =
     (if a_State (tk_alert t) = AlertPending then (e, t)
      else (e\<lparr>e_stored := e_stored e @ [tk_alert t]\<rparr>, t\<lparr>tk_savedAt := now\<rparr>))"

definition finish :: "instant \<Rightarrow> string \<Rightarrow> engine \<Rightarrow> tracked \<Rightarrow> engine \<times> notice list" where
  "finish now note e t =
     (let e = e\<lparr>e_active := AList.delete (tk_key t) (e_active e)\<rparr>; a = tk_alert t in
      if a_State a \<noteq> AlertFiring then (e, [])
      else
        (let a = a\<lparr>a_State := AlertResolved, a_ResolvedAt := Some now, a_ResolveNote := note\<rparr>;
             a = a\<lparr>a_Message := resolvedMessage a now\<rparr>;
             e = (case a_Silence a of None \<Rightarrow> e
                  | Some s \<Rightarrow>
                     if sil_Until s \<noteq> None \<and> silence_Active (Some s) now
                     then e\<lparr>e_silences := AList.update (tk_key t) s (e_silences e)\<rparr> else e);
             e = fst (save now e (t\<lparr>tk_alert := a\<rparr>))
         in (e, if a_Notified a then [\<lparr>nt_Kind = Resolve, nt_Alert = a, nt_Message = a_Message a\<rparr>] else [])))"

definition notified :: "alert \<Rightarrow> instant \<Rightarrow> alert" where
  "notified a now = a\<lparr>a_Notified := True, a_LastNotifiedAt := Some now\<rparr>"

text \<open>The timing of a rule.\<close>

definition rule_timing :: "alert_rule \<Rightarrow> duration \<Rightarrow> timing" where
  "rule_timing r recovery =
     \<lparr>For = wrap64 (ar_ForMinutes r * minute), Recovery = recovery, Repeat = wrap64 (ar_RepeatHours r * hour)\<rparr>"

text \<open>What is tracked from now on for a condition that starts.\<close>

definition track_new :: "(nat \<Rightarrow> string) \<Rightarrow> instant \<Rightarrow> string \<Rightarrow> site option \<Rightarrow> engine \<Rightarrow> tracked" where
  "track_new newID now k st e =
     (let a = zero_alert\<lparr>a_ID := newID (e_drawn e), a_State := AlertPending\<rparr>;
          a = (case st of None \<Rightarrow> a | Some s \<Rightarrow> a\<lparr>a_SiteID := site_ID s, a_Slot := site_Slot s\<rparr>);
          a = (case map_of (e_silences e) k of None \<Rightarrow> a
               | Some s \<Rightarrow> if silence_Active (Some s) now then a\<lparr>a_Silence := Some s\<rparr> else a)
      in \<lparr>tk_key = k, tk_state = zero_state, tk_alert = a, tk_peaked = False, tk_savedAt = 0\<rparr>)"

text \<open>The fields of the alert that follow the rule, the site and the reading.\<close>

definition refresh :: "instant \<Rightarrow> alert_rule \<Rightarrow> site option \<Rightarrow> observation \<Rightarrow> reading \<Rightarrow> tracked \<Rightarrow> tracked" where
  "refresh now r st obs rd t =
     (let a = (tk_alert t)\<lparr>a_RuleID := ar_ID r, a_Metric := ar_Metric r, a_Severity := ar_Severity r,
                a_Threshold := ar_Threshold r, a_ForMinutes := ar_ForMinutes r\<rparr>;
          a = (case st of None \<Rightarrow> a
               | Some s \<Rightarrow> a\<lparr>a_SiteName := if site_Slot s \<noteq> [] then site_Name s @ '' ('' @ site_Slot s @ '')''
                                          else site_Name s\<rparr>);
          a = (if obs \<noteq> NoData then a\<lparr>a_Value := round_reading (rd_Value rd), a_Detail := rd_Detail rd\<rparr> else a);
          peak = (obs = Breach \<and> (\<not> tk_peaked t \<or> worse (a_Metric a) (a_Value a) (a_Peak a)));
          a = (if peak then a\<lparr>a_Peak := a_Value a\<rparr> else a);
          a = (if Phase (tk_state t) \<noteq> Inactive then a\<lparr>a_Since := Since (tk_state t)\<rparr> else a);
          a = (if a_Silence a \<noteq> None \<and> \<not> silence_Active (a_Silence a) now then a\<lparr>a_Silence := None\<rparr> else a)
      in t\<lparr>tk_alert := a, tk_peaked := tk_peaked t \<or> peak\<rparr>)"

definition put_active :: "string \<Rightarrow> engine \<times> tracked \<Rightarrow> engine" where
  "put_active k et = (fst et)\<lparr>e_active := AList.update k (snd et) (e_active (fst et))\<rparr>"

text \<open>What the transition leads to: the rest of \<^verbatim>\<open>step\<close>, a definition per case.\<close>

definition act_fire :: "instant \<Rightarrow> string \<Rightarrow> engine \<Rightarrow> tracked \<Rightarrow> engine \<times> notice list" where
  "act_fire now k e t =
     (let a = (tk_alert t)\<lparr>a_State := AlertFiring, a_FiredAt := Some now\<rparr>;
          a = a\<lparr>a_Message := firingMessage a now\<rparr>;
          quiet = (a_Silence a \<noteq> None);
          a = (if quiet then a else notified a now)
      in (put_active k (save now e (t\<lparr>tk_alert := a\<rparr>)),
          if quiet then [] else [\<lparr>nt_Kind = Fire, nt_Alert = a, nt_Message = a_Message a\<rparr>]))"

definition act_remind :: "instant \<Rightarrow> string \<Rightarrow> engine \<Rightarrow> tracked \<Rightarrow> engine \<times> notice list" where
  "act_remind now k e t =
     (let a = tk_alert t; a = a\<lparr>a_Message := firingMessage a now\<rparr> in
      if a_Notified a \<and> a_Silence a = None then
        (let a = a\<lparr>a_LastNotifiedAt := Some now\<rparr> in
         (put_active k (save now e (t\<lparr>tk_alert := a\<rparr>)),
          [\<lparr>nt_Kind = Remind, nt_Alert = a, nt_Message = reminderMessage a now\<rparr>]))
      else (put_active k (e, t\<lparr>tk_alert := a\<rparr>), []))"

definition act_firing :: "instant \<Rightarrow> string \<Rightarrow> engine \<Rightarrow> tracked \<Rightarrow> engine \<times> notice list" where
  "act_firing now k e t =
     (let a = tk_alert t; a = a\<lparr>a_Message := firingMessage a now\<rparr> in
      if \<not> a_Notified a \<and> a_Silence a = None then
        (let a = notified a now;
             t = t\<lparr>tk_alert := a, tk_state := (tk_state t)\<lparr>LastNotified := now\<rparr>\<rparr>
         in (put_active k (save now e t), [\<lparr>nt_Kind = Fire, nt_Alert = a, nt_Message = a_Message a\<rparr>]))
      else if time_sub now (tk_savedAt t) \<ge> saveEvery then (put_active k (save now e (t\<lparr>tk_alert := a\<rparr>)), [])
      else (put_active k (e, t\<lparr>tk_alert := a\<rparr>), []))"

definition act_pending :: "instant \<Rightarrow> string \<Rightarrow> engine \<Rightarrow> tracked \<Rightarrow> engine \<times> notice list" where
  "act_pending now k e t =
     (let a = tk_alert t in
      (put_active k (e, t\<lparr>tk_alert := a\<lparr>a_Message := pendingMessage a now\<rparr>\<rparr>), []))"

definition act :: "instant \<Rightarrow> string \<Rightarrow> alert_transition \<Rightarrow> engine \<Rightarrow> tracked \<Rightarrow> engine \<times> notice list" where
  "act now k tr e t =
     (case tr of
        Fire \<Rightarrow> act_fire now k e t
      | Remind \<Rightarrow> act_remind now k e t
      | Resolve \<Rightarrow> finish now [] e t
      | NoTransition \<Rightarrow>
         (case Phase (tk_state t) of
            Inactive \<Rightarrow> (e\<lparr>e_active := AList.delete k (e_active e)\<rparr>, [])
          | Pending \<Rightarrow> act_pending now k e t
          | Firing \<Rightarrow> act_firing now k e t))"

text \<open>One observation of what is tracked.\<close>

definition step_tracked ::
  "instant \<Rightarrow> duration \<Rightarrow> string \<Rightarrow> alert_rule \<Rightarrow> site option \<Rightarrow> observation \<Rightarrow> reading \<Rightarrow> engine \<Rightarrow> tracked \<Rightarrow>
   engine \<times> notice list" where
  "step_tracked now recovery k r st obs rd e t =
     (case alert_step (tk_state t) obs now (rule_timing r recovery) of
        (s', tr) \<Rightarrow> act now k tr e (refresh now r st obs rd (t\<lparr>tk_state := s'\<rparr>)))"

definition step_untracked ::
  "(nat \<Rightarrow> string) \<Rightarrow> instant \<Rightarrow> duration \<Rightarrow> string \<Rightarrow> alert_rule \<Rightarrow> site option \<Rightarrow> observation \<Rightarrow> reading \<Rightarrow>
   engine \<Rightarrow> engine \<times> notice list" where
  "step_untracked newID now recovery k r st obs rd e =
     (if obs \<noteq> Breach then (e, [])
      else
        (let t = track_new newID now k st e;
             e = e\<lparr>e_active := AList.update k t (e_active e), e_drawn := Suc (e_drawn e)\<rparr>
         in step_tracked now recovery k r st obs rd e t))"

definition engine_step ::
  "(nat \<Rightarrow> string) \<Rightarrow> instant \<Rightarrow> duration \<Rightarrow> string \<Rightarrow> alert_rule \<Rightarrow> site option \<Rightarrow> observation \<Rightarrow> reading \<Rightarrow>
   engine \<Rightarrow> engine \<times> notice list" where
  "engine_step newID now recovery k r st obs rd e =
     (case map_of (e_active e) k of
        Some t \<Rightarrow>
          (if a_Metric (tk_alert t) \<noteq> ar_Metric r then
             (case finish now ''rule changed'' e t of (e, out) \<Rightarrow>
                (case step_untracked newID now recovery k r st obs rd e of (e', out') \<Rightarrow> (e', out @ out')))
           else step_tracked now recovery k r st obs rd e t)
      | None \<Rightarrow> step_untracked newID now recovery k r st obs rd e)"

section \<open>Evaluation\<close>

text \<open>What one evaluation goes through: the engine, the keys seen, the live subjects, the notices.\<close>

record evaluating =
  ev_engine :: engine
  ev_seen :: "string list"
  ev_live :: "string list"
  ev_out :: "notice list"

definition eval_rule ::
  "(nat \<Rightarrow> string) \<Rightarrow> instant \<Rightarrow> duration \<Rightarrow> string \<Rightarrow> site option \<Rightarrow> bool \<Rightarrow>
   (alert_rule \<Rightarrow> observation \<times> reading) \<Rightarrow> evaluating \<Rightarrow> alert_rule \<Rightarrow> evaluating" where
  "eval_rule newID now recovery subj st hold obs_of v r =
     (let k = alert_key (ar_ID r) subj; v = v\<lparr>ev_seen := k # ev_seen v\<rparr> in
      if hold then v
      else
        (case obs_of r of (obs, rd) \<Rightarrow>
           (case engine_step newID now recovery k r st obs rd (ev_engine v) of
              (e, out) \<Rightarrow> v\<lparr>ev_engine := e, ev_out := ev_out v @ out\<rparr>)))"

definition eval_site ::
  "(nat \<Rightarrow> string) \<Rightarrow> rat list \<Rightarrow> instant \<Rightarrow> alert_settings \<Rightarrow> evaluating \<Rightarrow> site_sample \<Rightarrow> evaluating" where
  "eval_site newID bounds now cfg v i =
     (let s = sm_Site i; subj = SlotKey (site_ID s) (site_Slot s); e = ev_engine v;
          w = window_add (case map_of (e_windows e) subj of None \<Rightarrow> [] | Some w \<Rightarrow> w) (sampleCounters now i);
          v = v\<lparr>ev_live := site_ID s # subj # ev_live v,
                ev_engine := e\<lparr>e_windows := AList.update subj w (e_windows e)\<rparr>\<rparr>
      in if \<not> as_Enabled cfg then v
         else foldl (eval_rule newID now (wrap64 (as_RecoveryMinutes cfg * minute)) subj (Some s) (sm_Hold i)
                       (\<lambda>r. measureSite r i w bounds))
                v (EffectiveAlertRules (as_SiteRules cfg) s))"

definition end_note :: "alert_settings \<Rightarrow> string list \<Rightarrow> alert \<Rightarrow> string" where
  "end_note cfg live a =
     (if \<not> as_Enabled cfg then ''alerts turned off''
      else if a_SiteID a \<noteq> [] \<and> a_SiteID a \<notin> set live then ''site deleted''
      else if a_Slot a \<noteq> [] \<and> SlotKey (a_SiteID a) (a_Slot a) \<notin> set live then ''slot removed''
      else ''rule removed or turned off'')"

definition eval_unseen ::
  "instant \<Rightarrow> alert_settings \<Rightarrow> evaluating \<Rightarrow> string \<times> tracked \<Rightarrow> evaluating" where
  "eval_unseen now cfg v kt =
     (if fst kt \<in> set (ev_seen v) then v
      else
        (case finish now (end_note cfg (ev_live v) (tk_alert (snd kt))) (ev_engine v) (snd kt) of
           (e, out) \<Rightarrow> v\<lparr>ev_engine := e, ev_out := ev_out v @ out\<rparr>))"

definition noticeRank :: "notice \<Rightarrow> int" where
  "noticeRank n =
     (if nt_Kind n = Fire \<and> a_Severity (nt_Alert n) = SeverityCritical then 0
      else if nt_Kind n = Fire then 1
      else if nt_Kind n = Remind then 2
      else 3)"

text \<open>\<^verbatim>\<open>slices.SortStableFunc\<close> is the stable sort of the library.\<close>

definition limitNotices :: "notice list \<Rightarrow> notice list" where
  "limitNotices out =
     (if length out \<le> maxNotices then out
      else
        (let out = sort_key noticeRank out; rest = drop maxNotices out; head = nt_Alert (rest ! 0) in
         take maxNotices out @
         [\<lparr>nt_Kind = NoTransition,
           nt_Alert = zero_alert\<lparr>a_Severity := a_Severity head, a_State := a_State head\<rparr>,
           nt_Message = summaryMessage rest\<rparr>]))"

definition evaluate_all ::
  "(nat \<Rightarrow> string) \<Rightarrow> rat list \<Rightarrow> instant \<Rightarrow> alert_settings \<Rightarrow> site_sample list \<Rightarrow> server_sample \<Rightarrow> engine \<Rightarrow>
   evaluating" where
  "evaluate_all newID bounds now cfg sites server e =
     (let v = foldl (eval_site newID bounds now cfg) \<lparr>ev_engine = e, ev_seen = [], ev_live = [], ev_out = []\<rparr> sites;
          v = v\<lparr>ev_engine := (ev_engine v)\<lparr>e_windows :=
                 filter (\<lambda>w. fst w \<in> set (ev_live v)) (e_windows (ev_engine v))\<rparr>\<rparr>;
          v = (if as_Enabled cfg then
                 foldl (eval_rule newID now (wrap64 (as_RecoveryMinutes cfg * minute)) [] None False
                          (\<lambda>r. measureServer r server))
                   v (filter (\<lambda>r. \<not> ar_Disabled r) (as_ServerRules cfg))
               else v);
          v = foldl (eval_unseen now cfg) v (e_active (ev_engine v))
      in v\<lparr>ev_engine := (ev_engine v)\<lparr>e_silences :=
             filter (\<lambda>ks. silence_Active (Some (snd ks)) now) (e_silences (ev_engine v))\<rparr>\<rparr>)"

definition evaluate ::
  "(nat \<Rightarrow> string) \<Rightarrow> rat list \<Rightarrow> instant \<Rightarrow> alert_settings \<Rightarrow> site_sample list \<Rightarrow> server_sample \<Rightarrow> engine \<Rightarrow>
   engine \<times> notice list" where
  "evaluate newID bounds now cfg sites server e =
     (let v = evaluate_all newID bounds now cfg sites server e in (ev_engine v, limitNotices (ev_out v)))"

section \<open>Queries and silences\<close>

definition find_tracked :: "string \<Rightarrow> engine \<Rightarrow> tracked option" where
  "find_tracked subj e = find (\<lambda>t. a_ID (tk_alert t) = subj) (map snd (e_active e))"

definition Get :: "string \<Rightarrow> engine \<Rightarrow> alert option" where
  "Get subj e = map_option tk_alert (find_tracked subj e)"

definition History :: "alert list option \<Rightarrow> engine \<Rightarrow> alert list option" where
  "History listed e =
     map_option (map (\<lambda>a. case find_tracked (a_ID a) e of None \<Rightarrow> a | Some t \<Rightarrow> tk_alert t)) listed"

datatype silence_error = MinutesOutOfRange | NoteTooLong | ErrNotFound

definition Silence ::
  "string \<Rightarrow> int \<Rightarrow> string \<Rightarrow> string \<Rightarrow> instant \<Rightarrow> engine \<Rightarrow> engine \<times> (silence_error + alert)" where
  "Silence subj mins by_user note now e =
     (if mins < 0 \<or> mins > 30 * 24 * 60 then (e, Inl MinutesOutOfRange)
      else if length note > 500 then (e, Inl NoteTooLong)
      else case find_tracked subj e of
        None \<Rightarrow> (e, Inl ErrNotFound)
      | Some t \<Rightarrow>
         (let s = \<lparr>sil_Until = (if mins > 0 then Some (now + mins * minute) else None), sil_By = by_user,
                sil_At = now, sil_Note = trim_space note\<rparr>;
              t = t\<lparr>tk_alert := (tk_alert t)\<lparr>a_Silence := Some s\<rparr>\<rparr>
          in (put_active (tk_key t) (save now e t), Inr (tk_alert t))))"

definition Unsilence :: "string \<Rightarrow> instant \<Rightarrow> engine \<Rightarrow> engine \<times> (silence_error + alert)" where
  "Unsilence subj now e =
     (case find_tracked subj e of
        None \<Rightarrow> (e, Inl ErrNotFound)
      | Some t \<Rightarrow>
         (let t = t\<lparr>tk_alert := (tk_alert t)\<lparr>a_Silence := None\<rparr>\<rparr>;
              e = e\<lparr>e_silences := AList.delete (tk_key t) (e_silences e)\<rparr>
          in (put_active (tk_key t) (save now e t), Inr (tk_alert t))))"

section \<open>The contract of a step\<close>

text \<open>
  What is tracked is consistent: a pending state has an alert that is pending and was
  not announced, a firing state one that fired when the state did. What is stored fired.
\<close>

definition tracked_ok :: "string \<Rightarrow> tracked \<Rightarrow> bool" where
  "tracked_ok k t \<longleftrightarrow>
     tk_key t = k \<and>
     (Phase (tk_state t) = Pending \<and> a_State (tk_alert t) = AlertPending \<and> a_FiredAt (tk_alert t) = None \<and>
        \<not> a_Notified (tk_alert t) \<or>
      Phase (tk_state t) = Firing \<and> a_State (tk_alert t) = AlertFiring \<and>
        a_FiredAt (tk_alert t) = Some (FiredAt (tk_state t)))"

definition stored_ok :: "alert \<Rightarrow> bool" where
  "stored_ok a \<longleftrightarrow> a_State a = AlertFiring \<or> a_State a = AlertResolved"

definition engine_ok :: "engine \<Rightarrow> bool" where
  "engine_ok e \<longleftrightarrow>
     distinct (map fst (e_active e)) \<and> distinct (map fst (e_silences e)) \<and> distinct (map fst (e_windows e)) \<and>
     (\<forall>k t. map_of (e_active e) k = Some t \<longrightarrow> tracked_ok k t) \<and> list_all stored_ok (e_stored e)"

text \<open>A notification is for a firing alert that is not silenced, or for the end of one that was announced.\<close>

definition notice_ok :: "instant \<Rightarrow> notice \<Rightarrow> bool" where
  "notice_ok now n \<longleftrightarrow>
     (let a = nt_Alert n in
      a_Notified a \<and>
      (nt_Kind n \<in> {Fire, Remind} \<and> a_State a = AlertFiring \<and> \<not> silence_Active (a_Silence a) now \<or>
       nt_Kind n = Resolve \<and> a_State a = AlertResolved))"

text \<open>
  A firing alert is announced or silenced; the one exception is an alert that fired while
  silenced whose reminder falls due at the very evaluation that finds the silence over:
  that evaluation sends nothing, and the next one announces it.
\<close>

definition announced :: "instant \<Rightarrow> tracked \<Rightarrow> bool" where
  "announced now t \<longleftrightarrow>
     (Phase (tk_state t) = Firing \<longrightarrow> a_Notified (tk_alert t) \<or> silence_Active (a_Silence (tk_alert t)) now \<or>
        LastNotified (tk_state t) = now)"

text \<open>What a step under key \<open>k\<close> does: it touches nothing else of what is tracked.\<close>

definition step_rel :: "instant \<Rightarrow> string \<Rightarrow> engine \<Rightarrow> engine \<times> notice list \<Rightarrow> bool" where
  "step_rel now k e res \<longleftrightarrow>
     (let e' = fst res in
      (\<exists>x. map_of (e_active e') = (map_of (e_active e))(k := x) \<and>
           (\<forall>t. x = Some t \<longrightarrow> tracked_ok k t \<and> announced now t)) \<and>
      (distinct (map fst (e_active e)) \<longrightarrow> distinct (map fst (e_active e'))) \<and>
      (distinct (map fst (e_silences e)) \<longrightarrow> distinct (map fst (e_silences e'))) \<and>
      e_windows e' = e_windows e \<and>
      (\<exists>xs. e_stored e' = e_stored e @ xs \<and> list_all stored_ok xs) \<and>
      list_all (notice_ok now) (snd res))"

lemma step_rel_put:
  assumes "tracked_ok k t" and "announced now t" and "list_all (notice_ok now) out"
  shows "step_rel now k e (put_active k (e, t), out)" "step_rel now k e (put_active k (save now e t), out)"
proof -
  have "map_of (e_active (put_active k (e, t))) = (map_of (e_active e))(k := Some t)"
    by (simp add: put_active_def update_conv')
  then show "step_rel now k e (put_active k (e, t), out)"
    using assms by (auto simp: step_rel_def put_active_def distinct_update)
  have "tracked_ok k (snd (save now e t)) \<and> announced now (snd (save now e t))"
    using assms by (auto simp: save_def tracked_ok_def announced_def)
  moreover have "map_of (e_active (put_active k (save now e t))) = (map_of (e_active e))(k := Some (snd (save now e t)))"
    by (simp add: put_active_def update_conv' save_def)
  moreover have "\<exists>xs. e_stored (put_active k (save now e t)) = e_stored e @ xs \<and> list_all stored_ok xs"
    using assms(1) by (auto simp: put_active_def save_def tracked_ok_def stored_ok_def)
  moreover have "e_windows (put_active k (save now e t)) = e_windows e"
    "e_silences (put_active k (save now e t)) = e_silences e"
    "distinct (map fst (e_active e)) \<longrightarrow> distinct (map fst (e_active (put_active k (save now e t))))"
    by (simp_all add: put_active_def save_def distinct_update)
  ultimately show "step_rel now k e (put_active k (save now e t), out)"
    using assms(3) by (auto simp: step_rel_def)
qed

lemma step_rel_drop: "step_rel now k e (e\<lparr>e_active := AList.delete k (e_active e)\<rparr>, [])"
  by (auto simp: step_rel_def delete_conv' distinct_delete intro!: exI [of _ None])

lemma step_rel_finish:
  assumes "tk_key t = k"
  shows "step_rel now k e (finish now note e t)"
proof (cases "a_State (tk_alert t) = AlertFiring")
  case False
  then show ?thesis using step_rel_drop assms by (simp add: finish_def)
next
  case True
  have "map_of (e_active (fst (finish now note e t))) = (map_of (e_active e))(k := None)"
    using True assms
    by (cases "a_Silence (tk_alert t)") (auto simp: finish_def Let_def save_def delete_conv')
  moreover have "e_active (fst (finish now note e t)) = AList.delete k (e_active e)"
    using True assms by (cases "a_Silence (tk_alert t)") (auto simp: finish_def Let_def save_def)
  moreover have "distinct (map fst (e_silences e)) \<longrightarrow> distinct (map fst (e_silences (fst (finish now note e t))))"
    using True by (cases "a_Silence (tk_alert t)") (auto simp: finish_def Let_def save_def distinct_update)
  moreover have "e_windows (fst (finish now note e t)) = e_windows e"
    using True by (cases "a_Silence (tk_alert t)") (auto simp: finish_def Let_def save_def)
  moreover have "\<exists>xs. e_stored (fst (finish now note e t)) = e_stored e @ xs \<and> list_all stored_ok xs"
    using True by (cases "a_Silence (tk_alert t)") (auto simp: finish_def Let_def save_def stored_ok_def alert_state_names)
  moreover have "list_all (notice_ok now) (snd (finish now note e t))"
    using True by (simp add: finish_def Let_def notice_ok_def)
  ultimately show ?thesis by (auto simp: step_rel_def distinct_delete)
qed

lemma step_rel_trans:
  assumes "step_rel now k e r" and "step_rel now k (fst r) r'"
  shows "step_rel now k e (fst r', snd r @ snd r')"
  using assms unfolding step_rel_def Let_def by fastforce

section \<open>Every step keeps the contract\<close>

lemma refresh_keeps [simp]:
  "tk_key (refresh now r st obs rd t) = tk_key t"
  "tk_state (refresh now r st obs rd t) = tk_state t"
  "a_State (tk_alert (refresh now r st obs rd t)) = a_State (tk_alert t)"
  "a_FiredAt (tk_alert (refresh now r st obs rd t)) = a_FiredAt (tk_alert t)"
  "a_Notified (tk_alert (refresh now r st obs rd t)) = a_Notified (tk_alert t)"
  by (simp_all add: refresh_def Let_def split: option.split)

lemma refresh_silence:
  "a_Silence (tk_alert (refresh now r st obs rd t)) =
   (if silence_Active (a_Silence (tk_alert t)) now then a_Silence (tk_alert t) else None)"
  by (simp add: refresh_def Let_def silence_Active_def split: option.split)

lemma alert_step_cases:
  assumes "alert_step s obs now tm = (s', tr)"
  shows "tr = Fire \<Longrightarrow> Phase s \<noteq> Firing \<and> Phase s' = Firing \<and> FiredAt s' = now"
    and "tr = Remind \<Longrightarrow> Phase s = Firing \<and> Phase s' = Firing \<and> FiredAt s' = FiredAt s \<and>
      LastNotified s' = now"
    and "tr = Resolve \<Longrightarrow> Phase s = Firing"
    and "tr = NoTransition \<Longrightarrow> Phase s' = Firing \<longleftrightarrow> Phase s = Firing"
    and "tr = NoTransition \<Longrightarrow> Phase s = Firing \<Longrightarrow> FiredAt s' = FiredAt s"
  using assms
  by (cases "Phase s"; cases obs; auto simp: alert_step_def step_pending_def step_firing_def Let_def zero_state_def
      split: if_splits)+

lemma act_step_rel:
  assumes st: "alert_step s obs now tm = (s', tr)" and "tk_key t = k" and "tk_state t = s'"
    and "Phase s = Firing \<Longrightarrow> a_State (tk_alert t) = AlertFiring \<and> a_FiredAt (tk_alert t) = Some (FiredAt s)"
    and "Phase s \<noteq> Firing \<Longrightarrow> a_State (tk_alert t) = AlertPending \<and> a_FiredAt (tk_alert t) = None \<and> \<not> a_Notified (tk_alert t)"
    and "a_Silence (tk_alert t) \<noteq> None \<Longrightarrow> silence_Active (a_Silence (tk_alert t)) now"
  shows "step_rel now k e (act now k tr e t)"
proof (cases tr)
  case Fire
  then show ?thesis using assms alert_step_cases(1) [OF st]
    by (auto simp: act_def act_fire_def Let_def tracked_ok_def announced_def notified_def notice_ok_def
        silence_Active_def intro!: step_rel_put)
next
  case Remind
  then show ?thesis using assms alert_step_cases(2) [OF st]
    by (auto simp: act_def act_remind_def Let_def tracked_ok_def announced_def notice_ok_def
        silence_Active_def intro!: step_rel_put)
next
  case Resolve
  then show ?thesis using assms by (simp add: act_def step_rel_finish)
next
  case NoTransition
  show ?thesis
  proof (cases "Phase s'")
    case Inactive
    then show ?thesis using NoTransition assms(3) by (simp add: act_def step_rel_drop)
  next
    case Pending
    then show ?thesis using NoTransition assms alert_step_cases(4) [OF st]
      by (auto simp: act_def act_pending_def Let_def tracked_ok_def announced_def intro!: step_rel_put)
  next
    case Firing
    then show ?thesis using NoTransition assms alert_step_cases(4,5) [OF st]
      by (auto simp: act_def act_firing_def Let_def tracked_ok_def announced_def notified_def notice_ok_def
        silence_Active_def intro!: step_rel_put)
  qed
qed

lemma step_tracked_rel:
  assumes "tracked_ok k t"
  shows "step_rel now k e (step_tracked now recovery k r st obs rd e t)"
proof -
  obtain s' tr where s: "alert_step (tk_state t) obs now (rule_timing r recovery) = (s', tr)" by force
  show ?thesis unfolding step_tracked_def s prod.case
    by (rule act_step_rel [OF s]) (use assms in \<open>auto simp: tracked_ok_def refresh_silence\<close>)
qed

lemma track_new_fields [simp]:
  "tk_key (track_new newID now k st e) = k"
  "tk_state (track_new newID now k st e) = zero_state"
  "a_State (tk_alert (track_new newID now k st e)) = AlertPending"
  "a_FiredAt (tk_alert (track_new newID now k st e)) = None"
  "\<not> a_Notified (tk_alert (track_new newID now k st e))"
  by (simp_all add: track_new_def Let_def zero_alert_def split: option.split)

lemma step_rel_replaced:
  assumes "step_rel now k (e\<lparr>e_active := AList.update k t (e_active e), e_drawn := n\<rparr>) res"
  shows "step_rel now k e res"
proof -
  obtain x where x: "map_of (e_active (fst res)) = (map_of (AList.update k t (e_active e)))(k := x)"
    "\<forall>t. x = Some t \<longrightarrow> tracked_ok k t \<and> announced now t"
    using assms by (auto simp: step_rel_def Let_def)
  then have "map_of (e_active (fst res)) = (map_of (e_active e))(k := x)" by (simp add: update_conv')
  with x(2) assms show ?thesis
    unfolding step_rel_def Let_def by (auto simp: distinct_update)
qed

lemma step_rel_refl: "map_of (e_active e) k = None \<Longrightarrow> step_rel now k e (e, [])"
  unfolding step_rel_def Let_def by (auto intro!: exI [of _ None])

lemma step_untracked_rel:
  assumes "map_of (e_active e) k = None"
  shows "step_rel now k e (step_untracked newID now recovery k r st obs rd e)"
proof (cases "obs = Breach")
  case False
  then show ?thesis using step_rel_refl [OF assms] by (simp add: step_untracked_def)
next
  case True
  define t where "t = track_new newID now k st e"
  define e' where "e' = e\<lparr>e_active := AList.update k t (e_active e), e_drawn := Suc (e_drawn e)\<rparr>"
  obtain s' tr where s: "alert_step (tk_state t) obs now (rule_timing r recovery) = (s', tr)" by force
  have "step_rel now k e' (step_tracked now recovery k r st obs rd e' t)"
    unfolding step_tracked_def s prod.case
    by (rule act_step_rel [OF s]) (auto simp: refresh_silence t_def zero_state_def)
  then have "step_rel now k e (step_tracked now recovery k r st obs rd e' t)"
    unfolding e'_def by (rule step_rel_replaced)
  with True show ?thesis by (simp add: step_untracked_def Let_def e'_def t_def)
qed

lemma engine_step_rel:
  assumes "engine_ok e"
  shows "step_rel now k e (engine_step newID now recovery k r st obs rd e)"
proof (cases "map_of (e_active e) k")
  case None
  then show ?thesis using step_untracked_rel by (simp add: engine_step_def)
next
  case (Some t)
  then have t: "tracked_ok k t" using assms by (simp add: engine_ok_def)
  show ?thesis
  proof (cases "a_Metric (tk_alert t) = ar_Metric r")
    case True
    then show ?thesis using Some t step_tracked_rel by (simp add: engine_step_def)
  next
    case False
    obtain e1 out where f: "finish now ''rule changed'' e t = (e1, out)" by force
    have rel: "step_rel now k e (e1, out)"
      using step_rel_finish [of t k now e "''rule changed''"] t f by (simp add: tracked_ok_def)
    have "e_active e1 = AList.delete k (e_active e)"
      using f t by (cases "a_Silence (tk_alert t)")
        (auto simp: finish_def Let_def save_def tracked_ok_def split: if_splits)
    then have "map_of (e_active e1) k = None" by (simp add: delete_conv')
    then have "step_rel now k e1 (step_untracked newID now recovery k r st obs rd e1)"
      by (rule step_untracked_rel)
    with rel have "step_rel now k e (fst (step_untracked newID now recovery k r st obs rd e1),
        out @ snd (step_untracked newID now recovery k r st obs rd e1))"
      using step_rel_trans [of now k e "(e1, out)"] by simp
    with Some False f show ?thesis by (simp add: engine_step_def case_prod_beta)
  qed
qed

lemma step_rel_engine_ok:
  "engine_ok e \<Longrightarrow> step_rel now k e res \<Longrightarrow> engine_ok (fst res)"
  unfolding engine_ok_def step_rel_def Let_def by (auto split: if_splits simp del: map_of_eq_Some_iff)

section \<open>Every evaluation keeps the contract\<close>

definition eval_inv :: "bool \<Rightarrow> instant \<Rightarrow> evaluating \<Rightarrow> bool" where
  "eval_inv b now v \<longleftrightarrow>
     engine_ok (ev_engine v) \<and> list_all (notice_ok now) (ev_out v) \<and>
     (b \<longrightarrow> (\<forall>k t. k \<in> set (ev_seen v) \<and> map_of (e_active (ev_engine v)) k = Some t \<longrightarrow> announced now t))"

lemma eval_inv_step:
  assumes "eval_inv b now v" and "step_rel now k (ev_engine v) (e, out)"
    and "seen \<subseteq> insert k (set (ev_seen v))" and "seen = set ss"
  shows "eval_inv b now (v\<lparr>ev_seen := ss, ev_engine := e, ev_out := ev_out v @ out\<rparr>)"
proof -
  obtain x where x: "map_of (e_active e) = (map_of (e_active (ev_engine v)))(k := x)"
    "\<forall>t. x = Some t \<longrightarrow> announced now t"
    using assms(2) by (auto simp: step_rel_def Let_def)
  have "engine_ok e" using step_rel_engine_ok [OF _ assms(2)] assms(1) by (simp add: eval_inv_def)
  moreover have "list_all (notice_ok now) out" using assms(2) by (simp add: step_rel_def Let_def)
  ultimately show ?thesis using assms x by (auto simp: eval_inv_def split: if_splits)
qed

lemma eval_rule_inv:
  assumes "eval_inv b now v" and "b \<Longrightarrow> \<not> hold"
  shows "eval_inv b now (eval_rule newID now recovery subj st hold m v r)"
    and "set (ev_seen (eval_rule newID now recovery subj st hold m v r)) = insert (alert_key (ar_ID r) subj) (set (ev_seen v))"
    and "ev_live (eval_rule newID now recovery subj st hold m v r) = ev_live v"
proof -
  let ?k = "alert_key (ar_ID r) subj"
  obtain obs rd where m: "m r = (obs, rd)" by force
  obtain e out where s: "engine_step newID now recovery ?k r st obs rd (ev_engine v) = (e, out)" by force
  have rel: "step_rel now ?k (ev_engine v) (e, out)"
    unfolding s [symmetric] using assms(1) by (intro engine_step_rel) (simp add: eval_inv_def)
  show "eval_inv b now (eval_rule newID now recovery subj st hold m v r)"
  proof (cases hold)
    case True
    then show ?thesis using assms by (auto simp: eval_rule_def eval_inv_def)
  next
    case False
    then show ?thesis
      using eval_inv_step [OF assms(1) rel, of "set (?k # ev_seen v)" "?k # ev_seen v"] m s
      by (simp add: eval_rule_def)
  qed
  show "set (ev_seen (eval_rule newID now recovery subj st hold m v r)) = insert ?k (set (ev_seen v))"
    "ev_live (eval_rule newID now recovery subj st hold m v r) = ev_live v"
    by (simp_all add: eval_rule_def Let_def m s)
qed

lemma eval_rules_inv:
  assumes "eval_inv b now v" and "b \<Longrightarrow> \<not> hold"
  shows "eval_inv b now (foldl (eval_rule newID now recovery subj st hold m) v rs) \<and>
    set (ev_seen (foldl (eval_rule newID now recovery subj st hold m) v rs)) =
      set (ev_seen v) \<union> (\<lambda>r. alert_key (ar_ID r) subj) ` set rs"
  using assms
proof (induction rs arbitrary: v)
  case (Cons r rs)
  note v' = eval_rule_inv [OF Cons.prems, of newID recovery subj st m r]
  show ?case using Cons.IH [OF v'(1) Cons.prems(2)] v'(2) by auto
qed simp

definition site_keys :: "alert_settings \<Rightarrow> site_sample \<Rightarrow> string set" where
  "site_keys cfg i =
     (if as_Enabled cfg then
        (\<lambda>r. alert_key (ar_ID r) (SlotKey (site_ID (sm_Site i)) (site_Slot (sm_Site i)))) `
          set (EffectiveAlertRules (as_SiteRules cfg) (sm_Site i))
      else {})"

definition evaluated_keys :: "alert_settings \<Rightarrow> site_sample list \<Rightarrow> string set" where
  "evaluated_keys cfg sites =
     (\<Union>i \<in> set sites. site_keys cfg i) \<union>
     (if as_Enabled cfg then {alert_key (ar_ID r) [] | r. r \<in> set (as_ServerRules cfg) \<and> \<not> ar_Disabled r} else {})"

lemma eval_site_inv:
  assumes "eval_inv b now v" and "b \<Longrightarrow> \<not> sm_Hold i"
  shows "eval_inv b now (eval_site newID bounds now cfg v i) \<and>
    set (ev_seen (eval_site newID bounds now cfg v i)) = set (ev_seen v) \<union> site_keys cfg i"
proof -
  define sub where "sub = SlotKey (site_ID (sm_Site i)) (site_Slot (sm_Site i))"
  define w where "w = window_add (case map_of (e_windows (ev_engine v)) sub of None \<Rightarrow> [] | Some w \<Rightarrow> w) (sampleCounters now i)"
  define v' where "v' = v\<lparr>ev_live := site_ID (sm_Site i) # sub # ev_live v,
      ev_engine := (ev_engine v)\<lparr>e_windows := AList.update sub w (e_windows (ev_engine v))\<rparr>\<rparr>"
  have v': "eval_inv b now v'" "ev_seen v' = ev_seen v"
    using assms(1) by (simp_all add: v'_def eval_inv_def engine_ok_def distinct_update)
  have "eval_site newID bounds now cfg v i =
      (if \<not> as_Enabled cfg then v'
       else foldl (eval_rule newID now (wrap64 (as_RecoveryMinutes cfg * minute)) sub (Some (sm_Site i)) (sm_Hold i)
                     (\<lambda>r. measureSite r i w bounds)) v' (EffectiveAlertRules (as_SiteRules cfg) (sm_Site i)))"
    by (simp add: eval_site_def Let_def v'_def w_def sub_def)
  then show ?thesis
    using eval_rules_inv [OF v'(1) assms(2)] v' by (simp add: site_keys_def sub_def)
qed

lemma eval_sites_inv:
  assumes "eval_inv b now v" and "\<And>i. i \<in> set sites \<Longrightarrow> b \<Longrightarrow> \<not> sm_Hold i"
  shows "eval_inv b now (foldl (eval_site newID bounds now cfg) v sites) \<and>
    set (ev_seen (foldl (eval_site newID bounds now cfg) v sites)) = set (ev_seen v) \<union> (\<Union>i \<in> set sites. site_keys cfg i)"
  using assms
proof (induction sites arbitrary: v)
  case (Cons i sites)
  have "eval_inv b now (eval_site newID bounds now cfg v i) \<and>
      set (ev_seen (eval_site newID bounds now cfg v i)) = set (ev_seen v) \<union> site_keys cfg i"
    using Cons.prems by (intro eval_site_inv) auto
  then show ?case using Cons.IH [of "eval_site newID bounds now cfg v i"] Cons.prems(2) by auto
qed simp

lemma eval_unseen_inv:
  assumes "eval_inv b now v" and "\<forall>(k, t) \<in> set kts. tk_key t = k"
  shows "eval_inv b now (foldl (eval_unseen now cfg) v kts) \<and>
    ev_seen (foldl (eval_unseen now cfg) v kts) = ev_seen v \<and>
    (\<forall>k. map_of (e_active (ev_engine (foldl (eval_unseen now cfg) v kts))) k =
      (if k \<in> set (ev_seen v) \<or> k \<notin> fst ` set kts then map_of (e_active (ev_engine v)) k else None))"
  using assms
proof (induction kts arbitrary: v)
  case (Cons kt kts)
  obtain k t where kt: "kt = (k, t)" by force
  show ?case
  proof (cases "k \<in> set (ev_seen v)")
    case True
    then have "eval_unseen now cfg v kt = v" by (simp add: eval_unseen_def kt)
    then show ?thesis using Cons.IH [OF Cons.prems(1)] Cons.prems(2) True kt by auto
  next
    case False
    obtain e out where f: "finish now (end_note cfg (ev_live v) (tk_alert t)) (ev_engine v) t = (e, out)" by force
    have key: "tk_key t = k" using Cons.prems(2) kt by simp
    have rel: "step_rel now k (ev_engine v) (e, out)"
      unfolding f [symmetric] by (rule step_rel_finish [OF key])
    have "e_active e = AList.delete k (e_active (ev_engine v))"
      using f key by (cases "a_Silence (tk_alert t)")
        (auto simp: finish_def Let_def save_def split: if_splits)
    then have del: "map_of (e_active e) = (map_of (e_active (ev_engine v)))(k := None)" by (simp add: delete_conv')
    let ?v = "v\<lparr>ev_engine := e, ev_out := ev_out v @ out\<rparr>"
    have "eval_inv b now ?v"
      using eval_inv_step [OF Cons.prems(1) rel, of "set (ev_seen v)" "ev_seen v"] by auto
    moreover have "eval_unseen now cfg v kt = ?v" using False f by (simp add: eval_unseen_def kt)
    ultimately show ?thesis using Cons.IH [of ?v] Cons.prems(2) False kt del by auto
  qed
qed simp

lemma evaluate_all_inv:
  assumes "engine_ok e" and "\<And>i. i \<in> set sites \<Longrightarrow> b \<Longrightarrow> \<not> sm_Hold i"
  shows "eval_inv b now (evaluate_all newID bounds now cfg sites server e) \<and>
    set (ev_seen (evaluate_all newID bounds now cfg sites server e)) = evaluated_keys cfg sites \<and>
    dom (map_of (e_active (ev_engine (evaluate_all newID bounds now cfg sites server e)))) \<subseteq> evaluated_keys cfg sites"
proof -
  define v0 where "v0 = \<lparr>ev_engine = e, ev_seen = [], ev_live = [], ev_out = []\<rparr>"
  define v1 where "v1 = foldl (eval_site newID bounds now cfg) v0 sites"
  define v2 where "v2 = v1\<lparr>ev_engine := (ev_engine v1)\<lparr>e_windows :=
      filter (\<lambda>w. fst w \<in> set (ev_live v1)) (e_windows (ev_engine v1))\<rparr>\<rparr>"
  define v3 where "v3 = (if as_Enabled cfg then
      foldl (eval_rule newID now (wrap64 (as_RecoveryMinutes cfg * minute)) [] None False (\<lambda>r. measureServer r server))
        v2 (filter (\<lambda>r. \<not> ar_Disabled r) (as_ServerRules cfg)) else v2)"
  define v4 where "v4 = foldl (eval_unseen now cfg) v3 (e_active (ev_engine v3))"
  have "eval_inv b now v0" using assms(1) by (simp add: v0_def eval_inv_def)
  then have v1: "eval_inv b now v1" "set (ev_seen v1) = (\<Union>i \<in> set sites. site_keys cfg i)"
    using eval_sites_inv [of b now v0 sites newID bounds cfg] assms(2) by (simp_all add: v1_def v0_def)
  then have v2: "eval_inv b now v2" "ev_seen v2 = ev_seen v1"
    by (simp_all add: v2_def eval_inv_def engine_ok_def distinct_map_filter)
  then have v3: "eval_inv b now v3" "set (ev_seen v3) = evaluated_keys cfg sites"
    using eval_rules_inv [OF v2(1), of False newID] v1(2) v2(2) by (auto simp: v3_def evaluated_keys_def)
  then have "distinct (map fst (e_active (ev_engine v3)))" by (simp add: eval_inv_def engine_ok_def)
  with v3(1) have "\<forall>(k, t) \<in> set (e_active (ev_engine v3)). tk_key t = k"
    by (auto simp: eval_inv_def engine_ok_def tracked_ok_def)
  note v4 = eval_unseen_inv [OF v3(1) this, of cfg, folded v4_def]
  have "dom (map_of (e_active (ev_engine v4))) \<subseteq> evaluated_keys cfg sites"
    using v4 v3(2) by (auto simp: dom_def map_of_eq_None_iff [symmetric] split: if_splits)
  moreover have "evaluate_all newID bounds now cfg sites server e = v4\<lparr>ev_engine := (ev_engine v4)\<lparr>e_silences :=
             filter (\<lambda>ks. silence_Active (Some (snd ks)) now) (e_silences (ev_engine v4))\<rparr>\<rparr>"
    by (simp add: evaluate_all_def Let_def v4_def v3_def v2_def v1_def v0_def)
  ultimately show ?thesis using v4 v3(2) by (simp add: eval_inv_def engine_ok_def distinct_map_filter)
qed

section \<open>The engine as a machine\<close>

datatype engine_op =
    Evaluate instant alert_settings "site_sample list" server_sample
  | SilenceOp string int string string instant
  | UnsilenceOp string instant

fun engine_do :: "(nat \<Rightarrow> string) \<Rightarrow> rat list \<Rightarrow> engine \<Rightarrow> engine_op \<Rightarrow> engine" where
  "engine_do newID bounds e (Evaluate now cfg sites server) = fst (evaluate newID bounds now cfg sites server e)"
| "engine_do newID bounds e (SilenceOp a mins u note now) = fst (Silence a mins u note now e)"
| "engine_do newID bounds e (UnsilenceOp a now) = fst (Unsilence a now e)"

lemma find_tracked_active:
  assumes "engine_ok e" and "find_tracked a e = Some t"
  shows "map_of (e_active e) (tk_key t) = Some t" and "tracked_ok (tk_key t) t"
proof -
  have "t \<in> snd ` set (e_active e)" using assms(2) by (auto simp: find_tracked_def find_Some_iff)
  then obtain k where k: "(k, t) \<in> set (e_active e)" by force
  then have "map_of (e_active e) k = Some t" using assms(1) by (simp add: engine_ok_def)
  moreover from this have "tracked_ok k t" using assms(1) unfolding engine_ok_def by blast
  ultimately show "map_of (e_active e) (tk_key t) = Some t" and "tracked_ok (tk_key t) t"
    by (auto simp: tracked_ok_def)
qed

lemma put_save_ok:
  assumes "engine_ok e" and "tracked_ok k t"
  shows "engine_ok (put_active k (save now e t))"
proof -
  have "tracked_ok k (snd (save now e t))" using assms(2) by (auto simp: save_def tracked_ok_def)
  moreover have "list_all stored_ok (e_stored (fst (save now e t)))"
    using assms by (auto simp: save_def tracked_ok_def stored_ok_def engine_ok_def)
  moreover have "e_active (fst (save now e t)) = e_active e" "e_windows (fst (save now e t)) = e_windows e"
    "e_silences (fst (save now e t)) = e_silences e" by (simp_all add: save_def)
  ultimately show ?thesis using assms(1) unfolding engine_ok_def put_active_def
    by (auto simp: distinct_update update_conv' simp del: map_of_eq_Some_iff split: if_splits)
qed

lemma engine_do_ok: "engine_ok e \<Longrightarrow> engine_ok (engine_do newID bounds e opn)"
proof (cases opn)
  case (Evaluate now cfg sites server)
  assume "engine_ok e"
  from evaluate_all_inv [OF this, of sites False now] Evaluate show ?thesis
    by (simp add: evaluate_def eval_inv_def Let_def)
next
  case (SilenceOp a mins u nt now)
  assume e: "engine_ok e"
  have keep: "tracked_ok k t \<Longrightarrow> tracked_ok k (t\<lparr>tk_alert := (tk_alert t)\<lparr>a_Silence := s\<rparr>\<rparr>)" for k t s
    by (simp add: tracked_ok_def)
  show ?thesis using e find_tracked_active(2) [OF e] SilenceOp
    by (auto simp: Silence_def Let_def intro!: put_save_ok keep split: option.split)
next
  case (UnsilenceOp a now)
  assume e: "engine_ok e"
  have keep: "tracked_ok k t \<Longrightarrow> tracked_ok k (t\<lparr>tk_alert := (tk_alert t)\<lparr>a_Silence := s\<rparr>\<rparr>)" for k t s
    by (simp add: tracked_ok_def)
  have "engine_ok (e\<lparr>e_silences := AList.delete k (e_silences e)\<rparr>)" for k
    using e by (simp add: engine_ok_def distinct_delete)
  then show ?thesis using e find_tracked_active(2) [OF e] UnsilenceOp
    by (auto simp: Unsilence_def Let_def intro!: put_save_ok keep split: option.split)
qed

interpretation alert_engine: invariant_machine "engine_do newID bounds" "\<lambda>e opn. True" engine_ok
  for newID bounds
  by unfold_locales (rule engine_do_ok)

lemma load_firing_ok:
  "engine_ok e \<Longrightarrow> a_State a = AlertFiring \<Longrightarrow> engine_ok (load_firing now e a)"
  unfolding engine_ok_def load_firing_def Let_def
  by (auto simp: distinct_update update_conv' tracked_ok_def simp del: map_of_eq_Some_iff split: option.split if_splits)

lemma load_silence_ok: "engine_ok e \<Longrightarrow> engine_ok (load_silence now e a)"
  unfolding engine_ok_def load_silence_def by (auto simp: distinct_update split: option.split)

lemma Load_ok:
  assumes "Load (Some fs) (Some rs) now e = Some e'" and "engine_ok e" and "\<forall>a \<in> set fs. a_State a = AlertFiring"
  shows "engine_ok e'"
proof -
  have "engine_ok (foldl (load_firing now) e fs)"
    using assms(2,3) by (induction fs arbitrary: e) (auto intro: load_firing_ok)
  then have "engine_ok (foldl (load_silence now) (foldl (load_firing now) e fs) xs)" for xs
    by (induction xs rule: rev_induct) (auto intro: load_silence_ok)
  then show ?thesis using assms(1) by (auto simp: Load_def)
qed

text \<open>
  C25. After a start that loads the firing alerts of the store, whatever evaluations,
  silences and unsilences follow: each key tracks one alert, whose state agrees with its
  phase (an alert that has not fired is pending and unannounced), and nothing was stored
  but alerts that fired.
\<close>

theorem engine_contract:
  assumes "Load (Some fs) (Some rs) now new_engine = Some e" and "\<forall>a \<in> set fs. a_State a = AlertFiring"
  shows "engine_ok (foldl (engine_do newID bounds) e ops)"
proof -
  have "engine_ok new_engine" by (simp add: engine_ok_def new_engine_def)
  then have "engine_ok e" using Load_ok assms by blast
  then show ?thesis by (rule alert_engine.run_keeps) simp
qed

definition sample_alert :: alert where
  "sample_alert = zero_alert\<lparr>a_ID := ''a1'', a_RuleID := ''errors'', a_SiteID := ''s1'', a_Metric := ''errorRate'',
     a_State := AlertFiring, a_FiredAt := Some 5, a_Notified := True\<rparr>"

theorem engine_contract_witness:
  "\<exists>e. Load (Some [sample_alert]) (Some []) 10 new_engine = Some e \<and>
     engine_ok (foldl (engine_do (\<lambda>n. show_nat n) []) e [UnsilenceOp ''a1'' 20])"
proof -
  obtain e where e: "Load (Some [sample_alert]) (Some []) 10 new_engine = Some e" by (simp add: Load_def)
  have "engine_ok (foldl (engine_do (\<lambda>n. show_nat n) []) e [UnsilenceOp ''a1'' 20])"
    by (rule engine_contract [OF e]) (simp add: sample_alert_def)
  with e show ?thesis by blast
qed

section \<open>Notices\<close>

lemma set_limitNotices:
  assumes "n \<in> set (limitNotices out)"
  shows "n \<in> set out \<or> nt_Kind n = NoTransition"
proof (cases "length out \<le> maxNotices")
  case True
  then show ?thesis using assms by (simp add: limitNotices_def)
next
  case False
  then have "n \<in> set (take maxNotices (sort_key noticeRank out)) \<or> nt_Kind n = NoTransition"
    using assms by (auto simp: limitNotices_def Let_def)
  then show ?thesis using set_take_subset [of maxNotices "sort_key noticeRank out"] by auto
qed

text \<open>
  Every notification of an evaluation is due: a firing or a reminder is for a firing
  alert that no silence covers at that moment, a resolution for an alert that had been
  announced; what is left is the summary.
\<close>

theorem evaluation_notices_due:
  assumes "engine_ok e"
  shows "\<forall>n \<in> set (snd (evaluate newID bounds now cfg sites server e)). notice_ok now n \<or> nt_Kind n = NoTransition"
proof -
  have "list_all (notice_ok now) (ev_out (evaluate_all newID bounds now cfg sites server e))"
    using evaluate_all_inv [OF assms, of sites False now] by (simp add: eval_inv_def)
  then show ?thesis using set_limitNotices by (fastforce simp: evaluate_def Let_def list_all_iff)
qed

theorem evaluation_notices_due_witness:
  "list_all (\<lambda>n. notice_ok (3 * minute) n \<or> nt_Kind n = NoTransition)
     (snd (evaluate (\<lambda>n. show_nat n) [] (3 * minute) (sample_settings [sample_rule ''errors'' 5])
      [sample_watch StateRunning] \<lparr>sv_CPUPercent = 5, sv_MemoryPercent = 5, sv_Disks = []\<rparr> new_engine))"
  unfolding list_all_iff
  by (rule evaluation_notices_due) (simp add: engine_ok_def new_engine_def)

text \<open>
  After an evaluation nothing is tracked but what a rule in force watches (with
  alerts off, nothing), and unless a site was held back, every alert that fires has been
  announced or is covered by a silence (or its reminder fell due just when its silence
  was found over).
\<close>

theorem evaluation_leaves:
  assumes "engine_ok e" and "evaluate newID bounds now cfg sites server e = (e', out)"
    and "map_of (e_active e') k = Some t"
  shows "k \<in> evaluated_keys cfg sites \<and> as_Enabled cfg \<and>
    ((\<forall>i \<in> set sites. \<not> sm_Hold i) \<longrightarrow> announced now t)"
proof -
  let ?b = "\<forall>i \<in> set sites. \<not> sm_Hold i"
  let ?v = "evaluate_all newID bounds now cfg sites server e"
  have e': "e' = ev_engine ?v" using assms(2) by (simp add: evaluate_def Let_def)
  note inv = evaluate_all_inv [OF assms(1), of sites ?b now newID bounds cfg server]
  have k: "k \<in> evaluated_keys cfg sites" using inv assms(3) e' by auto
  moreover have "as_Enabled cfg" using k by (auto simp: evaluated_keys_def site_keys_def split: if_splits)
  moreover have "?b \<longrightarrow> announced now t"
    using inv assms(3) k e' unfolding eval_inv_def by metis
  ultimately show ?thesis by blast
qed

definition sample_engine :: engine where
  "sample_engine = load_firing 10 new_engine sample_alert"

lemma sample_engine_ok: "engine_ok sample_engine"
  unfolding sample_engine_def
  by (rule load_firing_ok) (simp_all add: engine_ok_def new_engine_def sample_alert_def)

theorem evaluation_leaves_witness:
  "let r = evaluate (\<lambda>n. show_nat n) [] (3 * minute) (sample_settings [sample_rule ''errors'' 5])
      [sample_watch StateRunning] \<lparr>sv_CPUPercent = 5, sv_MemoryPercent = 5, sv_Disks = []\<rparr> sample_engine;
     t = the (map_of (e_active (fst r)) ''errors|s1'')
   in map_of (e_active (fst r)) ''errors|s1'' = Some t \<and> announced (3 * minute) t"
proof -
  let ?r = "evaluate (\<lambda>n. show_nat n) [] (3 * minute) (sample_settings [sample_rule ''errors'' 5])
      [sample_watch StateRunning] \<lparr>sv_CPUPercent = 5, sv_MemoryPercent = 5, sv_Disks = []\<rparr> sample_engine"
  have "map_option (\<lambda>t. True) (map_of (e_active (fst ?r)) ''errors|s1'') = Some True" by code_simp
  then obtain t where t: "map_of (e_active (fst ?r)) ''errors|s1'' = Some t" by auto
  have "announced (3 * minute) t"
    using evaluation_leaves [OF sample_engine_ok prod.collapse [symmetric] t] by (simp add: sample_watch_def)
  with t show ?thesis by (simp add: Let_def)
qed

text \<open>
  One evaluation delivers at most eleven notifications: up to ten as they are;
  otherwise the ten most important (critical firings, then firings, then reminders, then
  resolutions) and one that counts all the others.
\<close>

theorem limitNotices_most_important:
  assumes "maxNotices < length out"
  shows "\<exists>kept left s. limitNotices out = kept @ [s] \<and> length kept = maxNotices \<and>
    mset out = mset kept + mset left \<and> (\<forall>a \<in> set kept. \<forall>b \<in> set left. noticeRank a \<le> noticeRank b) \<and>
    nt_Kind s = NoTransition \<and> nt_Message s = summaryMessage left"
proof -
  let ?s = "sort_key noticeRank out"
  let ?kept = "take maxNotices ?s" and ?left = "drop maxNotices ?s"
  have "mset out = mset ?kept + mset ?left"
    by (metis append_take_drop_id mset_append mset_sort)
  moreover have "\<forall>a \<in> set ?kept. \<forall>b \<in> set ?left. noticeRank a \<le> noticeRank b"
  proof -
    have "sorted (map noticeRank (?kept @ ?left))" unfolding append_take_drop_id by (rule sorted_sort_key)
    then show ?thesis unfolding map_append sorted_append by auto
  qed
  moreover have "\<exists>s. limitNotices out = ?kept @ [s] \<and> nt_Kind s = NoTransition \<and> nt_Message s = summaryMessage ?left"
    using assms by (simp add: limitNotices_def Let_def)
  moreover have "length ?kept = maxNotices" using assms by simp
  ultimately show ?thesis by blast
qed

theorem limitNotices_most_important_witness:
  "\<exists>kept left s. limitNotices (replicate 12 \<lparr>nt_Kind = Fire, nt_Alert = sample_alert, nt_Message = []\<rparr>) = kept @ [s] \<and>
     length kept = maxNotices \<and> nt_Kind s = NoTransition \<and> nt_Message s = summaryMessage left"
proof -
  have "maxNotices < length (replicate 12 \<lparr>nt_Kind = Fire, nt_Alert = sample_alert, nt_Message = []\<rparr>)"
    by (simp add: maxNotices_def)
  from limitNotices_most_important [OF this] show ?thesis by blast
qed

lemma finish_no_fire: "Fire \<notin> nt_Kind ` set (snd (finish now nt e t))"
  by (auto simp: finish_def Let_def)

text \<open>
  A firing is announced once: while an announced alert is tracked (also one that was
  loaded after a restart), no evaluation of its rule sends its firing again.
\<close>

theorem announced_once:
  assumes "engine_ok e" and "map_of (e_active e) k = Some t" and "a_Notified (tk_alert t)"
    and "a_Metric (tk_alert t) = ar_Metric r"
  shows "Fire \<notin> nt_Kind ` set (snd (engine_step newID now recovery k r st obs rd e))"
proof -
  have t: "tracked_ok k t" using assms(1,2) by (simp add: engine_ok_def)
  obtain s' tr where s: "alert_step (tk_state t) obs now (rule_timing r recovery) = (s', tr)" by force
  define t' where "t' = refresh now r st obs rd (t\<lparr>tk_state := s'\<rparr>)"
  have n: "a_Notified (tk_alert t')" using assms(3) by (simp add: t'_def)
  have "Phase (tk_state t) = Firing" using t assms(3) by (auto simp: tracked_ok_def)
  then have "tr \<noteq> Fire" using alert_step_cases(1) [OF s] by auto
  then have "Fire \<notin> nt_Kind ` set (snd (act now k tr e t'))"
    using n finish_no_fire
    by (cases tr; cases "Phase (tk_state t')")
       (auto simp: act_def act_remind_def act_firing_def act_pending_def Let_def)
  then show ?thesis using assms(2,4) s by (simp add: engine_step_def step_tracked_def t'_def)
qed

theorem announced_once_witness:
  "Fire \<notin> nt_Kind ` set (snd (engine_step (\<lambda>n. show_nat n) minute minute ''errors|s1'' (sample_rule ''errors'' 5) None Breach
     zero_reading sample_engine))"
proof -
  have "subject_key sample_alert = ''errors|s1''" by code_simp
  then obtain t where t: "map_of (e_active sample_engine) ''errors|s1'' = Some t" "tk_alert t = sample_alert"
    by (simp add: sample_engine_def load_firing_def sample_alert_def new_engine_def Let_def)
  show ?thesis
    by (rule announced_once [OF sample_engine_ok t(1)]) (simp_all add: t(2) sample_alert_def sample_rule_def)
qed

end
