(* ===== verification/Cron.thy ===== *)
theory Cron
  imports Go_Prelude
begin

text \<open>
  Schedules (\<^verbatim>\<open>internal/cron/cron.go\<close>): parsing of cron expressions into bit sets and of
  \<^verbatim>\<open>@every\<close> durations, and the search for the next time. A field is a 64-bit word, and the
  loop of \<^verbatim>\<open>parseRange\<close> keeps the wrap-around of Go's \<^verbatim>\<open>int\<close>. The search runs on wall-clock
  times as the code does, as civil dates of the proleptic Gregorian calendar; the location
  is a parameter: the wall-clock time an instant shows, and \<^verbatim>\<open>time.Date\<close>.
\<close>

unbundle bit_operations_syntax

section \<open>Wall-clock times\<close>

record wall =
  w_year :: int
  w_month :: int
  w_day :: int
  w_hour :: int
  w_min :: int

definition leap :: "int \<Rightarrow> bool" where
  "leap y \<longleftrightarrow> y mod 4 = 0 \<and> (y mod 100 \<noteq> 0 \<or> y mod 400 = 0)"

definition days_in :: "int \<Rightarrow> int \<Rightarrow> int" where
  "days_in y m = (if m = 2 then (if leap y then 29 else 28) else if m \<in> {4, 6, 9, 11} then 30 else 31)"

text \<open>Days before a year, counted from 1 January of year 1, and before a month of it.\<close>

definition year_start :: "int \<Rightarrow> int" where
  "year_start y = 365 * (y - 1) + (y - 1) div 4 - (y - 1) div 100 + (y - 1) div 400"

definition month_start :: "int \<Rightarrow> int \<Rightarrow> int" where
  "month_start y m = year_start y + sum_list (map (days_in y) [1..m - 1])"

definition day_number :: "wall \<Rightarrow> int" where
  "day_number w = month_start (w_year w) (w_month w) + w_day w - 1"

text \<open>1 January of year 1 was a Monday, day 1 of Go's \<^verbatim>\<open>Weekday\<close>.\<close>

definition weekday :: "wall \<Rightarrow> int" where
  "weekday w = (day_number w + 1) mod 7"

definition abs_minute :: "wall \<Rightarrow> int" where
  "abs_minute w = 1440 * day_number w + 60 * w_hour w + w_min w"

definition valid_wall :: "wall \<Rightarrow> bool" where
  "valid_wall w \<longleftrightarrow>
     1 \<le> w_month w \<and> w_month w \<le> 12 \<and> 1 \<le> w_day w \<and> w_day w \<le> days_in (w_year w) (w_month w) \<and>
     0 \<le> w_hour w \<and> w_hour w < 24 \<and> 0 \<le> w_min w \<and> w_min w < 60"

text \<open>
  The four ways the search moves on, in UTC: \<^verbatim>\<open>time.Date\<close> with the month or the day after,
  the next full hour, the next minute.
\<close>

definition next_month :: "wall \<Rightarrow> wall" where
  "next_month w =
     (if w_month w < 12 then w\<lparr>w_month := w_month w + 1, w_day := 1, w_hour := 0, w_min := 0\<rparr>
      else w\<lparr>w_year := w_year w + 1, w_month := 1, w_day := 1, w_hour := 0, w_min := 0\<rparr>)"

definition next_day :: "wall \<Rightarrow> wall" where
  "next_day w =
     (if w_day w < days_in (w_year w) (w_month w) then w\<lparr>w_day := w_day w + 1, w_hour := 0, w_min := 0\<rparr>
      else next_month w)"

definition next_hour :: "wall \<Rightarrow> wall" where
  "next_hour w = (if w_hour w < 23 then w\<lparr>w_hour := w_hour w + 1, w_min := 0\<rparr> else next_day w)"

definition next_minute :: "wall \<Rightarrow> wall" where
  "next_minute w = (if w_min w < 59 then w\<lparr>w_min := w_min w + 1\<rparr> else next_hour w)"

section \<open>Schedules\<close>

record schedule =
  s_every :: duration
  s_minute :: "64 word"
  s_hour :: "64 word"
  s_dom :: "64 word"
  s_month :: "64 word"
  s_dow :: "64 word"
  s_domStar :: bool
  s_dowStar :: bool

definition zero_schedule :: schedule where
  "zero_schedule = \<lparr>s_every = 0, s_minute = 0, s_hour = 0, s_dom = 0, s_month = 0, s_dow = 0,
     s_domStar = False, s_dowStar = False\<rparr>"

record cron_field =
  f_name :: string
  f_min :: int
  f_max :: int
  f_names :: "(string \<times> int) list option"

definition minuteField :: cron_field where
  "minuteField = \<lparr>f_name = ''minute'', f_min = 0, f_max = 59, f_names = None\<rparr>"

definition hourField :: cron_field where
  "hourField = \<lparr>f_name = ''hour'', f_min = 0, f_max = 23, f_names = None\<rparr>"

definition domField :: cron_field where
  "domField = \<lparr>f_name = ''day of month'', f_min = 1, f_max = 31, f_names = None\<rparr>"

definition monthField :: cron_field where
  "monthField = \<lparr>f_name = ''month'', f_min = 1, f_max = 12, f_names = Some
     [(''jan'', 1), (''feb'', 2), (''mar'', 3), (''apr'', 4), (''may'', 5), (''jun'', 6),
      (''jul'', 7), (''aug'', 8), (''sep'', 9), (''oct'', 10), (''nov'', 11), (''dec'', 12)]\<rparr>"

definition dowField :: cron_field where
  "dowField = \<lparr>f_name = ''day of week'', f_min = 0, f_max = 7, f_names = Some
     [(''sun'', 0), (''mon'', 1), (''tue'', 2), (''wed'', 3), (''thu'', 4), (''fri'', 5), (''sat'', 6)]\<rparr>"

definition macros :: "(string \<times> string) list" where
  "macros =
     [(''@yearly'', ''0 0 1 1 *''), (''@annually'', ''0 0 1 1 *''), (''@monthly'', ''0 0 1 * *''),
      (''@weekly'', ''0 0 * * 0''), (''@daily'', ''0 0 * * *''), (''@midnight'', ''0 0 * * *''),
      (''@hourly'', ''0 * * * *'')]"

definition MinEvery :: duration where
  "MinEvery = minute"

datatype cron_error =
    EmptySchedule | EveryNeedsDuration | NotADuration string | TooShort | UnknownShorthand string
  | FieldCount nat | EmptyListValue string | BadStep string string | Backwards string string
  | NotNumberOrName string string | NotNumber string string | OutOfRange string int

text \<open>\<^verbatim>\<open>1 << uint(v)\<close>: nothing is left of the bit when it is shifted out, or \<open>v\<close> is negative.\<close>

definition bit_of :: "int \<Rightarrow> 64 word" where
  "bit_of v = (if 0 \<le> v \<and> v < 64 then push_bit (nat v) 1 else 0)"

definition has_bit :: "64 word \<Rightarrow> int \<Rightarrow> bool" where
  "has_bit w v \<longleftrightarrow> w AND bit_of v \<noteq> 0"

text \<open>The loop of \<^verbatim>\<open>parseRange\<close>: \<open>v\<close> is an \<^verbatim>\<open>int\<close> and wraps.\<close>

partial_function (option) range_loop :: "int \<Rightarrow> int \<Rightarrow> int \<Rightarrow> 64 word \<Rightarrow> 64 word option" where
  "range_loop hi step v bits =
     (if v \<le> hi then range_loop hi step (wrap64 (v + step)) (bits OR bit_of v) else Some bits)"

declare range_loop.simps [code]

definition value_of :: "string \<Rightarrow> cron_field \<Rightarrow> cron_error + int" where
  "value_of s f =
     (case (case f_names f of None \<Rightarrow> None | Some names \<Rightarrow> map_of names s) of
        Some v \<Rightarrow> Inr v
      | None \<Rightarrow>
         (case atoi s of
            None \<Rightarrow> Inl (if f_names f \<noteq> None then NotNumberOrName (f_name f) s else NotNumber (f_name f) s)
          | Some v \<Rightarrow> if v < f_min f \<or> v > f_max f then Inl (OutOfRange (f_name f) v) else Inr v))"

text \<open>The step of a range, and its ends.\<close>

definition range_step :: "string \<Rightarrow> cron_field \<Rightarrow> cron_error + int" where
  "range_step part f =
     (case cut_at CHR ''/'' part of (rng, stepStr, hasStep) \<Rightarrow>
        if hasStep then
          (case atoi stepStr of
             None \<Rightarrow> Inl (BadStep (f_name f) stepStr)
           | Some n \<Rightarrow> if n < 1 then Inl (BadStep (f_name f) stepStr) else Inr n)
        else Inr 1)"

definition range_ends :: "string \<Rightarrow> cron_field \<Rightarrow> cron_error + int \<times> int" where
  "range_ends part f =
     (case cut_at CHR ''/'' part of (rng, stepStr, hasStep) \<Rightarrow>
        if rng = ''*'' \<or> rng = ''?'' then
          Inr (f_min f, if f_name f = f_name dowField then 6 else f_max f)
        else if CHR ''-'' \<in> set rng then
          (case cut_at CHR ''-'' rng of (a, b, _) \<Rightarrow>
             (case value_of a f of
                Inl e \<Rightarrow> Inl e
              | Inr lo \<Rightarrow>
                 (case value_of b f of
                    Inl e \<Rightarrow> Inl e
                  | Inr hi \<Rightarrow> if lo > hi then Inl (Backwards (f_name f) rng) else Inr (lo, hi))))
        else
          (case value_of rng f of
             Inl e \<Rightarrow> Inl e
           | Inr v \<Rightarrow> Inr (v, if hasStep then f_max f else v)))"

text \<open>\<^const>\<open>None\<close> is a loop that does not end.\<close>

definition parseRange :: "string \<Rightarrow> cron_field \<Rightarrow> (cron_error + 64 word) option" where
  "parseRange part f =
     (if part = [] then Some (Inl (EmptyListValue (f_name f)))
      else case range_step part f of
        Inl e \<Rightarrow> Some (Inl e)
      | Inr step \<Rightarrow>
         (case range_ends part f of
            Inl e \<Rightarrow> Some (Inl e)
          | Inr (lo, hi) \<Rightarrow> map_option Inr (range_loop hi step lo 0)))"

fun parse_parts :: "cron_field \<Rightarrow> 64 word \<Rightarrow> string list \<Rightarrow> (cron_error + 64 word) option" where
  "parse_parts f bits [] = Some (Inr bits)"
| "parse_parts f bits (p # ps) =
     (case parseRange p f of
        None \<Rightarrow> None
      | Some (Inl e) \<Rightarrow> Some (Inl e)
      | Some (Inr b) \<Rightarrow> parse_parts f (bits OR b) ps)"

definition starts_star :: "string \<Rightarrow> bool" where
  "starts_star expr \<longleftrightarrow> take 1 expr = ''*'' \<or> take 1 expr = ''?''"

definition parseField :: "string \<Rightarrow> cron_field \<Rightarrow> (cron_error + 64 word \<times> bool) option" where
  "parseField expr f =
     map_option (map_sum (\<lambda>e. e) (\<lambda>b. (b, starts_star expr))) (parse_parts f 0 (split_at_char CHR '','' expr))"

section \<open>Durations\<close>

text \<open>\<^verbatim>\<open>time.ParseDuration\<close> of Go's library, its 64-bit limits included.\<close>

fun leading_int :: "int \<Rightarrow> string \<Rightarrow> (int \<times> string) option" where
  "leading_int x [] = Some (x, [])"
| "leading_int x (c # cs) =
     (if \<not> is_digit c then Some (x, c # cs)
      else if x > 2 ^ 63 div 10 then None
      else (let y = 10 * x + digit_val c in if y > 2 ^ 63 then None else leading_int y cs))"

fun leading_fraction :: "int \<Rightarrow> int \<Rightarrow> bool \<Rightarrow> string \<Rightarrow> int \<times> int \<times> string" where
  "leading_fraction x scale over [] = (x, scale, [])"
| "leading_fraction x scale over (c # cs) =
     (if \<not> is_digit c then (x, scale, c # cs)
      else if over \<or> x > (2 ^ 63 - 1) div 10 then leading_fraction x scale True cs
      else
        (let y = 10 * x + digit_val c in
         if y > 2 ^ 63 then leading_fraction x scale True cs else leading_fraction y (10 * scale) False cs))"

definition duration_units :: "(string \<times> int) list" where
  "duration_units =
     [(''ns'', 1), (''us'', 1000), ([CHR 0xC2, CHR 0xB5, CHR ''s''], 1000), ([CHR 0xCE, CHR 0xBC, CHR ''s''], 1000),
      (''ms'', 1000000), (''s'', 1000000000), (''m'', 60 * 1000000000), (''h'', 3600 * 1000000000)]"

definition unit_char :: "char \<Rightarrow> bool" where
  "unit_char c \<longleftrightarrow> c \<noteq> CHR ''.'' \<and> \<not> is_digit c"

text \<open>One number with its unit: what it adds, and the rest.\<close>

definition duration_term :: "string \<Rightarrow> (int \<times> string) option" where
  "duration_term s =
     (if s = [] \<or> \<not> (hd s = CHR ''.'' \<or> is_digit (hd s)) then None
      else case leading_int 0 s of
        None \<Rightarrow> None
      | Some (v, s1) \<Rightarrow>
         (let pre = (length s1 \<noteq> length s);
              dot = (s1 \<noteq> [] \<and> hd s1 = CHR ''.'');
              fr = (if dot then leading_fraction 0 1 False (tl s1) else (0, 1, s1));
              f = fst fr; scale = fst (snd fr); s2 = snd (snd fr);
              post = (dot \<and> length s2 \<noteq> length (tl s1));
              u = takeWhile unit_char s2; s3 = dropWhile unit_char s2
          in if \<not> pre \<and> \<not> post then None
             else if u = [] then None
             else case map_of duration_units u of
               None \<Rightarrow> None
             | Some n \<Rightarrow>
                if v > 2 ^ 63 div n then None
                else
                  (let w = v * n + (if f > 0 then f * n div scale else 0) in
                   if f > 0 \<and> w > 2 ^ 63 then None else Some (w, s3))))"

text \<open>Every term takes at least one byte, so the length of the string bounds the terms.\<close>

fun duration_terms :: "nat \<Rightarrow> int \<Rightarrow> string \<Rightarrow> int option" where
  "duration_terms fuel d [] = Some d"
| "duration_terms 0 d (c # cs) = None"
| "duration_terms (Suc fuel) d (c # cs) =
     (case duration_term (c # cs) of
        None \<Rightarrow> None
      | Some (w, rest) \<Rightarrow> if d + w > 2 ^ 63 then None else duration_terms fuel (d + w) rest)"

definition ParseDuration :: "string \<Rightarrow> duration option" where
  "ParseDuration s =
     (let neg = (s \<noteq> [] \<and> hd s = CHR ''-'');
          body = (if s \<noteq> [] \<and> (hd s = CHR ''-'' \<or> hd s = CHR ''+'') then tl s else s)
      in if body = ''0'' then Some 0
         else if body = [] then None
         else case duration_terms (length body) 0 body of
           None \<Rightarrow> None
         | Some d \<Rightarrow>
            if neg then Some (- d) else if d > 2 ^ 63 - 1 then None else Some d)"

section \<open>Parsing\<close>

definition cut_prefix :: "string \<Rightarrow> string \<Rightarrow> string option" where
  "cut_prefix p s = (if take (length p) s = p then Some (drop (length p) s) else None)"

definition parse_every :: "string \<Rightarrow> cron_error + schedule" where
  "parse_every rest =
     (if rest = [] then Inl EveryNeedsDuration
      else case ParseDuration rest of
        None \<Rightarrow> Inl (NotADuration rest)
      | Some d \<Rightarrow>
         if d < MinEvery then Inl TooShort
         else Inr (zero_schedule\<lparr>s_every := d - d mod second\<rparr>))"

definition fold_sunday :: "64 word \<Rightarrow> 64 word" where
  "fold_sunday dow = (if dow AND bit_of 7 \<noteq> 0 then (dow AND NOT (bit_of 7)) OR 1 else dow)"

text \<open>The five fields, in order; the first error is the result.\<close>

fun parse_fields :: "(string \<times> cron_field) list \<Rightarrow> (cron_error + (64 word \<times> bool) list) option" where
  "parse_fields [] = Some (Inr [])"
| "parse_fields ((e, f) # rest) =
     (case parseField e f of
        None \<Rightarrow> None
      | Some (Inl err) \<Rightarrow> Some (Inl err)
      | Some (Inr r) \<Rightarrow> map_option (map_sum (\<lambda>e. e) (\<lambda>rs. r # rs)) (parse_fields rest))"

definition build_schedule :: "(64 word \<times> bool) list \<Rightarrow> schedule" where
  "build_schedule rs =
     zero_schedule\<lparr>s_minute := fst (rs ! 0), s_hour := fst (rs ! 1), s_dom := fst (rs ! 2), s_domStar := snd (rs ! 2),
       s_month := fst (rs ! 3), s_dow := fold_sunday (fst (rs ! 4)), s_dowStar := snd (rs ! 4)\<rparr>"

definition parse_expression :: "string \<Rightarrow> (cron_error + schedule) option" where
  "parse_expression expr =
     (let parts = str_fields expr in
      if length parts \<noteq> 5 then Some (Inl (FieldCount (length parts)))
      else map_option (map_sum (\<lambda>e. e) build_schedule)
             (parse_fields (zip parts [minuteField, hourField, domField, monthField, dowField])))"

definition Parse :: "string \<Rightarrow> (cron_error + schedule) option" where
  "Parse spec0 =
     (let spec = trim_space spec0; lower = to_lower spec in
      if spec = [] then Some (Inl EmptySchedule)
      else case cut_prefix ''@every'' lower of
        Some rest \<Rightarrow> Some (parse_every (trim_space rest))
      | None \<Rightarrow>
         if take 1 lower = ''@'' then
           (case map_of macros lower of
              None \<Rightarrow> Some (Inl (UnknownShorthand spec))
            | Some m \<Rightarrow> parse_expression m)
         else parse_expression lower)"

section \<open>The next time\<close>

text \<open>
  A location: the wall-clock time of an instant, to the minute, and the instant
  \<^verbatim>\<open>time.Date\<close> makes of a wall-clock time.
\<close>

record location =
  wall_of :: "instant \<Rightarrow> wall"
  date_in :: "wall \<Rightarrow> instant"

definition dayMatches :: "schedule \<Rightarrow> wall \<Rightarrow> bool" where
  "dayMatches s w =
     (let dom = has_bit (s_dom s) (w_day w); dow = has_bit (s_dow s) (weekday w) in
      if s_domStar s \<or> s_dowStar s then dom \<and> dow else dom \<or> dow)"

text \<open>The loop of \<^verbatim>\<open>place\<close> over the possible other occurrences.\<close>

definition nearer :: "(instant \<Rightarrow> bool) \<Rightarrow> instant \<Rightarrow> instant \<Rightarrow> instant \<Rightarrow> instant" where
  "nearer same after best x = (if same x \<and> after < x \<and> (\<not> after < best \<or> x < best) then x else best)"

definition shifts :: "duration list" where
  "shifts = [- hour, - 30 * minute, 30 * minute, hour]"

definition place :: "location \<Rightarrow> wall \<Rightarrow> instant \<Rightarrow> instant option" where
  "place loc w after =
     (let here = date_in loc w; same = (\<lambda>x. wall_of loc x = w);
          best = foldl (nearer same after) here (map ((+) here) shifts)
      in if \<not> same here then None else if after < best then Some best else None)"

definition searchLimit :: duration where
  "searchLimit = 5 * 366 * 24 * hour"

section \<open>The calendar\<close>

lemma div_step:
  fixes y k :: int
  assumes "0 < k"
  shows "y div k - (y - 1) div k = (if y mod k = 0 then 1 else 0)"
proof (cases "y mod k = 0")
  case True
  then have "y = k * (y div k)" by auto
  then have "y - 1 = k * (y div k - 1) + (k - 1)" by (simp add: right_diff_distrib)
  then have "(y - 1) div k = y div k - 1" by (rule int_div_pos_eq) (use assms in auto)
  with True show ?thesis by simp
next
  case False
  have "y - 1 = k * (y div k) + (y mod k - 1)" by simp
  then have "(y - 1) div k = y div k"
    by (rule int_div_pos_eq) (use False pos_mod_sign [OF assms, of y] pos_mod_bound [OF assms, of y] in auto)
  with False show ?thesis by simp
qed

definition year_length :: "int \<Rightarrow> int" where
  "year_length y = (if leap y then 366 else 365)"

lemma year_start_next: "year_start (y + 1) = year_start y + year_length y"
proof -
  have div: "(b dvd a) \<Longrightarrow> y mod a = 0 \<Longrightarrow> y mod b = 0" for a b :: int
    by (meson dvd_eq_mod_eq_0 dvd_trans)
  have key: "365 + (if p4 then 1 else 0) - (if p100 then 1 else 0) + (if p400 then 1 else 0) =
      (if p4 \<and> (\<not> p100 \<or> p400) then 366 else (365 :: int))"
    if "p400 \<longrightarrow> p100" "p100 \<longrightarrow> p4" for p4 p100 p400
    using that by (cases p4; cases p100; cases p400) simp_all
  have d: "(100::int) dvd 400" "(4::int) dvd 100" by simp_all
  have m4: "y mod 400 = 0 \<longrightarrow> y mod 100 = 0" "y mod 100 = 0 \<longrightarrow> y mod 4 = 0"
    using div [OF d(1)] div [OF d(2)] by blast+
  have "year_start (y + 1) - year_start y =
      365 + (y div 4 - (y - 1) div 4) - (y div 100 - (y - 1) div 100) + (y div 400 - (y - 1) div 400)"
    by (simp add: year_start_def)
  also have "\<dots> = year_length y"
    unfolding div_step [OF zero_less_numeral] year_length_def leap_def using m4 by (rule key)
  finally show ?thesis by linarith
qed

lemma month_start_next: "1 \<le> m \<Longrightarrow> month_start y (m + 1) = month_start y m + days_in y m"
  using upto_rec2 [of 1 m] by (simp add: month_start_def)

lemma month_start_first: "month_start y 1 = year_start y"
  by (simp add: month_start_def)

lemma month_start_year: "month_start y 13 = month_start (y + 1) 1"
proof -
  have "[1..12] = [1, 2, 3, 4, 5, 6, 7, 8, 9, 10, 11, 12 :: int]" by (simp add: upto.simps)
  then show ?thesis
    by (simp add: month_start_def year_start_next year_length_def days_in_def)
qed

lemma days_in_pos: "28 \<le> days_in y m"
  by (simp add: days_in_def)

lemma month_start_le:
  assumes "1 \<le> m" and "m \<le> m'"
  shows "month_start y m \<le> month_start y m'"
  using assms(2,1)
proof (induction m' rule: int_ge_induct)
  case (step i)
  then show ?case using month_start_next [of i y] days_in_pos [of y i] by simp
qed simp

lemma year_start_le: "y \<le> y' \<Longrightarrow> year_start y \<le> year_start y'"
proof (induction y' rule: int_ge_induct)
  case (step i)
  then show ?case using year_start_next [of i] by (simp add: year_length_def)
qed simp

text \<open>The days of a month come before those of any later month.\<close>

lemma month_before:
  assumes "1 \<le> m" "m \<le> 12" "1 \<le> m'" and "y < y' \<or> y = y' \<and> m < m'"
  shows "month_start y m + days_in y m \<le> month_start y' m'"
proof (cases "y = y'")
  case True
  then have "m + 1 \<le> m'" using assms(4) by simp
  then have "month_start y (m + 1) \<le> month_start y m'" using assms(1) by (intro month_start_le) auto
  then show ?thesis using month_start_next [OF assms(1), of y] True by simp
next
  case False
  have "month_start y m + days_in y m \<le> month_start y 13"
    using month_start_next [OF assms(1), of y] month_start_le [of "m + 1" 13 y] assms(1,2) by simp
  also have "\<dots> = year_start (y + 1)" by (simp add: month_start_year month_start_first)
  also have "\<dots> \<le> year_start y'" using False assms(4) by (intro year_start_le) simp
  also have "\<dots> = month_start y' 1" by (simp add: month_start_first)
  also have "\<dots> \<le> month_start y' m'" using assms(3) by (intro month_start_le) auto
  finally show ?thesis .
qed

lemma same_month:
  assumes "valid_wall a" and "valid_wall b"
    and "month_start (w_year a) (w_month a) \<le> day_number b"
    and "day_number b < month_start (w_year a) (w_month a) + days_in (w_year a) (w_month a)"
  shows "w_year b = w_year a \<and> w_month b = w_month a"
proof (rule ccontr)
  assume "\<not> ?thesis"
  then consider "w_year a < w_year b \<or> w_year a = w_year b \<and> w_month a < w_month b"
    | "w_year b < w_year a \<or> w_year b = w_year a \<and> w_month b < w_month a" by force
  then show False
  proof cases
    case 1
    then show False using month_before [OF _ _ _ 1] assms by (auto simp: valid_wall_def day_number_def)
  next
    case 2
    then show False using month_before [OF _ _ _ 2] assms by (auto simp: valid_wall_def day_number_def)
  qed
qed

lemma day_number_inj:
  assumes "valid_wall a" and "valid_wall b" and "day_number a = day_number b"
  shows "w_year b = w_year a \<and> w_month b = w_month a \<and> w_day b = w_day a"
proof -
  have "w_year b = w_year a \<and> w_month b = w_month a"
    using assms(1,2) by (rule same_month) (use assms in \<open>auto simp: valid_wall_def day_number_def\<close>)
  then show ?thesis using assms(3) by (simp add: day_number_def)
qed

lemma abs_minute_parts:
  assumes "valid_wall a"
  shows "abs_minute a div 1440 = day_number a" and "abs_minute a div 60 = 24 * day_number a + w_hour a"
  using assms by (auto simp: abs_minute_def valid_wall_def)

lemma abs_minute_inj:
  assumes "valid_wall a" and "valid_wall b" and "abs_minute a = abs_minute b"
  shows "a = b"
proof -
  have d: "day_number a = day_number b" using abs_minute_parts(1) assms by metis
  moreover have "w_hour a = w_hour b" using abs_minute_parts(2) assms d by (smt (verit))
  moreover have "w_min a = w_min b" using assms(3) calculation by (simp add: abs_minute_def)
  ultimately show ?thesis using day_number_inj [OF assms(1,2)] by (intro wall.equality) auto
qed

text \<open>Where each move goes, in minutes.\<close>

lemma next_month_valid: "valid_wall w \<Longrightarrow> valid_wall (next_month w)"
  by (auto simp: valid_wall_def next_month_def days_in_def)

lemma next_month_abs:
  assumes "valid_wall w"
  shows "abs_minute (next_month w) = 1440 * (month_start (w_year w) (w_month w) + days_in (w_year w) (w_month w))"
proof (cases "w_month w < 12")
  case True
  then show ?thesis using month_start_next [of "w_month w" "w_year w"] assms
    by (simp add: next_month_def abs_minute_def day_number_def valid_wall_def)
next
  case False
  then have "w_month w = 12" using assms by (simp add: valid_wall_def)
  then show ?thesis using month_start_next [of 12 "w_year w"] month_start_year [of "w_year w"]
    by (simp add: next_month_def abs_minute_def day_number_def)
qed

lemma next_day_valid: "valid_wall w \<Longrightarrow> valid_wall (next_day w)"
  by (auto simp: next_day_def next_month_valid) (auto simp: valid_wall_def)

lemma next_day_abs:
  assumes "valid_wall w"
  shows "abs_minute (next_day w) = 1440 * (day_number w + 1)"
proof (cases "w_day w < days_in (w_year w) (w_month w)")
  case True
  then show ?thesis by (simp add: next_day_def abs_minute_def day_number_def)
next
  case False
  then have "w_day w = days_in (w_year w) (w_month w)" using assms by (simp add: valid_wall_def)
  then show ?thesis using next_month_abs [OF assms] by (simp add: next_day_def day_number_def)
qed

lemma next_hour_valid: "valid_wall w \<Longrightarrow> valid_wall (next_hour w)"
  by (auto simp: next_hour_def next_day_valid) (auto simp: valid_wall_def)

lemma next_hour_abs:
  assumes "valid_wall w"
  shows "abs_minute (next_hour w) = 1440 * day_number w + 60 * (w_hour w + 1)"
  using assms next_day_abs [OF assms] by (auto simp: next_hour_def valid_wall_def abs_minute_def day_number_def)

lemma next_minute_valid: "valid_wall w \<Longrightarrow> valid_wall (next_minute w)"
  by (auto simp: next_minute_def next_hour_valid) (auto simp: valid_wall_def)

lemma next_minute_abs:
  assumes "valid_wall w"
  shows "abs_minute (next_minute w) = abs_minute w + 1"
  using assms next_hour_abs [OF assms] by (auto simp: next_minute_def valid_wall_def abs_minute_def day_number_def)

lemmas next_valid = next_month_valid next_day_valid next_hour_valid next_minute_valid

lemma next_later:
  assumes "valid_wall w"
  shows "abs_minute w < abs_minute (next_month w)" "abs_minute w < abs_minute (next_day w)"
    "abs_minute w < abs_minute (next_hour w)" "abs_minute w < abs_minute (next_minute w)"
  using assms next_month_abs [OF assms] next_day_abs [OF assms] next_hour_abs [OF assms] next_minute_abs [OF assms]
  by (auto simp: abs_minute_def day_number_def valid_wall_def)

section \<open>The search\<close>

text \<open>
  The loop of \<^verbatim>\<open>Next\<close>; \<open>pl\<close> is \<^verbatim>\<open>place\<close> for the location and the start. A wall-clock time
  of Go is always a valid one, and the moves keep it so.
\<close>

function cron_search :: "schedule \<Rightarrow> (wall \<Rightarrow> instant option) \<Rightarrow> int \<Rightarrow> wall \<Rightarrow> instant option" where
  "cron_search s pl limit w =
     (if \<not> (valid_wall w \<and> abs_minute w < limit) then None
      else if \<not> has_bit (s_month s) (w_month w) then cron_search s pl limit (next_month w)
      else if \<not> dayMatches s w then cron_search s pl limit (next_day w)
      else if \<not> has_bit (s_hour s) (w_hour w) then cron_search s pl limit (next_hour w)
      else if \<not> has_bit (s_minute s) (w_min w) then cron_search s pl limit (next_minute w)
      else case pl w of Some x \<Rightarrow> Some x | None \<Rightarrow> cron_search s pl limit (next_minute w))"
  by pat_completeness auto
termination
  by (relation "measure (\<lambda>(s, pl, limit, w). nat (limit - abs_minute w))")
     (auto dest: next_later)

declare cron_search.simps [simp del]

definition cron_next :: "schedule \<Rightarrow> location \<Rightarrow> instant \<Rightarrow> instant" where
  "cron_next s loc t =
     (if s_every s > 0 then (t + s_every s) - (t + s_every s) mod second
      else
        (let w = next_minute (wall_of loc t) in
         case cron_search s (\<lambda>w. place loc w t) (abs_minute w + searchLimit div minute) w of
           None \<Rightarrow> 0
         | Some x \<Rightarrow> x))"

text \<open>What the fields of a schedule ask of a wall-clock time.\<close>

definition matches :: "schedule \<Rightarrow> wall \<Rightarrow> bool" where
  "matches s w \<longleftrightarrow>
     has_bit (s_month s) (w_month w) \<and> dayMatches s w \<and> has_bit (s_hour s) (w_hour w) \<and> has_bit (s_minute s) (w_min w)"

lemma day_le: "valid_wall w \<Longrightarrow> valid_wall x \<Longrightarrow> abs_minute w \<le> abs_minute x \<Longrightarrow> day_number w \<le> day_number x"
  unfolding valid_wall_def abs_minute_def by linarith

lemma day_less: "valid_wall x \<Longrightarrow> abs_minute x < 1440 * n \<Longrightarrow> day_number x < n"
  unfolding valid_wall_def abs_minute_def by linarith

lemma skip_month:
  assumes "valid_wall w" "valid_wall x" "abs_minute w \<le> abs_minute x" "abs_minute x < abs_minute (next_month w)"
  shows "w_month x = w_month w"
proof -
  have "day_number w \<le> day_number x"
    using assms(1-3) by (rule day_le)
  moreover have "day_number x < month_start (w_year w) (w_month w) + days_in (w_year w) (w_month w)"
    using assms(4) unfolding next_month_abs [OF assms(1)] by (rule day_less [OF assms(2)])
  ultimately show ?thesis
    using same_month [OF assms(1,2)] assms(1) unfolding valid_wall_def day_number_def [of w] by linarith
qed

lemma skip_day:
  assumes "valid_wall w" "valid_wall x" "abs_minute w \<le> abs_minute x" "abs_minute x < abs_minute (next_day w)"
  shows "day_number x = day_number w" and "dayMatches s x = dayMatches s w"
proof -
  have "day_number w \<le> day_number x"
    using assms(1-3) by (rule day_le)
  moreover have "day_number x < day_number w + 1"
    using assms(4) unfolding next_day_abs [OF assms(1)] by (rule day_less [OF assms(2)])
  ultimately show d: "day_number x = day_number w" by simp
  show "dayMatches s x = dayMatches s w"
    using day_number_inj [OF assms(1,2)] d by (simp add: dayMatches_def weekday_def)
qed

lemma skip_hour:
  assumes "valid_wall w" "valid_wall x" "abs_minute w \<le> abs_minute x" "abs_minute x < abs_minute (next_hour w)"
  shows "w_hour x = w_hour w"
proof -
  have "abs_minute (next_hour w) \<le> abs_minute (next_day w)"
    using next_hour_abs [OF assms(1)] next_day_abs [OF assms(1)] assms(1) by (simp add: valid_wall_def)
  then have "day_number x = day_number w" using assms by (intro skip_day(1)) auto
  moreover have "60 * w_hour w + w_min w \<le> 60 * w_hour x + w_min x"
    using assms(3) calculation by (simp add: abs_minute_def)
  moreover have "60 * w_hour x + w_min x < 60 * w_hour w + 60"
    using assms(4) calculation(1) unfolding next_hour_abs [OF assms(1)] by (simp add: abs_minute_def)
  moreover have "0 \<le> w_min w" "w_min w < 60" "0 \<le> w_min x" "w_min x < 60"
    using assms(1,2) by (auto simp: valid_wall_def)
  ultimately show ?thesis by linarith
qed

lemma skip_minute:
  assumes "valid_wall w" "valid_wall x" "abs_minute w \<le> abs_minute x" "abs_minute x < abs_minute (next_minute w)"
  shows "x = w"
proof -
  have "abs_minute w = abs_minute x" using assms next_minute_abs [OF assms(1)] by simp
  then show ?thesis using abs_minute_inj [OF assms(1,2)] by simp
qed

text \<open>Nothing from \<open>w\<close> to before \<open>end\<close> both matches and can be placed.\<close>

definition none_between :: "schedule \<Rightarrow> (wall \<Rightarrow> instant option) \<Rightarrow> wall \<Rightarrow> int \<Rightarrow> bool" where
  "none_between s pl w limit \<longleftrightarrow>
     (\<forall>x. valid_wall x \<and> abs_minute w \<le> abs_minute x \<and> abs_minute x < limit \<and> matches s x \<longrightarrow> pl x = None)"

definition search_result :: "schedule \<Rightarrow> (wall \<Rightarrow> instant option) \<Rightarrow> int \<Rightarrow> wall \<Rightarrow> instant option \<Rightarrow> bool" where
  "search_result s pl limit w res \<longleftrightarrow>
     (case res of
        None \<Rightarrow> none_between s pl w limit
      | Some y \<Rightarrow> \<exists>x. valid_wall x \<and> abs_minute w \<le> abs_minute x \<and> abs_minute x < limit \<and> matches s x \<and> pl x = Some y \<and>
          none_between s pl w (abs_minute x))"

lemma search_result_later:
  assumes "search_result s pl limit n res" and "abs_minute w \<le> abs_minute n"
    and "none_between s pl w (abs_minute n)"
  shows "search_result s pl limit w res"
proof -
  have "none_between s pl w m" if "none_between s pl n m" for m
    using that assms(3) unfolding none_between_def by (meson not_le)
  then show ?thesis
    using assms(1,2) unfolding search_result_def by (auto split: option.splits intro: order_trans)
qed

lemma search_correct: "valid_wall w \<Longrightarrow> search_result s pl limit w (cron_search s pl limit w)"
proof (induction s pl limit w rule: cron_search.induct)
  case (1 s pl limit w)
  note v = "1.prems" and later = next_later [OF "1.prems"]
  consider "\<not> abs_minute w < limit"
    | "abs_minute w < limit" "\<not> has_bit (s_month s) (w_month w)"
    | "abs_minute w < limit" "has_bit (s_month s) (w_month w)" "\<not> dayMatches s w"
    | "abs_minute w < limit" "has_bit (s_month s) (w_month w)" "dayMatches s w" "\<not> has_bit (s_hour s) (w_hour w)"
    | "abs_minute w < limit" "has_bit (s_month s) (w_month w)" "dayMatches s w" "has_bit (s_hour s) (w_hour w)"
      "\<not> has_bit (s_minute s) (w_min w)"
    | "abs_minute w < limit" "matches s w" "pl w = None"
    | y where "abs_minute w < limit" "matches s w" "pl w = Some y"
    unfolding matches_def by (cases "pl w") blast+
  then show ?case
  proof cases
    case 1
    then show ?thesis by (auto simp: cron_search.simps [of s pl limit w] search_result_def none_between_def)
  next
    case 2
    then have "search_result s pl limit (next_month w) (cron_search s pl limit (next_month w))"
      using "1.IH"(1) v next_valid by simp
    moreover have "none_between s pl w (abs_minute (next_month w))"
      using skip_month [OF v] 2 by (force simp: none_between_def matches_def)
    ultimately show ?thesis using search_result_later later 2 v by (simp add: cron_search.simps [of s pl limit w])
  next
    case 3
    then have "search_result s pl limit (next_day w) (cron_search s pl limit (next_day w))"
      using "1.IH"(2) v next_valid by simp
    moreover have "none_between s pl w (abs_minute (next_day w))"
      using skip_day(2) [OF v] 3 by (force simp: none_between_def matches_def)
    ultimately show ?thesis using search_result_later later 3 v by (simp add: cron_search.simps [of s pl limit w])
  next
    case 4
    then have "search_result s pl limit (next_hour w) (cron_search s pl limit (next_hour w))"
      using "1.IH"(3) v next_valid by simp
    moreover have "none_between s pl w (abs_minute (next_hour w))"
      using skip_hour [OF v] 4 by (force simp: none_between_def matches_def)
    ultimately show ?thesis using search_result_later later 4 v by (simp add: cron_search.simps [of s pl limit w])
  next
    case 5
    then have "search_result s pl limit (next_minute w) (cron_search s pl limit (next_minute w))"
      using "1.IH"(4) v next_valid by simp
    moreover have "none_between s pl w (abs_minute (next_minute w))"
      using skip_minute [OF v] 5 by (force simp: none_between_def matches_def)
    ultimately show ?thesis using search_result_later later 5 v by (simp add: cron_search.simps [of s pl limit w])
  next
    case 6
    then have "search_result s pl limit (next_minute w) (cron_search s pl limit (next_minute w))"
      using "1.IH"(5) v next_valid by (simp add: matches_def)
    moreover have "none_between s pl w (abs_minute (next_minute w))"
      using skip_minute [OF v] 6 by (force simp: none_between_def)
    ultimately show ?thesis using search_result_later later 6 v
      by (simp add: cron_search.simps [of s pl limit w] matches_def)
  next
    case 7
    then have "cron_search s pl limit w = Some y"
      using v by (simp add: cron_search.simps [of s pl limit w] matches_def)
    then show ?thesis using 7 v by (auto simp: search_result_def none_between_def)
  qed
qed

section \<open>Placing a wall-clock time\<close>

text \<open>
  What the code relies on of a location, for instants since the zero time: they show valid wall-clock times; when a
  wall-clock minute occurs, \<^verbatim>\<open>time.Date\<close> gives one of its occurrences; and two occurrences
  are half an hour or an hour apart.
\<close>

definition location_ok :: "location \<Rightarrow> bool" where
  "location_ok loc \<longleftrightarrow>
     (\<forall>x. 0 \<le> x \<longrightarrow> valid_wall (wall_of loc x)) \<and>
     (\<forall>x. 0 \<le> x \<and> x mod minute = 0 \<longrightarrow>
        (let y = date_in loc (wall_of loc x) in
         wall_of loc y = wall_of loc x \<and> x - y \<in> {- hour, - 30 * minute, 0, 30 * minute, hour}))"

lemma nearer_fold:
  assumes "same best"
  shows "same (foldl (nearer same after) best xs) \<and>
    (after < best \<longrightarrow> after < foldl (nearer same after) best xs \<and> foldl (nearer same after) best xs \<le> best) \<and>
    (\<forall>x \<in> set xs. same x \<and> after < x \<longrightarrow>
       after < foldl (nearer same after) best xs \<and> foldl (nearer same after) best xs \<le> x)"
  using assms
proof (induction xs arbitrary: best)
  case (Cons x xs)
  have "same (nearer same after best x)" using Cons.prems by (simp add: nearer_def)
  note IH = Cons.IH [OF this]
  show ?case
  proof (cases "same x \<and> after < x \<and> (\<not> after < best \<or> x < best)")
    case True
    then have "nearer same after best x = x" by (simp add: nearer_def)
    with IH True show ?thesis by auto
  next
    case False
    then have "nearer same after best x = best" unfolding nearer_def by (rule if_not_P)
    with IH False show ?thesis by auto
  qed
qed simp

lemma place_first:
  assumes "location_ok loc" and "0 \<le> x \<and> x mod minute = 0" and "wall_of loc x = w" and "after < x"
  shows "\<exists>y. place loc w after = Some y \<and> y \<le> x"
proof -
  define here where "here = date_in loc w"
  define best where "best = foldl (nearer (\<lambda>x. wall_of loc x = w) after) here (map ((+) here) shifts)"
  have "wall_of loc here = w \<and> x - here \<in> {- hour, - 30 * minute, 0, 30 * minute, hour}"
    unfolding here_def assms(3) [symmetric]
    by (rule assms(1) [unfolded location_ok_def Let_def, THEN conjunct2, rule_format, OF assms(2)])
  then have here: "wall_of loc here = w" "x - here \<in> {- hour, - 30 * minute, 0, 30 * minute, hour}" by simp_all
  note best = nearer_fold [of "\<lambda>x. wall_of loc x = w", OF here(1), of after "map ((+) here) shifts", folded best_def]
  have "x = here \<or> x \<in> set (map ((+) here) shifts)"
    using here(2) by (auto simp: shifts_def image_iff algebra_simps)
  then have "after < best \<and> best \<le> x"
    using best assms(3,4) by blast
  then show ?thesis using here(1) by (simp add: place_def Let_def here_def [symmetric] best_def [symmetric])
qed

lemma place_sound:
  assumes "place loc w after = Some y"
  shows "wall_of loc y = w \<and> after < y"
proof -
  define here where "here = date_in loc w"
  define best where "best = foldl (nearer (\<lambda>x. wall_of loc x = w) after) here (map ((+) here) shifts)"
  have "wall_of loc here = w" "after < best" "y = best"
    using assms by (auto simp: place_def Let_def here_def [symmetric] best_def [symmetric] split: if_splits)
  with nearer_fold [of "\<lambda>x. wall_of loc x = w" here after "map ((+) here) shifts", folded best_def] show ?thesis by blast
qed

section \<open>The next time is the first one\<close>

lemma cron_next_search:
  assumes "location_ok loc" and "s_every s = 0" and "0 \<le> t"
  shows "\<exists>res. cron_next s loc t = (case res of None \<Rightarrow> 0 | Some x \<Rightarrow> x) \<and>
    search_result s (\<lambda>w. place loc w t) (abs_minute (next_minute (wall_of loc t)) + searchLimit div minute)
      (next_minute (wall_of loc t)) res"
proof -
  have "valid_wall (next_minute (wall_of loc t))" using assms(1) by (simp add: location_ok_def next_minute_valid assms(3))
  note search_correct [OF this, of s "\<lambda>w. place loc w t"]
  then show ?thesis using assms(2) unfolding cron_next_def Let_def by auto
qed

text \<open>
  C13. When a schedule has a next time, it is after the start, its wall-clock time
  matches the schedule, and its wall-clock minute is after that of the start. Following
  one time with the next, no wall-clock minute is ever run twice, also when clocks go back.
\<close>

theorem cron_next_sound:
  assumes "location_ok loc" and "s_every s = 0" and "0 \<le> t" and "cron_next s loc t \<noteq> 0"
  shows "t < cron_next s loc t \<and> matches s (wall_of loc (cron_next s loc t)) \<and>
    abs_minute (wall_of loc t) < abs_minute (wall_of loc (cron_next s loc t))"
proof -
  let ?w = "next_minute (wall_of loc t)"
  obtain res where res: "cron_next s loc t = (case res of None \<Rightarrow> 0 | Some x \<Rightarrow> x)"
    "search_result s (\<lambda>w. place loc w t) (abs_minute ?w + searchLimit div minute) ?w res"
    using cron_next_search [OF assms(1,2,3)] by blast
  then obtain y where y: "res = Some y" "cron_next s loc t = y" using assms(4) by (cases res) auto
  then obtain x where x: "abs_minute ?w \<le> abs_minute x" "matches s x" "place loc x t = Some y"
    using res(2) by (auto simp: search_result_def)
  have "valid_wall (wall_of loc t)" using assms(1,3) by (simp add: location_ok_def)
  then have "abs_minute ?w = abs_minute (wall_of loc t) + 1" by (rule next_minute_abs)
  with x place_sound [OF x(3)] y(2) show ?thesis by simp
qed

text \<open>
  C26. The next time is the first: whenever the schedule matches the wall-clock time of
  an instant on a full minute after the start, on a later wall-clock minute and within
  the five years that are searched, there is a next time and it comes no later, by the
  wall clock and, within the same wall-clock minute, by the instant.
\<close>

theorem cron_next_first:
  assumes "location_ok loc" and "s_every s = 0" and "0 \<le> t"
    and "x mod minute = 0" and "t < x" and "matches s (wall_of loc x)"
    and "abs_minute (wall_of loc t) < abs_minute (wall_of loc x)"
    and "abs_minute (wall_of loc x) \<le> abs_minute (wall_of loc t) + searchLimit div minute"
  shows "cron_next s loc t \<noteq> 0 \<and>
    (abs_minute (wall_of loc (cron_next s loc t)) < abs_minute (wall_of loc x) \<or>
     wall_of loc (cron_next s loc t) = wall_of loc x \<and> cron_next s loc t \<le> x)"
proof -
  let ?w = "next_minute (wall_of loc t)" and ?x = "wall_of loc x" and ?pl = "\<lambda>w. place loc w t"
  have valid: "valid_wall ?x" "valid_wall (wall_of loc t)" using assms(1,3,5) by (simp_all add: location_ok_def)
  have w: "abs_minute ?w = abs_minute (wall_of loc t) + 1" by (rule next_minute_abs [OF valid(2)])
  obtain y where y: "place loc ?x t = Some y" "y \<le> x"
    using place_first [OF assms(1) _ refl assms(5)] assms(3-5) by auto
  obtain res where res: "cron_next s loc t = (case res of None \<Rightarrow> 0 | Some x \<Rightarrow> x)"
    "search_result s ?pl (abs_minute ?w + searchLimit div minute) ?w res"
    using cron_next_search [OF assms(1,2,3)] by blast
  have not_none: "\<not> none_between s ?pl ?w n" if "abs_minute ?x < n" for n
    using that valid(1) y(1) assms(6,7) w by (auto simp: none_between_def)
  have "res \<noteq> None"
  proof
    assume "res = None"
    then have "none_between s ?pl ?w (abs_minute ?w + searchLimit div minute)" using res(2) by (simp add: search_result_def)
    then show False using not_none assms(8) w by simp
  qed
  then obtain z v where z: "cron_next s loc t = z" "valid_wall v" "place loc v t = Some z"
    "none_between s ?pl ?w (abs_minute v)"
    using res by (auto simp: search_result_def)
  have "abs_minute v \<le> abs_minute ?x" using not_none z(4) by (meson not_le)
  moreover have "wall_of loc z = v" "t < z" using place_sound [OF z(3)] by auto
  moreover have "v = ?x" if "abs_minute v = abs_minute ?x" using abs_minute_inj [OF z(2) valid(1) that] .
  ultimately show ?thesis using z(1,3) y assms(3) by (cases "abs_minute v = abs_minute ?x") auto
qed

text \<open>UTC is such a location: a minute of the clock for a minute of time.\<close>

definition first_wall :: wall where
  "first_wall = \<lparr>w_year = 1, w_month = 1, w_day = 1, w_hour = 0, w_min = 0\<rparr>"

fun later_wall :: "nat \<Rightarrow> wall \<Rightarrow> wall" where
  "later_wall 0 w = w"
| "later_wall (Suc n) w = later_wall n (next_minute w)"

definition utc :: location where
  "utc = \<lparr>wall_of = (\<lambda>x. later_wall (nat (x div minute)) first_wall), date_in = (\<lambda>w. abs_minute w * minute)\<rparr>"

lemma later_wall_abs:
  "valid_wall w \<Longrightarrow> valid_wall (later_wall n w) \<and> abs_minute (later_wall n w) = abs_minute w + int n"
  by (induction n w rule: later_wall.induct) (simp_all add: next_minute_valid next_minute_abs)

lemma nth_minute: "valid_wall (later_wall n first_wall) \<and> abs_minute (later_wall n first_wall) = int n"
proof -
  have "valid_wall first_wall" "abs_minute first_wall = 0"
    by (simp_all add: first_wall_def valid_wall_def abs_minute_def day_number_def month_start_def year_start_def days_in_def)
  then show ?thesis using later_wall_abs by simp
qed

lemma utc_ok: "location_ok utc"
proof -
  have pos: "0 < minute" by (simp add: duration_defs)
  have "date_in utc (wall_of utc x) = x" if "0 \<le> x" "x mod minute = 0" for x
  proof -
    have "0 \<le> x div minute" using that(1) pos by (simp add: pos_imp_zdiv_nonneg_iff)
    then have "abs_minute (wall_of utc x) = x div minute" using nth_minute [of "nat (x div minute)"] by (simp add: utc_def)
    moreover have "x div minute * minute = x" using that(2) div_mult_mod_eq [of x minute] by simp
    ultimately show ?thesis by (simp add: utc_def)
  qed
  moreover have "valid_wall (wall_of utc x)" for x using nth_minute by (simp add: utc_def)
  ultimately show ?thesis unfolding location_ok_def Let_def by simp
qed

definition every_five :: schedule where
  "every_five = zero_schedule\<lparr>s_minute := bit_of 0 OR bit_of 5 OR bit_of 10, s_hour := - 1, s_dom := - 1, s_month := - 1,
     s_dow := - 1, s_domStar := True, s_dowStar := True\<rparr>"

theorem cron_next_sound_witness:
  "minute < cron_next every_five utc minute \<and> matches every_five (wall_of utc (cron_next every_five utc minute))"
proof -
  have "cron_next every_five utc minute = 5 * minute" by code_simp
  then have "cron_next every_five utc minute \<noteq> 0" by (simp add: duration_defs)
  then show ?thesis
    using cron_next_sound [OF utc_ok, of every_five minute] by (simp add: every_five_def zero_schedule_def duration_defs)
qed

theorem cron_next_first_witness:
  "cron_next every_five utc minute \<noteq> 0 \<and>
    (abs_minute (wall_of utc (cron_next every_five utc minute)) < abs_minute (wall_of utc (10 * minute)) \<or>
     wall_of utc (cron_next every_five utc minute) = wall_of utc (10 * minute) \<and>
     cron_next every_five utc minute \<le> 10 * minute)"
proof -
  have "matches every_five (wall_of utc (10 * minute))" by code_simp
  moreover have "abs_minute (wall_of utc (10 * minute)) = 10" "abs_minute (wall_of utc minute) = 1" by code_simp+
  ultimately show ?thesis
    by (intro cron_next_first [OF utc_ok]) (simp_all add: every_five_def zero_schedule_def duration_defs searchLimit_def)
qed

section \<open>Parsing\<close>

lemma bit_bit_of: "bit (bit_of v) n \<longleftrightarrow> 0 \<le> v \<and> v < 64 \<and> n = nat v"
  by (auto simp: bit_of_def bit_exp_iff push_bit_of_1)

lemma has_bit_iff: "has_bit w v \<longleftrightarrow> 0 \<le> v \<and> v < 64 \<and> bit w (nat v)"
  unfolding has_bit_def bit_eq_iff [of "w AND bit_of v" 0] by (auto simp: bit_and_iff bit_bit_of)

text \<open>A loop whose step does not overflow sets every step-th bit from its start to its end.\<close>

lemma range_loop_bits:
  assumes "0 \<le> v" and "hi < 64" and "0 < step" and "step \<le> 2 ^ 62"
  shows "\<exists>b. range_loop hi step v bits = Some b \<and>
    (\<forall>n. has_bit b n \<longleftrightarrow> has_bit bits n \<or> (v \<le> n \<and> n \<le> hi \<and> (n - v) mod step = 0))"
  using assms(1)
proof (induction "nat (hi + 1 - v)" arbitrary: v bits rule: less_induct)
  case less
  show ?case
  proof (cases "v \<le> hi")
    case False
    then show ?thesis by (auto simp: range_loop.simps [of hi step v])
  next
    case True
    have "in_int64 (v + step)" using True assms less.prems by (simp add: in_int64_def duration_defs)
    then have loop: "range_loop hi step v bits = range_loop hi step (v + step) (bits OR bit_of v)"
      using True by (simp add: range_loop.simps [of hi step v] wrap64_id)
    obtain b where b: "range_loop hi step (v + step) (bits OR bit_of v) = Some b"
      "\<And>n. has_bit b n \<longleftrightarrow> has_bit (bits OR bit_of v) n \<or> (v + step \<le> n \<and> n \<le> hi \<and> (n - (v + step)) mod step = 0)"
      using less.hyps [of "v + step" "bits OR bit_of v"] less.prems assms(3) True by auto
    have "has_bit (bits OR bit_of v) n \<longleftrightarrow> has_bit bits n \<or> n = v" for n
      using True assms(2) less.prems by (auto simp: has_bit_iff bit_or_iff bit_bit_of)
    moreover have "(n - (v + step)) mod step = (n - v) mod step" for n
      by (metis diff_diff_eq minus_mod_self2)
    moreover have "n = v \<or> v + step \<le> n" if "v \<le> n" "step dvd n - v" for n
      using that zdvd_imp_le [of step "n - v"] by (cases "n = v") auto
    ultimately show ?thesis using b loop True assms(3) by (intro exI [of _ b]) auto
  qed
qed

text \<open>
  C19. A part of a field stands for what it says: with a step of at most \<open>2^62\<close> the values
  it allows are exactly those from its first to its last value, every step-th one.
\<close>

theorem parseRange_bits:
  assumes "range_step part f = Inr step" and "range_ends part f = Inr (lo, hi)" and "part \<noteq> []"
    and "0 \<le> lo" and "hi < 64" and "step \<le> 2 ^ 62"
  shows "\<exists>b. parseRange part f = Some (Inr b) \<and> (\<forall>n. has_bit b n \<longleftrightarrow> lo \<le> n \<and> n \<le> hi \<and> (n - lo) mod step = 0)"
proof -
  have "0 < step" using assms(1) by (auto simp: range_step_def split: prod.splits if_splits option.splits)
  from range_loop_bits [OF assms(4,5) this assms(6), of 0] show ?thesis
    using assms(1-3) by (auto simp: parseRange_def has_bit_iff)
qed

theorem parseRange_bits_witness:
  "\<exists>b. parseRange ''10-40/15'' minuteField = Some (Inr b) \<and>
     (\<forall>n. has_bit b n \<longleftrightarrow> 10 \<le> n \<and> n \<le> 40 \<and> (n - 10) mod 15 = 0)"
proof -
  have "range_step ''10-40/15'' minuteField = Inr 15" by code_simp
  moreover have "range_ends ''10-40/15'' minuteField = Inr (10, 40)" by code_simp
  ultimately show ?thesis by (rule parseRange_bits) simp_all
qed

lemma range_loop_big_step:
  assumes "0 \<le> v" and "v < 64" and "hi < 64" and "63 < step" and "step < 2 ^ 63"
  shows "\<exists>b. range_loop hi step v bits = Some b"
  using assms(1,2)
proof (induction "nat v" arbitrary: v bits rule: less_induct)
  case less
  define k where "k = 2 ^ 63 - step"
  have k: "0 < k" "step = 2 ^ 63 - k" "k < 2 ^ 63 - 63" using assms by (simp_all add: k_def)
  show ?case
  proof (cases "v \<le> hi \<and> k \<le> v")
    case False
    have "v + step > hi" using assms less.prems by simp
    moreover have "wrap64 (v + step) = v + step" if "v < k"
      using that k less.prems by (intro wrap64_id) (simp add: in_int64_def duration_defs)
    ultimately show ?thesis using False
      by (cases "v \<le> hi") (auto simp: range_loop.simps [of hi step v] range_loop.simps [of hi step "v + step"])
  next
    case True
    define u where "u = v - k - 2 ^ 63"
    have w1: "wrap64 (v + step) = u"
    proof -
      have "v + step + 2 ^ 63 = (v - k) + 2 ^ 64" using k by simp
      moreover have "0 \<le> v - k" "v - k < 2 ^ 64" using True less.prems k by simp_all
      ultimately have "(v + step + 2 ^ 63) mod 2 ^ 64 = v - k" by (simp add: mod_pos_pos_trivial)
      then show ?thesis by (simp add: wrap64_def u_def)
    qed
    have w2: "wrap64 (u + step) = v - 2 * k"
      using k True less.prems by (subst wrap64_id) (auto simp: in_int64_def duration_defs u_def)
    show ?thesis
    proof (cases "0 \<le> v - 2 * k")
      case pos: True
      obtain b where b: "range_loop hi step (v - 2 * k) (bits OR bit_of v OR bit_of (u)) = Some b"
        using less.hyps [of "v - 2 * k"] pos k less.prems by auto
      then show ?thesis using True w1 w2
        by (cases "u \<le> hi")
           (auto simp: range_loop.simps [of hi step v] range_loop.simps [of hi step u] or.assoc)
    next
      case neg: False
      have "wrap64 (v - 2 * k + step) = v - 2 * k + step"
        using neg k True less.prems by (intro wrap64_id) (simp add: in_int64_def duration_defs)
      moreover have "\<not> v - 2 * k + step \<le> hi" using k True less.prems assms(3) by simp
      ultimately show ?thesis using True w1 w2
        by (cases "u \<le> hi"; cases "v - 2 * k \<le> hi")
           (auto simp: range_loop.simps [of hi step v] range_loop.simps [of hi step "u"]
             range_loop.simps [of hi step "v - 2 * k"] range_loop.simps [of hi step "v - 2 * k + step"])
    qed
  qed
qed

lemma range_loop_total:
  assumes "0 \<le> v" and "v < 64" and "hi < 64" and "0 < step" and "step < 2 ^ 63"
  shows "\<exists>b. range_loop hi step v bits = Some b"
proof (cases "step \<le> 63")
  case True
  then show ?thesis using range_loop_bits [OF assms(1,3,4), of bits] by auto
next
  case False
  then show ?thesis using range_loop_big_step assms by simp
qed

text \<open>The fields of a schedule have values between 0 and 63.\<close>

definition small_field :: "cron_field \<Rightarrow> bool" where
  "small_field f \<longleftrightarrow> 0 \<le> f_min f \<and> f_min f < 64 \<and> 6 < f_max f \<and> f_max f < 64 \<and>
     (\<forall>names. f_names f = Some names \<longrightarrow> (\<forall>v \<in> snd ` set names. 0 \<le> v \<and> v < 64))"

lemma value_of_small: "small_field f \<Longrightarrow> value_of s f = Inr v \<Longrightarrow> 0 \<le> v \<and> v < 64"
  by (auto simp: value_of_def small_field_def split: option.splits if_splits dest!: map_of_SomeD)

lemma range_ends_small:
  assumes "small_field f" and "range_ends part f = Inr (lo, hi)"
  shows "0 \<le> lo \<and> lo < 64 \<and> hi < 64"
  using assms value_of_small [OF assms(1)]
  by (auto simp: range_ends_def small_field_def split: prod.splits if_splits sum.splits)

lemma range_step_small: "range_step part f = Inr step \<Longrightarrow> 0 < step \<and> step < 2 ^ 63"
  using atoi_in_range by (fastforce simp: range_step_def in_int64_def duration_defs split: prod.splits if_splits option.splits)

lemma parseRange_total: "small_field f \<Longrightarrow> parseRange part f \<noteq> None"
  using range_ends_small range_step_small range_loop_total
  by (fastforce simp: parseRange_def split: sum.splits)

lemma parse_parts_total: "small_field f \<Longrightarrow> parse_parts f bits ps \<noteq> None"
  by (induction f bits ps rule: parse_parts.induct)
     (auto split: option.splits sum.splits dest: parseRange_total)

lemma parse_fields_total: "\<forall>(e, f) \<in> set efs. small_field f \<Longrightarrow> parse_fields efs \<noteq> None"
  by (induction efs rule: parse_fields.induct)
     (auto simp: parseField_def parse_parts_total split: option.splits sum.splits)

lemma fields_small:
  "small_field minuteField" "small_field hourField" "small_field domField" "small_field monthField" "small_field dowField"
  by (simp_all add: small_field_def minuteField_def hourField_def domField_def monthField_def dowField_def)

lemma parse_expression_total: "parse_expression e \<noteq> None"
proof -
  have "\<forall>(e, f) \<in> set (zip (str_fields e) [minuteField, hourField, domField, monthField, dowField]). small_field f"
    using fields_small by (auto dest!: set_zip_rightD)
  from parse_fields_total [OF this] show ?thesis by (auto simp: parse_expression_def Let_def)
qed

lemma fold_sunday_bit: "\<not> has_bit (fold_sunday w) 7"
proof (cases "has_bit w 7")
  case True
  then have "fold_sunday w = (w AND NOT (bit_of 7)) OR 1" by (simp add: fold_sunday_def has_bit_def)
  then show ?thesis by (simp add: has_bit_iff bit_or_iff bit_and_iff bit_not_iff bit_bit_of bit_1_iff)
next
  case False
  then show ?thesis by (simp add: fold_sunday_def has_bit_def)
qed

text \<open>
  C27. Parsing always comes to an end, whatever the text (also with a step so large that
  the loop variable overflows), and a schedule never has a day of the week 7: Sunday is 0.
\<close>

theorem Parse_total: "\<exists>r. Parse spec = Some r \<and> (\<forall>s. r = Inr s \<longrightarrow> \<not> has_bit (s_dow s) 7)"
proof -
  have expr: "\<exists>r. parse_expression e = Some r \<and> (\<forall>s. r = Inr s \<longrightarrow> \<not> has_bit (s_dow s) 7)" for e
  proof -
    obtain r where r: "parse_expression e = Some r" using parse_expression_total [of e] by blast
    have "\<not> has_bit (s_dow s) 7" if ok: "r = Inr s" for s
    proof -
      have "\<exists>z. r = map_sum (\<lambda>e. e) build_schedule z"
        using r ok by (auto simp: parse_expression_def Let_def split: if_splits) metis
      then obtain z where "r = map_sum (\<lambda>e. e) build_schedule z" by blast
      then obtain rs where "s = build_schedule rs" using ok by (cases z) auto
      then show ?thesis by (simp add: build_schedule_def fold_sunday_bit)
    qed
    with r show ?thesis by blast
  qed
  have "\<not> has_bit (s_dow s) 7" if "parse_every x = Inr s" for s x
    using that by (auto simp: parse_every_def zero_schedule_def has_bit_iff split: if_splits option.splits)
  then show ?thesis unfolding Parse_def Let_def using expr by (auto split: option.split)
qed

theorem Parse_total_witness:
  "\<exists>s. Parse ''0 3 * * 7'' = Some (Inr s) \<and> \<not> has_bit (s_dow s) 7"
proof -
  have "map_option isl (Parse ''0 3 * * 7'') = Some False" by code_simp
  then obtain s where "Parse ''0 3 * * 7'' = Some (Inr s)" by (auto simp: isl_def) (metis sum.exhaust)
  then show ?thesis using Parse_total [of "''0 3 * * 7''"] by auto
qed

text \<open>
  C29. A step near the largest \<^verbatim>\<open>int\<close> makes the loop variable overflow, and the loop then goes
  on below its start: the list of minutes \<open>5/9223372036854775807\<close>, minute 5 by the rule that
  a step goes upwards from the first value, also allows the minutes 3 and 1.
\<close>

theorem parseRange_step_overflow:
  "parseRange ''5/9223372036854775807'' minuteField = Some (Inr (bit_of 5 OR bit_of 3 OR bit_of 1))"
  by code_simp

end
