(* ===== verification/Tasks.thy ===== *)
theory Tasks
  imports Site_Model Cron
begin

text \<open>
  The scheduler of tasks (\<^verbatim>\<open>internal/tasks/scheduler.go\<close>). Its state is behind one lock; a
  definition models one stretch of code that holds the lock, together with what the
  goroutine does until it takes the lock again, and the machine at the end runs these
  steps in any order. The processes and the log files are outside: how starting and
  ending one came out is an argument. What is written to the store and published on the
  event bus is kept as a list of effects.
\<close>

section \<open>State\<close>

definition TriggerSchedule :: string where "TriggerSchedule = ''schedule''"
definition TriggerManual :: string where "TriggerManual = ''manual''"

definition OverlapQueue :: string where "OverlapQueue = ''queue''"
definition OverlapAllow :: string where "OverlapAllow = ''allow''"

definition RunRunning :: string where "RunRunning = ''running''"
definition RunSucceeded :: string where "RunSucceeded = ''succeeded''"
definition RunFailed :: string where "RunFailed = ''failed''"
definition RunTimeout :: string where "RunTimeout = ''timeout''"
definition RunCancelled :: string where "RunCancelled = ''cancelled''"
definition RunSkipped :: string where "RunSkipped = ''skipped''"

lemmas run_status_defs = RunRunning_def RunSucceeded_def RunFailed_def RunTimeout_def RunCancelled_def RunSkipped_def

definition maxConcurrent :: nat where
  "maxConcurrent = 10"

definition maxWait :: duration where
  "maxWait = 30 * second"

datatype task_error = ErrUnknownTask | ErrRunning | ErrQueued | ErrTooMany | ErrNotRunning | ErrStopping

record task_run =
  r_ID :: string
  r_SiteID :: string
  r_TaskID :: string
  r_TaskName :: string
  r_Trigger :: string
  r_User :: string
  r_Status :: string
  r_StartedAt :: instant
  r_FinishedAt :: "instant option"
  r_ExitCode :: "int option"
  r_Error :: string

record sched_run =
  sr_rec :: task_run
  sr_site :: site
  sr_task :: scheduled_task
  sr_cancel :: "string option"
  sr_discard :: bool

record pending =
  pd_trigger :: string
  pd_user :: string

record task_state =
  ts_task :: scheduled_task
  ts_sched :: "schedule option"
  ts_next :: instant
  ts_active :: "string list"
  ts_queued :: "pending option"

record site_tasks =
  st_site :: site
  st_tasks :: "(string \<times> task_state) list"

datatype effect =
    PutTaskRun task_run
  | PruneTaskRuns string string
  | DeleteTaskRuns string string
  | TaskFailedEvent string string
  | TaskTimeoutEvent string string

record scheduler =
  sc_sites :: "(string \<times> site_tasks) list"
  sc_runs :: "(string \<times> sched_run) list"
  sc_closed :: bool
  sc_effects :: "effect list"
  sc_drawn :: nat

definition new_scheduler :: scheduler where
  "new_scheduler = \<lparr>sc_sites = [], sc_runs = [], sc_closed = False, sc_effects = [], sc_drawn = 0\<rparr>"

definition emit :: "effect list \<Rightarrow> scheduler \<Rightarrow> scheduler" where
  "emit es s = s\<lparr>sc_effects := sc_effects s @ es\<rparr>"

definition find_task :: "scheduler \<Rightarrow> string \<Rightarrow> string \<Rightarrow> task_state option" where
  "find_task s siteID taskID =
     (case map_of (sc_sites s) siteID of None \<Rightarrow> None | Some ss \<Rightarrow> map_of (st_tasks ss) taskID)"

definition put_task :: "string \<Rightarrow> string \<Rightarrow> task_state \<Rightarrow> scheduler \<Rightarrow> scheduler" where
  "put_task siteID taskID st s =
     (case map_of (sc_sites s) siteID of
        None \<Rightarrow> s
      | Some ss \<Rightarrow>
         s\<lparr>sc_sites := AList.update siteID (ss\<lparr>st_tasks := AList.update taskID st (st_tasks ss)\<rparr>) (sc_sites s)\<rparr>)"

section \<open>Applying a site\<close>

text \<open>\<^verbatim>\<open>cron.Parse\<close>, with any error as \<^const>\<open>None\<close>.\<close>

definition parsed :: "string \<Rightarrow> schedule option" where
  "parsed spec = (case Parse spec of Some (Inr s) \<Rightarrow> Some s | _ \<Rightarrow> None)"

definition apply_task :: "location \<Rightarrow> instant \<Rightarrow> task_state option \<Rightarrow> scheduled_task \<Rightarrow> task_state" where
  "apply_task loc now old t =
     (let st = (case old of Some st \<Rightarrow> st
                | None \<Rightarrow> \<lparr>ts_task = t\<lparr>task_Schedule := [], task_Enabled := False\<rparr>, ts_sched = None, ts_next = 0,
                             ts_active = [], ts_queued = None\<rparr>);
          st = (if ts_sched st = None \<or> task_Schedule (ts_task st) \<noteq> task_Schedule t \<or>
                   task_Enabled (ts_task st) \<noteq> task_Enabled t \<or> ts_next st = 0
                then (case parsed (task_Schedule t) of
                        None \<Rightarrow> st\<lparr>ts_sched := None, ts_next := 0\<rparr>
                      | Some sc \<Rightarrow> st\<lparr>ts_sched := Some sc, ts_next := if task_Enabled t then cron_next sc loc now else 0\<rparr>)
                else st);
          st = (if \<not> task_Enabled t then st\<lparr>ts_next := 0\<rparr> else st)
      in st\<lparr>ts_task := t\<rparr>)"

text \<open>
  The loop over the tasks of the site. A state that is there already is changed in place,
  so that a second task of the same ID finds it as the first one left it.
\<close>

fun apply_tasks ::
  "location \<Rightarrow> instant \<Rightarrow> (string \<times> task_state) list \<Rightarrow> (string \<times> task_state) list \<Rightarrow> scheduled_task list \<Rightarrow>
   (string \<times> task_state) list" where
  "apply_tasks loc now old tasks [] = tasks"
| "apply_tasks loc now old tasks (t # ts) =
     (let st = apply_task loc now (map_of old (task_ID t)) t;
          old = (if map_of old (task_ID t) = None then old else AList.update (task_ID t) st old)
      in apply_tasks loc now old (AList.update (task_ID t) st tasks) ts)"

definition Apply :: "location \<Rightarrow> instant \<Rightarrow> site \<Rightarrow> scheduler \<Rightarrow> scheduler" where
  "Apply loc now site s =
     (let old = (case map_of (sc_sites s) (site_ID site) of None \<Rightarrow> [] | Some ss \<Rightarrow> st_tasks ss);
          tasks = (if RunsNode site then apply_tasks loc now old [] (site_Tasks site) else []);
          removed = filter (\<lambda>k. map_of tasks k = None) (map fst old);
          s = (if tasks = [] then s\<lparr>sc_sites := AList.delete (site_ID site) (sc_sites s)\<rparr>
               else s\<lparr>sc_sites := AList.update (site_ID site) \<lparr>st_site = site, st_tasks = tasks\<rparr> (sc_sites s)\<rparr>)
      in emit (map (DeleteTaskRuns (site_ID site)) removed) s)"

section \<open>Cancelling\<close>

text \<open>\<^verbatim>\<open>requestCancel\<close>: the first request is the one that counts.\<close>

definition requestCancel :: "string \<Rightarrow> sched_run \<Rightarrow> sched_run" where
  "requestCancel msg r = (if sr_cancel r = None then r\<lparr>sr_cancel := Some msg\<rparr> else r)"

definition RemoveSite :: "string \<Rightarrow> scheduler \<Rightarrow> scheduler" where
  "RemoveSite siteID s =
     s\<lparr>sc_sites := AList.delete siteID (sc_sites s),
       sc_runs := map (\<lambda>(k, r). (k, if site_ID (sr_site r) = siteID
                                    then requestCancel ''the site was deleted'' (r\<lparr>sr_discard := True\<rparr>) else r)) (sc_runs s)\<rparr>"

definition Cancel :: "string \<Rightarrow> string \<Rightarrow> string \<Rightarrow> scheduler \<Rightarrow> scheduler \<times> task_error option" where
  "Cancel siteID runID by_user s =
     (case map_of (sc_runs s) runID of
        None \<Rightarrow> (s, Some ErrNotRunning)
      | Some r \<Rightarrow>
         if site_ID (sr_site r) \<noteq> siteID then (s, Some ErrNotRunning)
         else (s\<lparr>sc_runs := AList.update runID (requestCancel (''cancelled by '' @ by_user) r) (sc_runs s)\<rparr>, None))"

definition Shutdown :: "scheduler \<Rightarrow> scheduler" where
  "Shutdown s =
     (if sc_closed s then s
      else s\<lparr>sc_closed := True,
             sc_runs := map (\<lambda>(k, r). (k, requestCancel ''the NodeHoster service is stopping'' r)) (sc_runs s)\<rparr>)"

definition Releases :: "string \<Rightarrow> scheduler \<Rightarrow> string list" where
  "Releases siteID s =
     foldl (\<lambda>out r. if site_ID (sr_site r) = siteID \<and> site_ActiveRelease (sr_site r) \<noteq> [] \<and>
                      site_ActiveRelease (sr_site r) \<notin> set out
                    then out @ [site_ActiveRelease (sr_site r)] else out)
       [] (map snd (sc_runs s))"

section \<open>Ticks\<close>

definition untilNext :: "instant \<Rightarrow> scheduler \<Rightarrow> duration" where
  "untilNext now s =
     foldl (\<lambda>d st. if ts_next st \<noteq> 0 then min d (max (time_sub (ts_next st) now) 0) else d) maxWait
       (concat (map (\<lambda>ss. map snd (st_tasks (snd ss))) (sc_sites s)))"

text \<open>The next time of a task that is due, for any kind of schedule.\<close>

definition following ::
  "('s \<Rightarrow> instant \<Rightarrow> instant) \<Rightarrow> ('s \<Rightarrow> duration) \<Rightarrow> instant \<Rightarrow> 's \<Rightarrow> instant \<Rightarrow> instant" where
  "following next_of every_of now sched due =
     (if every_of sched > 0 then
        (let n = due + every_of sched in if \<not> n > now then now + every_of sched else n)
      else next_of sched now)"

text \<open>\<^const>\<open>None\<close> is the panic of a task that is due and has no schedule.\<close>

definition tick_task :: "location \<Rightarrow> instant \<Rightarrow> task_state \<Rightarrow> (task_state \<times> bool) option" where
  "tick_task loc now st =
     (if ts_next st = 0 \<or> now < ts_next st then Some (st, False)
      else case ts_sched st of
        None \<Rightarrow> None
      | Some sc \<Rightarrow> Some (st\<lparr>ts_next := following (\<lambda>sc. cron_next sc loc) s_every now sc (ts_next st)\<rparr>, True))"

fun tick_tasks ::
  "location \<Rightarrow> instant \<Rightarrow> (string \<times> task_state) list \<Rightarrow> ((string \<times> task_state) list \<times> string list) option" where
  "tick_tasks loc now [] = Some ([], [])"
| "tick_tasks loc now ((k, st) # rest) =
     (case tick_task loc now st of
        None \<Rightarrow> None
      | Some (st', due) \<Rightarrow>
         map_option (\<lambda>(ts, ds). ((k, st') # ts, (if due then k # ds else ds))) (tick_tasks loc now rest))"

fun tick_sites ::
  "location \<Rightarrow> instant \<Rightarrow> (string \<times> site_tasks) list \<Rightarrow>
   ((string \<times> site_tasks) list \<times> (string \<times> string) list) option" where
  "tick_sites loc now [] = Some ([], [])"
| "tick_sites loc now ((k, ss) # rest) =
     (case tick_tasks loc now (st_tasks ss) of
        None \<Rightarrow> None
      | Some (ts, ds) \<Rightarrow>
         map_option (\<lambda>(sites, dues). ((k, ss\<lparr>st_tasks := ts\<rparr>) # sites, map (Pair k) ds @ dues)) (tick_sites loc now rest))"

text \<open>The part of \<^verbatim>\<open>tick\<close> under the lock, with the list of what is due; each is then triggered.\<close>

definition tick :: "location \<Rightarrow> instant \<Rightarrow> scheduler \<Rightarrow> (scheduler \<times> (string \<times> string) list) option" where
  "tick loc now s = map_option (\<lambda>(sites, dues). (s\<lparr>sc_sites := sites\<rparr>, dues)) (tick_sites loc now (sc_sites s))"

section \<open>Triggering\<close>

datatype trigger_result = Refused task_error | Waiting | Skipped task_run | Running string

text \<open>What the overlap policy says while runs are in progress.\<close>

datatype overlap_decision = Go_ahead | Enqueue | Refuse task_error | Skip string

definition overlap :: "task_state \<Rightarrow> bool \<Rightarrow> overlap_decision" where
  "overlap st manual =
     (let n = length (ts_active st) in
      if n = 0 then Go_ahead
      else if task_Overlap (ts_task st) = OverlapQueue then
        (if ts_queued st = None then Enqueue
         else if manual then Refuse ErrQueued
         else Skip ''the previous run was still running and another was already waiting'')
      else if task_Overlap (ts_task st) = OverlapAllow then
        (if n \<ge> maxConcurrent then
           (if manual then Refuse ErrTooMany else Skip (show_nat n @ '' runs were still in progress''))
         else Go_ahead)
      else if manual then Refuse ErrRunning
      else Skip ''the previous run was still running'')"

definition run_record :: "string \<Rightarrow> string \<Rightarrow> string \<Rightarrow> task_state \<Rightarrow> string \<Rightarrow> string \<Rightarrow> instant \<Rightarrow> task_run" where
  "run_record rid siteID taskID st trig user now =
     \<lparr>r_ID = rid, r_SiteID = siteID, r_TaskID = taskID, r_TaskName = task_Name (ts_task st), r_Trigger = trig,
      r_User = user, r_Status = RunRunning, r_StartedAt = now, r_FinishedAt = None, r_ExitCode = None, r_Error = []\<rparr>"

definition trigger ::
  "(nat \<Rightarrow> string) \<Rightarrow> instant \<Rightarrow> string \<Rightarrow> string \<Rightarrow> string \<Rightarrow> string \<Rightarrow> scheduler \<Rightarrow> scheduler \<times> trigger_result" where
  "trigger newID now siteID taskID trig user s =
     (if sc_closed s then (s, Refused ErrStopping)
      else case map_of (sc_sites s) siteID of
        None \<Rightarrow> (s, Refused ErrUnknownTask)
      | Some ss \<Rightarrow>
         (case map_of (st_tasks ss) taskID of
            None \<Rightarrow> (s, Refused ErrUnknownTask)
          | Some st \<Rightarrow>
             (case overlap st (trig = TriggerManual) of
                Refuse e \<Rightarrow> (s, Refused e)
              | Enqueue \<Rightarrow>
                  (put_task siteID taskID (st\<lparr>ts_queued := Some \<lparr>pd_trigger = trig, pd_user = user\<rparr>\<rparr>) s, Waiting)
              | Skip why \<Rightarrow>
                  (let r = (run_record (newID (sc_drawn s)) siteID taskID st trig user now)
                             \<lparr>r_Status := RunSkipped, r_FinishedAt := Some now, r_Error := why\<rparr>
                   in (emit [PutTaskRun r, PruneTaskRuns siteID taskID] (s\<lparr>sc_drawn := Suc (sc_drawn s)\<rparr>), Skipped r))
              | Go_ahead \<Rightarrow>
                  (let rid = newID (sc_drawn s);
                       r = \<lparr>sr_rec = run_record rid siteID taskID st trig user now, sr_site = st_site ss,
                            sr_task = ts_task st, sr_cancel = None, sr_discard = False\<rparr>;
                       s = put_task siteID taskID (st\<lparr>ts_active := rid # ts_active st\<rparr>) s
                   in (s\<lparr>sc_runs := AList.update rid r (sc_runs s), sc_drawn := Suc (sc_drawn s)\<rparr>, Running rid)))))"

section \<open>Runs\<close>

text \<open>How starting came out, and how a run came to its end.\<close>

datatype start_result = LogFailed string | StartFailed string | Started
datatype run_ending = Exited | TimedOut | CancelSeen

text \<open>\<^verbatim>\<open>Duration.String\<close> for a number of whole seconds.\<close>

definition seconds_text :: "nat \<Rightarrow> string" where
  "seconds_text n =
     (let h = n div 3600; m = n div 60 mod 60; s = n mod 60 in
      if n = 0 then ''0s''
      else (if h > 0 then show_nat h @ ''h'' else []) @
           (if h > 0 \<or> m > 0 then show_nat m @ ''m'' else []) @ show_nat s @ ''s'')"

definition exitText :: "int option \<Rightarrow> string" where
  "exitText code = (case code of None \<Rightarrow> ''unknown'' | Some c \<Rightarrow> show_int c)"

text \<open>The end of \<^verbatim>\<open>watch\<close>: status and message, given why the wait ended and the exit code, if any.\<close>

definition watch_outcome :: "sched_run \<Rightarrow> run_ending \<Rightarrow> int option \<Rightarrow> string \<times> string" where
  "watch_outcome r ending code =
     (case ending of
        TimedOut \<Rightarrow> (RunTimeout, ''timed out after '' @ seconds_text (nat (task_TimeoutSec (sr_task r))))
      | CancelSeen \<Rightarrow> (RunCancelled, case sr_cancel r of None \<Rightarrow> [] | Some m \<Rightarrow> m)
      | Exited \<Rightarrow>
          (if code = Some 0 then (RunSucceeded, [])
           else (RunFailed, ''exited with code '' @ exitText code)))"

text \<open>
  The first part of \<^verbatim>\<open>finish\<close>, under the lock: the record is final, the run no longer
  active, and a run that waits is taken from the queue. With it: what is waiting, and
  whether the task is gone.
\<close>

definition finish_run ::
  "instant \<Rightarrow> string \<Rightarrow> string \<Rightarrow> int option \<Rightarrow> string \<Rightarrow> scheduler \<Rightarrow> scheduler \<times> pending option \<times> bool" where
  "finish_run now runID status code msg s =
     (case map_of (sc_runs s) runID of
        None \<Rightarrow> (s, None, True)
      | Some r \<Rightarrow>
         (let r = r\<lparr>sr_rec := (sr_rec r)\<lparr>r_Status := status, r_FinishedAt := Some now, r_ExitCode := code, r_Error := msg\<rparr>\<rparr>;
              s = s\<lparr>sc_runs := AList.update runID r (sc_runs s)\<rparr>;
              siteID = r_SiteID (sr_rec r); taskID = r_TaskID (sr_rec r)
          in case find_task s siteID taskID of
               None \<Rightarrow> (s, None, True)
             | Some st \<Rightarrow>
                (let active = removeAll runID (ts_active st);
                     next = (if ts_queued st \<noteq> None \<and> \<not> sc_closed s \<and> active = [] then ts_queued st else None);
                     st = st\<lparr>ts_active := active, ts_queued := if next = None then ts_queued st else None\<rparr>
                 in (put_task siteID taskID st s, next, False))))"

text \<open>
  The second part: the final record is stored, the run is no longer in progress, events
  are published and the history pruned (or deleted with its task). A discarded run
  leaves nothing.
\<close>

definition forget_run :: "string \<Rightarrow> bool \<Rightarrow> scheduler \<Rightarrow> scheduler" where
  "forget_run runID taskGone s =
     (case map_of (sc_runs s) runID of
        None \<Rightarrow> s
      | Some r \<Rightarrow>
         (let rec0 = sr_rec r; s = s\<lparr>sc_runs := AList.delete runID (sc_runs s)\<rparr> in
          if sr_discard r then s
          else emit
            ([PutTaskRun rec0] @
             (if r_Status rec0 = RunFailed then [TaskFailedEvent (r_SiteID rec0) (r_Error rec0)]
              else if r_Status rec0 = RunTimeout then [TaskTimeoutEvent (r_SiteID rec0) (r_Error rec0)] else []) @
             (if taskGone then [DeleteTaskRuns (r_SiteID rec0) (r_TaskID rec0)]
              else [PruneTaskRuns (r_SiteID rec0) (r_TaskID rec0)])) s))"

text \<open>\<^verbatim>\<open>start\<close>: the run is recorded; a failure to start is the error it is finished with.\<close>

definition start_run :: "string \<Rightarrow> start_result \<Rightarrow> scheduler \<Rightarrow> scheduler \<times> string option" where
  "start_run runID res s =
     (case map_of (sc_runs s) runID of
        None \<Rightarrow> (s, None)
      | Some r \<Rightarrow>
         (emit [PutTaskRun (sr_rec r)] s,
          case res of
            LogFailed e \<Rightarrow> Some (''cannot write the run's log: '' @ e)
          | StartFailed e \<Rightarrow> Some e
          | Started \<Rightarrow> None))"

section \<open>Views\<close>

record task_view =
  tv_Task :: scheduled_task
  tv_NextRunAt :: "instant option"
  tv_LastRun :: "task_run option"
  tv_Running :: "string list"
  tv_Queued :: bool

definition view_task :: "scheduler \<Rightarrow> (string \<rightharpoonup> task_run) \<Rightarrow> site \<Rightarrow> scheduled_task \<Rightarrow> task_view" where
  "view_task s lasts site t =
     (let v = \<lparr>tv_Task = t, tv_NextRunAt = None, tv_LastRun = lasts (task_ID t), tv_Running = [], tv_Queued = False\<rparr> in
      if \<not> RunsNode site then v
      else case find_task s (site_ID site) (task_ID t) of
        None \<Rightarrow> v
      | Some st \<Rightarrow>
         (let runs = sort_key r_StartedAt (map sr_rec (List.map_filter (\<lambda>k. map_of (sc_runs s) k) (ts_active st))) in
          v\<lparr>tv_NextRunAt := if ts_next st \<noteq> 0 then Some (ts_next st) else None,
            tv_Running := map r_ID runs, tv_Queued := ts_queued st \<noteq> None,
            tv_LastRun := if runs \<noteq> [] then Some (last runs) else lasts (task_ID t)\<rparr>))"

definition Views :: "scheduler \<Rightarrow> (string \<rightharpoonup> task_run) \<Rightarrow> site \<Rightarrow> task_view list" where
  "Views s lasts site = map (view_task s lasts site) (site_Tasks site)"

section \<open>What the scheduler relies on of a schedule\<close>

locale schedule_source =
  fixes next_of :: "'s \<Rightarrow> instant \<Rightarrow> instant"
    and every_of :: "'s \<Rightarrow> duration"
    and wf :: "'s \<Rightarrow> bool"
  assumes next_after: "wf sc \<Longrightarrow> 0 \<le> t \<Longrightarrow> next_of sc t \<noteq> 0 \<Longrightarrow> t < next_of sc t"
begin

text \<open>The time after a due one is in the future, also when the loop fell behind.\<close>

lemma following_after:
  assumes "wf sc" and "0 \<le> now"
  shows "following next_of every_of now sc due = 0 \<or> now < following next_of every_of now sc due"
  using next_after [OF assms] by (auto simp: following_def Let_def)

end

definition schedule_wf :: "schedule \<Rightarrow> bool" where
  "schedule_wf s \<longleftrightarrow> s_every s = 0 \<or> minute \<le> s_every s"

lemma truncated_minute: "minute \<le> d \<Longrightarrow> minute \<le> d - d mod second"
proof -
  assume "minute \<le> d"
  moreover have "d - d mod second = second * (d div second)" by (simp add: minus_mod_eq_mult_div)
  moreover have "60 \<le> d div second"
    using zdiv_mono1 [OF \<open>minute \<le> d\<close>, of second] by (simp add: duration_defs)
  ultimately show ?thesis by (simp add: duration_defs)
qed

lemma parsed_wf: "parsed spec = Some s \<Longrightarrow> schedule_wf s"
proof -
  have every: "schedule_wf s" if "parse_every x = Inr s" for x s
    using that truncated_minute
    by (auto simp: parse_every_def schedule_wf_def MinEvery_def split: if_splits option.splits)
  have expr: "schedule_wf s" if e: "parse_expression x = Some (Inr s)" for x s
  proof -
    have "\<exists>z. (Inr s :: cron_error + schedule) = map_sum (\<lambda>e. e) build_schedule z"
      using e by (auto simp: parse_expression_def Let_def split: if_splits) metis
    then obtain z where "(Inr s :: cron_error + schedule) = map_sum (\<lambda>e. e) build_schedule z" by blast
    then obtain rs where "s = build_schedule rs" by (cases z) auto
    then show ?thesis by (simp add: schedule_wf_def build_schedule_def zero_schedule_def)
  qed
  assume "parsed spec = Some s"
  then have "Parse spec = Some (Inr s)" by (auto simp: parsed_def split: option.splits sum.splits)
  then show ?thesis unfolding Parse_def Let_def
    by (auto split: if_splits option.splits dest: every expr)
qed

lemma cron_next_after:
  assumes "location_ok loc" and "schedule_wf s" and "0 \<le> t" and "cron_next s loc t \<noteq> 0"
  shows "t < cron_next s loc t"
proof (cases "s_every s = 0")
  case True
  have "\<exists>res. cron_next s loc t = (case res of None \<Rightarrow> 0 | Some x \<Rightarrow> x) \<and>
      search_result s (\<lambda>w. place loc w t) (abs_minute (next_minute (wall_of loc t)) + searchLimit div minute)
        (next_minute (wall_of loc t)) res"
    by (rule cron_next_search [OF assms(1) True assms(3)])
  then show ?thesis using assms(4) place_sound by (auto simp: search_result_def split: option.splits)
next
  case False
  then have e: "minute \<le> s_every s" using assms(2) by (simp add: schedule_wf_def)
  moreover have "(t + s_every s) mod second < second" by (rule pos_mod_bound) (simp add: duration_defs)
  ultimately show ?thesis by (simp add: cron_next_def duration_defs)
qed

interpretation cron_source: schedule_source "\<lambda>s. cron_next s loc" s_every "\<lambda>s. location_ok loc \<and> schedule_wf s"
  for loc
  by unfold_locales (simp add: cron_next_after)

section \<open>The invariant\<close>

definition run_active :: "scheduler \<Rightarrow> string \<Rightarrow> string \<Rightarrow> string \<Rightarrow> bool" where
  "run_active s siteID taskID rid \<longleftrightarrow>
     (\<exists>r. map_of (sc_runs s) rid = Some r \<and> r_SiteID (sr_rec r) = siteID \<and> r_TaskID (sr_rec r) = taskID \<and>
        r_Status (sr_rec r) = RunRunning)"

text \<open>
  A task has at most ten runs in progress, all known to the scheduler as running; a run
  waits only while another is in progress; a next time comes from the schedule of an
  enabled task.
\<close>

definition task_ok :: "scheduler \<Rightarrow> string \<Rightarrow> string \<Rightarrow> task_state \<Rightarrow> bool" where
  "task_ok s siteID taskID st \<longleftrightarrow>
     distinct (ts_active st) \<and> length (ts_active st) \<le> maxConcurrent \<and>
     (\<forall>rid \<in> set (ts_active st). run_active s siteID taskID rid) \<and>
     (ts_queued st \<noteq> None \<and> \<not> sc_closed s \<longrightarrow> ts_active st \<noteq> []) \<and>
     (ts_next st \<noteq> 0 \<longrightarrow> ts_sched st \<noteq> None \<and> task_Enabled (ts_task st)) \<and>
     (\<forall>sc. ts_sched st = Some sc \<longrightarrow> schedule_wf sc)"

definition sched_ok :: "(nat \<Rightarrow> string) \<Rightarrow> scheduler \<Rightarrow> bool" where
  "sched_ok newID s \<longleftrightarrow>
     distinct (map fst (sc_sites s)) \<and>
     (\<forall>ss \<in> snd ` set (sc_sites s). distinct (map fst (st_tasks ss))) \<and>
     (\<forall>siteID taskID st. find_task s siteID taskID = Some st \<longrightarrow> task_ok s siteID taskID st) \<and>
     (\<forall>rid r. map_of (sc_runs s) rid = Some r \<longrightarrow> (\<exists>n < sc_drawn s. rid = newID n))"

lemma sched_okD:
  assumes "sched_ok newID s"
  shows "find_task s siteID taskID = Some st \<Longrightarrow> task_ok s siteID taskID st"
    and "map_of (sc_runs s) rid = Some r \<Longrightarrow> \<exists>n < sc_drawn s. rid = newID n"
  using assms unfolding sched_ok_def by blast+

lemma find_put_task:
  "find_task (put_task a b st s) a' b' =
   (if a' = a \<and> b' = b \<and> map_of (sc_sites s) a \<noteq> None then Some st else find_task s a' b')"
  by (auto simp: find_task_def put_task_def update_conv' split: option.split)

lemma put_task_keeps [simp]:
  "sc_runs (put_task a b st s) = sc_runs s" "sc_closed (put_task a b st s) = sc_closed s"
  "sc_drawn (put_task a b st s) = sc_drawn s" "sc_effects (put_task a b st s) = sc_effects s"
  by (simp_all add: put_task_def split: option.split)

lemma emit_keeps [simp]:
  "sc_runs (emit es s) = sc_runs s" "sc_closed (emit es s) = sc_closed s" "sc_sites (emit es s) = sc_sites s"
  "sc_drawn (emit es s) = sc_drawn s" "find_task (emit es s) = find_task s"
  by (simp_all add: emit_def find_task_def fun_eq_iff)

lemma sites_distinct_put:
  assumes "distinct (map fst (sc_sites s))" and "\<forall>ss \<in> snd ` set (sc_sites s). distinct (map fst (st_tasks ss))"
  shows "distinct (map fst (sc_sites (put_task a b st s))) \<and>
    (\<forall>ss \<in> snd ` set (sc_sites (put_task a b st s)). distinct (map fst (st_tasks ss)))"
proof (cases "map_of (sc_sites s) a")
  case None
  then show ?thesis using assms by (simp add: put_task_def)
next
  case (Some ss)
  let ?new = "ss\<lparr>st_tasks := AList.update b st (st_tasks ss)\<rparr>"
  have "set (AList.update a ?new (sc_sites s)) \<subseteq> insert (a, ?new) (set (sc_sites s))"
    by (rule set_AList_update)
  moreover have "distinct (map fst (st_tasks ?new))"
    using assms(2) Some by (auto simp: distinct_update dest!: map_of_SomeD)
  ultimately have "\<forall>ss \<in> snd ` set (AList.update a ?new (sc_sites s)). distinct (map fst (st_tasks ss))"
    using assms(2) by fastforce
  then show ?thesis using assms(1) Some by (simp add: put_task_def distinct_update)
qed

lemma run_active_cong: "sc_runs s = sc_runs s' \<Longrightarrow> run_active s = run_active s'"
  by (simp add: run_active_def fun_eq_iff)

text \<open>An operation that keeps the runs keeps what is true of a task.\<close>

lemma task_ok_cong: "sc_runs s = sc_runs s' \<Longrightarrow> sc_closed s = sc_closed s' \<Longrightarrow> task_ok s = task_ok s'"
  using run_active_cong [of s s'] by (simp add: task_ok_def fun_eq_iff)

lemma sched_ok_emit: "sched_ok newID (emit es s) = sched_ok newID s"
  using task_ok_cong [of "emit es s" s] by (simp add: sched_ok_def)

lemma put_task_ok:
  assumes "sched_ok newID s" and "task_ok s a b st"
  shows "sched_ok newID (put_task a b st s)"
proof -
  have "task_ok (put_task a b st s) = task_ok s" by (rule task_ok_cong) simp_all
  then show ?thesis
    using assms sites_distinct_put [of s a b st] unfolding sched_ok_def by (auto simp: find_put_task)
qed

section \<open>Applying keeps it\<close>

lemma apply_task_ok:
  assumes "\<And>st. old = Some st \<Longrightarrow> task_ok s a b st"
  shows "task_ok s a b (apply_task loc now old t)"
proof -
  define st0 where "st0 = (case old of Some st \<Rightarrow> st
      | None \<Rightarrow> \<lparr>ts_task = t\<lparr>task_Schedule := [], task_Enabled := False\<rparr>, ts_sched = None, ts_next = 0,
                   ts_active = [], ts_queued = None\<rparr>)"
  have ok: "task_ok s a b st0"
    using assms by (cases old) (auto simp: st0_def task_ok_def)
  have "apply_task loc now old t =
      (let st = (if ts_sched st0 = None \<or> task_Schedule (ts_task st0) \<noteq> task_Schedule t \<or>
                   task_Enabled (ts_task st0) \<noteq> task_Enabled t \<or> ts_next st0 = 0
                then (case parsed (task_Schedule t) of
                        None \<Rightarrow> st0\<lparr>ts_sched := None, ts_next := 0\<rparr>
                      | Some sc \<Rightarrow> st0\<lparr>ts_sched := Some sc, ts_next := if task_Enabled t then cron_next sc loc now else 0\<rparr>)
                else st0);
          st = (if \<not> task_Enabled t then st\<lparr>ts_next := 0\<rparr> else st)
      in st\<lparr>ts_task := t\<rparr>)"
    unfolding apply_task_def st0_def Let_def by (rule refl)
  then show ?thesis using ok parsed_wf
    by (cases "parsed (task_Schedule t)") (auto simp: Let_def task_ok_def)
qed

lemma apply_tasks_ok:
  assumes "\<And>k st. map_of old k = Some st \<Longrightarrow> task_ok s a k st" and "\<And>k st. map_of tasks k = Some st \<Longrightarrow> task_ok s a k st"
    and "distinct (map fst tasks)"
  shows "distinct (map fst (apply_tasks loc now old tasks ts)) \<and>
    (\<forall>k st. map_of (apply_tasks loc now old tasks ts) k = Some st \<longrightarrow> task_ok s a k st)"
  using assms
proof (induction loc now old tasks ts rule: apply_tasks.induct)
  case (2 loc now old tasks t ts)
  define st where "st = apply_task loc now (map_of old (task_ID t)) t"
  have st: "task_ok s a (task_ID t) st" unfolding st_def using "2.prems"(1) by (rule apply_task_ok)
  define old' where "old' = (if map_of old (task_ID t) = None then old else AList.update (task_ID t) st old)"
  have old': "task_ok s a k x" if "map_of old' k = Some x" for k x
    using that "2.prems"(1) st by (auto simp: old'_def update_conv' split: if_splits)
  have tasks': "task_ok s a k x" if "map_of (AList.update (task_ID t) st tasks) k = Some x" for k x
    using that "2.prems"(2) st by (auto simp: update_conv' split: if_splits simp del: map_of_eq_Some_iff)
  have "distinct (map fst (AList.update (task_ID t) st tasks))" using "2.prems"(3) by (rule distinct_update)
  from "2.IH" [OF st_def old'_def old' tasks' this] show ?case
    by (simp add: Let_def st_def [symmetric] old'_def [symmetric])
qed simp

lemma Apply_ok:
  assumes "sched_ok newID s"
  shows "sched_ok newID (Apply loc now site s)"
proof -
  define old where "old = (case map_of (sc_sites s) (site_ID site) of None \<Rightarrow> [] | Some ss \<Rightarrow> st_tasks ss)"
  define tasks where "tasks = (if RunsNode site then apply_tasks loc now old [] (site_Tasks site) else [])"
  define s' where "s' = (if tasks = [] then s\<lparr>sc_sites := AList.delete (site_ID site) (sc_sites s)\<rparr>
      else s\<lparr>sc_sites := AList.update (site_ID site) \<lparr>st_site = site, st_tasks = tasks\<rparr> (sc_sites s)\<rparr>)"
  have "task_ok s (site_ID site) k st" if "map_of old k = Some st" for k st
    using that sched_okD(1) [OF assms] by (auto simp: old_def find_task_def split: option.splits)
  then have tasks: "distinct (map fst tasks)" "\<And>k st. map_of tasks k = Some st \<Longrightarrow> task_ok s (site_ID site) k st"
    using apply_tasks_ok [of old s "site_ID site" "[]" loc now "site_Tasks site"] by (auto simp: tasks_def)
  have same: "task_ok s' = task_ok s" by (rule task_ok_cong) (simp_all add: s'_def)
  have find: "find_task s' a b = (if a = site_ID site then map_of tasks b else find_task s a b)" for a b
    by (auto simp: s'_def find_task_def update_conv' delete_conv' split: option.split)
  have "distinct (map fst (sc_sites s'))"
    using assms by (auto simp: s'_def sched_ok_def distinct_update distinct_delete)
  moreover have "\<forall>ss \<in> snd ` set (sc_sites s'). distinct (map fst (st_tasks ss))"
    using assms tasks(1) set_AList_update [of "site_ID site" "\<lparr>st_site = site, st_tasks = tasks\<rparr>" "sc_sites s"]
    by (auto simp: s'_def sched_ok_def set_AList_delete)
  moreover have "\<forall>a b st. find_task s' a b = Some st \<longrightarrow> task_ok s' a b st"
    using tasks(2) sched_okD(1) [OF assms] by (auto simp: find same split: if_splits simp del: map_of_eq_Some_iff)
  moreover have "\<forall>rid r. map_of (sc_runs s') rid = Some r \<longrightarrow> (\<exists>n < sc_drawn s'. rid = newID n)"
    using assms by (auto simp: s'_def sched_ok_def)
  ultimately have "sched_ok newID s'" by (simp add: sched_ok_def)
  moreover have "Apply loc now site s =
      emit (map (DeleteTaskRuns (site_ID site)) (filter (\<lambda>k. map_of tasks k = None) (map fst old))) s'"
    unfolding Apply_def Let_def s'_def tasks_def old_def by (rule refl)
  ultimately show ?thesis by (simp only: sched_ok_emit)
qed

section \<open>Ticks\<close>

definition due_at :: "instant \<Rightarrow> task_state \<Rightarrow> bool" where
  "due_at now st \<longleftrightarrow> ts_next st \<noteq> 0 \<and> ts_next st \<le> now"

definition tick_res :: "scheduler \<Rightarrow> location \<Rightarrow> instant \<Rightarrow> string \<Rightarrow> string \<times> task_state \<Rightarrow> bool" where
  "tick_res s loc now a kst \<longleftrightarrow>
     task_ok s a (fst kst) (snd kst) \<and> (location_ok loc \<and> 0 \<le> now \<longrightarrow> \<not> due_at now (snd kst))"

lemma tick_task_ok:
  assumes "task_ok s a b st"
  shows "\<exists>st'. tick_task loc now st = Some (st', due_at now st) \<and> tick_res s loc now a (b, st')"
proof (cases "due_at now st")
  case False
  then have "tick_task loc now st = Some (st, False)" by (auto simp: tick_task_def due_at_def)
  then show ?thesis using assms False by (simp add: tick_res_def)
next
  case True
  then obtain sc where sc: "ts_sched st = Some sc" "schedule_wf sc" using assms by (auto simp: task_ok_def due_at_def)
  let ?n = "following (\<lambda>s. cron_next s loc) s_every now sc (ts_next st)"
  have "location_ok loc \<and> 0 \<le> now \<longrightarrow> ?n = 0 \<or> now < ?n"
    using cron_source.following_after sc(2) by blast
  moreover have "tick_task loc now st = Some (st\<lparr>ts_next := ?n\<rparr>, True)"
    using True sc(1) by (simp add: tick_task_def due_at_def)
  ultimately show ?thesis using True sc assms
    by (auto simp: tick_res_def due_at_def task_ok_def)
qed

text \<open>What a tick makes of a list of tasks, each under its key.\<close>

lemma tick_tasks_ok:
  assumes "\<forall>kst \<in> set ts. task_ok s a (fst kst) (snd kst)"
  shows "\<exists>ts'. tick_tasks loc now ts = Some (ts', map fst (filter (\<lambda>kst. due_at now (snd kst)) ts)) \<and> map fst ts' = map fst ts \<and>
    (\<forall>kst \<in> set ts'. tick_res s loc now a kst)"
  using assms
proof (induction ts)
  case (Cons kst ts)
  obtain k st where kst: "kst = (k, st)" by force
  then have "task_ok s a k st" using Cons.prems by simp
  then obtain st' where t: "tick_task loc now st = Some (st', due_at now st)" "tick_res s loc now a (k, st')"
    using tick_task_ok by blast
  have "\<exists>ts'. tick_tasks loc now ts = Some (ts', map fst (filter (\<lambda>kst. due_at now (snd kst)) ts)) \<and> map fst ts' = map fst ts \<and>
      (\<forall>kst \<in> set ts'. tick_res s loc now a kst)"
    by (rule Cons.IH) (use Cons.prems in simp)
  then obtain ts' where "tick_tasks loc now ts = Some (ts', map fst (filter (\<lambda>kst. due_at now (snd kst)) ts))"
    "map fst ts' = map fst ts" "\<forall>kst \<in> set ts'. tick_res s loc now a kst" by blast
  with t show ?case by (simp add: kst)
qed simp

definition due_list :: "instant \<Rightarrow> (string \<times> site_tasks) list \<Rightarrow> (string \<times> string) list" where
  "due_list now sites =
     concat (map (\<lambda>(a, ss). map (Pair a) (map fst (filter (\<lambda>kst. due_at now (snd kst)) (st_tasks ss)))) sites)"

lemma tick_sites_ok:
  assumes "\<forall>(a, ss) \<in> set sites. \<forall>kst \<in> set (st_tasks ss). task_ok s a (fst kst) (snd kst)"
  shows "\<exists>sites'. tick_sites loc now sites = Some (sites', due_list now sites) \<and>
    map (\<lambda>(a, ss). (a, map fst (st_tasks ss))) sites' = map (\<lambda>(a, ss). (a, map fst (st_tasks ss))) sites \<and>
    (\<forall>(a, ss) \<in> set sites'. \<forall>kst \<in> set (st_tasks ss). tick_res s loc now a kst)"
  using assms
proof (induction sites)
  case (Cons x sites)
  obtain a ss where x: "x = (a, ss)" by force
  have "\<forall>kst \<in> set (st_tasks ss). task_ok s a (fst kst) (snd kst)" using Cons.prems x by simp
  from tick_tasks_ok [OF this] obtain ts' where
    t: "tick_tasks loc now (st_tasks ss) = Some (ts', map fst (filter (\<lambda>kst. due_at now (snd kst)) (st_tasks ss)))"
    "map fst ts' = map fst (st_tasks ss)" "\<forall>kst \<in> set ts'. tick_res s loc now a kst" by blast
  obtain sites' where r: "tick_sites loc now sites = Some (sites', due_list now sites)"
    "map (\<lambda>(a, ss). (a, map fst (st_tasks ss))) sites' = map (\<lambda>(a, ss). (a, map fst (st_tasks ss))) sites"
    "\<forall>(a, ss) \<in> set sites'. \<forall>kst \<in> set (st_tasks ss). tick_res s loc now a kst"
    using Cons by auto
  have "tick_sites loc now (x # sites) = Some ((a, ss\<lparr>st_tasks := ts'\<rparr>) # sites', due_list now (x # sites))"
    using t r by (simp add: x due_list_def)
  then show ?case using t(2,3) r(2,3) by (simp add: x)
qed (simp add: due_list_def)

lemma find_task_set:
  assumes "distinct (map fst (sc_sites s))" and "\<forall>ss \<in> snd ` set (sc_sites s). distinct (map fst (st_tasks ss))"
  shows "find_task s a b = Some st \<longleftrightarrow> (\<exists>ss. (a, ss) \<in> set (sc_sites s) \<and> (b, st) \<in> set (st_tasks ss))"
proof -
  have "find_task s a b = Some st \<longleftrightarrow> (\<exists>ss. map_of (sc_sites s) a = Some ss \<and> map_of (st_tasks ss) b = Some st)"
    by (auto simp: find_task_def split: option.splits)
  also have "\<dots> \<longleftrightarrow> (\<exists>ss. (a, ss) \<in> set (sc_sites s) \<and> (b, st) \<in> set (st_tasks ss))"
    using assms by (force simp: map_of_eq_Some_iff)
  finally show ?thesis .
qed

lemma tick_ok:
  assumes "sched_ok newID s"
  shows "\<exists>s'. tick loc now s = Some (s', due_list now (sc_sites s)) \<and> sched_ok newID s' \<and>
    (location_ok loc \<and> 0 \<le> now \<longrightarrow> (\<forall>a b st. find_task s' a b = Some st \<longrightarrow> \<not> due_at now st))"
proof -
  have dist: "distinct (map fst (sc_sites s))" "\<forall>ss \<in> snd ` set (sc_sites s). distinct (map fst (st_tasks ss))"
    using assms by (simp_all add: sched_ok_def)
  have "\<forall>(a, ss) \<in> set (sc_sites s). \<forall>kst \<in> set (st_tasks ss). task_ok s a (fst kst) (snd kst)"
    using sched_okD(1) [OF assms] find_task_set [OF dist] by fastforce
  from tick_sites_ok [OF this] obtain sites' where t: "tick_sites loc now (sc_sites s) = Some (sites', due_list now (sc_sites s))"
    "map (\<lambda>(a, ss). (a, map fst (st_tasks ss))) sites' = map (\<lambda>(a, ss). (a, map fst (st_tasks ss))) (sc_sites s)"
    "\<forall>(a, ss) \<in> set sites'. \<forall>kst \<in> set (st_tasks ss). tick_res s loc now a kst" by blast
  let ?s = "s\<lparr>sc_sites := sites'\<rparr>"
  have "map fst sites' = map fst (sc_sites s)"
    using arg_cong [OF t(2), of "map fst"] by (simp add: comp_def case_prod_beta)
  then have d1: "distinct (map fst (sc_sites ?s))" using dist(1) by simp
  have d2: "\<forall>ss \<in> snd ` set (sc_sites ?s). distinct (map fst (st_tasks ss))"
  proof
    fix ss assume "ss \<in> snd ` set (sc_sites ?s)"
    then obtain a where "(a, ss) \<in> set sites'" by auto
    then have "(a, map fst (st_tasks ss)) \<in> (\<lambda>(a, ss). (a, map fst (st_tasks ss))) ` set sites'" by force
    also have "\<dots> = (\<lambda>(a, ss). (a, map fst (st_tasks ss))) ` set (sc_sites s)"
      using arg_cong [OF t(2), of set] by simp
    finally obtain ss0 where "(a, ss0) \<in> set (sc_sites s)" "map fst (st_tasks ss) = map fst (st_tasks ss0)" by force
    then show "distinct (map fst (st_tasks ss))" using dist(2) by force
  qed
  note dist' = d1 d2
  have res: "tick_res s loc now a (b, st)" if "find_task ?s a b = Some st" for a b st
    using that t(3) unfolding find_task_set [OF dist'] by fastforce
  have "task_ok ?s = task_ok s" by (rule task_ok_cong) simp_all
  then have "sched_ok newID ?s"
    using assms dist' res unfolding sched_ok_def by (auto simp: tick_res_def)
  then show ?thesis using t(1) res by (auto simp: tick_def tick_res_def)
qed

section \<open>Triggering and ending runs\<close>

lemma task_ok_mono:
  assumes "task_ok s a b st" and "\<And>rid. run_active s a b rid \<Longrightarrow> rid \<in> set (ts_active st) \<Longrightarrow> run_active s' a b rid"
    and "sc_closed s \<Longrightarrow> sc_closed s'"
  shows "task_ok s' a b st"
  using assms unfolding task_ok_def by blast

lemma fresh_run:
  assumes "sched_ok newID s" and "inj newID"
  shows "map_of (sc_runs s) (newID (sc_drawn s)) = None"
  using sched_okD(2) [OF assms(1), of "newID (sc_drawn s)"] assms(2)
  by (cases "map_of (sc_runs s) (newID (sc_drawn s))") (auto dest: injD)

lemma overlap_go_ahead:
  "overlap st manual = Go_ahead \<longleftrightarrow>
   ts_active st = [] \<or> task_Overlap (ts_task st) = OverlapAllow \<and> length (ts_active st) < maxConcurrent"
  by (auto simp: overlap_def Let_def OverlapAllow_def OverlapQueue_def)

lemma overlap_enqueue: "overlap st manual = Enqueue \<Longrightarrow> ts_active st \<noteq> [] \<and> ts_queued st = None"
  by (auto simp: overlap_def Let_def split: if_splits)

lemma put_runs_ok:
  assumes "sched_ok newID s" and "\<And>a b rid. run_active s a b rid \<Longrightarrow> run_active (s\<lparr>sc_runs := rs\<rparr>) a b rid"
    and "\<And>rid r. map_of rs rid = Some r \<Longrightarrow> \<exists>n < sc_drawn s. rid = newID n"
  shows "sched_ok newID (s\<lparr>sc_runs := rs\<rparr>)"
proof -
  have "find_task (s\<lparr>sc_runs := rs\<rparr>) = find_task s" by (simp add: find_task_def fun_eq_iff)
  then show ?thesis using assms(1,3) task_ok_mono [of s] assms(2) unfolding sched_ok_def by auto
qed

lemma register_run_ok:
  assumes "sched_ok newID s" and "inj newID" and "find_task s a b = Some st" and "length (ts_active st) < maxConcurrent"
    and "r_SiteID (sr_rec r) = a" "r_TaskID (sr_rec r) = b" "r_Status (sr_rec r) = RunRunning"
  defines "rid \<equiv> newID (sc_drawn s)"
  shows "sched_ok newID ((put_task a b (st\<lparr>ts_active := rid # ts_active st\<rparr>) s)
    \<lparr>sc_runs := AList.update rid r (sc_runs s), sc_drawn := Suc (sc_drawn s)\<rparr>)"
proof -
  let ?s1 = "s\<lparr>sc_runs := AList.update rid r (sc_runs s), sc_drawn := Suc (sc_drawn s)\<rparr>"
  have fresh: "map_of (sc_runs s) rid = None" unfolding rid_def by (rule fresh_run [OF assms(1,2)])
  have active: "run_active ?s1 a' b' x" if "run_active s a' b' x" for a' b' x
    using that fresh by (auto simp: run_active_def update_conv')
  have find: "find_task ?s1 = find_task s" by (simp add: find_task_def fun_eq_iff)
  have "sched_ok newID ?s1"
    using assms(1) task_ok_mono [of s _ _ _ ?s1] active unfolding sched_ok_def find
    by (auto simp: update_conv' rid_def less_Suc_eq split: if_splits)
  moreover have "task_ok ?s1 a b (st\<lparr>ts_active := rid # ts_active st\<rparr>)"
  proof -
    have ok: "task_ok s a b st" by (rule sched_okD(1) [OF assms(1,3)])
    have "rid \<notin> set (ts_active st)" using ok fresh by (auto simp: task_ok_def run_active_def)
    moreover have "run_active ?s1 a b rid" using assms(5-7) by (simp add: run_active_def update_conv')
    ultimately show ?thesis using ok active assms(4) by (auto simp: task_ok_def)
  qed
  ultimately have "sched_ok newID (put_task a b (st\<lparr>ts_active := rid # ts_active st\<rparr>) ?s1)" by (rule put_task_ok)
  moreover have "put_task a b (st\<lparr>ts_active := rid # ts_active st\<rparr>) ?s1 =
      (put_task a b (st\<lparr>ts_active := rid # ts_active st\<rparr>) s)\<lparr>sc_runs := AList.update rid r (sc_runs s), sc_drawn := Suc (sc_drawn s)\<rparr>"
    by (simp add: put_task_def split: option.split)
  ultimately show ?thesis by simp
qed

lemma sched_ok_drawn: "sched_ok newID s \<Longrightarrow> sched_ok newID (s\<lparr>sc_drawn := Suc (sc_drawn s)\<rparr>)"
proof -
  let ?s = "s\<lparr>sc_drawn := Suc (sc_drawn s)\<rparr>"
  have "find_task ?s = find_task s" "task_ok ?s = task_ok s"
    by (simp add: find_task_def fun_eq_iff, rule task_ok_cong, simp_all)
  then show "sched_ok newID s \<Longrightarrow> sched_ok newID ?s" unfolding sched_ok_def by auto (metis less_SucI)
qed

lemma trigger_ok:
  assumes "sched_ok newID s" and "inj newID"
  shows "sched_ok newID (fst (trigger newID now a b trig user s))"
proof (cases "sc_closed s \<or> find_task s a b = None")
  case True
  then show ?thesis using assms(1) by (auto simp: trigger_def find_task_def split: option.splits)
next
  case False
  then obtain ss st where ss: "map_of (sc_sites s) a = Some ss" "map_of (st_tasks ss) b = Some st" "\<not> sc_closed s"
    by (auto simp: find_task_def split: option.splits)
  then have f: "find_task s a b = Some st" by (simp add: find_task_def)
  have ok: "task_ok s a b st" by (rule sched_okD(1) [OF assms(1) f])
  show ?thesis
  proof (cases "overlap st (trig = TriggerManual)")
    case Go_ahead
    then have "length (ts_active st) < maxConcurrent" by (auto simp: overlap_go_ahead maxConcurrent_def)
    then show ?thesis using ss Go_ahead register_run_ok [OF assms f]
      by (simp add: trigger_def Let_def run_record_def)
  next
    case Enqueue
    then have "task_ok s a b (st\<lparr>ts_queued := q\<rparr>)" for q using ok overlap_enqueue by (auto simp: task_ok_def)
    then show ?thesis using ss Enqueue put_task_ok [OF assms(1)] by (simp add: trigger_def)
  next
    case (Refuse e)
    then show ?thesis using ss assms(1) by (simp add: trigger_def)
  next
    case (Skip why)
    then show ?thesis using ss sched_ok_drawn [OF assms(1)] by (simp add: trigger_def Let_def sched_ok_emit)
  qed
qed

lemma runs_map_ok:
  assumes "sched_ok newID s" and "\<And>k r. sr_rec (f k r) = sr_rec r"
  shows "sched_ok newID (s\<lparr>sc_runs := map (\<lambda>(k, r). (k, f k r)) (sc_runs s)\<rparr>)"
proof -
  have m: "map_of (map (\<lambda>(k, r). (k, f k r)) rs) k = map_option (f k) (map_of rs k)" for rs k
    by (induction rs) auto
  show ?thesis
  proof (rule put_runs_ok [OF assms(1)])
    fix a b rid assume "run_active s a b rid"
    then show "run_active (s\<lparr>sc_runs := map (\<lambda>(k, r). (k, f k r)) (sc_runs s)\<rparr>) a b rid"
      using assms(2) by (auto simp: run_active_def m)
  next
    fix rid r assume "map_of (map (\<lambda>(k, r). (k, f k r)) (sc_runs s)) rid = Some r"
    then show "\<exists>n < sc_drawn s. rid = newID n" using sched_okD(2) [OF assms(1)] by (auto simp: m)
  qed
qed

lemma requestCancel_rec [simp]: "sr_rec (requestCancel msg r) = sr_rec r"
  by (simp add: requestCancel_def)

lemma closed_ok: "sched_ok newID s \<Longrightarrow> sched_ok newID (s\<lparr>sc_closed := True\<rparr>)"
proof -
  let ?s = "s\<lparr>sc_closed := True\<rparr>"
  have "find_task ?s = find_task s" "run_active ?s = run_active s"
    by (simp_all add: find_task_def run_active_def fun_eq_iff)
  then show "sched_ok newID s \<Longrightarrow> sched_ok newID ?s" unfolding sched_ok_def task_ok_def by auto
qed

lemma Shutdown_ok: "sched_ok newID s \<Longrightarrow> sched_ok newID (Shutdown s)"
  using closed_ok runs_map_ok [of newID "s\<lparr>sc_closed := True\<rparr>" "\<lambda>k. requestCancel ''the NodeHoster service is stopping''"]
  by (simp add: Shutdown_def)

lemma remove_site_ok:
  assumes "sched_ok newID s"
  shows "sched_ok newID (s\<lparr>sc_sites := AList.delete a (sc_sites s)\<rparr>)"
proof -
  let ?s = "s\<lparr>sc_sites := AList.delete a (sc_sites s)\<rparr>"
  have "find_task ?s a' b = Some st \<Longrightarrow> find_task s a' b = Some st" for a' b st
    by (auto simp: find_task_def delete_conv' split: if_splits)
  moreover have "task_ok ?s = task_ok s" by (rule task_ok_cong) simp_all
  ultimately show ?thesis using assms unfolding sched_ok_def by (auto simp: distinct_delete set_AList_delete)
qed

lemma RemoveSite_ok: "sched_ok newID s \<Longrightarrow> sched_ok newID (RemoveSite a s)"
  using remove_site_ok [of newID s a]
    runs_map_ok [of newID "s\<lparr>sc_sites := AList.delete a (sc_sites s)\<rparr>"
      "\<lambda>k r. if site_ID (sr_site r) = a then requestCancel ''the site was deleted'' (r\<lparr>sr_discard := True\<rparr>) else r"]
  by (simp add: RemoveSite_def)

lemma update_run_ok:
  assumes "sched_ok newID s" and "map_of (sc_runs s) rid = Some r0" and "sr_rec r = sr_rec r0"
  shows "sched_ok newID (s\<lparr>sc_runs := AList.update rid r (sc_runs s)\<rparr>)"
proof (rule put_runs_ok [OF assms(1)])
  fix a b x assume "run_active s a b x"
  then show "run_active (s\<lparr>sc_runs := AList.update rid r (sc_runs s)\<rparr>) a b x"
    using assms(2,3) by (auto simp: run_active_def update_conv')
next
  fix x y assume "map_of (AList.update rid r (sc_runs s)) x = Some y"
  then show "\<exists>n < sc_drawn s. x = newID n"
    using sched_okD(2) [OF assms(1)] assms(2) by (auto simp: update_conv' split: if_splits)
qed

lemma Cancel_ok: "sched_ok newID s \<Longrightarrow> sched_ok newID (fst (Cancel a rid u s))"
  by (auto simp: Cancel_def split: option.split intro!: update_run_ok)

text \<open>Ending a run: its status changes, and the one task that may have it active loses it.\<close>

lemma finish_run_cases:
  assumes "map_of (sc_runs s) rid = Some r"
    and ab: "a = r_SiteID (sr_rec r)" "b = r_TaskID (sr_rec r)"
    and r': "r' = r\<lparr>sr_rec := (sr_rec r)\<lparr>r_Status := status, r_FinishedAt := Some now, r_ExitCode := code, r_Error := msg\<rparr>\<rparr>"
  shows "finish_run now rid status code msg s =
    (let s1 = s\<lparr>sc_runs := AList.update rid r' (sc_runs s)\<rparr> in
     case find_task s a b of
       None \<Rightarrow> (s1, None, True)
     | Some st \<Rightarrow>
        (let active = removeAll rid (ts_active st);
             next = (if ts_queued st \<noteq> None \<and> \<not> sc_closed s \<and> active = [] then ts_queued st else None);
             st' = st\<lparr>ts_active := active, ts_queued := if next = None then ts_queued st else None\<rparr>
         in (put_task a b st' s1, next, False)))"
proof -
  have "find_task (s\<lparr>sc_runs := rs\<rparr>) = find_task s" for rs by (simp add: find_task_def fun_eq_iff)
  then show ?thesis
    using assms(1) by (simp add: finish_run_def ab r' Let_def split: option.split)
qed

lemma ended_run_ok:
  assumes "sched_ok newID s" and "map_of (sc_runs s) rid = Some r"
    and "r_SiteID (sr_rec r) = a" and "r_TaskID (sr_rec r) = b"
    and "find_task s' = (\<lambda>a' b'. if a' = a \<and> b' = b then map_option f (find_task s a' b') else find_task s a' b')"
    and "sc_closed s' = sc_closed s" and "sc_drawn s' = sc_drawn s"
    and "\<And>x. x \<noteq> rid \<Longrightarrow> map_of (sc_runs s') x = map_of (sc_runs s) x"
    and "distinct (map fst (sc_sites s'))" "\<forall>ss \<in> snd ` set (sc_sites s'). distinct (map fst (st_tasks ss))"
    and "\<And>st. task_ok s a b st \<Longrightarrow> rid \<notin> set (ts_active (f st)) \<and> task_ok s a b (f st)"
  shows "sched_ok newID s'"
proof -
  have other: "task_ok s' a' b' st" if "task_ok s a' b' st" "rid \<notin> set (ts_active st)" for a' b' st
    by (rule task_ok_mono [OF that(1)]) (use that(2) assms(6,8) in \<open>force simp: run_active_def\<close>)+
  have "task_ok s' a' b' st" if f: "find_task s' a' b' = Some st" for a' b' st
  proof (cases "a' = a \<and> b' = b")
    case True
    then obtain st0 where "find_task s a b = Some st0" "st = f st0" using f assms(5) by auto
    then show ?thesis using True other assms(11) sched_okD(1) [OF assms(1)] by blast
  next
    case False
    then have ok: "task_ok s a' b' st" using f assms(5) sched_okD(1) [OF assms(1)] by auto
    have "rid \<notin> set (ts_active st)"
    proof
      assume "rid \<in> set (ts_active st)"
      then have "run_active s a' b' rid" using ok by (simp add: task_ok_def)
      then show False using False assms(2-4) by (auto simp: run_active_def)
    qed
    with ok show ?thesis by (rule other)
  qed
  moreover have "\<exists>n < sc_drawn s'. x = newID n" if "map_of (sc_runs s') x = Some y" for x y
    using that sched_okD(2) [OF assms(1)] assms(2,7,8) by (cases "x = rid") auto
  ultimately show ?thesis using assms(9,10) by (simp add: sched_ok_def)
qed

lemma finish_run_ok:
  assumes "sched_ok newID s" and "map_of (sc_runs s) rid = Some r"
  shows "sched_ok newID (fst (finish_run now rid status code msg s))"
proof -
  define a b where "a = r_SiteID (sr_rec r)" and "b = r_TaskID (sr_rec r)"
  define r' where "r' = r\<lparr>sr_rec := (sr_rec r)\<lparr>r_Status := status, r_FinishedAt := Some now, r_ExitCode := code, r_Error := msg\<rparr>\<rparr>"
  define s1 where "s1 = s\<lparr>sc_runs := AList.update rid r' (sc_runs s)\<rparr>"
  define f where "f st = (let active = removeAll rid (ts_active st);
      next = (if ts_queued st \<noteq> None \<and> \<not> sc_closed s \<and> active = [] then ts_queued st else None)
    in st\<lparr>ts_active := active, ts_queued := if next = None then ts_queued st else None\<rparr>)" for st :: task_state
  have s': "fst (finish_run now rid status code msg s) =
      (case find_task s a b of None \<Rightarrow> s1 | Some st \<Rightarrow> put_task a b (f st) s1)"
    unfolding finish_run_cases [OF assms(2) a_def b_def r'_def] s1_def [symmetric]
    by (simp add: Let_def f_def split: option.split)
  have find1: "find_task s1 = find_task s" "sc_sites s1 = sc_sites s"
    by (simp_all add: s1_def find_task_def fun_eq_iff)
  have site: "map_of (sc_sites s1) a \<noteq> None" if "find_task s a b \<noteq> None"
    using that find1(2) by (auto simp: find_task_def split: option.splits)
  have dist: "distinct (map fst (sc_sites s1))" "\<forall>ss \<in> snd ` set (sc_sites s1). distinct (map fst (st_tasks ss))"
    using assms(1) find1(2) by (simp_all add: sched_ok_def)
  show ?thesis
  proof (rule ended_run_ok [OF assms, where f = f])
    show "r_SiteID (sr_rec r) = a" "r_TaskID (sr_rec r) = b" by (simp_all add: a_def b_def)
    show "find_task (fst (finish_run now rid status code msg s)) =
        (\<lambda>a' b'. if a' = a \<and> b' = b then map_option f (find_task s a' b') else find_task s a' b')"
      unfolding s' using site find1(1) by (cases "find_task s a b") (auto simp: fun_eq_iff find_put_task)
    show "sc_closed (fst (finish_run now rid status code msg s)) = sc_closed s"
      "sc_drawn (fst (finish_run now rid status code msg s)) = sc_drawn s"
      unfolding s' by (simp_all add: s1_def split: option.split)
    show "map_of (sc_runs (fst (finish_run now rid status code msg s))) x = map_of (sc_runs s) x" if "x \<noteq> rid" for x
      unfolding s' using that by (simp add: s1_def update_conv' split: option.split)
    show "distinct (map fst (sc_sites (fst (finish_run now rid status code msg s))))"
      "\<forall>ss \<in> snd ` set (sc_sites (fst (finish_run now rid status code msg s))). distinct (map fst (st_tasks ss))"
      unfolding s' using sites_distinct_put [OF dist] dist by (simp_all split: option.split)
    show "rid \<notin> set (ts_active (f st)) \<and> task_ok s a b (f st)" if "task_ok s a b st" for st
    proof -
      have "length (removeAll rid (ts_active st)) \<le> maxConcurrent"
        using that by (intro le_trans [OF length_removeAll_less_eq]) (simp add: task_ok_def)
      then show ?thesis using that by (auto simp: f_def Let_def task_ok_def distinct_removeAll)
    qed
  qed
qed

lemma forget_run_ok:
  assumes "sched_ok newID s" and "map_of (sc_runs s) rid = Some r" and "r_Status (sr_rec r) \<noteq> RunRunning"
  shows "sched_ok newID (forget_run rid gone s)"
proof -
  have "sched_ok newID (s\<lparr>sc_runs := AList.delete rid (sc_runs s)\<rparr>)"
  proof (rule put_runs_ok [OF assms(1)])
    fix a b x assume "run_active s a b x"
    then show "run_active (s\<lparr>sc_runs := AList.delete rid (sc_runs s)\<rparr>) a b x"
      using assms(2,3) by (auto simp: run_active_def delete_conv')
  next
    fix x y assume "map_of (AList.delete rid (sc_runs s)) x = Some y"
    then show "\<exists>n < sc_drawn s. x = newID n"
      using sched_okD(2) [OF assms(1)] by (auto simp: delete_conv' split: if_splits)
  qed
  then show ?thesis using assms(2) by (simp add: forget_run_def Let_def sched_ok_emit)
qed

lemma start_run_ok: "sched_ok newID s \<Longrightarrow> sched_ok newID (fst (start_run rid res s))"
  by (auto simp: start_run_def sched_ok_emit split: option.split)

section \<open>The scheduler as a machine\<close>

datatype sched_op =
    OpApply instant site | OpRemove string | OpCancel string string string | OpShutdown | OpTick instant
  | OpTrigger instant string string string string | OpStart string start_result
  | OpFinish instant string string "int option" string | OpForget string bool

fun sched_do :: "(nat \<Rightarrow> string) \<Rightarrow> location \<Rightarrow> scheduler \<Rightarrow> sched_op \<Rightarrow> scheduler" where
  "sched_do newID loc s (OpApply now site) = Apply loc now site s"
| "sched_do newID loc s (OpRemove a) = RemoveSite a s"
| "sched_do newID loc s (OpCancel a rid u) = fst (Cancel a rid u s)"
| "sched_do newID loc s OpShutdown = Shutdown s"
| "sched_do newID loc s (OpTick now) = (case tick loc now s of None \<Rightarrow> s | Some (s', _) \<Rightarrow> s')"
| "sched_do newID loc s (OpTrigger now a b trig u) = fst (trigger newID now a b trig u s)"
| "sched_do newID loc s (OpStart rid res) = fst (start_run rid res s)"
| "sched_do newID loc s (OpFinish now rid status code msg) = fst (finish_run now rid status code msg s)"
| "sched_do newID loc s (OpForget rid gone) = forget_run rid gone s"

text \<open>A run ends once, while it is running, and is forgotten after that.\<close>

fun sched_may :: "scheduler \<Rightarrow> sched_op \<Rightarrow> bool" where
  "sched_may s (OpFinish now rid status code msg) =
     (case map_of (sc_runs s) rid of None \<Rightarrow> False
      | Some r \<Rightarrow> r_Status (sr_rec r) = RunRunning \<and> status \<noteq> RunRunning)"
| "sched_may s (OpForget rid gone) =
     (case map_of (sc_runs s) rid of None \<Rightarrow> False | Some r \<Rightarrow> r_Status (sr_rec r) \<noteq> RunRunning)"
| "sched_may s _ = True"

lemma sched_do_ok:
  assumes "inj newID" and "sched_ok newID s" and "sched_may s opn"
  shows "sched_ok newID (sched_do newID loc s opn)"
proof (cases opn)
  case (OpTick now)
  obtain s' where "tick loc now s = Some (s', due_list now (sc_sites s))" "sched_ok newID s'"
    using tick_ok [OF assms(2), of loc now] by blast
  then show ?thesis using OpTick by simp
next
  case (OpFinish now rid status code msg)
  then obtain r where "map_of (sc_runs s) rid = Some r" using assms(3) by (auto split: option.splits)
  then show ?thesis using OpFinish finish_run_ok [OF assms(2)] by simp
next
  case (OpForget rid gone)
  then obtain r where "map_of (sc_runs s) rid = Some r" "r_Status (sr_rec r) \<noteq> RunRunning"
    using assms(3) by (auto split: option.splits)
  then show ?thesis using OpForget forget_run_ok [OF assms(2)] by simp
qed (use assms in \<open>simp_all add: Apply_ok RemoveSite_ok Cancel_ok Shutdown_ok trigger_ok start_run_ok\<close>)

interpretation scheduler_steps: invariant_machine "sched_do newID loc" sched_may
    "\<lambda>s. inj newID \<and> sched_ok newID s"
  for newID loc
  by unfold_locales (simp add: sched_do_ok)

section \<open>The promises of the scheduler\<close>

text \<open>
  C11. Whatever sites are applied and removed, whatever is triggered, cancelled, finished
  and in whichever order: a task never has more than ten runs in progress, each of them
  known and running; a run waits only while another is in progress (until the service
  stops); and only an enabled task with a valid schedule has a next time.
\<close>

theorem scheduler_invariant:
  assumes "inj newID" and "run_ok (sched_do newID loc) sched_may new_scheduler ops"
  shows "sched_ok newID (foldl (sched_do newID loc) new_scheduler ops)"
proof -
  have "sched_ok newID new_scheduler" by (simp add: sched_ok_def new_scheduler_def find_task_def)
  then show ?thesis using scheduler_steps.run_keeps [of newID new_scheduler loc ops] assms by simp
qed

definition sample_task :: "string \<Rightarrow> scheduled_task" where
  "sample_task pol = \<lparr>task_ID = ''t1'', task_Name = ''clean up'', task_Schedule = ''@every 5m'', task_Script = ''clean.js'',
     task_NpmScript = [], task_Enabled = True, task_TimeoutSec = 60, task_Overlap = pol\<rparr>"

definition task_site :: "string \<Rightarrow> site" where
  "task_site pol =
     \<lparr>site_ID = ''s1'', site_Name = ''shop'', site_Type = SiteNode, site_Bindings = [], site_Node = None,
      site_Tasks = [sample_task pol], site_Alerts = \<lparr>sa_Disabled = False, sa_Rules = []\<rparr>, site_ActiveRelease = [],
      site_Slots = [], site_Slot = []\<rparr>"

lemma inj_show_nat: "inj show_nat"
  by (rule injI) (simp add: show_nat_inj)

theorem scheduler_invariant_witness:
  "sched_ok show_nat (foldl (sched_do show_nat utc) new_scheduler
     [OpApply minute (task_site ''queue''), OpTrigger minute ''s1'' ''t1'' TriggerManual ''ann'', OpTick (7 * minute), OpShutdown])"
  by (rule scheduler_invariant [OF inj_show_nat]) simp

lemma set_due_list:
  "(a, b) \<in> set (due_list now sites) \<longleftrightarrow>
   (\<exists>ss st. (a, ss) \<in> set sites \<and> (b, st) \<in> set (st_tasks ss) \<and> due_at now st)"
proof (induction sites)
  case (Cons x sites)
  obtain c ss where x: "x = (c, ss)" by force
  have "due_list now (x # sites) =
      map (Pair c) (map fst (filter (\<lambda>kst. due_at now (snd kst)) (st_tasks ss))) @ due_list now sites"
    by (simp add: due_list_def x)
  moreover have "(a, b) \<in> set (map (Pair c) (map fst (filter (\<lambda>kst. due_at now (snd kst)) (st_tasks ss)))) \<longleftrightarrow>
      a = c \<and> (\<exists>st. (b, st) \<in> set (st_tasks ss) \<and> due_at now st)" by force
  ultimately show ?case using Cons x by auto
qed (simp add: due_list_def)

lemma due_list_distinct:
  assumes "distinct (map fst sites)" and "\<forall>ss \<in> snd ` set sites. distinct (map fst (st_tasks ss))"
  shows "distinct (due_list now sites)"
  using assms
proof (induction sites)
  case (Cons x sites)
  obtain a ss where x: "x = (a, ss)" by force
  have "fst ` set (due_list now sites) \<subseteq> fst ` set sites" by (force simp: due_list_def)
  then have disjoint: "(a, k) \<notin> set (due_list now sites)" for k using Cons.prems(1) x by force
  have "distinct (map fst (filter (\<lambda>kst. due_at now (snd kst)) (st_tasks ss)))"
    using Cons.prems(2) x by (intro distinct_map_filter) simp
  then have "distinct (map (Pair a) (map fst (filter (\<lambda>kst. due_at now (snd kst)) (st_tasks ss))))"
    by (simp only: distinct_map [of "Pair a"] inj_on_def prod.inject) simp
  moreover have "distinct (due_list now sites)" using Cons by simp
  moreover have "due_list now (x # sites) =
      map (Pair a) (map fst (filter (\<lambda>kst. due_at now (snd kst)) (st_tasks ss))) @ due_list now sites"
    by (simp add: due_list_def x)
  ultimately show ?case using disjoint unfolding distinct_append by auto
qed (simp add: due_list_def)

text \<open>
  A tick never meets a task without a schedule; it triggers exactly the tasks that
  are due, each once, and leaves every task with no next time or one in the future.
\<close>

theorem tick_triggers_due:
  assumes "sched_ok newID s" and "location_ok loc" and "0 \<le> now"
  shows "\<exists>s' dues. tick loc now s = Some (s', dues) \<and> distinct dues \<and>
    (\<forall>a b. (a, b) \<in> set dues \<longleftrightarrow> (\<exists>st. find_task s a b = Some st \<and> ts_next st \<noteq> 0 \<and> ts_next st \<le> now)) \<and>
    (\<forall>a b st. find_task s' a b = Some st \<longrightarrow> ts_next st = 0 \<or> now < ts_next st)"
proof -
  obtain s' where t: "tick loc now s = Some (s', due_list now (sc_sites s))"
    "\<And>a b st. find_task s' a b = Some st \<Longrightarrow> \<not> due_at now st"
    using tick_ok [OF assms(1), of loc now] assms(2,3) by blast
  have dist: "distinct (map fst (sc_sites s))" "\<forall>ss \<in> snd ` set (sc_sites s). distinct (map fst (st_tasks ss))"
    using assms(1) by (simp_all add: sched_ok_def)
  have set_dues: "(a, b) \<in> set (due_list now (sc_sites s)) \<longleftrightarrow> (\<exists>st. find_task s a b = Some st \<and> due_at now st)" for a b
    unfolding find_task_set [OF dist] set_due_list by blast
  have "distinct (due_list now (sc_sites s))" using dist by (rule due_list_distinct)
  with t set_dues show ?thesis unfolding due_at_def
    by (intro exI [of _ s'] exI [of _ "due_list now (sc_sites s)"]) (auto simp: not_le)
qed

definition sample_sched :: scheduler where
  "sample_sched = Apply utc minute (task_site ''queue'') new_scheduler"

lemma sample_sched_ok: "sched_ok show_nat sample_sched"
  unfolding sample_sched_def
  by (rule Apply_ok) (simp add: sched_ok_def new_scheduler_def find_task_def)

theorem tick_triggers_due_witness:
  "\<exists>s'. tick utc (7 * minute) sample_sched = Some (s', [(''s1'', ''t1'')])"
proof -
  have "map_option snd (tick utc (7 * minute) sample_sched) = Some [(''s1'', ''t1'')]" by code_simp
  then show ?thesis using tick_triggers_due [OF sample_sched_ok utc_ok, of "7 * minute"]
    by (auto simp: duration_defs)
qed

text \<open>
  The overlap policy decides: a trigger starts a run only when none of the task is in
  progress, or the policy allows concurrent runs and fewer than ten are; the run is a
  new one, and is the one added to what is in progress.
\<close>

theorem trigger_respects_overlap:
  assumes "sched_ok newID s" and "inj newID" and "trigger newID now a b trig user s = (s', Running rid)"
  shows "\<exists>st. find_task s a b = Some st \<and> \<not> sc_closed s \<and>
    (ts_active st = [] \<or> task_Overlap (ts_task st) = OverlapAllow \<and> length (ts_active st) < maxConcurrent) \<and>
    map_of (sc_runs s) rid = None \<and> find_task s' a b = Some (st\<lparr>ts_active := rid # ts_active st\<rparr>)"
proof -
  obtain ss st where ss: "\<not> sc_closed s" "map_of (sc_sites s) a = Some ss" "map_of (st_tasks ss) b = Some st"
    "overlap st (trig = TriggerManual) = Go_ahead" "rid = newID (sc_drawn s)"
    "find_task s' = find_task (put_task a b (st\<lparr>ts_active := rid # ts_active st\<rparr>) s)"
    using assms(3)
    by (auto simp: trigger_def Let_def find_task_def fun_eq_iff split: if_splits option.splits overlap_decision.splits)
  then have "find_task s' a b = Some (st\<lparr>ts_active := rid # ts_active st\<rparr>)" by (simp add: find_put_task)
  moreover have "find_task s a b = Some st" using ss by (simp add: find_task_def)
  ultimately show ?thesis using ss fresh_run [OF assms(1,2)] by (auto simp: overlap_go_ahead)
qed

theorem trigger_respects_overlap_witness:
  "\<exists>s' st. trigger show_nat minute ''s1'' ''t1'' TriggerManual ''ann'' sample_sched = (s', Running ''0'') \<and>
     find_task s' ''s1'' ''t1'' = Some (st\<lparr>ts_active := ''0'' # ts_active st\<rparr>)"
proof -
  have "snd (trigger show_nat minute ''s1'' ''t1'' TriggerManual ''ann'' sample_sched) = Running ''0''" by code_simp
  then obtain s' where t: "trigger show_nat minute ''s1'' ''t1'' TriggerManual ''ann'' sample_sched = (s', Running ''0'')"
    by (metis prod.collapse)
  then show ?thesis using trigger_respects_overlap [OF sample_sched_ok inj_show_nat t] by blast
qed


definition sample_waiting :: scheduler where
  "sample_waiting =
     fst (trigger show_nat (2 * minute) ''s1'' ''t1'' TriggerSchedule []
       (fst (trigger show_nat minute ''s1'' ''t1'' TriggerManual ''ann'' sample_sched)))"

lemma sample_waiting_ok: "sched_ok show_nat sample_waiting"
  unfolding sample_waiting_def by (intro trigger_ok sample_sched_ok inj_show_nat)


text \<open>
  The loop sleeps no longer than half a minute and never past the next time of a task.
\<close>

theorem untilNext_wakes:
  assumes "find_task s a b = Some st" and "ts_next st \<noteq> 0"
  shows "0 \<le> untilNext now s \<and> untilNext now s \<le> maxWait \<and> untilNext now s \<le> max 0 (time_sub (ts_next st) now)"
proof -
  define f where "f = (\<lambda>d (st :: task_state). if ts_next st \<noteq> 0 then min d (max (time_sub (ts_next st) now) 0) else d)"
  have fold: "0 \<le> d \<Longrightarrow> 0 \<le> foldl f d xs \<and> foldl f d xs \<le> d \<and>
      (\<forall>x \<in> set xs. ts_next x \<noteq> 0 \<longrightarrow> foldl f d xs \<le> max (time_sub (ts_next x) now) 0)" for d xs
  proof (induction xs arbitrary: d)
    case (Cons x xs)
    have "0 \<le> f d x" "f d x \<le> d" "ts_next x \<noteq> 0 \<longrightarrow> f d x \<le> max (time_sub (ts_next x) now) 0"
      using Cons.prems by (auto simp: f_def)
    then show ?case using Cons.IH [of "f d x"] by (auto intro: order_trans)
  qed simp
  let ?xs = "concat (map (\<lambda>ss. map snd (st_tasks (snd ss))) (sc_sites s))"
  have "st \<in> set ?xs"
    using assms(1) by (force simp: find_task_def split: option.splits dest!: map_of_SomeD)
  moreover have "untilNext now s = foldl f maxWait ?xs" by (simp add: untilNext_def f_def)
  ultimately show ?thesis using fold [of maxWait ?xs] assms(2) by (auto simp: maxWait_def duration_defs max.commute)
qed

theorem untilNext_wakes_witness:
  "0 \<le> untilNext minute sample_sched \<and> untilNext minute sample_sched \<le> maxWait"
proof -
  have "map_option (\<lambda>st. ts_next st = 0) (find_task sample_sched ''s1'' ''t1'') = Some False" by code_simp
  then obtain st where "find_task sample_sched ''s1'' ''t1'' = Some st" "ts_next st \<noteq> 0" by auto
  from untilNext_wakes [OF this, of minute] show ?thesis by simp
qed

text \<open>
  Pruning learns every release that a run in progress of the site uses, and no other.
\<close>

theorem Releases_in_use:
  "set (Releases siteID s) =
     {site_ActiveRelease (sr_site r) | r. r \<in> snd ` set (sc_runs s) \<and> site_ID (sr_site r) = siteID \<and>
        site_ActiveRelease (sr_site r) \<noteq> []} \<and> distinct (Releases siteID s)"
proof -
  define f where "f = (\<lambda>out (r :: sched_run). if site_ID (sr_site r) = siteID \<and> site_ActiveRelease (sr_site r) \<noteq> [] \<and>
      site_ActiveRelease (sr_site r) \<notin> set out then out @ [site_ActiveRelease (sr_site r)] else out)"
  have "distinct out \<Longrightarrow> set (foldl f out rs) = set out \<union>
      {site_ActiveRelease (sr_site r) | r. r \<in> set rs \<and> site_ID (sr_site r) = siteID \<and> site_ActiveRelease (sr_site r) \<noteq> []} \<and>
      distinct (foldl f out rs)" for out rs
  proof (induction rs arbitrary: out)
    case (Cons r rs)
    have "distinct (f out r)" using Cons.prems by (simp add: f_def)
    from Cons.IH [OF this] show ?case by (auto simp: f_def)
  qed simp
  from this [of "[]" "map snd (sc_runs s)"] show ?thesis by (simp add: Releases_def f_def)
qed

end
