(* ===== verification/Net_Addr.thy ===== *)
theory Net_Addr
  imports Go_Prelude
begin

text \<open>
  IP addresses and networks: what the program uses of Go's package \<^verbatim>\<open>net\<close>, and
  \<^verbatim>\<open>ParseCIDROrIP\<close> of \<^verbatim>\<open>src/internal/model/validate.go\<close>.

  A \<^verbatim>\<open>net.IP\<close> is its 16-byte form, a 128-bit word; an IPv4 address is the word
  \<^verbatim>\<open>::ffff:a.b.c.d\<close>, which is how \<^verbatim>\<open>To4\<close>, \<^verbatim>\<open>String\<close>, \<^verbatim>\<open>Mask\<close> and \<^verbatim>\<open>Contains\<close>
  treat it. Texts are read and printed as \<^verbatim>\<open>net/netip\<close> does: four decimal numbers
  without leading zeros, or eight hexadecimal groups of which the first longest run of
  two or more zero groups is written as two colons; zones are refused.

  The lemmas: a printed address or network is read back as it was, so that equal texts
  are equal addresses; and a network contains exactly the addresses whose leading bits
  are its own.
\<close>

unbundle bit_operations_syntax

section \<open>Reading and printing\<close>

text \<open>What is printed is read back: printing is then injective.\<close>

locale codec =
  fixes good :: "'a \<Rightarrow> bool"
    and enc :: "'a \<Rightarrow> string"
    and dec :: "string \<Rightarrow> 'a option"
  assumes dec_enc: "good x \<Longrightarrow> dec (enc x) = Some x"
begin

lemma enc_inj: "good x \<Longrightarrow> good y \<Longrightarrow> enc x = enc y \<longleftrightarrow> x = y"
  by (metis dec_enc option.inject)

end

interpretation int_codec: codec in_int64 show_int atoi
  by unfold_locales (rule atoi_show_int)

section \<open>Numbers in a base\<close>

fun digits_base :: "nat \<Rightarrow> nat \<Rightarrow> nat \<Rightarrow> nat list" where
  "digits_base b 0 n = []"
| "digits_base b (Suc k) n = digits_base b k (n div b) @ [n mod b]"

definition undigits :: "nat \<Rightarrow> nat list \<Rightarrow> nat" where
  "undigits b gs = foldl (\<lambda>a g. a * b + g) 0 gs"

lemma undigits_digits: "undigits b (digits_base b k n) = n mod b ^ k"
proof (induction k arbitrary: n)
  case 0
  then show ?case by (simp add: undigits_def)
next
  case (Suc k)
  have "undigits b (digits_base b (Suc k) n) = (n div b mod b ^ k) * b + n mod b"
    using Suc [of "n div b"] by (simp add: undigits_def)
  also have "\<dots> = n mod b ^ Suc k"
    by (simp add: mod_mult2_eq mult.commute)
  finally show ?case .
qed

lemma length_digits [simp]: "length (digits_base b k n) = k"
  by (induction k arbitrary: n) auto

lemma digits_bound: "0 < b \<Longrightarrow> g \<in> set (digits_base b k n) \<Longrightarrow> g < b"
  by (induction k arbitrary: n) auto

section \<open>Hexadecimal groups\<close>

definition hex_char :: "nat \<Rightarrow> char" where
  "hex_char n = (if n < 10 then char_of (48 + n) else char_of (87 + n))"

definition hex_digit :: "char \<Rightarrow> nat option" where
  "hex_digit c =
     (let n = (of_char c :: nat) in
      if 48 \<le> n \<and> n \<le> 57 then Some (n - 48)
      else if 97 \<le> n \<and> n \<le> 102 then Some (n - 87)
      else if 65 \<le> n \<and> n \<le> 70 then Some (n - 55)
      else None)"

fun show_hex :: "nat \<Rightarrow> string" where
  "show_hex n = (if n < 16 then [hex_char n] else show_hex (n div 16) @ [hex_char (n mod 16)])"

declare show_hex.simps [simp del]

text \<open>A group is one to four hexadecimal digits.\<close>

fun hex_value :: "nat \<Rightarrow> string \<Rightarrow> nat option" where
  "hex_value a [] = Some a"
| "hex_value a (c # cs) = (case hex_digit c of None \<Rightarrow> None | Some d \<Rightarrow> hex_value (a * 16 + d) cs)"

definition read_group :: "string \<Rightarrow> nat option" where
  "read_group s = (if s = [] \<or> 4 < length s then None else hex_value 0 s)"

lemma hex_digit_char: "n < 16 \<Longrightarrow> hex_digit (hex_char n) = Some n"
  by (simp add: hex_digit_def hex_char_def Let_def)

lemma hex_value_append:
  "hex_value a (s @ t) = (case hex_value a s of None \<Rightarrow> None | Some b \<Rightarrow> hex_value b t)"
  by (induction s arbitrary: a) (auto split: option.splits)

lemma hex_value_show: "hex_value 0 (show_hex n) = Some n"
proof (induction n rule: show_hex.induct)
  case (1 n)
  show ?case
  proof (cases "n < 16")
    case True
    then show ?thesis by (simp add: show_hex.simps [of n] hex_digit_char)
  next
    case False
    then show ?thesis
      using "1.IH" by (simp add: show_hex.simps [of n] hex_value_append hex_digit_char)
  qed
qed

lemma length_show_hex: "n < 16 ^ Suc k \<Longrightarrow> length (show_hex n) \<le> Suc k"
proof (induction k arbitrary: n)
  case 0
  then show ?case by (simp add: show_hex.simps [of n])
next
  case (Suc k)
  show ?case
  proof (cases "n < 16")
    case True
    then show ?thesis by (simp add: show_hex.simps [of n])
  next
    case False
    have "n div 16 < 16 ^ Suc k"
      using Suc.prems by (simp add: less_mult_imp_div_less)
    from Suc.IH [OF this] False show ?thesis by (simp add: show_hex.simps [of n])
  qed
qed

lemma show_hex_nonempty [simp]: "show_hex n \<noteq> []"
  by (subst show_hex.simps) simp

lemma read_show_hex: "n < 65536 \<Longrightarrow> read_group (show_hex n) = Some n"
  using length_show_hex [of n 3] by (simp add: read_group_def hex_value_show)

text \<open>The characters a group is printed with.\<close>

lemma hex_char_plain:
  "n < 16 \<Longrightarrow> hex_char n \<noteq> CHR '':'' \<and> hex_char n \<noteq> CHR ''.'' \<and> hex_char n \<noteq> CHR ''%'' \<and> hex_char n \<noteq> CHR ''/''"
  by (auto simp: hex_char_def dest: arg_cong [where f = "of_char :: char \<Rightarrow> nat"])

lemma show_hex_chars: "set (show_hex n) \<subseteq> hex_char ` {..<16}"
proof (induction n rule: show_hex.induct)
  case (1 n)
  then show ?case by (subst show_hex.simps) auto
qed

lemma show_hex_plain:
  "CHR '':'' \<notin> set (show_hex n)" "CHR ''.'' \<notin> set (show_hex n)" "CHR ''%'' \<notin> set (show_hex n)"
  "CHR ''/'' \<notin> set (show_hex n)"
  using show_hex_chars [of n] hex_char_plain by fastforce+


section \<open>Texts of addresses\<close>

type_synonym ip = "128 word"

text \<open>\<^verbatim>\<open>IP.To4\<close>.\<close>

definition To4 :: "ip \<Rightarrow> 32 word option" where
  "To4 w = (if drop_bit 32 w = 0xFFFF then Some (ucast w) else None)"

definition ip_v4 :: "32 word \<Rightarrow> ip" where
  "ip_v4 a = word_of_nat (65535 * 2 ^ 32 + unat a)"

text \<open>One number of a dotted address: digits without a leading zero, at most 255.\<close>

definition read_octet :: "string \<Rightarrow> nat option" where
  "read_octet s =
     (if s \<noteq> [] \<and> list_all is_digit s \<and> (length s = 1 \<or> hd s \<noteq> CHR ''0'') \<and> digits_val s \<le> 255
      then Some (nat (digits_val s)) else None)"

fun opt_list :: "'a option list \<Rightarrow> 'a list option" where
  "opt_list [] = Some []"
| "opt_list (None # xs) = None"
| "opt_list (Some x # xs) = map_option ((#) x) (opt_list xs)"

definition read_dotted :: "string \<Rightarrow> nat list option" where
  "read_dotted s =
     (let ps = split_at_char CHR ''.'' s
      in if length ps = 4 then opt_list (map read_octet ps) else None)"

definition parse_v4 :: "string \<Rightarrow> ip option" where
  "parse_v4 s = map_option (\<lambda>bs. ip_v4 (word_of_nat (undigits 256 bs))) (read_dotted s)"

text \<open>The text before and after the first two colons in a row.\<close>

fun cut_ellipsis :: "string \<Rightarrow> (string \<times> string) option" where
  "cut_ellipsis (x # y # r) =
     (if x = CHR '':'' \<and> y = CHR '':'' then Some ([], r)
      else map_option (\<lambda>(l, r). (x # l, r)) (cut_ellipsis (y # r)))"
| "cut_ellipsis _ = None"

text \<open>Groups between colons; with \<open>tail\<close> the last may be a dotted address, for two groups.\<close>

fun read_groups :: "bool \<Rightarrow> string list \<Rightarrow> nat list option" where
  "read_groups tail [] = Some []"
| "read_groups tail (g # gs) =
     (if tail \<and> gs = [] \<and> CHR ''.'' \<in> set g
      then map_option (\<lambda>bs. digits_base 65536 2 (undigits 256 bs)) (read_dotted g)
      else case read_group g of None \<Rightarrow> None | Some n \<Rightarrow> map_option ((#) n) (read_groups tail gs))"

definition split_groups :: "string \<Rightarrow> string list" where
  "split_groups s = (if s = [] then [] else split_at_char CHR '':'' s)"

definition parse_v6 :: "string \<Rightarrow> ip option" where
  "parse_v6 s =
     (case cut_ellipsis s of
        None \<Rightarrow>
          (case read_groups True (split_groups s) of
             None \<Rightarrow> None
           | Some gs \<Rightarrow> if length gs = 8 then Some (word_of_nat (undigits 65536 gs)) else None)
      | Some (l, r) \<Rightarrow>
          (case (read_groups False (split_groups l), read_groups True (split_groups r)) of
             (Some ls, Some rs) \<Rightarrow>
               if length ls + length rs \<le> 7
               then Some (word_of_nat (undigits 65536 (ls @ replicate (8 - length ls - length rs) 0 @ rs)))
               else None
           | _ \<Rightarrow> None))"

text \<open>\<^verbatim>\<open>net.ParseIP\<close>: the first dot or colon decides; a zone is refused.\<close>

definition ParseIP :: "string \<Rightarrow> ip option" where
  "ParseIP s =
     (if CHR ''%'' \<in> set s then None
      else case dropWhile (\<lambda>c. c \<noteq> CHR ''.'' \<and> c \<noteq> CHR '':'') s of
        [] \<Rightarrow> None
      | c # _ \<Rightarrow> if c = CHR ''.'' then parse_v4 s else parse_v6 s)"

text \<open>The first longest run of at least two zero groups: its start and its length.\<close>

definition zero_run :: "nat list \<Rightarrow> nat \<Rightarrow> nat" where
  "zero_run gs i = length (takeWhile (\<lambda>g. g = 0) (drop i gs))"

definition longest_run :: "nat list \<Rightarrow> (nat \<times> nat) option" where
  "longest_run gs =
     foldl (\<lambda>best i. let l = zero_run gs i in
              if 2 \<le> l \<and> (case best of None \<Rightarrow> True | Some (_, n) \<Rightarrow> n < l) then Some (i, l) else best)
       None [0..<length gs]"

definition show_groups :: "nat list \<Rightarrow> string" where
  "show_groups gs = join_with '':'' (map show_hex gs)"

definition show_v6 :: "nat list \<Rightarrow> string" where
  "show_v6 gs =
     (case longest_run gs of
        None \<Rightarrow> show_groups gs
      | Some (i, n) \<Rightarrow> show_groups (take i gs) @ ''::'' @ show_groups (drop (i + n) gs))"

definition show_v4 :: "32 word \<Rightarrow> string" where
  "show_v4 a = join_with ''.'' (map show_nat (digits_base 256 4 (unat a)))"

text \<open>\<^verbatim>\<open>IP.String\<close>.\<close>

definition ip_string :: "ip \<Rightarrow> string" where
  "ip_string w = (case To4 w of Some a \<Rightarrow> show_v4 a | None \<Rightarrow> show_v6 (digits_base 65536 8 (unat w)))"

section \<open>A printed address is read back\<close>

lemma split_join:
  "xs \<noteq> [] \<Longrightarrow> (\<And>x. x \<in> set xs \<Longrightarrow> c \<notin> set x) \<Longrightarrow> split_at_char c (join_with [c] xs) = xs"
proof (induction xs rule: induct_list012)
  case (3 x y zs)
  have app: "c \<notin> set x \<Longrightarrow> split_at_char c (x @ c # s) = x # split_at_char c s" for s
    by (induction x) auto
  from 3 show ?case by (simp add: app)
next
  case (2 x)
  then have "c \<notin> set x" by simp
  then show ?case by (induction x) auto
qed simp

lemma opt_list_map: "(\<And>x. x \<in> set xs \<Longrightarrow> f x = Some (g x)) \<Longrightarrow> opt_list (map f xs) = Some (map g xs)"
  by (induction xs) auto

lemma hd_show_nat: "hd (show_nat n) = CHR ''0'' \<Longrightarrow> n = 0"
proof (induction n rule: show_nat.induct)
  case (1 n)
  show ?case
  proof (cases "n < 10")
    case True
    with 1 have "(char_of (48 + n) :: char) = CHR ''0''" by (simp add: show_nat.simps [of n])
    then have "(of_char (char_of (48 + n) :: char) :: nat) = 48" by simp
    with True show ?thesis by simp
  next
    case False
    with 1 show ?thesis by (simp add: show_nat.simps [of n])
  qed
qed

lemma read_octet_show: "n < 256 \<Longrightarrow> read_octet (show_nat n) = Some n"
proof -
  assume n: "n < 256"
  have "length (show_nat n) = 1 \<or> hd (show_nat n) \<noteq> CHR ''0''"
    using hd_show_nat [of n] by (cases "n = 0") (auto simp: show_nat.simps [of 0])
  with n show ?thesis by (simp add: read_octet_def show_nat_digits digits_val_show_nat)
qed

lemma digit_plain: "is_digit c \<Longrightarrow> c \<noteq> CHR '':'' \<and> c \<noteq> CHR ''.'' \<and> c \<noteq> CHR ''%'' \<and> c \<noteq> CHR ''/''"
  by (auto simp: is_digit_def)

lemma show_nat_plain:
  "CHR '':'' \<notin> set (show_nat n)" "CHR ''.'' \<notin> set (show_nat n)" "CHR ''%'' \<notin> set (show_nat n)"
  "CHR ''/'' \<notin> set (show_nat n)"
  using show_nat_digits [of n] digit_plain by (auto simp: list_all_iff)

lemma read_dotted_show: "read_dotted (show_v4 a) = Some (digits_base 256 4 (unat a))"
proof -
  let ?ds = "digits_base 256 4 (unat a)"
  have sp: "split_at_char CHR ''.'' (show_v4 a) = map show_nat ?ds"
  proof -
    have "?ds \<noteq> []" by (metis length_digits list.size(3) numeral_eq_Suc nat.distinct(1))
    then show ?thesis
      unfolding show_v4_def by (intro split_join) (auto simp: show_nat_plain simp del: digits_base.simps)
  qed
  have "opt_list (map read_octet (map show_nat ?ds)) = Some (map (\<lambda>x. x) ?ds)"
    unfolding map_map
    by (rule opt_list_map) (use digits_bound [of 256] in \<open>auto intro: read_octet_show\<close>)
  with sp show ?thesis by (simp add: read_dotted_def del: digits_base.simps)
qed

lemma parse_show_v4: "parse_v4 (show_v4 a) = Some (ip_v4 a)"
proof -
  have "undigits 256 (digits_base 256 4 (unat a)) = unat a"
    using unsigned_less [of a, where 'a = nat] by (simp only: undigits_digits) simp
  then show ?thesis by (simp add: parse_v4_def read_dotted_show del: digits_base.simps)
qed

lemma word_of_unat: "word_of_nat (unat w) = w"
  by simp

lemma To4_ip_v4: "To4 w = Some a \<Longrightarrow> ip_v4 a = w"
proof -
  assume "To4 w = Some a"
  then have hi: "drop_bit 32 w = 0xFFFF" and a: "a = ucast w" by (auto simp: To4_def split: if_splits)
  have "unat (drop_bit 32 w) = 65535" by (simp add: hi)
  then have "drop_bit 32 (unat w) = 65535"
    unfolding unat_drop_bit_eq .
  then have d: "unat w div 2 ^ 32 = 65535"
    unfolding drop_bit_eq_div .
  have "unat a = unat w mod 2 ^ 32" unfolding a unsigned_ucast_eq by (simp add: take_bit_eq_mod)
  with d have "65535 * 2 ^ 32 + unat a = unat w"
    by (metis div_mult_mod_eq)
  then show ?thesis unfolding ip_v4_def by (simp only: word_of_unat)
qed

lemma zero_run_zeros: "take (zero_run gs i) (drop i gs) = replicate (zero_run gs i) 0"
proof -
  have "take (zero_run gs i) (drop i gs) = takeWhile (\<lambda>g. g = 0) (drop i gs)"
    unfolding zero_run_def by (rule takeWhile_eq_take [symmetric])
  also have "\<dots> = replicate (zero_run gs i) 0"
    unfolding zero_run_def by (rule replicate_eqI) (auto dest: set_takeWhileD)
  finally show ?thesis .
qed

lemma longest_run_is_run:
  assumes "longest_run gs = Some (i, n)"
  shows "n = zero_run gs i \<and> 2 \<le> n"
proof -
  have "(case foldl (\<lambda>best i. let l = zero_run gs i in
              if 2 \<le> l \<and> (case best of None \<Rightarrow> True | Some (_, n) \<Rightarrow> n < l) then Some (i, l) else best) b is
         of None \<Rightarrow> True | Some (i, n) \<Rightarrow> n = zero_run gs i \<and> 2 \<le> n)"
    if "(case b of None \<Rightarrow> True | Some (i, n) \<Rightarrow> n = zero_run gs i \<and> 2 \<le> n)" for b "is"
    using that by (induction "is" arbitrary: b) (auto simp: Let_def split: option.splits)
  from this [of None "[0..<length gs]"] assms show ?thesis
    unfolding longest_run_def by simp
qed

lemma run_split:
  assumes "longest_run gs = Some (i, n)"
  shows "take i gs @ replicate n 0 @ drop (i + n) gs = gs" and "2 \<le> n" and "i + n \<le> length gs"
proof -
  have n: "n = zero_run gs i" "2 \<le> n" using longest_run_is_run [OF assms] by auto
  have "take n (drop i gs) = replicate n 0" using zero_run_zeros n by simp
  then have "replicate n 0 @ drop (i + n) gs = drop i gs"
    by (metis append_take_drop_id drop_drop add.commute)
  then show "take i gs @ replicate n 0 @ drop (i + n) gs = gs" by simp
  show "2 \<le> n" by (rule n)
  have "zero_run gs i \<le> length gs - i"
    unfolding zero_run_def by (metis length_drop length_takeWhile_le)
  with n show "i + n \<le> length gs" by linarith
qed

text \<open>Reading the groups that were printed.\<close>

lemma read_groups_show:
  "(\<And>g. g \<in> set gs \<Longrightarrow> g < 65536) \<Longrightarrow> read_groups b (map show_hex gs) = Some gs"
  by (induction gs) (auto simp: show_hex_plain read_show_hex)

lemma show_groups_empty: "show_groups gs = [] \<longleftrightarrow> gs = []"
  unfolding show_groups_def by (induction gs rule: induct_list012) auto

lemma split_show_groups: "split_groups (show_groups gs) = map show_hex gs"
proof (cases "gs = []")
  case True
  then show ?thesis by (simp add: split_groups_def show_groups_def)
next
  case False
  then have "split_at_char CHR '':'' (show_groups gs) = map show_hex gs"
    unfolding show_groups_def by (intro split_join) (auto simp: show_hex_plain)
  with False show ?thesis by (simp add: split_groups_def show_groups_empty)
qed

text \<open>Where the two colons are: a printed group is not empty and has no colon.\<close>

lemma cut_ellipsis_char:
  "x \<noteq> CHR '':'' \<Longrightarrow> cut_ellipsis (x # s) = map_option (\<lambda>(l, r). (x # l, r)) (cut_ellipsis s)"
  by (cases s) auto

lemma cut_ellipsis_word:
  "CHR '':'' \<notin> set w \<Longrightarrow>
   cut_ellipsis (w @ s) = map_option (\<lambda>(l, r). (w @ l, r)) (cut_ellipsis s)"
proof (induction w)
  case Nil
  then show ?case by (simp add: case_prod_unfold option.map_ident)
next
  case (Cons x w)
  then have "x \<noteq> CHR '':''" by auto
  with Cons show ?case
    by (simp add: cut_ellipsis_char option.map_comp comp_def case_prod_unfold)
qed

lemma cut_ellipsis_colon:
  "x \<noteq> CHR '':'' \<Longrightarrow> cut_ellipsis (CHR '':'' # x # s) = map_option (\<lambda>(l, r). (CHR '':'' # l, r)) (cut_ellipsis (x # s))"
  by simp

lemma hd_show_groups: "gs \<noteq> [] \<Longrightarrow> \<exists>x s. show_groups gs = x # s \<and> x \<noteq> CHR '':''"
proof -
  assume "gs \<noteq> []"
  then obtain g r where gs: "gs = g # r" by (cases gs) auto
  obtain x s where x: "show_hex g = x # s" by (cases "show_hex g") auto
  have "x \<noteq> CHR '':''" using show_hex_plain(1) [of g] x by auto
  then show ?thesis by (cases r) (auto simp: show_groups_def gs x)
qed

lemma show_groups_Cons:
  "gs \<noteq> [] \<Longrightarrow> show_groups (g # gs) = show_hex g @ CHR '':'' # show_groups gs"
  by (cases gs) (auto simp: show_groups_def)

lemma cut_show_groups: "cut_ellipsis (show_groups gs) = None"
proof (induction gs)
  case Nil
  then show ?case by (simp add: show_groups_def)
next
  case (Cons g gs)
  show ?case
  proof (cases "gs = []")
    case True
    then show ?thesis using cut_ellipsis_word [OF show_hex_plain(1), of g "[]"] by (simp add: show_groups_def)
  next
    case False
    then obtain x s where x: "show_groups gs = x # s" "x \<noteq> CHR '':''" using hd_show_groups by blast
    have "cut_ellipsis (CHR '':'' # show_groups gs) = None"
      using Cons.IH x cut_ellipsis_colon [OF x(2), of s] by simp
    with False show ?thesis by (simp add: show_groups_Cons cut_ellipsis_word show_hex_plain)
  qed
qed

lemma cut_show_ellipsis: "cut_ellipsis (show_groups gs @ ''::'' @ r) = Some (show_groups gs, r)"
proof (induction gs)
  case Nil
  then show ?case by (simp add: show_groups_def)
next
  case (Cons g gs)
  show ?case
  proof (cases "gs = []")
    case True
    then show ?thesis
      using cut_ellipsis_word [OF show_hex_plain(1), of g "''::'' @ r"] by (simp add: show_groups_def)
  next
    case False
    then obtain x s where x: "show_groups gs = x # s" "x \<noteq> CHR '':''" using hd_show_groups by blast
    have "cut_ellipsis (CHR '':'' # show_groups gs @ ''::'' @ r) = Some (CHR '':'' # show_groups gs, r)"
      using Cons.IH x cut_ellipsis_colon [OF x(2), of "s @ ''::'' @ r"] by simp
    with False show ?thesis by (simp add: show_groups_Cons cut_ellipsis_word show_hex_plain)
  qed
qed

lemma parse_show_v6:
  assumes l: "length gs = 8" and b: "\<And>g. g \<in> set gs \<Longrightarrow> g < 65536"
  shows "parse_v6 (show_v6 gs) = Some (word_of_nat (undigits 65536 gs))"
proof (cases "longest_run gs")
  case None
  then show ?thesis
    using l b by (simp add: show_v6_def parse_v6_def cut_show_groups split_show_groups read_groups_show)
next
  case (Some p)
  obtain i n where p: "p = (i, n)" by (cases p)
  have run: "take i gs @ replicate n 0 @ drop (i + n) gs = gs" "2 \<le> n" "i + n \<le> length gs"
    using run_split Some p by auto
  have left: "read_groups False (split_groups (show_groups (take i gs))) = Some (take i gs)"
    unfolding split_show_groups by (rule read_groups_show) (auto intro: b dest: in_set_takeD)
  have right: "read_groups True (split_groups (show_groups (drop (i + n) gs))) = Some (drop (i + n) gs)"
    unfolding split_show_groups by (rule read_groups_show) (auto intro: b dest: in_set_dropD)
  have len: "length (take i gs) + length (drop (i + n) gs) \<le> 7"
    "8 - length (take i gs) - length (drop (i + n) gs) = n"
    using run l by auto
  have "parse_v6 (show_v6 gs)
      = Some (word_of_nat (undigits 65536 (take i gs @ replicate n 0 @ drop (i + n) gs)))"
    unfolding show_v6_def Some p option.case prod.case parse_v6_def cut_show_ellipsis left right
    using len by simp
  with run(1) show ?thesis by simp
qed

text \<open>The first dot or colon of a printed address.\<close>

lemma join_two: "length xs \<ge> 2 \<Longrightarrow> join_with [c] xs = hd xs @ c # join_with [c] (tl xs)"
  by (induction xs rule: induct_list012) auto

lemma set_join: "set (join_with sep xs) \<subseteq> set sep \<union> (\<Union>x\<in>set xs. set x)"
  by (induction xs rule: induct_list012) auto

lemma first_mark:
  assumes "s = w @ c # r" and "CHR ''.'' \<notin> set w" "CHR '':'' \<notin> set w" and "c = CHR ''.'' \<or> c = CHR '':''"
  shows "dropWhile (\<lambda>c. c \<noteq> CHR ''.'' \<and> c \<noteq> CHR '':'') s = c # r"
proof -
  have "dropWhile (\<lambda>c. c \<noteq> CHR ''.'' \<and> c \<noteq> CHR '':'') (w @ c # r)
      = dropWhile (\<lambda>c. c \<noteq> CHR ''.'' \<and> c \<noteq> CHR '':'') (c # r)"
    by (rule dropWhile_append2) (use assms in metis)
  with assms show ?thesis by auto
qed

lemma show_v4_plain: "CHR ''%'' \<notin> set (show_v4 a)" "CHR ''/'' \<notin> set (show_v4 a)" "CHR '':'' \<notin> set (show_v4 a)"
  using set_join [of "''.''" "map show_nat (digits_base 256 4 (unat a))"]
  by (auto simp: show_v4_def show_nat_plain simp del: digits_base.simps)

lemma show_v4_mark: "\<exists>w r. show_v4 a = w @ CHR ''.'' # r \<and> CHR ''.'' \<notin> set w \<and> CHR '':'' \<notin> set w"
proof -
  let ?ds = "map show_nat (digits_base 256 4 (unat a))"
  have "show_v4 a = hd ?ds @ CHR ''.'' # join_with ''.'' (tl ?ds)"
    unfolding show_v4_def by (rule join_two) simp
  moreover have "hd ?ds \<in> set ?ds"
    by (rule hd_in_set) (metis length_0_conv length_digits length_map zero_neq_numeral)
  then obtain n where "hd ?ds = show_nat n" by (metis imageE image_set)
  ultimately show ?thesis using show_nat_plain by metis
qed

lemma show_groups_plain: "CHR ''%'' \<notin> set (show_groups gs)" "CHR ''/'' \<notin> set (show_groups gs)"
  using set_join [of "'':''" "map show_hex gs"] by (auto simp: show_groups_def show_hex_plain)

lemma show_v6_plain: "CHR ''%'' \<notin> set (show_v6 gs)" "CHR ''/'' \<notin> set (show_v6 gs)"
  by (auto simp: show_v6_def show_groups_plain split: option.splits)

lemma show_groups_mark:
  "gs \<noteq> [] \<Longrightarrow> \<exists>w r. show_groups gs @ CHR '':'' # s = w @ CHR '':'' # r \<and> CHR ''.'' \<notin> set w \<and> CHR '':'' \<notin> set w"
proof -
  assume "gs \<noteq> []"
  then obtain g r where gs: "gs = g # r" by (cases gs) auto
  have "\<exists>t. show_groups gs @ CHR '':'' # s = show_hex g @ CHR '':'' # t"
    by (cases r) (auto simp: show_groups_def gs)
  then show ?thesis using show_hex_plain by blast
qed

lemma show_v6_mark:
  assumes "length gs = 8"
  shows "\<exists>w r. show_v6 gs = w @ CHR '':'' # r \<and> CHR ''.'' \<notin> set w \<and> CHR '':'' \<notin> set w"
proof (cases "longest_run gs")
  case None
  obtain g r where gs: "gs = g # r" "r \<noteq> []"
    using assms by (cases gs; cases "tl gs") auto
  then have "show_v6 gs = show_hex g @ CHR '':'' # show_groups r"
    using None by (simp add: show_v6_def show_groups_Cons)
  then show ?thesis using show_hex_plain by blast
next
  case (Some p)
  obtain i n where p: "p = (i, n)" by (cases p)
  have eq: "show_v6 gs = show_groups (take i gs) @ CHR '':'' # CHR '':'' # show_groups (drop (i + n) gs)"
    by (simp add: show_v6_def Some p)
  show ?thesis
  proof (cases "take i gs = []")
    case True
    with eq have "show_v6 gs = [] @ CHR '':'' # CHR '':'' # show_groups (drop (i + n) gs)"
      by (simp add: show_groups_def)
    then show ?thesis by (metis empty_iff list.set(1))
  next
    case False
    from show_groups_mark [OF this] eq show ?thesis by metis
  qed
qed

lemma ParseIP_ip_string: "ParseIP (ip_string w) = Some w"
proof (cases "To4 w")
  case None
  let ?gs = "digits_base 65536 8 (unat w)"
  have s: "ip_string w = show_v6 ?gs" by (simp only: ip_string_def None option.case)
  obtain u r where "show_v6 ?gs = u @ CHR '':'' # r" "CHR ''.'' \<notin> set u" "CHR '':'' \<notin> set u"
    using show_v6_mark [OF length_digits] by blast
  then have mark: "dropWhile (\<lambda>c. c \<noteq> CHR ''.'' \<and> c \<noteq> CHR '':'') (show_v6 ?gs) = CHR '':'' # r"
    by (rule first_mark) simp
  have "undigits 65536 ?gs = unat w"
    using unsigned_less [of w, where 'a = nat] by (simp only: undigits_digits) simp
  moreover have "parse_v6 (show_v6 ?gs) = Some (word_of_nat (undigits 65536 ?gs))"
    by (rule parse_show_v6 [OF length_digits]) (erule digits_bound [rotated], simp)
  ultimately have "parse_v6 (show_v6 ?gs) = Some w" by (simp only: word_of_unat)
  then show ?thesis
    unfolding s ParseIP_def using mark show_v6_plain(1) [of ?gs] by (simp del: digits_base.simps)
next
  case (Some a)
  have s: "ip_string w = show_v4 a" by (simp add: ip_string_def Some)
  obtain u r where "show_v4 a = u @ CHR ''.'' # r" "CHR ''.'' \<notin> set u" "CHR '':'' \<notin> set u"
    using show_v4_mark [of a] by blast
  then have mark: "dropWhile (\<lambda>c. c \<noteq> CHR ''.'' \<and> c \<noteq> CHR '':'') (show_v4 a) = CHR ''.'' # r"
    by (rule first_mark) simp
  show ?thesis
    unfolding s ParseIP_def using mark show_v4_plain(1) [of a] parse_show_v4 [of a] To4_ip_v4 [OF Some] by simp
qed

interpretation ip_codec: codec "\<lambda>w. True" ip_string ParseIP
  by unfold_locales (rule ParseIP_ip_string)

lemma ip_string_plain: "CHR ''/'' \<notin> set (ip_string w)" "CHR ''%'' \<notin> set (ip_string w)"
  unfolding ip_string_def using show_v4_plain show_v6_plain by (auto split: option.splits)


section \<open>Networks\<close>

text \<open>\<^verbatim>\<open>net.IPNet\<close>; \<open>net_ones\<close> and \<open>net_bits\<close> are what \<^verbatim>\<open>Mask.Size\<close> returns.\<close>

record ipnet =
  net_IP :: ip
  net_ones :: nat
  net_bits :: nat

text \<open>\<^verbatim>\<open>IP.Mask\<close> with \<^verbatim>\<open>CIDRMask(ones, 128)\<close>: the leading bits.\<close>

definition mask_top :: "nat \<Rightarrow> ip \<Rightarrow> ip" where
  "mask_top p w = w AND NOT (mask (128 - p))"

text \<open>
  How many leading bits of the 16-byte form the network fixes: the mask of an IPv4
  network, or the last four bytes of a 16-byte mask of an IPv4 address, is extended
  by the 96 bits all IPv4 addresses share.
\<close>

definition net_prefix :: "ipnet \<Rightarrow> nat" where
  "net_prefix n =
     (if To4 (net_IP n) = None then net_ones n
      else 96 + (if net_bits n = 32 then net_ones n else net_ones n - 96))"

text \<open>\<^verbatim>\<open>IPNet.Contains\<close> and \<^verbatim>\<open>IPNet.String\<close>.\<close>

definition Contains :: "ipnet \<Rightarrow> ip \<Rightarrow> bool" where
  "Contains n w \<longleftrightarrow>
     (To4 w = None) = (To4 (net_IP n) = None) \<and>
     mask_top (net_prefix n) w = mask_top (net_prefix n) (net_IP n)"

definition net_string :: "ipnet \<Rightarrow> string" where
  "net_string n =
     ip_string (net_IP n) @ ''/'' @
     show_nat (if To4 (net_IP n) = None then net_prefix n else net_prefix n - 96)"

text \<open>\<^verbatim>\<open>net.ParseCIDR\<close>, the network only.\<close>

definition dotted_text :: "string \<Rightarrow> bool" where
  "dotted_text s \<longleftrightarrow> (case dropWhile (\<lambda>c. c \<noteq> CHR ''.'' \<and> c \<noteq> CHR '':'') s of [] \<Rightarrow> False | c # _ \<Rightarrow> c = CHR ''.'')"

definition ParseCIDR :: "string \<Rightarrow> ipnet option" where
  "ParseCIDR s =
     (let (addr, m, found) = cut_at CHR ''/'' s; bits = (if dotted_text addr then 32 else 128)
      in case ParseIP addr of
           None \<Rightarrow> None
         | Some w \<Rightarrow>
             if found \<and> m \<noteq> [] \<and> list_all is_digit m \<and> digits_val m \<le> int bits
             then (let ones = nat (digits_val m)
                   in Some \<lparr> net_IP = mask_top (if bits = 32 then 96 + ones else ones) w,
                             net_ones = ones, net_bits = bits \<rparr>)
             else None)"

datatype addr_error = InvalidCIDR string | NotAnAddress string

definition ParseCIDROrIP :: "string \<Rightarrow> addr_error + ipnet" where
  "ParseCIDROrIP s0 =
     (let s = trim_space s0
      in if CHR ''/'' \<in> set s
         then (case ParseCIDR s of None \<Rightarrow> Inl (InvalidCIDR s) | Some n \<Rightarrow> Inr n)
         else (case ParseIP s of
                 None \<Rightarrow> Inl (NotAnAddress s)
               | Some w \<Rightarrow>
                   (let bits = (if To4 w = None then 128 else 32)
                    in Inr \<lparr> net_IP = w, net_ones = bits, net_bits = bits \<rparr>)))"

section \<open>Masks\<close>

lemma bit_mask_top: "bit (mask_top p w) i \<longleftrightarrow> bit w i \<and> 128 - p \<le> i"
proof (cases "i < 128")
  case True
  then show ?thesis by (auto simp: mask_top_def bit_and_iff bit_not_iff bit_mask_iff)
next
  case False
  then have "\<not> bit v i" for v :: ip using bit_imp_le_length [of v i] by auto
  then show ?thesis by simp
qed

lemma mask_top_all: "128 \<le> p \<Longrightarrow> mask_top p w = w"
  by (rule bit_eqI) (simp add: bit_mask_top)

lemma mask_top_twice: "mask_top p (mask_top q w) = mask_top (min p q) w"
  by (rule bit_eqI) (auto simp: bit_mask_top)

lemma To4_None_iff: "To4 w = None \<longleftrightarrow> drop_bit 32 w \<noteq> 0xFFFF"
  by (simp add: To4_def)

text \<open>A masked IPv6 address is never an IPv4 one, and masking within IPv4 stays there.\<close>

lemma To4_mask_v6: "To4 w = None \<Longrightarrow> To4 (mask_top p w) = None"
proof (cases "96 \<le> p")
  case True
  have "drop_bit 32 (mask_top p w) = drop_bit 32 w"
    using True by (intro bit_eqI) (auto simp: bit_drop_bit_eq bit_mask_top)
  then show "To4 w = None \<Longrightarrow> ?thesis" unfolding To4_None_iff by (simp only: not_False_eq_True)
next
  case False
  have "\<not> bit (drop_bit 32 (mask_top p w)) 0"
    using False by (auto simp: bit_drop_bit_eq bit_mask_top)
  moreover have "bit (0xFFFF :: ip) 0" by simp
  ultimately show ?thesis unfolding To4_None_iff by metis
qed

lemma To4_mask_v4: "To4 w \<noteq> None \<Longrightarrow> To4 (mask_top (96 + k) w) \<noteq> None"
proof -
  have "drop_bit 32 (mask_top (96 + k) w) = drop_bit 32 w"
    by (intro bit_eqI) (auto simp: bit_drop_bit_eq bit_mask_top)
  then show "To4 w \<noteq> None \<Longrightarrow> ?thesis" unfolding To4_None_iff by (simp only: not_False_eq_True)
qed

lemma To4_ip_v4_Some: "To4 (ip_v4 a) = Some a"
proof -
  have "unat a < 2 ^ 32" using unsigned_less [of a, where 'a = nat] by simp
  then have u: "unat (ip_v4 a) = 65535 * 2 ^ 32 + unat a"
    unfolding ip_v4_def unsigned_of_nat by (simp add: take_bit_nat_eq_self)
  have "unat (drop_bit 32 (ip_v4 a)) = 65535"
    unfolding unat_drop_bit_eq u unfolding drop_bit_eq_div using \<open>unat a < 2 ^ 32\<close> by simp
  then have "drop_bit 32 (ip_v4 a) = 0xFFFF" by (metis word_of_unat of_nat_numeral)
  moreover have "unat (ucast (ip_v4 a) :: 32 word) = unat a"
    unfolding unsigned_ucast_eq u using \<open>unat a < 2 ^ 32\<close> mod_mult_self3 [of 65535 "2 ^ 32" "unat a"]
    by (simp add: take_bit_eq_mod)
  then have "ucast (ip_v4 a) = a" by (metis word_of_unat)
  ultimately show ?thesis by (simp add: To4_def)
qed

section \<open>A printed network is read back\<close>

text \<open>A network as the program makes them: IPv4 with a 32-bit mask, the address masked.\<close>

definition net_wf :: "ipnet \<Rightarrow> bool" where
  "net_wf n \<longleftrightarrow>
     net_bits n = (if To4 (net_IP n) = None then 128 else 32) \<and>
     net_ones n \<le> net_bits n \<and> mask_top (net_prefix n) (net_IP n) = net_IP n"

lemma no_space_trim: "(\<And>c. c \<in> set s \<Longrightarrow> \<not> is_space c) \<Longrightarrow> trim_space s = s"
proof -
  assume "\<And>c. c \<in> set s \<Longrightarrow> \<not> is_space c"
  then have "dropWhile is_space s = s" "dropWhile is_space (rev s) = rev s"
    by (metis dropWhile_eq_self_iff hd_in_set set_rev)+
  then show ?thesis by (simp add: trim_space_def)
qed

lemma hex_char_graphic: "n < 16 \<Longrightarrow> \<not> is_space (hex_char n)"
  by (auto simp: hex_char_def is_space_def dest: arg_cong [where f = "of_char :: char \<Rightarrow> nat"])

lemma show_hex_graphic: "c \<in> set (show_hex n) \<Longrightarrow> \<not> is_space c"
  using show_hex_chars [of n] hex_char_graphic by auto

lemma show_nat_graphic: "c \<in> set (show_nat n) \<Longrightarrow> \<not> is_space c"
proof -
  assume "c \<in> set (show_nat n)"
  then have "is_digit c" using show_nat_digits [of n] by (auto simp: list_all_iff)
  then show ?thesis by (auto simp: is_digit_def is_space_def)
qed

lemma show_groups_graphic: "c \<in> set (show_groups gs) \<Longrightarrow> \<not> is_space c"
proof -
  assume "c \<in> set (show_groups gs)"
  then have "c = CHR '':'' \<or> (\<exists>g. c \<in> set (show_hex g))"
    using set_join [of "'':''" "map show_hex gs"] by (auto simp: show_groups_def)
  then show ?thesis by (auto dest: show_hex_graphic simp: is_space_def)
qed

lemma show_v4_graphic: "c \<in> set (show_v4 a) \<Longrightarrow> \<not> is_space c"
proof -
  assume "c \<in> set (show_v4 a)"
  then have "c = CHR ''.'' \<or> (\<exists>g. c \<in> set (show_nat g))"
    using set_join [of "''.''" "map show_nat (digits_base 256 4 (unat a))"]
    by (auto simp: show_v4_def simp del: digits_base.simps)
  then show ?thesis by (auto dest: show_nat_graphic simp: is_space_def)
qed

lemma colon_graphic: "\<not> is_space CHR '':''" "\<not> is_space CHR ''/''"
  by (auto simp: is_space_def)

lemma show_v6_graphic: "c \<in> set (show_v6 gs) \<Longrightarrow> \<not> is_space c"
  using show_groups_graphic colon_graphic by (auto simp: show_v6_def split: option.splits)

lemma ip_string_graphic: "c \<in> set (ip_string w) \<Longrightarrow> \<not> is_space c"
  unfolding ip_string_def using show_v4_graphic show_v6_graphic by (auto split: option.splits)

lemma dotted_ip_string: "dotted_text (ip_string w) \<longleftrightarrow> To4 w \<noteq> None"
proof (cases "To4 w")
  case None
  let ?gs = "digits_base 65536 8 (unat w)"
  have s: "ip_string w = show_v6 ?gs" by (simp only: ip_string_def None option.case)
  obtain u r where "show_v6 ?gs = u @ CHR '':'' # r" "CHR ''.'' \<notin> set u" "CHR '':'' \<notin> set u"
    using show_v6_mark [OF length_digits] by blast
  then have "dropWhile (\<lambda>c. c \<noteq> CHR ''.'' \<and> c \<noteq> CHR '':'') (show_v6 ?gs) = CHR '':'' # r"
    by (rule first_mark) simp
  with None show ?thesis by (simp add: s dotted_text_def del: digits_base.simps)
next
  case (Some a)
  obtain u r where "show_v4 a = u @ CHR ''.'' # r" "CHR ''.'' \<notin> set u" "CHR '':'' \<notin> set u"
    using show_v4_mark [of a] by blast
  then have "dropWhile (\<lambda>c. c \<noteq> CHR ''.'' \<and> c \<noteq> CHR '':'') (show_v4 a) = CHR ''.'' # r"
    by (rule first_mark) simp
  with Some show ?thesis by (simp add: ip_string_def dotted_text_def)
qed

lemma cut_at_found: "c \<notin> set u \<Longrightarrow> cut_at c (u @ c # v) = (u, v, True)"
proof -
  assume "c \<notin> set u"
  then have "takeWhile (\<lambda>x. x \<noteq> c) (u @ c # v) = u" "dropWhile (\<lambda>x. x \<noteq> c) (u @ c # v) = c # v"
    by (induction u) auto
  then show ?thesis by (simp add: cut_at_def)
qed

lemma ParseCIDR_net_string:
  assumes "net_wf n"
  shows "ParseCIDR (net_string n) = Some n"
proof -
  let ?o = "net_ones n"
  have pre: "(if To4 (net_IP n) = None then net_prefix n else net_prefix n - 96) = ?o"
    using assms by (auto simp: net_wf_def net_prefix_def)
  have s: "net_string n = ip_string (net_IP n) @ CHR ''/'' # show_nat ?o"
    unfolding net_string_def pre by simp
  have m: "(if (if To4 (net_IP n) = None then 128 else 32) = (32::nat) then 96 + ?o else ?o) = net_prefix n"
    using assms by (auto simp: net_wf_def net_prefix_def)
  have bits: "net_bits n = (if To4 (net_IP n) = None then 128 else 32)" and le: "?o \<le> net_bits n"
    and masked: "mask_top (net_prefix n) (net_IP n) = net_IP n"
    using assms by (auto simp: net_wf_def)
  have cut: "cut_at CHR ''/'' (net_string n) = (ip_string (net_IP n), show_nat ?o, True)"
    unfolding s by (rule cut_at_found) (rule ip_string_plain)
  have d: "(if dotted_text (ip_string (net_IP n)) then 32 else 128) = net_bits n"
    unfolding dotted_ip_string bits by simp
  show ?thesis
    unfolding ParseCIDR_def cut Let_def prod.case d ParseIP_ip_string option.case
    using le m masked bits by (cases "To4 (net_IP n)") (simp_all add: show_nat_digits digits_val_show_nat)
qed

lemma ParseCIDROrIP_net_string:
  assumes "net_wf n"
  shows "ParseCIDROrIP (net_string n) = Inr n"
proof -
  have "trim_space (net_string n) = net_string n"
    by (rule no_space_trim)
      (auto simp: net_string_def colon_graphic dest: ip_string_graphic show_nat_graphic split: if_splits)
  moreover have "CHR ''/'' \<in> set (net_string n)" by (simp add: net_string_def)
  ultimately show ?thesis using ParseCIDR_net_string [OF assms] by (simp add: ParseCIDROrIP_def)
qed

definition single :: "ip \<Rightarrow> ipnet" where
  "single w =
     (let bits = (if To4 w = None then 128 else 32) in \<lparr> net_IP = w, net_ones = bits, net_bits = bits \<rparr>)"

lemma ParseCIDROrIP_ip_string: "ParseCIDROrIP (ip_string w) = Inr (single w)"
proof -
  have "trim_space (ip_string w) = ip_string w"
    by (rule no_space_trim) (rule ip_string_graphic)
  then show ?thesis
    using ip_string_plain [of w] by (simp add: ParseCIDROrIP_def ParseIP_ip_string single_def Let_def)
qed

lemma Contains_single: "Contains (single w) v \<longleftrightarrow> v = w"
  by (auto simp: Contains_def single_def net_prefix_def mask_top_all Let_def)

lemma net_wf_single: "net_wf (single w)"
  by (auto simp: net_wf_def single_def net_prefix_def mask_top_all Let_def)

interpretation net_codec: codec net_wf net_string ParseCIDR
  by unfold_locales (rule ParseCIDR_net_string)


text \<open>
  C34. Addresses and networks survive being written and read: an address printed by
  \<^verbatim>\<open>IP.String\<close> is read by \<^verbatim>\<open>ParseCIDROrIP\<close> as the network of that address alone, and a
  network printed by \<^verbatim>\<open>IPNet.String\<close> as that network. Bans are saved and looked up by
  these texts.
\<close>

theorem ParseCIDROrIP_roundtrip:
  assumes "net_wf n"
  shows "ParseCIDROrIP (net_string n) = Inr n \<and> ParseCIDROrIP (ip_string w) = Inr (single w)"
  using ParseCIDROrIP_net_string [OF assms] ParseCIDROrIP_ip_string by blast

theorem ParseCIDROrIP_roundtrip_witness:
  "ParseCIDROrIP (net_string \<lparr> net_IP = 0x20010DB8000000000000000000000000, net_ones = 32, net_bits = 128 \<rparr>)
     = Inr \<lparr> net_IP = 0x20010DB8000000000000000000000000, net_ones = 32, net_bits = 128 \<rparr>"
proof -
  let ?n = "\<lparr> net_IP = 0x20010DB8000000000000000000000000, net_ones = 32, net_bits = 128 \<rparr>"
  have "To4 0x20010DB8000000000000000000000000 = None" by code_simp
  moreover have "mask_top 32 0x20010DB8000000000000000000000000 = 0x20010DB8000000000000000000000000" by code_simp
  ultimately have "net_wf ?n" by (simp add: net_wf_def net_prefix_def)
  then show ?thesis using ParseCIDROrIP_roundtrip [of ?n 0] by blast
qed

end
