(* ===== verification/Go_List.thy ===== *)
theory Go_List
  imports Go_Prelude
begin

text \<open>
  Go's \<^verbatim>\<open>container/list\<close> with a map from keys to list elements, the structure of the
  ban manager's counters and of the response cache: the map finds the element of a
  key, the list keeps the values in order of use, the most recent first.

  An element is a number that is never used again, so that it stays a name for its
  value however the list is rearranged, as \<^verbatim>\<open>*list.Element\<close> does. The abstract view is
  the plain list of values in order of use; the lemmas say which operation on it each
  operation on the pair of map and list is.
\<close>

section \<open>The list\<close>

record 'a golist =
  cells :: "(nat \<times> 'a) list"
  fresh :: nat

definition list_New :: "'a golist" where
  "list_New = \<lparr> cells = [], fresh = 0 \<rparr>"

definition PushFront :: "'a \<Rightarrow> 'a golist \<Rightarrow> nat \<times> 'a golist" where
  "PushFront v l = (fresh l, \<lparr> cells = (fresh l, v) # cells l, fresh = Suc (fresh l) \<rparr>)"

definition Remove :: "nat \<Rightarrow> 'a golist \<Rightarrow> 'a golist" where
  "Remove e l = l \<lparr> cells := filter (\<lambda>c. fst c \<noteq> e) (cells l) \<rparr>"

definition MoveToFront :: "nat \<Rightarrow> 'a golist \<Rightarrow> 'a golist" where
  "MoveToFront e l =
     l \<lparr> cells := filter (\<lambda>c. fst c = e) (cells l) @ filter (\<lambda>c. fst c \<noteq> e) (cells l) \<rparr>"

definition list_value :: "nat \<Rightarrow> 'a golist \<Rightarrow> 'a option" where
  "list_value e l = map_of (cells l) e"

text \<open>Writing through the pointer that an element holds.\<close>

definition set_value :: "nat \<Rightarrow> 'a \<Rightarrow> 'a golist \<Rightarrow> 'a golist" where
  "set_value e v l = l \<lparr> cells := map (\<lambda>c. if fst c = e then (e, v) else c) (cells l) \<rparr>"

definition list_Len :: "'a golist \<Rightarrow> nat" where
  "list_Len l = length (cells l)"

definition list_Back :: "'a golist \<Rightarrow> nat option" where
  "list_Back l = (if cells l = [] then None else Some (fst (last (cells l))))"

definition items :: "'a golist \<Rightarrow> 'a list" where
  "items l = map snd (cells l)"

section \<open>The map of keys to elements\<close>

definition list_wf :: "'a golist \<Rightarrow> bool" where
  "list_wf l \<longleftrightarrow> distinct (map fst (cells l)) \<and> (\<forall>c\<in>set (cells l). fst c < fresh l)"

definition key_indexed :: "('a \<Rightarrow> 'k) \<Rightarrow> ('k \<rightharpoonup> nat) \<Rightarrow> 'a golist \<Rightarrow> bool" where
  "key_indexed key idx l \<longleftrightarrow>
     list_wf l \<and> distinct (map key (items l)) \<and>
     (\<forall>k e. idx k = Some e \<longleftrightarrow> (\<exists>v. (e, v) \<in> set (cells l) \<and> key v = k))"

lemma indexed_New: "key_indexed key Map.empty list_New"
  by (simp add: key_indexed_def list_wf_def list_New_def items_def)

lemma distinct_map_filter: "distinct (map f xs) \<Longrightarrow> distinct (map f (filter P xs))"
  by (induction xs) auto

lemma filter_key:
  assumes "distinct (map fst cs)" and "distinct (map (\<lambda>c. key (snd c)) cs)" and "(e, v) \<in> set cs"
  shows "map snd (filter (\<lambda>c. fst c \<noteq> e) cs) = filter (\<lambda>u. key u \<noteq> key v) (map snd cs)"
    and "filter (\<lambda>c. fst c = e) cs = [(e, v)]"
  using assms
proof (induction cs)
  case Nil
  { case 1 then show ?case by simp }
  { case 2 then show ?case by simp }
next
  case (Cons c cs)
  have all_ne: "filter (\<lambda>c. fst c \<noteq> e) cs = cs" "filter (\<lambda>c. fst c = e) cs = []"
    if "e \<notin> fst ` set cs"
    using that by (auto simp: filter_id_conv filter_empty_conv)
  have all_k: "filter (\<lambda>u. key u \<noteq> k) (map snd cs) = map snd cs" if "k \<notin> (\<lambda>c. key (snd c)) ` set cs" for k
    using that by (force simp: filter_id_conv)
  { case 1
    show ?case
    proof (cases "c = (e, v)")
      case True
      have "e \<notin> fst ` set cs" "key v \<notin> (\<lambda>c. key (snd c)) ` set cs" using 1(1,2) True by simp_all
      with True show ?thesis by (simp add: all_ne(1) all_k)
    next
      case False
      with 1 have "(e, v) \<in> set cs" by auto
      then have "key v \<in> (\<lambda>c. key (snd c)) ` set cs" "e \<in> fst ` set cs" by (force, force)
      moreover have "fst c \<notin> fst ` set cs" "key (snd c) \<notin> (\<lambda>c. key (snd c)) ` set cs"
        using 1(1,2) by simp_all
      ultimately have "fst c \<noteq> e" "key (snd c) \<noteq> key v" by metis+
      with 1 False Cons(1) show ?thesis by simp
    qed }
  { case 2
    show ?case
    proof (cases "c = (e, v)")
      case True
      with 2 all_ne(2) show ?thesis by simp
    next
      case False
      with 2 have "(e, v) \<in> set cs" by simp
      then have "e \<in> fst ` set cs" by force
      with 2 have "fst c \<noteq> e" by auto
      with 2 False Cons(2) show ?thesis by simp
    qed }
qed

lemma indexedD:
  assumes "key_indexed key idx l"
  shows "distinct (map fst (cells l))" and "distinct (map (\<lambda>c. key (snd c)) (cells l))"
    and "c \<in> set (cells l) \<Longrightarrow> fst c < fresh l"
    and "idx k = Some e \<longleftrightarrow> (\<exists>v. (e, v) \<in> set (cells l) \<and> key v = k)"
  using assms by (auto simp: key_indexed_def list_wf_def items_def comp_def)

lemma indexedI:
  assumes "distinct (map fst (cells l))" and "distinct (map (\<lambda>c. key (snd c)) (cells l))"
    and "\<And>c. c \<in> set (cells l) \<Longrightarrow> fst c < fresh l"
    and "\<And>k e. idx k = Some e \<longleftrightarrow> (\<exists>v. (e, v) \<in> set (cells l) \<and> key v = k)"
  shows "key_indexed key idx l"
  using assms by (auto simp: key_indexed_def list_wf_def items_def comp_def)

lemma index_value:
  assumes "key_indexed key idx l" and "idx k = Some e"
  obtains v where "list_value e l = Some v" "(e, v) \<in> set (cells l)" "key v = k" "v \<in> set (items l)"
proof -
  obtain v where v: "(e, v) \<in> set (cells l)" "key v = k" using assms indexedD(4) by metis
  then have "list_value e l = Some v" using indexedD(1) [OF assms(1)] by (simp add: list_value_def)
  with v that show ?thesis by (force simp: items_def)
qed

lemma index_absent: "key_indexed key idx l \<Longrightarrow> idx k = None \<longleftrightarrow> k \<notin> key ` set (items l)"
proof -
  assume i: "key_indexed key idx l"
  have "idx k = None \<longleftrightarrow> (\<forall>e v. (e, v) \<in> set (cells l) \<longrightarrow> key v \<noteq> k)"
    by (metis (no_types, lifting) indexedD(4) [OF i] not_Some_eq)
  then show ?thesis by (force simp: items_def)
qed

section \<open>What the operations are on the list of values\<close>

lemma indexed_MoveToFront:
  assumes i: "key_indexed key idx l" and k: "idx k = Some e" and v: "list_value e l = Some v"
  shows "key_indexed key idx (MoveToFront e l)"
    and "items (MoveToFront e l) = v # filter (\<lambda>u. key u \<noteq> k) (items l)"
    and "list_value e (MoveToFront e l) = Some v"
proof -
  note D = indexedD [OF i]
  have ev: "(e, v) \<in> set (cells l)" using v by (auto simp: list_value_def dest: map_of_SomeD)
  have kv: "key v = k" using index_value [OF i k] v by (metis option.inject)
  have c: "cells (MoveToFront e l) = (e, v) # filter (\<lambda>c. fst c \<noteq> e) (cells l)"
    using filter_key(2) [OF D(1,2) ev] by (simp add: MoveToFront_def)
  show it: "items (MoveToFront e l) = v # filter (\<lambda>u. key u \<noteq> k) (items l)"
    using filter_key(1) [OF D(1,2) ev] kv by (simp add: items_def c)
  have same: "set (cells (MoveToFront e l)) = set (cells l)"
    by (auto simp: MoveToFront_def)
  show "key_indexed key idx (MoveToFront e l)"
  proof (rule indexedI)
    show "distinct (map fst (cells (MoveToFront e l)))"
      using D(1) by (auto simp: c intro: distinct_map_filter)
    have "distinct (map key (items (MoveToFront e l)))"
      using D(2) kv unfolding it by (auto simp: items_def comp_def intro: distinct_map_filter)
    then show "distinct (map (\<lambda>c. key (snd c)) (cells (MoveToFront e l)))"
      by (simp add: items_def comp_def)
    show "fst c < fresh (MoveToFront e l)" if "c \<in> set (cells (MoveToFront e l))" for c
      using that D(3) unfolding same by (simp add: MoveToFront_def)
    show "idx k' = Some e' \<longleftrightarrow> (\<exists>v. (e', v) \<in> set (cells (MoveToFront e l)) \<and> key v = k')" for k' e'
      unfolding same by (rule D(4))
  qed
  show "list_value e (MoveToFront e l) = Some v" by (simp add: list_value_def c)
qed

lemma indexed_PushFront:
  assumes i: "key_indexed key idx l" and k: "idx (key v) = None" and p: "PushFront v l = (e, l')"
  shows "key_indexed key (idx(key v \<mapsto> e)) l'" and "items l' = v # items l" and "list_value e l' = Some v"
proof -
  note D = indexedD [OF i]
  have e: "e = fresh l" and l': "cells l' = (e, v) # cells l" "fresh l' = Suc (fresh l)"
    using p by (auto simp: PushFront_def)
  have new: "key v \<notin> key ` set (items l)" using index_absent [OF i] k by simp
  have fresh: "e \<notin> fst ` set (cells l)" using D(3) e by (metis imageE less_irrefl)
  show "key_indexed key (idx(key v \<mapsto> e)) l'"
  proof (rule indexedI)
    show "distinct (map fst (cells l'))" using D(1) fresh by (simp add: l')
    show "distinct (map (\<lambda>c. key (snd c)) (cells l'))"
      using D(2) new by (auto simp: l' items_def)
    show "fst c < fresh l'" if "c \<in> set (cells l')" for c
      using that D(3) [of c] e by (auto simp: l' less_Suc_eq)
    show "(idx(key v \<mapsto> e)) k' = Some e' \<longleftrightarrow> (\<exists>v. (e', v) \<in> set (cells l') \<and> key v = k')" for k' e'
    proof (cases "k' = key v")
      case True
      have "u \<in> set (items l)" if "(e', u) \<in> set (cells l)" for u using that by (force simp: items_def)
      with new True show ?thesis by (auto simp: l' image_iff) metis
    next
      case False
      then show ?thesis using D(4) [of k' e'] by (auto simp: l')
    qed
  qed
  show "items l' = v # items l" "list_value e l' = Some v"
    by (simp_all add: items_def list_value_def l')
qed

lemma indexed_Remove:
  assumes i: "key_indexed key idx l" and k: "idx k = Some e"
  shows "key_indexed key (idx(k := None)) (Remove e l)"
    and "items (Remove e l) = filter (\<lambda>u. key u \<noteq> k) (items l)"
proof -
  note D = indexedD [OF i]
  obtain v where ev: "(e, v) \<in> set (cells l)" "key v = k" using index_value [OF i k] by metis
  show it: "items (Remove e l) = filter (\<lambda>u. key u \<noteq> k) (items l)"
    using filter_key(1) [OF D(1,2) ev(1)] ev(2) by (simp add: items_def Remove_def)
  show "key_indexed key (idx(k := None)) (Remove e l)"
  proof (rule indexedI)
    show "distinct (map fst (cells (Remove e l)))"
      using D(1) by (simp add: Remove_def distinct_map_filter)
    show "distinct (map (\<lambda>c. key (snd c)) (cells (Remove e l)))"
      using D(2) by (simp add: Remove_def distinct_map_filter)
    show "c \<in> set (cells (Remove e l)) \<Longrightarrow> fst c < fresh (Remove e l)" for c
      using D(3) by (auto simp: Remove_def)
    show "(idx(k := None)) k' = Some e' \<longleftrightarrow> (\<exists>v. (e', v) \<in> set (cells (Remove e l)) \<and> key v = k')" for k' e'
    proof (cases "k' = k")
      case True
      have "e' = e" if "(e', u) \<in> set (cells l)" "key u = k" for u
        using that D(4) [of k e'] k by auto
      with True show ?thesis by (auto simp: Remove_def)
    next
      case False
      have "e' \<noteq> e" if "(e', u) \<in> set (cells l)" "key u = k'" for u
        using that False ev eq_key_imp_eq_value [OF D(1)] by blast
      with False D(4) [of k' e'] show ?thesis by (auto simp: Remove_def)
    qed
  qed
qed

lemma indexed_Back:
  assumes i: "key_indexed key idx l" and b: "list_Back l = Some e" and v: "list_value e l = Some v"
  shows "idx (key v) = Some e" and "items (Remove e l) = butlast (items l)" and "v = last (items l)"
    and "items l \<noteq> []"
proof -
  note D = indexedD [OF i]
  have ne: "cells l \<noteq> []" and e: "e = fst (last (cells l))"
    using b by (auto simp: list_Back_def split: if_splits)
  have ev: "(e, v) \<in> set (cells l)" using v by (auto simp: list_value_def dest: map_of_SomeD)
  show "idx (key v) = Some e" using ev D(4) by blast
  have last: "last (cells l) = (e, v)"
    using D(1) ne e ev by (metis eq_key_imp_eq_value last_in_set prod.collapse)
  then show "v = last (items l)" using ne by (simp add: items_def last_map)
  show "items l \<noteq> []" using ne by (simp add: items_def)
  have split: "cells l = butlast (cells l) @ [(e, v)]" using ne last by (metis append_butlast_last_id)
  have "e \<notin> fst ` set (butlast (cells l))"
  proof -
    have "distinct (map fst (butlast (cells l) @ [(e, v)]))" using D(1) split by simp
    then show ?thesis by simp
  qed
  then have "filter (\<lambda>c. fst c \<noteq> e) (butlast (cells l) @ [(e, v)]) = butlast (cells l)"
    by (auto simp: filter_id_conv)
  then have "filter (\<lambda>c. fst c \<noteq> e) (cells l) = butlast (cells l)" using split by simp
  then show "items (Remove e l) = butlast (items l)" by (simp add: items_def Remove_def map_butlast)
qed

lemma Back_value:
  assumes "cells l \<noteq> []" and "key_indexed key idx l"
  obtains e v where "list_Back l = Some e" "list_value e l = Some v"
proof -
  obtain e v where c: "last (cells l) = (e, v)" by (cases "last (cells l)")
  have "(e, v) \<in> set (cells l)" using c assms(1) by (metis last_in_set)
  with indexedD(1) [OF assms(2)] have "list_value e l = Some v" by (simp add: list_value_def)
  with c assms(1) that show ?thesis by (simp add: list_Back_def)
qed

lemma indexed_set_value:
  assumes i: "key_indexed key idx l" and k: "idx k = Some e" and v: "key v = k"
  shows "key_indexed key idx (set_value e v l)"
    and "items (set_value e v l) = map (\<lambda>u. if key u = k then v else u) (items l)"
proof -
  note D = indexedD [OF i]
  obtain w where w: "(e, w) \<in> set (cells l)" "key w = k" using index_value [OF i k] by metis
  have same: "fst c = e \<longleftrightarrow> key (snd c) = k" if "c \<in> set (cells l)" for c
  proof -
    obtain e' u where c: "c = (e', u)" by (cases c)
    have "idx (key u) = Some e'" using D(4) that c by blast
    moreover have "e' = e \<Longrightarrow> u = w" using D(1) that w(1) c by (metis eq_key_imp_eq_value)
    ultimately show ?thesis using k c w(2) by auto
  qed
  show it: "items (set_value e v l) = map (\<lambda>u. if key u = k then v else u) (items l)"
    using same by (auto simp: items_def set_value_def)
  have fsts: "map fst (cells (set_value e v l)) = map fst (cells l)"
    by (auto simp: set_value_def)
  have keys: "map (\<lambda>c. key (snd c)) (cells (set_value e v l)) = map (\<lambda>c. key (snd c)) (cells l)"
    using same v by (auto simp: set_value_def)
  show "key_indexed key idx (set_value e v l)"
  proof (rule indexedI)
    show "distinct (map fst (cells (set_value e v l)))" using D(1) fsts by simp
    show "distinct (map (\<lambda>c. key (snd c)) (cells (set_value e v l)))" using D(2) keys by simp
    show "fst c < fresh (set_value e v l)" if "c \<in> set (cells (set_value e v l))" for c
    proof -
      have "fst c \<in> fst ` set (cells l)" using that fsts by (metis image_eqI image_set)
      then obtain c' where "c' \<in> set (cells l)" "fst c = fst c'" by blast
      with D(3) [of c'] show ?thesis by (simp add: set_value_def)
    qed
    have pairs: "(\<exists>u. (e', u) \<in> set (cells (set_value e v l)) \<and> key u = k') \<longleftrightarrow>
        (\<exists>u. (e', u) \<in> set (cells l) \<and> key u = k')" for e' k'
    proof -
      have "(\<exists>u. (e', u) \<in> set cs \<and> key u = k') \<longleftrightarrow> (e', k') \<in> set (zip (map fst cs) (map (\<lambda>c. key (snd c)) cs))" for cs
        by (induction cs) auto
      then show ?thesis using fsts keys by simp
    qed
    show "idx k' = Some e' \<longleftrightarrow> (\<exists>u. (e', u) \<in> set (cells (set_value e v l)) \<and> key u = k')" for k' e'
      unfolding pairs by (rule D(4))
  qed
qed

end
