(* ===== verification/Ipban.thy ===== *)
theory Ipban
  imports Net_Addr Go_List "HOL-Library.List_Lexorder" "HOL-Library.Char_ord"
begin

text \<open>
  The ban manager (\<^verbatim>\<open>src/internal/ipban/ipban.go\<close>) and its settings
  (\<^verbatim>\<open>src/internal/model/ipban.go\<close>).

  The manager's state is the record \<open>manager\<close>, with the fields of the Go struct. Its
  locked sections are functions on that state; the clock is an argument, read once per
  operation. What an operation does outside, calling \<^verbatim>\<open>OnBan\<close>, saving, arming the save
  timer, is its list of \<open>effect\<close>s. A nil manager, for which every method returns at
  once, is no manager.

  Counters are rational numbers; a count over a window of length zero, which in Go is
  not a number and so not below any threshold, is \<open>None\<close>. \<^verbatim>\<open>slices.SortFunc\<close> is
  \<open>sort_key\<close>: the order of equal elements, which Go leaves open, is that of the map
  the elements come from, and so arbitrary too.
\<close>

named_theorems ban_defs \<open>definitions of the manager's small operations\<close>

section \<open>Settings\<close>

record ban_rule =
  br_Threshold :: int
  br_WindowSec :: int

text \<open>A nil slice is \<open>None\<close>: \<^verbatim>\<open>reflect.IsZero\<close> and \<^verbatim>\<open>ApplyDefaults\<close> tell it from an empty one.\<close>

record ipban_settings =
  ib_Enabled :: bool
  ib_AuthFailures :: ban_rule
  ib_NotFound :: ban_rule
  ib_RateLimited :: ban_rule
  ib_WAFBlocks :: ban_rule
  ib_TrapPaths :: "string list option"
  ib_BanMinutes :: int
  ib_MaxBanMinutes :: int
  ib_AllowList :: "string list option"
  ib_IPv6Prefix :: int

record ban =
  ban_Address :: string
  ban_Reason :: string
  ban_Manual :: bool
  ban_Strikes :: int
  ban_CreatedAt :: instant
  ban_ExpiresAt :: "instant option"
  ban_CreatedBy :: string

definition Active :: "ban \<Rightarrow> instant \<Rightarrow> bool" where
  "Active b now \<longleftrightarrow> (case ban_ExpiresAt b of None \<Rightarrow> True | Some e \<Rightarrow> now < e)"

definition zero_rule :: ban_rule where
  "zero_rule = \<lparr> br_Threshold = 0, br_WindowSec = 0 \<rparr>"

definition zero_ipban :: ipban_settings where
  "zero_ipban =
     \<lparr> ib_Enabled = False, ib_AuthFailures = zero_rule, ib_NotFound = zero_rule,
       ib_RateLimited = zero_rule, ib_WAFBlocks = zero_rule, ib_TrapPaths = None,
       ib_BanMinutes = 0, ib_MaxBanMinutes = 0, ib_AllowList = None, ib_IPv6Prefix = 0 \<rparr>"

definition DefaultIPBan :: ipban_settings where
  "DefaultIPBan =
     \<lparr> ib_Enabled = False,
       ib_AuthFailures = \<lparr> br_Threshold = 10, br_WindowSec = 300 \<rparr>,
       ib_NotFound = \<lparr> br_Threshold = 50, br_WindowSec = 60 \<rparr>,
       ib_RateLimited = \<lparr> br_Threshold = 30, br_WindowSec = 60 \<rparr>,
       ib_WAFBlocks = \<lparr> br_Threshold = 5, br_WindowSec = 60 \<rparr>,
       ib_TrapPaths = Some [''/wp-login.php'', ''/xmlrpc.php'', ''/wp-admin'', ''/.env'', ''/.git/'',
         ''/phpmyadmin'', ''/pma'', ''/cgi-bin/'', ''/vendor/phpunit''],
       ib_BanMinutes = 15,
       ib_MaxBanMinutes = 24 * 60,
       ib_AllowList = Some [],
       ib_IPv6Prefix = 64 \<rparr>"

definition default_rule :: "ban_rule \<Rightarrow> ban_rule \<Rightarrow> ban_rule" where
  "default_rule r d =
     \<lparr> br_Threshold = (if br_Threshold r < 0 then 0 else br_Threshold r),
       br_WindowSec = (if br_WindowSec r \<le> 0 then br_WindowSec d else br_WindowSec r) \<rparr>"

definition ipban_ApplyDefaults :: "ipban_settings \<Rightarrow> ipban_settings" where
  "ipban_ApplyDefaults s =
     (let d = DefaultIPBan in
      if s = zero_ipban then d
      else
        (let waf = (if ib_WAFBlocks s = zero_rule then ib_WAFBlocks d else ib_WAFBlocks s) in
         s \<lparr> ib_AuthFailures := default_rule (ib_AuthFailures s) (ib_AuthFailures d),
             ib_NotFound := default_rule (ib_NotFound s) (ib_NotFound d),
             ib_RateLimited := default_rule (ib_RateLimited s) (ib_RateLimited d),
             ib_WAFBlocks := default_rule waf (ib_WAFBlocks d),
             ib_TrapPaths := Some (case ib_TrapPaths s of None \<Rightarrow> [] | Some ps \<Rightarrow> ps),
             ib_AllowList := Some (case ib_AllowList s of None \<Rightarrow> [] | Some ps \<Rightarrow> ps),
             ib_BanMinutes := (if ib_BanMinutes s \<le> 0 then ib_BanMinutes d else ib_BanMinutes s),
             ib_MaxBanMinutes := (if ib_MaxBanMinutes s \<le> 0 then ib_MaxBanMinutes d else ib_MaxBanMinutes s),
             ib_IPv6Prefix := (if ib_IPv6Prefix s \<le> 0 then ib_IPv6Prefix d else ib_IPv6Prefix s) \<rparr>))"

definition opt_items :: "'a list option \<Rightarrow> 'a list" where
  "opt_items xs = (case xs of None \<Rightarrow> [] | Some ys \<Rightarrow> ys)"

text \<open>The first error of \<^verbatim>\<open>Validate\<close>, by its field.\<close>

datatype ipban_error =
    RuleThreshold string | RuleWindow string | TrapPath nat | BanMinutesRange | MaxBanMinutesRange
  | AllowEntry nat addr_error | PrefixRange

fun check_ban_rules :: "(string \<times> ban_rule) list \<Rightarrow> ipban_error option" where
  "check_ban_rules [] = None"
| "check_ban_rules ((f, r) # rs) =
     (if br_Threshold r > 100000 then Some (RuleThreshold f)
      else if br_WindowSec r > 86400 then Some (RuleWindow f)
      else check_ban_rules rs)"

fun check_traps :: "nat \<Rightarrow> string list \<Rightarrow> ipban_error option" where
  "check_traps i [] = None"
| "check_traps i (p # ps) =
     (if \<not> prefix ''/'' p \<or> length p < 2 then Some (TrapPath i) else check_traps (Suc i) ps)"

fun check_allow :: "nat \<Rightarrow> string list \<Rightarrow> ipban_error option" where
  "check_allow i [] = None"
| "check_allow i (c # cs) =
     (case ParseCIDROrIP c of Inl e \<Rightarrow> Some (AllowEntry i e) | Inr _ \<Rightarrow> check_allow (Suc i) cs)"

definition ipban_Validate :: "ipban_settings \<Rightarrow> ipban_error option" where
  "ipban_Validate s =
     (case check_ban_rules [(''authFailures'', ib_AuthFailures s), (''notFound'', ib_NotFound s),
                            (''rateLimited'', ib_RateLimited s), (''wafBlocks'', ib_WAFBlocks s)] of
        Some e \<Rightarrow> Some e
      | None \<Rightarrow>
        (case check_traps 0 (opt_items (ib_TrapPaths s)) of
           Some e \<Rightarrow> Some e
         | None \<Rightarrow>
           if ib_BanMinutes s > 525600 then Some BanMinutesRange
           else if ib_MaxBanMinutes s < ib_BanMinutes s \<or> ib_MaxBanMinutes s > 525600
           then Some MaxBanMinutesRange
           else
             (case check_allow 0 (opt_items (ib_AllowList s)) of
                Some e \<Rightarrow> Some e
              | None \<Rightarrow>
                if ib_IPv6Prefix s < 32 \<or> ib_IPv6Prefix s > 128 then Some PrefixRange else None)))"

section \<open>Kinds, counters and the manager's state\<close>

datatype kind = AuthFailure | NotFound | RateLimited | WAFBlocked

fun kind_string :: "kind \<Rightarrow> string" where
  "kind_string AuthFailure = ''authentication failures''"
| "kind_string NotFound = ''requests for missing pages''"
| "kind_string RateLimited = ''rate limit rejections''"
| "kind_string WAFBlocked = ''requests blocked by the web application firewall''"

definition maxTracked :: int where "maxTracked = 100000"
definition historyFor :: duration where "historyFor = 7 * 24 * hour"
definition maxHistory :: int where "maxHistory = 20000"
definition maxAutoBans :: int where "maxAutoBans = 10000"
definition eventsPerMinute :: int where "eventsPerMinute = 10"

record counter =
  c_start :: instant
  c_prev :: rat
  c_cur :: rat

record tracker =
  t_key :: string
  t_counters :: "kind \<Rightarrow> counter"

record manager =
  m_cfg :: ipban_settings
  m_allow :: "ipnet list"
  m_traps :: "string list"
  m_bans :: "(string \<times> ban) list"
  m_ranges :: "(ipnet \<times> ban) list"
  m_tracked :: "string \<rightharpoonup> nat"
  m_lru :: "tracker golist"
  m_autoBans :: int
  m_pending :: bool
  m_evWindow :: instant
  m_evSent :: int
  m_evDropped :: int
  m_evDroppedA :: string

text \<open>Whether there is an \<^verbatim>\<open>OnBan\<close>, and the \<^verbatim>\<open>Save\<close> function: its error, if any.\<close>

record ban_options =
  o_OnBan :: bool
  o_Save :: "(ban list \<Rightarrow> string option) option"

datatype ban_effect = OnBan ban string | SaveSoon | SaveNow "ban list"

definition zero_counter :: counter where
  "zero_counter = \<lparr> c_start = 0, c_prev = 0, c_cur = 0 \<rparr>"

definition counter_add :: "counter \<Rightarrow> instant \<Rightarrow> duration \<Rightarrow> counter \<times> rat option" where
  "counter_add c now window =
     (let start = (if c_start c = 0 then now else c_start c);
          elapsed = time_sub now start;
          (prev, cur, start, elapsed) =
            (if elapsed \<ge> 2 * window then (0, 0, now, 0)
             else if elapsed \<ge> window then (c_cur c, 0, start + window, elapsed - window)
             else (c_prev c, c_cur c, start, elapsed));
          cur = cur + 1
      in (\<lparr> c_start = start, c_prev = prev, c_cur = cur \<rparr>,
          if window = 0 then None else Some (prev * (1 - of_int elapsed / of_int window) + cur)))"

section \<open>Keys and lookups\<close>

text \<open>\<^verbatim>\<open>keyLocked\<close>: an IPv4 address on its own, an IPv6 address by its prefix.\<close>

definition key_net :: "int \<Rightarrow> ip \<Rightarrow> ipnet" where
  "key_net p w = \<lparr> net_IP = mask_top (nat p) w, net_ones = nat p, net_bits = 128 \<rparr>"

definition keyLocked :: "manager \<Rightarrow> ip \<Rightarrow> string" where
  "keyLocked m w =
     (case To4 w of
        Some a \<Rightarrow> show_v4 a
      | None \<Rightarrow>
          if ib_IPv6Prefix (m_cfg m) \<ge> 128 then ip_string w
          else net_string (key_net (ib_IPv6Prefix (m_cfg m)) w))"

definition allowedLocked :: "manager \<Rightarrow> ip \<Rightarrow> bool" where
  "allowedLocked m w \<longleftrightarrow> (\<exists>n\<in>set (m_allow m). Contains n w)"

definition banNet :: "ban \<Rightarrow> ipnet option" where
  "banNet b = (case ParseCIDROrIP (ban_Address b) of Inl _ \<Rightarrow> None | Inr n \<Rightarrow> Some n)"

definition range_ban :: "manager \<Rightarrow> string \<times> ban \<Rightarrow> (ipnet \<times> ban) option" where
  "range_ban m kb =
     (case banNet (snd kb) of
        None \<Rightarrow> None
      | Some n \<Rightarrow> if fst kb \<noteq> keyLocked m (net_IP n) then Some (n, snd kb) else None)"

definition reindexLocked :: "manager \<Rightarrow> manager" where
  "reindexLocked m = m \<lparr> m_ranges := List.map_filter (range_ban m) (m_bans m) \<rparr>"

definition Banned :: "manager \<Rightarrow> instant \<Rightarrow> ip option \<Rightarrow> bool" where
  "Banned m now ip =
     (case ip of
        None \<Rightarrow> False
      | Some w \<Rightarrow>
          if m_bans m = [] \<or> allowedLocked m w then False
          else if (case map_of (m_bans m) (keyLocked m w) of None \<Rightarrow> False | Some b \<Rightarrow> Active b now) then True
          else list_ex (\<lambda>(n, b). Contains n w \<and> Active b now) (m_ranges m))"

definition loopback :: "ipnet list" where
  "loopback =
     [\<lparr> net_IP = 0xFFFF7F000000, net_ones = 8, net_bits = 32 \<rparr>,
      \<lparr> net_IP = 1, net_ones = 128, net_bits = 128 \<rparr>]"

definition ok_nets :: "string list \<Rightarrow> ipnet list" where
  "ok_nets = List.map_filter (\<lambda>c. case ParseCIDROrIP c of Inl _ \<Rightarrow> None | Inr n \<Rightarrow> Some n)"

definition ban_Apply :: "ipban_settings \<Rightarrow> ipnet list \<Rightarrow> manager \<Rightarrow> manager" where
  "ban_Apply s trusted m =
     (let allow = loopback @ trusted @ ok_nets (opt_items (ib_AllowList s));
          traps = filter (\<lambda>p. p \<noteq> []) (map (\<lambda>p. to_lower (trim_space p)) (opt_items (ib_TrapPaths s)));
          s = (if ib_IPv6Prefix s \<le> 0 then s \<lparr> ib_IPv6Prefix := 64 \<rparr> else s)
      in reindexLocked (m \<lparr> m_cfg := s, m_allow := allow, m_traps := traps \<rparr>))"

definition ban_New :: manager where
  "ban_New =
     ban_Apply zero_ipban []
       \<lparr> m_cfg = zero_ipban, m_allow = [], m_traps = [], m_bans = [], m_ranges = [],
         m_tracked = Map.empty, m_lru = list_New, m_autoBans = 0, m_pending = False,
         m_evWindow = 0, m_evSent = 0, m_evDropped = 0, m_evDroppedA = [] \<rparr>"

definition ban_Enabled :: "manager \<Rightarrow> bool" where
  "ban_Enabled m = ib_Enabled (m_cfg m)"

section \<open>Messages\<close>

definition unit_text :: "int \<Rightarrow> string \<Rightarrow> string" where
  "unit_text n name = (if n = 1 then ''1 '' @ name else show_int n @ '' '' @ name @ ''s'')"

definition formatDuration :: "duration \<Rightarrow> string" where
  "formatDuration d =
     (if d \<ge> 24 * hour \<and> d mod (24 * hour) = 0 then unit_text (d div (24 * hour)) ''day''
      else if d \<ge> hour \<and> d mod hour = 0 then unit_text (d div hour) ''hour''
      else if d \<ge> minute \<and> d mod minute = 0 then unit_text (d div minute) ''minute''
      else unit_text (sgn d * (\<bar>d\<bar> div second)) ''second'')"


section \<open>Automatic bans\<close>

text \<open>Dropping the counters of a key.\<close>

definition forget :: "string \<Rightarrow> manager \<Rightarrow> manager" where
  "forget key m =
     (case m_tracked m key of
        None \<Rightarrow> m
      | Some e \<Rightarrow> m \<lparr> m_lru := Remove e (m_lru m), m_tracked := (m_tracked m)(key := None) \<rparr>)"

text \<open>\<^verbatim>\<open>switch\<close> of \<^verbatim>\<open>pruneLocked\<close>: the bans it never lifts.\<close>

definition prune_skips :: "string \<Rightarrow> string \<times> ban \<Rightarrow> bool" where
  "prune_skips keep kb \<longleftrightarrow> ban_Manual (snd kb) \<or> ban_ExpiresAt (snd kb) = None \<or> fst kb = keep"

definition expiry :: "string \<times> ban \<Rightarrow> instant" where
  "expiry kb = (case ban_ExpiresAt (snd kb) of None \<Rightarrow> 0 | Some e \<Rightarrow> e)"

text \<open>The bans that expire soonest, all but \<open>target\<close> of them.\<close>

definition soonest :: "int \<Rightarrow> (string \<times> ban) list \<Rightarrow> (string \<times> ban) list" where
  "soonest target bs =
     (if int (length bs) > target then take (nat (int (length bs) - target)) (sort_key expiry bs) else [])"

definition delete_keys :: "string list \<Rightarrow> (string \<times> ban) list \<Rightarrow> (string \<times> ban) list" where
  "delete_keys ks bs = filter (\<lambda>kb. fst kb \<notin> set ks) bs"

definition pruneLocked :: "instant \<Rightarrow> string \<Rightarrow> manager \<Rightarrow> manager" where
  "pruneLocked now keep m =
     (let active = filter (\<lambda>kb. \<not> prune_skips keep kb \<and> Active (snd kb) now) (m_bans m);
          history = filter (\<lambda>kb. \<not> prune_skips keep kb \<and> \<not> Active (snd kb) now) (m_bans m);
          lift = soonest (maxAutoBans - maxAutoBans div 10) active;
          old = soonest maxHistory history;
          m' = m \<lparr> m_bans := delete_keys (map fst old) (delete_keys (map fst lift) (m_bans m)),
                   m_autoBans := int (length active) - int (length lift) + (if keep \<noteq> [] then 1 else 0) \<rparr>
      in if lift \<noteq> [] \<or> old \<noteq> [] then reindexLocked m' else m')"

definition ban_length :: "ipban_settings \<Rightarrow> int \<Rightarrow> duration" where
  "ban_length s strikes =
     (let d = wrap64 (ib_BanMinutes s * minute);
          limit = wrap64 (ib_MaxBanMinutes s * minute)
      in min (if strikes \<ge> 1 then d * 2 ^ nat (strikes - 1) else sgn d * (\<bar>d\<bar> div 2 ^ nat (1 - strikes))) limit)"

definition strikes_of :: "manager \<Rightarrow> string \<Rightarrow> int" where
  "strikes_of m key =
     (case map_of (m_bans m) key of
        None \<Rightarrow> 1
      | Some old \<Rightarrow> if ban_Manual old then 1 else ban_Strikes old + 1)"

definition auto_ban :: "manager \<Rightarrow> instant \<Rightarrow> string \<Rightarrow> string \<Rightarrow> ban" where
  "auto_ban m now key reason =
     (let strikes = strikes_of m key
      in \<lparr> ban_Address = key, ban_Reason = reason, ban_Manual = False, ban_Strikes = strikes,
           ban_CreatedAt = now, ban_ExpiresAt = Some (now + ban_length (m_cfg m) strikes), ban_CreatedBy = [] \<rparr>)"

definition ban_message :: "manager \<Rightarrow> string \<Rightarrow> string \<Rightarrow> string" where
  "ban_message m key reason =
     (let strikes = strikes_of m key
      in key @ '' banned for '' @ formatDuration (ban_length (m_cfg m) strikes) @ '': '' @ reason @
         (if strikes > 1 then '' (ban '' @ show_int strikes @ '')'' else []))"

definition banLocked :: "instant \<Rightarrow> string \<Rightarrow> string \<Rightarrow> manager \<Rightarrow> ban \<times> string \<times> manager" where
  "banLocked now key reason m =
     (let b = auto_ban m now key reason;
          m1 = forget key (m \<lparr> m_bans := AList.update key b (m_bans m) \<rparr>);
          m2 = m1 \<lparr> m_autoBans := m_autoBans m1 + 1 \<rparr>;
          m3 = (if m_autoBans m2 > maxAutoBans then pruneLocked now key m2 else m2)
      in (b, ban_message m key reason, m3))"

text \<open>The three bytes of the ellipsis in the message.\<close>

definition ellipsis :: string where
  "ellipsis = [CHR 0xE2, CHR 0x80, CHR 0xA6]"

definition raise_event :: "ban_options \<Rightarrow> instant \<Rightarrow> ban \<Rightarrow> string \<Rightarrow> manager \<Rightarrow> manager \<times> ban_effect list" where
  "raise_event opts now b msg m =
     (if \<not> o_OnBan opts then (m, [])
      else
        (let new = (time_sub now (m_evWindow m) \<ge> minute);
             msg = (if new \<and> m_evDropped m > 0
                    then msg @ ''; '' @ show_int (m_evDropped m) @
                         '' more addresses were banned in the last minute ('' @ m_evDroppedA m @ '', '' @ ellipsis @ '')''
                    else msg);
             m1 = (if new then m \<lparr> m_evWindow := now, m_evSent := 0, m_evDropped := 0 \<rparr> else m)
         in if m_evSent m1 \<ge> eventsPerMinute
            then (m1 \<lparr> m_evDroppedA := (if m_evDropped m1 = 0 then ban_Address b else m_evDroppedA m1),
                       m_evDropped := m_evDropped m1 + 1 \<rparr>, [])
            else (m1 \<lparr> m_evSent := m_evSent m1 + 1 \<rparr>, [OnBan b msg])))"

definition saveSoon :: "ban_options \<Rightarrow> manager \<Rightarrow> manager \<times> ban_effect list" where
  "saveSoon opts m =
     (if m_pending m \<or> o_Save opts = None then (m, []) else (m \<lparr> m_pending := True \<rparr>, [SaveSoon]))"

definition banned_report :: "ban_options \<Rightarrow> instant \<Rightarrow> ban \<Rightarrow> string \<Rightarrow> manager \<Rightarrow> manager \<times> ban_effect list" where
  "banned_report opts now b msg m =
     (let (m1, o1) = raise_event opts now b msg m; (m2, o2) = saveSoon opts m1 in (m2, o1 @ o2))"

section \<open>Counting\<close>

definition rule_of :: "ipban_settings \<Rightarrow> kind \<Rightarrow> ban_rule" where
  "rule_of s k =
     (case k of AuthFailure \<Rightarrow> ib_AuthFailures s | NotFound \<Rightarrow> ib_NotFound s
              | RateLimited \<Rightarrow> ib_RateLimited s | WAFBlocked \<Rightarrow> ib_WAFBlocks s)"

text \<open>\<^verbatim>\<open>for m.lru.Len() > maxTracked\<close>: the least recently seen are forgotten.\<close>

function shrink :: "(string \<rightharpoonup> nat) \<Rightarrow> tracker golist \<Rightarrow> (string \<rightharpoonup> nat) \<times> tracker golist" where
  "shrink tracked l =
     (if int (list_Len l) \<le> maxTracked then (tracked, l)
      else case list_Back l of
             None \<Rightarrow> (tracked, l)
           | Some e \<Rightarrow>
               (case list_value e l of
                  None \<Rightarrow> (tracked, l)
                | Some old \<Rightarrow> shrink (tracked(t_key old := None)) (Remove e l)))"
  by pat_completeness auto

termination
proof (relation "measure (\<lambda>(t, l). length (cells l))", simp)
  fix tracked :: "string \<rightharpoonup> nat" and l :: "tracker golist" and e old
  assume "list_value e l = Some old"
  then have "(e, old) \<in> set (cells l)" by (simp add: list_value_def map_of_SomeD)
  then have "length (filter (\<lambda>c. fst c \<noteq> e) (cells l)) < length (cells l)"
    by (rule length_filter_less) simp
  then show "((tracked(t_key old := None), Remove e l), (tracked, l)) \<in> measure (\<lambda>(t, l). length (cells l))"
    by (simp add: Remove_def)
qed

declare shrink.simps [simp del]

text \<open>The tracker of a key, moved or put to the front.\<close>

definition track :: "string \<Rightarrow> manager \<Rightarrow> manager" where
  "track key m =
     (case m_tracked m key of
        Some e \<Rightarrow> m \<lparr> m_lru := MoveToFront e (m_lru m) \<rparr>
      | None \<Rightarrow>
          (let (e, l) = PushFront \<lparr> t_key = key, t_counters = (\<lambda>k. zero_counter) \<rparr> (m_lru m);
               (tracked, l) = shrink ((m_tracked m)(key \<mapsto> e)) l
           in m \<lparr> m_lru := l, m_tracked := tracked \<rparr>))"

text \<open>\<^verbatim>\<open>t.counters[kind].add\<close>, through the element of the key.\<close>

definition count :: "string \<Rightarrow> kind \<Rightarrow> instant \<Rightarrow> duration \<Rightarrow> manager \<Rightarrow> rat option \<times> manager" where
  "count key kind now window m =
     (case m_tracked m key of
        None \<Rightarrow> (None, m)
      | Some e \<Rightarrow>
          (case list_value e (m_lru m) of
             None \<Rightarrow> (None, m)
           | Some t \<Rightarrow>
               (let (c, v) = counter_add (t_counters t kind) now window
                in (v, m \<lparr> m_lru := set_value e (t \<lparr> t_counters := (t_counters t)(kind := c) \<rparr>) (m_lru m) \<rparr>))))"

definition below :: "rat option \<Rightarrow> int \<Rightarrow> bool" where
  "below v t = (case v of None \<Rightarrow> False | Some x \<Rightarrow> x < of_int t)"

definition record_reason :: "ban_rule \<Rightarrow> kind \<Rightarrow> duration \<Rightarrow> string" where
  "record_reason rule kind window =
     show_int (br_Threshold rule) @ '' '' @ kind_string kind @ '' within '' @ formatDuration window"

definition Record :: "ban_options \<Rightarrow> instant \<Rightarrow> ip option \<Rightarrow> kind \<Rightarrow> manager \<Rightarrow> manager \<times> ban_effect list" where
  "Record opts now ip kind m =
     (case ip of
        None \<Rightarrow> (m, [])
      | Some w \<Rightarrow>
          (let rule = rule_of (m_cfg m) kind in
           if \<not> ib_Enabled (m_cfg m) \<or> br_Threshold rule \<le> 0 \<or> allowedLocked m w then (m, [])
           else
             (let key = keyLocked m w in
              if (case map_of (m_bans m) key of None \<Rightarrow> False | Some b \<Rightarrow> Active b now) then (m, [])
              else
                (let m1 = track key m;
                     window = wrap64 (br_WindowSec rule * second);
                     (v, m2) = count key kind now window m1
                 in if below v (br_Threshold rule) then (m2, [])
                    else
                      (let (b, msg, m3) = banLocked now key (record_reason rule kind window) m2
                       in banned_report opts now b msg m3)))))"

text \<open>
  \<^verbatim>\<open>Trap\<close> reads under the read lock which trap the path falls into, and bans under the
  write lock: other operations may come in between.
\<close>

definition trap_read :: "manager \<Rightarrow> string \<Rightarrow> string option" where
  "trap_read m path =
     (if ib_Enabled (m_cfg m) then List.find (\<lambda>t. prefix t (to_lower path)) (m_traps m) else None)"

definition trap_ban :: "ban_options \<Rightarrow> instant \<Rightarrow> ip \<Rightarrow> string \<Rightarrow> manager \<Rightarrow> bool \<times> manager \<times> ban_effect list" where
  "trap_ban opts now w trap m =
     (if \<not> ib_Enabled (m_cfg m) \<or> allowedLocked m w then (False, m, [])
      else
        (let key = keyLocked m w in
         if (case map_of (m_bans m) key of None \<Rightarrow> False | Some b \<Rightarrow> Active b now) then (True, m, [])
         else
           (let (b, msg, m1) = banLocked now key (''requested the trap path '' @ trap) m
            in (True, banned_report opts now b msg m1))))"

definition Trap :: "ban_options \<Rightarrow> instant \<Rightarrow> ip option \<Rightarrow> string \<Rightarrow> manager \<Rightarrow> bool \<times> manager \<times> ban_effect list" where
  "Trap opts now ip path m =
     (case ip of
        None \<Rightarrow> (False, m, [])
      | Some w \<Rightarrow>
          (case trap_read m path of
             None \<Rightarrow> (False, m, [])
           | Some trap \<Rightarrow> trap_ban opts now w trap m))"

section \<open>Saving and loading\<close>

definition too_old :: "instant \<Rightarrow> ban \<Rightarrow> bool" where
  "too_old now b \<longleftrightarrow> (case ban_ExpiresAt b of None \<Rightarrow> False | Some e \<Rightarrow> time_sub now e > historyFor)"

fun keep_recent :: "instant \<Rightarrow> int \<Rightarrow> ban list \<Rightarrow> ban list" where
  "keep_recent now kept [] = []"
| "keep_recent now kept (b # bs) =
     (if Active b now \<or> kept < maxHistory then b # keep_recent now (kept + 1) bs
      else keep_recent now kept bs)"

definition snapshot :: "instant \<Rightarrow> manager \<Rightarrow> ban list \<times> manager" where
  "snapshot now m =
     (let bans = filter (\<lambda>kb. \<not> too_old now (snd kb)) (m_bans m);
          out = sort_key (\<lambda>b. - ban_CreatedAt b) (map snd bans)
      in (if int (length out) > maxHistory then keep_recent now 0 out else out, m \<lparr> m_bans := bans \<rparr>))"

definition save_bans :: "ban_options \<Rightarrow> instant \<Rightarrow> manager \<Rightarrow> string option \<times> manager \<times> ban_effect list" where
  "save_bans opts now m =
     (case o_Save opts of
        None \<Rightarrow> (None, m, [])
      | Some f \<Rightarrow> (let (bans, m') = snapshot now m in (f bans, m', [SaveNow bans])))"

text \<open>The timer that \<^verbatim>\<open>saveSoon\<close> arms; \<^verbatim>\<open>Flush\<close> at shutdown.\<close>

definition save_timer :: "ban_options \<Rightarrow> instant \<Rightarrow> manager \<Rightarrow> string option \<times> manager \<times> ban_effect list" where
  "save_timer opts now m = save_bans opts now (m \<lparr> m_pending := False \<rparr>)"

definition ban_Flush :: "ban_options \<Rightarrow> instant \<Rightarrow> manager \<Rightarrow> string option \<times> manager \<times> ban_effect list" where
  "ban_Flush opts now m = save_bans opts now m"

fun load_bans :: "instant \<Rightarrow> ban list \<Rightarrow> (string \<times> ban) list \<Rightarrow> (string \<times> ban) list" where
  "load_bans now [] m = m"
| "load_bans now (b # bs) m =
     load_bans now bs (if too_old now b then m else AList.update (ban_Address b) b m)"

definition ban_Load :: "instant \<Rightarrow> ban list \<Rightarrow> manager \<Rightarrow> manager" where
  "ban_Load now bans m =
     pruneLocked now [] (reindexLocked (m \<lparr> m_bans := load_bans now bans (m_bans m) \<rparr>))"

section \<open>Bans by hand\<close>

datatype ban_error =
    BadAddress addr_error | TooWide | BadMinutes | AlwaysAllowed ipnet | ErrNotBanned

text \<open>The key of a manual ban: a single address by itself, a range as it is written.\<close>

definition manual_key :: "ipnet \<Rightarrow> string" where
  "manual_key n = (if net_ones n = net_bits n then ip_string (net_IP n) else net_string n)"

definition covers :: "ipnet \<Rightarrow> ipnet \<Rightarrow> bool" where
  "covers a n \<longleftrightarrow> net_bits a = net_bits n \<and> net_ones a \<le> net_ones n \<and> Contains a (net_IP n)"

definition manual_ban :: "instant \<Rightarrow> ipnet \<Rightarrow> int \<Rightarrow> string \<Rightarrow> string \<Rightarrow> ban" where
  "manual_ban now n minutes reason by =
     \<lparr> ban_Address = manual_key n,
       ban_Reason = (if trim_space reason = [] then ''banned manually'' else trim_space reason),
       ban_Manual = True, ban_Strikes = 0, ban_CreatedAt = now,
       ban_ExpiresAt = (if minutes > 0 then Some (now + minutes * minute) else None),
       ban_CreatedBy = by \<rparr>"

definition manual_message :: "ban \<Rightarrow> int \<Rightarrow> string" where
  "manual_message b minutes =
     ban_Address b @ '' banned by '' @ ban_CreatedBy b @
     (if ban_ExpiresAt b \<noteq> None then '' for '' @ formatDuration (minutes * minute) else []) @
     '': '' @ ban_Reason b"

definition put_manual ::
  "ban_options \<Rightarrow> instant \<Rightarrow> ban \<Rightarrow> string \<Rightarrow> manager \<Rightarrow> string option \<times> manager \<times> ban_effect list" where
  "put_manual opts now b msg m =
     (let m1 = reindexLocked (m \<lparr> m_bans := AList.update (ban_Address b) b (m_bans m) \<rparr>);
          (m2, o1) = raise_event opts now b msg m1;
          (err, m3, o2) = save_bans opts now m2
      in (err, m3, o1 @ o2))"

definition ban_Ban ::
  "ban_options \<Rightarrow> instant \<Rightarrow> string \<Rightarrow> int \<Rightarrow> string \<Rightarrow> string \<Rightarrow> manager \<Rightarrow>
   (ban_error + ban \<times> string option) \<times> manager \<times> ban_effect list" where
  "ban_Ban opts now address minutes reason by m =
     (case ParseCIDROrIP (trim_space address) of
        Inl e \<Rightarrow> (Inl (BadAddress e), m, [])
      | Inr n \<Rightarrow>
          if (net_bits n = 32 \<and> net_ones n < 8) \<or> (net_bits n = 128 \<and> net_ones n < 32)
          then (Inl TooWide, m, [])
          else if minutes < 0 \<or> minutes > 525600 then (Inl BadMinutes, m, [])
          else
            (case List.find (\<lambda>a. covers a n) (m_allow m) of
               Some a \<Rightarrow> (Inl (AlwaysAllowed a), m, [])
             | None \<Rightarrow>
                 (let b = manual_ban now n minutes reason by;
                      (err, m', out) = put_manual opts now b (manual_message b minutes) m
                  in (Inr (b, err), m', out))))"

definition unban_match :: "string \<Rightarrow> string \<times> ban \<Rightarrow> bool" where
  "unban_match address kb \<longleftrightarrow>
     fst kb = address \<or>
     (case banNet (snd kb) of
        None \<Rightarrow> False
      | Some n \<Rightarrow>
          (case ParseCIDROrIP address of Inl _ \<Rightarrow> False | Inr c \<Rightarrow> net_string n = net_string c) \<or>
          (case ParseIP address of None \<Rightarrow> False | Some w \<Rightarrow> Contains n w))"

definition ban_Unban ::
  "ban_options \<Rightarrow> instant \<Rightarrow> string \<Rightarrow> manager \<Rightarrow>
   (ban_error + string list \<times> string option) \<times> manager \<times> ban_effect list" where
  "ban_Unban opts now address0 m =
     (let address = trim_space address0;
          matched = filter (unban_match address) (m_bans m);
          removed = map fst (filter (\<lambda>kb. Active (snd kb) now) matched);
          m1 = fold forget (map fst matched) (m \<lparr> m_bans := filter (\<lambda>kb. \<not> unban_match address kb) (m_bans m) \<rparr>);
          m2 = reindexLocked m1
      in if removed = [] then (Inl ErrNotBanned, m2, [])
         else (let (err, m3, o1) = save_bans opts now m2 in (Inr (sort removed, err), m3, o1)))"

definition ban_List :: "manager \<Rightarrow> instant \<Rightarrow> ban list" where
  "ban_List m now =
     sort_key (\<lambda>b. - ban_CreatedAt b) (filter (\<lambda>b. Active b now) (map snd (m_bans m)))"

end
