(* ===== verification/Ipban_Proofs.thy ===== *)
theory Ipban_Proofs
  imports Ipban
begin

text \<open>
  The properties of the ban manager: the index of ranges finds exactly the bans that
  contain an address, every operation keeps the state's invariant, the counters are a
  bounded list in order of use, bans get longer up to a limit, and pruning lifts only
  automatic bans.
\<close>

named_theorems ban_simps \<open>fields an operation leaves as they were\<close>

section \<open>Keys\<close>

definition key_target :: "manager \<Rightarrow> ip \<Rightarrow> ipnet" where
  "key_target m w =
     (if To4 w \<noteq> None \<or> ib_IPv6Prefix (m_cfg m) \<ge> 128 then single w else key_net (ib_IPv6Prefix (m_cfg m)) w)"

lemma net_wf_key_net: "To4 w = None \<Longrightarrow> p < 128 \<Longrightarrow> net_wf (key_net p w)"
  by (simp add: net_wf_def key_net_def net_prefix_def To4_mask_v6 mask_top_twice)

lemma keyLocked_text:
  "keyLocked m w =
     (if To4 w \<noteq> None \<or> ib_IPv6Prefix (m_cfg m) \<ge> 128 then ip_string w
      else net_string (key_net (ib_IPv6Prefix (m_cfg m)) w))"
  by (auto simp: keyLocked_def ip_string_def split: option.splits)

lemma ParseCIDROrIP_key: "ParseCIDROrIP (keyLocked m w) = Inr (key_target m w)"
  by (auto simp: keyLocked_text key_target_def ParseCIDROrIP_ip_string
      intro!: ParseCIDROrIP_net_string net_wf_key_net)

lemma key_eq_iff: "keyLocked m w = keyLocked m v \<longleftrightarrow> key_target m w = key_target m v"
proof
  show "keyLocked m w = keyLocked m v \<Longrightarrow> key_target m w = key_target m v"
    by (metis ParseCIDROrIP_key sum.inject(2))
  show "keyLocked m w = keyLocked m v" if eq: "key_target m w = key_target m v"
  proof -
    have fam: "(To4 w = None) = (To4 v = None)"
      using eq by (auto simp: key_target_def single_def key_net_def Let_def split: if_splits)
    show ?thesis
    proof (cases "To4 v \<noteq> None \<or> ib_IPv6Prefix (m_cfg m) \<ge> 128")
      case True
      with eq fam have "w = v" by (auto simp: key_target_def single_def Let_def)
      then show ?thesis by simp
    next
      case False
      with eq fam show ?thesis by (simp add: keyLocked_text key_target_def)
    qed
  qed
qed

text \<open>An address is counted and banned with exactly the addresses of the network of its key.\<close>

lemma key_contains: "Contains (key_target m v) w \<longleftrightarrow> keyLocked m w = keyLocked m v"
proof (cases "To4 v \<noteq> None \<or> ib_IPv6Prefix (m_cfg m) \<ge> 128")
  case True
  then have t: "key_target m v = single v" by (auto simp: key_target_def)
  have "key_target m w = single v \<longleftrightarrow> w = v"
    using True by (auto simp: key_target_def single_def key_net_def Let_def split: if_splits)
  then show ?thesis unfolding key_eq_iff t Contains_single by simp
next
  case False
  then have t: "key_target m v = key_net (ib_IPv6Prefix (m_cfg m)) v" by (simp add: key_target_def)
  have v6: "To4 (mask_top (nat (ib_IPv6Prefix (m_cfg m))) v) = None" using False by (simp add: To4_mask_v6)
  show ?thesis
    unfolding key_eq_iff t using False v6
    by (auto simp: key_target_def Contains_def key_net_def net_prefix_def mask_top_twice single_def Let_def)
qed

lemma key_target_IP: "keyLocked m (net_IP (key_target m w)) = keyLocked m w"
proof -
  have "Contains (key_target m w) (net_IP (key_target m w))" by (simp add: Contains_def)
  then show ?thesis by (simp add: key_contains)
qed

text \<open>A ban under a key is found by the key; it is never a range.\<close>

lemma range_ban_key: "ban_Address b = keyLocked m w \<Longrightarrow> range_ban m (keyLocked m w, b) = None"
  by (simp add: range_ban_def banNet_def ParseCIDROrIP_key key_target_IP)

lemma range_ban_None:
  assumes "range_ban m (k, b) = None" and "ban_Address b = k" and "banNet b = Some n"
  shows "Contains n w \<longleftrightarrow> keyLocked m w = k"
proof -
  have k: "k = keyLocked m (net_IP n)" using assms by (auto simp: range_ban_def split: if_splits)
  then have "banNet b = Some (key_target m (net_IP n))"
    using assms(2) by (simp add: banNet_def ParseCIDROrIP_key)
  then have "n = key_target m (net_IP n)" using assms(3) by simp
  then show ?thesis using key_contains [of m "net_IP n" w] k by simp
qed

section \<open>The invariant\<close>

definition auto_active :: "instant \<Rightarrow> string \<times> ban \<Rightarrow> bool" where
  "auto_active now kb \<longleftrightarrow> \<not> prune_skips [] kb \<and> Active (snd kb) now"

definition auto_count :: "instant \<Rightarrow> manager \<Rightarrow> nat" where
  "auto_count now m = length (filter (auto_active now) (m_bans m))"

definition ranges_ok :: "instant \<Rightarrow> manager \<Rightarrow> bool" where
  "ranges_ok now m \<longleftrightarrow>
     {r \<in> set (m_ranges m). Active (snd r) now} =
     {r \<in> set (List.map_filter (range_ban m) (m_bans m)). Active (snd r) now}"

definition bans_ok :: "manager \<Rightarrow> bool" where
  "bans_ok m \<longleftrightarrow> distinct (map fst (m_bans m)) \<and> (\<forall>kb\<in>set (m_bans m). ban_Address (snd kb) = fst kb)"

definition trackers_ok :: "manager \<Rightarrow> bool" where
  "trackers_ok m \<longleftrightarrow> key_indexed t_key (m_tracked m) (m_lru m) \<and> int (length (items (m_lru m))) \<le> maxTracked"

definition counts_ok :: "instant \<Rightarrow> manager \<Rightarrow> bool" where
  "counts_ok now m \<longleftrightarrow> int (auto_count now m) \<le> m_autoBans m \<and> m_autoBans m \<le> maxAutoBans"

definition ban_inv :: "instant \<Rightarrow> manager \<Rightarrow> bool" where
  "ban_inv now m \<longleftrightarrow>
     bans_ok m \<and> ranges_ok now m \<and> trackers_ok m \<and> counts_ok now m \<and> 1 \<le> ib_IPv6Prefix (m_cfg m)"

lemma Active_mono: "Active b now' \<Longrightarrow> now \<le> now' \<Longrightarrow> Active b now"
  by (auto simp: Active_def split: option.splits)

lemma ban_inv_later: "ban_inv now m \<Longrightarrow> now \<le> now' \<Longrightarrow> ban_inv now' m"
proof -
  assume i: "ban_inv now m" and le: "now \<le> now'"
  have "ranges_ok now' m"
    using i Active_mono [OF _ le] unfolding ban_inv_def ranges_ok_def by blast
  moreover have "auto_count now' m \<le> auto_count now m"
  proof -
    have "filter (auto_active now') (m_bans m) = filter (auto_active now') (filter (auto_active now) (m_bans m))"
      using Active_mono [OF _ le] by (auto simp: auto_active_def intro: filter_cong)
    then show ?thesis unfolding auto_count_def by (metis length_filter_le)
  qed
  ultimately show ?thesis using i by (auto simp: ban_inv_def counts_ok_def)
qed

lemma set_map_filter: "set (List.map_filter f xs) = {y. \<exists>x\<in>set xs. f x = Some y}"
  by (force simp: List.map_filter_def)

lemma lookup_ex:
  assumes "distinct (map fst bs)"
  shows "(case map_of bs k of None \<Rightarrow> False | Some b \<Rightarrow> P b) \<longleftrightarrow> (\<exists>b. (k, b) \<in> set bs \<and> P b)"
proof (cases "map_of bs k")
  case None
  then have "k \<notin> fst ` set bs" by (simp add: map_of_eq_None_iff)
  then have "(k, b) \<notin> set bs" for b by force
  with None show ?thesis by simp
next
  case (Some b)
  then have "(k, b) \<in> set bs" by (rule map_of_SomeD)
  with assms show ?thesis unfolding Some option.case by (metis eq_key_imp_eq_value)
qed

text \<open>\<^verbatim>\<open>Banned\<close> finds the active bans that contain the address, and only those.\<close>

lemma Banned_exact:
  assumes i: "bans_ok m" "ranges_ok now m"
  shows "Banned m now (Some w) \<longleftrightarrow>
    \<not> allowedLocked m w \<and> (\<exists>kb\<in>set (m_bans m). Active (snd kb) now \<and>
      (\<exists>n. banNet (snd kb) = Some n \<and> Contains n w))"
proof -
  have dist: "distinct (map fst (m_bans m))" and addr: "\<And>k b. (k, b) \<in> set (m_bans m) \<Longrightarrow> ban_Address b = k"
    using i(1) by (auto simp: bans_ok_def)
  have by_key: "(case map_of (m_bans m) (keyLocked m w) of None \<Rightarrow> False | Some b \<Rightarrow> Active b now) \<longleftrightarrow>
      (\<exists>b. (keyLocked m w, b) \<in> set (m_bans m) \<and> Active b now)"
    by (rule lookup_ex [OF dist])
  have by_range: "list_ex (\<lambda>(n, b). Contains n w \<and> Active b now) (m_ranges m) \<longleftrightarrow>
      (\<exists>k b n. (k, b) \<in> set (m_bans m) \<and> range_ban m (k, b) = Some (n, b) \<and> Contains n w \<and> Active b now)"
  proof -
    have "list_ex (\<lambda>(n, b). Contains n w \<and> Active b now) (m_ranges m) \<longleftrightarrow>
        (\<exists>r \<in> {r \<in> set (m_ranges m). Active (snd r) now}. Contains (fst r) w)"
      by (force simp: list_ex_iff)
    also have "\<dots> \<longleftrightarrow> (\<exists>r \<in> {r \<in> set (List.map_filter (range_ban m) (m_bans m)). Active (snd r) now}. Contains (fst r) w)"
      using i(2) by (simp add: ranges_ok_def)
    also have "\<dots> \<longleftrightarrow> (\<exists>k b n. (k, b) \<in> set (m_bans m) \<and> range_ban m (k, b) = Some (n, b) \<and> Contains n w \<and> Active b now)"
      by (force simp: set_map_filter range_ban_def split: option.splits if_splits)
    finally show ?thesis .
  qed
  have split: "(\<exists>n. banNet b = Some n \<and> Contains n w) \<longleftrightarrow>
      k = keyLocked m w \<or> (\<exists>n. range_ban m (k, b) = Some (n, b) \<and> Contains n w)"
    if kb: "(k, b) \<in> set (m_bans m)" for k b
  proof (cases "range_ban m (k, b)")
    case None
    have "k = keyLocked m w \<Longrightarrow> banNet b = Some (key_target m w)"
      using addr [OF kb] by (simp add: banNet_def ParseCIDROrIP_key)
    then show ?thesis
      using None range_ban_None [OF None addr [OF kb]] by auto
  next
    case (Some r)
    then obtain n where n: "banNet b = Some n" "r = (n, b)" by (auto simp: range_ban_def split: option.splits if_splits)
    have "k \<noteq> keyLocked m w" using Some range_ban_key [of b m w] addr [OF kb] by auto
    with Some n show ?thesis by auto
  qed
  have pairs: "(\<exists>kb\<in>set (m_bans m). Active (snd kb) now \<and> (\<exists>n. banNet (snd kb) = Some n \<and> Contains n w)) \<longleftrightarrow>
      (\<exists>k b. (k, b) \<in> set (m_bans m) \<and> Active b now \<and> (\<exists>n. banNet b = Some n \<and> Contains n w))"
    by force
  have found: "\<dots> \<longleftrightarrow> (\<exists>b. (keyLocked m w, b) \<in> set (m_bans m) \<and> Active b now) \<or>
      (\<exists>k b n. (k, b) \<in> set (m_bans m) \<and> range_ban m (k, b) = Some (n, b) \<and> Contains n w \<and> Active b now)"
    (is "?l = ?r")
  proof
    assume ?l
    then obtain k b where kb: "(k, b) \<in> set (m_bans m)" "Active b now" "\<exists>n. banNet b = Some n \<and> Contains n w"
      by blast
    with split [OF kb(1)] show ?r by blast
  next
    assume ?r
    then obtain k b where kb: "(k, b) \<in> set (m_bans m)" "Active b now"
      "k = keyLocked m w \<or> (\<exists>n. range_ban m (k, b) = Some (n, b) \<and> Contains n w)" by blast
    with split [OF kb(1)] show ?l by blast
  qed
  have empty: "m_bans m = [] \<Longrightarrow> \<not> (\<exists>k b. (k, b) \<in> set (m_bans m) \<and> Active b now \<and> (\<exists>n. banNet b = Some n \<and> Contains n w))"
    by simp
  show ?thesis
    unfolding Banned_def option.case by_key by_range pairs using found empty by auto
qed


section \<open>What each step keeps\<close>

lemma range_ban_cong: "ib_IPv6Prefix (m_cfg m) = ib_IPv6Prefix (m_cfg m') \<Longrightarrow> range_ban m = range_ban m'"
  by (rule ext) (auto simp: range_ban_def keyLocked_def split: option.splits)

lemma ranges_ok_cong:
  "m_bans m = m_bans m' \<Longrightarrow> m_ranges m = m_ranges m' \<Longrightarrow> m_cfg m = m_cfg m' \<Longrightarrow> ranges_ok now m = ranges_ok now m'"
  by (simp add: ranges_ok_def range_ban_cong [of m m'])

lemma reindex_fields [ban_simps]:
  "m_bans (reindexLocked m) = m_bans m" "m_cfg (reindexLocked m) = m_cfg m"
  "m_tracked (reindexLocked m) = m_tracked m" "m_lru (reindexLocked m) = m_lru m"
  "m_autoBans (reindexLocked m) = m_autoBans m" "m_allow (reindexLocked m) = m_allow m"
  "m_evWindow (reindexLocked m) = m_evWindow m" "m_evSent (reindexLocked m) = m_evSent m"
  by (simp_all add: reindexLocked_def)

lemma ranges_ok_reindex: "ranges_ok now (reindexLocked m)"
proof -
  have "range_ban (reindexLocked m) = range_ban m" by (rule range_ban_cong) (simp add: ban_simps)
  then show ?thesis by (simp add: ranges_ok_def ban_simps) (simp add: reindexLocked_def)
qed

lemma bans_ok_cong: "m_bans m = m_bans m' \<Longrightarrow> bans_ok m = bans_ok m'"
  by (simp add: bans_ok_def)

lemma bans_ok_filter: "bans_ok m \<Longrightarrow> m_bans m' = filter P (m_bans m) \<Longrightarrow> bans_ok m'"
  by (auto simp: bans_ok_def distinct_map_filter)

lemma set_update_distinct:
  "distinct (map fst bs) \<Longrightarrow> set (AList.update k b bs) = insert (k, b) {kb \<in> set bs. fst kb \<noteq> k}"
  by (induction bs) (auto simp: rev_image_eqI)

lemma bans_ok_update:
  assumes "bans_ok m" and "m_bans m' = AList.update (ban_Address b) b (m_bans m)"
  shows "bans_ok m'"
  using assms by (auto simp: bans_ok_def set_update_distinct distinct_update)

text \<open>Counting automatic bans by sets.\<close>

lemma auto_count_card: "bans_ok m \<Longrightarrow> auto_count now m = card {kb \<in> set (m_bans m). auto_active now kb}"
proof -
  assume "bans_ok m"
  then have "distinct (m_bans m)" by (auto simp: bans_ok_def distinct_map)
  then show ?thesis
    unfolding auto_count_def using distinct_card [of "filter (auto_active now) (m_bans m)"] by simp
qed

lemma auto_count_mono:
  assumes "bans_ok m" "bans_ok m'"
    and "\<And>kb. kb \<in> set (m_bans m') \<Longrightarrow> auto_active now kb \<Longrightarrow> kb \<in> set (m_bans m)"
  shows "auto_count now m' \<le> auto_count now m"
  unfolding auto_count_card [OF assms(1)] auto_count_card [OF assms(2)]
  by (rule card_mono) (use assms(3) in auto)

lemma auto_count_insert:
  assumes "bans_ok m" "bans_ok m'"
    and "\<And>kb. kb \<in> set (m_bans m') \<Longrightarrow> auto_active now kb \<Longrightarrow> kb \<in> insert x (set (m_bans m))"
  shows "auto_count now m' \<le> Suc (auto_count now m)"
proof -
  let ?S = "{kb \<in> set (m_bans m). auto_active now kb}"
  have "card {kb \<in> set (m_bans m'). auto_active now kb} \<le> card (insert x ?S)"
    by (rule card_mono) (use assms(3) in auto)
  also have "\<dots> \<le> Suc (card ?S)" by (rule card_insert_le_m1) auto
  finally show ?thesis unfolding auto_count_card [OF assms(1)] auto_count_card [OF assms(2)] .
qed

section \<open>Pruning\<close>

lemma soonest_facts:
  "set (soonest t bs) \<subseteq> set bs" "distinct bs \<Longrightarrow> distinct (soonest t bs)"
  "0 \<le> t \<Longrightarrow> int (length bs) - int (length (soonest t bs)) \<le> t"
  "length (soonest t bs) \<le> length bs"
proof -
  show "set (soonest t bs) \<subseteq> set bs"
    unfolding soonest_def by (auto dest!: in_set_takeD)
  show "distinct bs \<Longrightarrow> distinct (soonest t bs)"
    by (simp add: soonest_def distinct_sort)
  show "0 \<le> t \<Longrightarrow> int (length bs) - int (length (soonest t bs)) \<le> t"
    by (auto simp: soonest_def)
  show "length (soonest t bs) \<le> length bs" by (simp add: soonest_def)
qed

text \<open>What is lifted expires no later than what stays.\<close>

lemma soonest_first:
  assumes "x \<in> set (soonest t bs)" and "y \<in> set bs" and "y \<notin> set (soonest t bs)"
  shows "expiry x \<le> expiry y"
proof -
  let ?n = "nat (int (length bs) - t)" and ?s = "sort_key expiry bs"
  have s: "soonest t bs = take ?n ?s" using assms(1) by (auto simp: soonest_def split: if_splits)
  have "y \<in> set (drop ?n ?s)"
    using assms(2,3) s by (metis Un_iff append_take_drop_id set_append set_sort)
  then have "expiry y \<in> set (map expiry (drop ?n ?s))" by auto
  moreover have "expiry x \<in> set (map expiry (take ?n ?s))" using assms(1) unfolding s by auto
  moreover have "sorted (map expiry (take ?n ?s) @ map expiry (drop ?n ?s))"
    by (metis append_take_drop_id map_append sorted_sort_key)
  ultimately show ?thesis unfolding sorted_append by blast
qed

definition prune_active :: "instant \<Rightarrow> string \<Rightarrow> manager \<Rightarrow> (string \<times> ban) list" where
  "prune_active now keep m = filter (\<lambda>kb. \<not> prune_skips keep kb \<and> Active (snd kb) now) (m_bans m)"

definition prune_history :: "instant \<Rightarrow> string \<Rightarrow> manager \<Rightarrow> (string \<times> ban) list" where
  "prune_history now keep m = filter (\<lambda>kb. \<not> prune_skips keep kb \<and> \<not> Active (snd kb) now) (m_bans m)"

definition prune_lift :: "instant \<Rightarrow> string \<Rightarrow> manager \<Rightarrow> (string \<times> ban) list" where
  "prune_lift now keep m = soonest (maxAutoBans - maxAutoBans div 10) (prune_active now keep m)"

definition prune_old :: "instant \<Rightarrow> string \<Rightarrow> manager \<Rightarrow> (string \<times> ban) list" where
  "prune_old now keep m = soonest maxHistory (prune_history now keep m)"

lemma prune_fields:
  "m_bans (pruneLocked now keep m) =
     filter (\<lambda>kb. fst kb \<notin> fst ` set (prune_lift now keep m) \<and> fst kb \<notin> fst ` set (prune_old now keep m)) (m_bans m)"
  "m_autoBans (pruneLocked now keep m) =
     int (length (prune_active now keep m)) - int (length (prune_lift now keep m)) + (if keep \<noteq> [] then 1 else 0)"
  "m_cfg (pruneLocked now keep m) = m_cfg m" "m_lru (pruneLocked now keep m) = m_lru m"
  "m_tracked (pruneLocked now keep m) = m_tracked m" "m_allow (pruneLocked now keep m) = m_allow m"
  unfolding pruneLocked_def prune_lift_def prune_active_def prune_old_def prune_history_def
  by (auto simp: Let_def reindexLocked_def delete_keys_def intro: filter_cong)

lemma prune_ranges: "ranges_ok now m \<Longrightarrow> ranges_ok now (pruneLocked now keep m)"
proof (cases "prune_lift now keep m = [] \<and> prune_old now keep m = []")
  case True
  then have "m_bans (pruneLocked now keep m) = m_bans m" by (simp add: prune_fields)
  moreover have "m_ranges (pruneLocked now keep m) = m_ranges m"
    using True unfolding prune_lift_def prune_old_def prune_active_def prune_history_def
    by (simp add: pruneLocked_def)
  ultimately show "ranges_ok now m \<Longrightarrow> ?thesis" using ranges_ok_cong prune_fields(3) by metis
next
  case False
  then have "\<exists>m'. pruneLocked now keep m = reindexLocked m'"
    unfolding prune_lift_def prune_old_def prune_active_def prune_history_def
    by (auto simp: pruneLocked_def Let_def)
  then show ?thesis using ranges_ok_reindex by metis
qed

text \<open>
  A ban stays when it was made by hand, has no end or is the one just made: its key is
  no other ban's.
\<close>

lemma prune_keeps:
  assumes "bans_ok m" and "kb \<in> set (m_bans m)" and "prune_skips keep kb"
  shows "kb \<in> set (m_bans (pruneLocked now keep m))"
proof -
  have uniq: "kb' = kb" if "kb' \<in> set (m_bans m)" "fst kb' = fst kb" for kb'
    using assms(1,2) that by (metis bans_ok_def eq_key_imp_eq_value prod.collapse)
  have sub: "set (prune_lift now keep m) \<subseteq> set (prune_active now keep m)"
    "set (prune_old now keep m) \<subseteq> set (prune_history now keep m)"
    by (simp_all add: prune_lift_def prune_old_def soonest_facts)
  have "kb \<notin> set (prune_active now keep m)" "kb \<notin> set (prune_history now keep m)"
    using assms(3) by (auto simp: prune_active_def prune_history_def)
  moreover have "set (prune_active now keep m) \<subseteq> set (m_bans m)" "set (prune_history now keep m) \<subseteq> set (m_bans m)"
    by (auto simp: prune_active_def prune_history_def)
  ultimately have "fst kb \<notin> fst ` set (prune_lift now keep m)" "fst kb \<notin> fst ` set (prune_old now keep m)"
    using uniq sub by (metis (no_types, lifting) imageE subsetD)+
  with assms(2) show ?thesis by (simp add: prune_fields)
qed

lemma prune_bans_ok: "bans_ok m \<Longrightarrow> bans_ok (pruneLocked now keep m)"
  by (erule bans_ok_filter) (rule prune_fields(1))

lemma key_at_most_one: "bans_ok m \<Longrightarrow> card {kb \<in> set (m_bans m). fst kb = k} \<le> 1"
proof -
  assume "bans_ok m"
  then have "kb = kb'" if "kb \<in> set (m_bans m)" "kb' \<in> set (m_bans m)" "fst kb = k" "fst kb' = k" for kb kb'
    using that by (metis bans_ok_def eq_key_imp_eq_value prod.collapse)
  then show ?thesis unfolding One_nat_def by (subst card_le_Suc0_iff_eq) auto
qed

lemma prune_counts:
  assumes ok: "bans_ok m"
  shows "counts_ok now (pruneLocked now keep m)"
proof -
  let ?A = "prune_active now keep m" and ?L = "prune_lift now keep m"
  let ?S = "{kb \<in> set (m_bans (pruneLocked now keep m)). auto_active now kb}"
  let ?K = "{kb \<in> set (m_bans m). fst kb = keep}"
  have d: "distinct (m_bans m)" using ok by (auto simp: bans_ok_def distinct_map)
  then have dA: "distinct ?A" by (simp add: prune_active_def)
  have dL: "distinct ?L" and LA: "set ?L \<subseteq> set ?A"
    unfolding prune_lift_def using dA by (simp_all add: soonest_facts)
  have rest: "card (set ?A - set ?L) = length ?A - length ?L"
    using card_Diff_subset [OF finite_set LA] distinct_card [OF dA] distinct_card [OF dL] by simp
  have len: "length ?L \<le> length ?A" "int (length ?A) - int (length ?L) \<le> 9000"
    using soonest_facts(3) [of 9000 ?A] by (simp_all add: prune_lift_def soonest_facts maxAutoBans_def)
  have sub: "kb \<in> (set ?A - set ?L) \<union> (if keep = [] then {} else ?K)" if "kb \<in> ?S" for kb
  proof (cases "keep \<noteq> [] \<and> fst kb = keep")
    case True
    with that show ?thesis by (auto simp: prune_fields)
  next
    case False
    have "kb \<in> set ?A"
      using that False by (auto simp: prune_fields prune_active_def auto_active_def prune_skips_def)
    moreover have "kb \<notin> set ?L" using that by (auto simp: prune_fields)
    ultimately show ?thesis by simp
  qed
  have "card ?S \<le> card ((set ?A - set ?L) \<union> (if keep = [] then {} else ?K))"
  proof (rule card_mono)
    show "finite ((set ?A - set ?L) \<union> (if keep = [] then {} else ?K))" by simp
    show "?S \<subseteq> (set ?A - set ?L) \<union> (if keep = [] then {} else ?K)" using sub by (rule subsetI)
  qed
  also have "\<dots> \<le> card (set ?A - set ?L) + (if keep = [] then 0 else card ?K)"
    using card_Un_le [of "set ?A - set ?L" ?K] by simp
  also have "\<dots> \<le> length ?A - length ?L + (if keep = [] then 0 else 1)"
    using rest key_at_most_one [OF ok, of keep] by simp
  finally have "int (card ?S) \<le> int (length ?A) - int (length ?L) + (if keep \<noteq> [] then 1 else 0)"
    using len(1) by (simp split: if_splits)
  moreover have "auto_count now (pruneLocked now keep m) = card ?S"
    by (rule auto_count_card [OF prune_bans_ok [OF ok]])
  ultimately show ?thesis
    using len unfolding counts_ok_def prune_fields(2) by (cases "keep = []") (simp_all add: maxAutoBans_def)
qed

section \<open>Counters\<close>

lemma shrink_keeps:
  "key_indexed t_key tr l \<Longrightarrow>
     key_indexed t_key (fst (shrink tr l)) (snd (shrink tr l)) \<and>
     items (snd (shrink tr l)) = take (nat maxTracked) (items l)"
proof (induction tr l rule: shrink.induct)
  case (1 tr l)
  show ?case
  proof (cases "int (list_Len l) \<le> maxTracked")
    case True
    then have "take (nat maxTracked) (items l) = items l" by (simp add: list_Len_def items_def)
    with True 1 show ?thesis by (simp add: shrink.simps [of tr l])
  next
    case False
    then have ne: "cells l \<noteq> []" by (auto simp: list_Len_def maxTracked_def)
    obtain e v where e: "list_Back l = Some e" "list_value e l = Some v"
      using Back_value [OF ne "1.prems"] by blast
    note B = indexed_Back [OF "1.prems" e]
    have i: "key_indexed t_key (tr(t_key v := None)) (Remove e l)"
      by (rule indexed_Remove(1) [OF "1.prems" B(1)])
    have "take (nat maxTracked) (butlast (items l)) = take (nat maxTracked) (items l)"
      by (rule take_butlast) (use False in \<open>simp add: list_Len_def items_def maxTracked_def\<close>)
    moreover have "shrink tr l = shrink (tr(t_key v := None)) (Remove e l)"
      using False e by (simp add: shrink.simps [of tr l])
    ultimately show ?thesis using "1.IH" [OF False e i] B(2) by (simp only:)
  qed
qed

text \<open>The list of counters in order of use, the most recent first, at most \<open>maxTracked\<close> of them.\<close>

definition new_tracker :: "string \<Rightarrow> tracker" where
  "new_tracker key = \<lparr> t_key = key, t_counters = (\<lambda>k. zero_counter) \<rparr>"

definition use_recent :: "string \<Rightarrow> tracker list \<Rightarrow> tracker list" where
  "use_recent key ts =
     (case List.find (\<lambda>t. t_key t = key) ts of
        Some t \<Rightarrow> t # filter (\<lambda>u. t_key u \<noteq> key) ts
      | None \<Rightarrow> take (nat maxTracked) (new_tracker key # ts))"

lemma find_key:
  "distinct (map f xs) \<Longrightarrow> x \<in> set xs \<Longrightarrow> List.find (\<lambda>y. f y = f x) xs = Some x"
  by (induction xs) (auto simp: image_iff)

lemma find_key_None: "k \<notin> f ` set xs \<Longrightarrow> List.find (\<lambda>y. f y = k) xs = None"
  by (auto simp: find_None_iff)

lemma track_refines:
  assumes t: "trackers_ok m"
  shows "trackers_ok (track key m)" and "items (m_lru (track key m)) = use_recent key (items (m_lru m))"
    and "m_tracked (track key m) key \<noteq> None"
proof -
  have i: "key_indexed t_key (m_tracked m) (m_lru m)" and le: "int (length (items (m_lru m))) \<le> maxTracked"
    using t by (auto simp: trackers_ok_def)
  have "trackers_ok (track key m) \<and> items (m_lru (track key m)) = use_recent key (items (m_lru m)) \<and>
        m_tracked (track key m) key \<noteq> None"
  proof (cases "m_tracked m key")
    case None
    let ?t = "new_tracker key"
    obtain e l where p: "PushFront ?t (m_lru m) = (e, l)" by (cases "PushFront ?t (m_lru m)")
    have kt: "t_key ?t = key" by (simp add: new_tracker_def)
    have none: "m_tracked m (t_key ?t) = None" by (simp only: kt None)
    note P = indexed_PushFront [OF i none p]
    note S = shrink_keeps [OF P(1)]
    let ?m = "track key m"
    have m: "m_lru ?m = snd (shrink ((m_tracked m)(key \<mapsto> e)) l)"
      "m_tracked ?m = fst (shrink ((m_tracked m)(key \<mapsto> e)) l)"
      unfolding track_def None option.case
      using p by (simp_all add: new_tracker_def Let_def case_prod_unfold)
    have its: "items (m_lru ?m) = take (nat maxTracked) (?t # items (m_lru m))"
      using S P(2) by (simp add: m kt)
    have ind: "key_indexed t_key (m_tracked ?m) (m_lru ?m)" using S by (simp add: m kt)
    have "key \<notin> t_key ` set (items (m_lru m))" using index_absent [OF i] None by simp
    then have "use_recent key (items (m_lru m)) = take (nat maxTracked) (?t # items (m_lru m))"
      by (simp add: use_recent_def find_key_None)
    moreover have "?t \<in> set (items (m_lru ?m))"
      unfolding its by (cases "nat maxTracked") (auto simp: maxTracked_def)
    then have "m_tracked ?m key \<noteq> None" using index_absent [OF ind, of key] kt by (metis image_eqI)
    ultimately show ?thesis using its ind by (auto simp: trackers_ok_def maxTracked_def)
  next
    case (Some e)
    obtain v where v: "list_value e (m_lru m) = Some v" "t_key v = key" "v \<in> set (items (m_lru m))"
      using index_value [OF i Some] by metis
    note M = indexed_MoveToFront [OF i Some v(1)]
    have d: "distinct (map t_key (items (m_lru m)))" using i by (simp add: key_indexed_def)
    have "use_recent key (items (m_lru m)) = v # filter (\<lambda>u. t_key u \<noteq> key) (items (m_lru m))"
      using find_key [OF d v(3)] v(2) by (simp add: use_recent_def)
    moreover have "length (items (MoveToFront e (m_lru m))) = length (items (m_lru m))"
      using sum_length_filter_compl [of "\<lambda>c. fst c = e" "cells (m_lru m)"] by (simp add: items_def MoveToFront_def)
    ultimately show ?thesis using M le Some by (simp add: track_def trackers_ok_def)
  qed
  then show "trackers_ok (track key m)" "items (m_lru (track key m)) = use_recent key (items (m_lru m))"
    "m_tracked (track key m) key \<noteq> None" by auto
qed

lemma count_keeps:
  assumes t: "trackers_ok m"
  shows "trackers_ok (snd (count key kind now window m))"
proof -
  have i: "key_indexed t_key (m_tracked m) (m_lru m)" using t by (auto simp: trackers_ok_def)
  show ?thesis
  proof (cases "m_tracked m key")
    case None
    with t show ?thesis by (simp add: count_def)
  next
    case (Some e)
    obtain v where v: "list_value e (m_lru m) = Some v" "t_key v = key"
      using index_value [OF i Some] by metis
    let ?v = "v \<lparr> t_counters := (t_counters v)(kind := fst (counter_add (t_counters v kind) now window)) \<rparr>"
    have "t_key ?v = key" using v by simp
    note V = indexed_set_value [OF i Some this]
    show ?thesis
      using t V by (simp add: count_def Some v case_prod_unfold Let_def trackers_ok_def)
  qed
qed

lemma forget_keeps: "trackers_ok m \<Longrightarrow> trackers_ok (forget key m)"
proof -
  assume t: "trackers_ok m"
  show ?thesis
  proof (cases "m_tracked m key")
    case None
    with t show ?thesis by (simp add: forget_def)
  next
    case (Some e)
    have i: "key_indexed t_key (m_tracked m) (m_lru m)" and le: "int (length (items (m_lru m))) \<le> maxTracked"
      using t by (auto simp: trackers_ok_def)
    note R = indexed_Remove [OF i Some]
    have "length (items (Remove e (m_lru m))) \<le> length (items (m_lru m))" by (simp add: R(2))
    then have "int (length (items (Remove e (m_lru m)))) \<le> maxTracked" using le by linarith
    with R(1) Some show ?thesis by (simp add: forget_def trackers_ok_def)
  qed
qed

section \<open>Every operation keeps the invariant\<close>

lemma forget_fields [ban_simps]:
  "m_bans (forget k m) = m_bans m" "m_cfg (forget k m) = m_cfg m" "m_ranges (forget k m) = m_ranges m"
  "m_autoBans (forget k m) = m_autoBans m" "m_allow (forget k m) = m_allow m"
  by (simp_all add: forget_def split: option.splits)

lemma track_fields [ban_simps]:
  "m_bans (track k m) = m_bans m" "m_cfg (track k m) = m_cfg m" "m_ranges (track k m) = m_ranges m"
  "m_autoBans (track k m) = m_autoBans m" "m_allow (track k m) = m_allow m"
  by (simp_all add: track_def case_prod_unfold Let_def split: option.splits)

lemma count_fields [ban_simps]:
  "m_bans (snd (count k kd now w m)) = m_bans m" "m_cfg (snd (count k kd now w m)) = m_cfg m"
  "m_ranges (snd (count k kd now w m)) = m_ranges m" "m_autoBans (snd (count k kd now w m)) = m_autoBans m"
  "m_allow (snd (count k kd now w m)) = m_allow m"
  by (simp_all add: count_def case_prod_unfold Let_def split: option.splits)

lemma raise_fields [ban_simps]:
  "m_bans (fst (raise_event opts now b msg m)) = m_bans m" "m_cfg (fst (raise_event opts now b msg m)) = m_cfg m"
  "m_ranges (fst (raise_event opts now b msg m)) = m_ranges m"
  "m_autoBans (fst (raise_event opts now b msg m)) = m_autoBans m"
  "m_allow (fst (raise_event opts now b msg m)) = m_allow m"
  "m_tracked (fst (raise_event opts now b msg m)) = m_tracked m"
  "m_lru (fst (raise_event opts now b msg m)) = m_lru m"
  by (simp_all add: raise_event_def Let_def)

lemma saveSoon_fields [ban_simps]:
  "m_bans (fst (saveSoon opts m)) = m_bans m" "m_cfg (fst (saveSoon opts m)) = m_cfg m"
  "m_ranges (fst (saveSoon opts m)) = m_ranges m" "m_autoBans (fst (saveSoon opts m)) = m_autoBans m"
  "m_allow (fst (saveSoon opts m)) = m_allow m" "m_tracked (fst (saveSoon opts m)) = m_tracked m"
  "m_lru (fst (saveSoon opts m)) = m_lru m"
  by (simp_all add: saveSoon_def)

text \<open>The invariant is about these fields only.\<close>

lemma ban_inv_cong:
  assumes "m_bans m' = m_bans m" "m_cfg m' = m_cfg m" "m_ranges m' = m_ranges m"
    "m_autoBans m' = m_autoBans m" "trackers_ok m'"
  shows "ban_inv now m \<Longrightarrow> ban_inv now m'"
  using assms ranges_ok_cong [of m' m] bans_ok_cong [of m' m]
  by (auto simp: ban_inv_def counts_ok_def auto_count_def)

lemma trackers_cong: "m_tracked m' = m_tracked m \<Longrightarrow> m_lru m' = m_lru m \<Longrightarrow> trackers_ok m' = trackers_ok m"
  by (simp add: trackers_ok_def)

lemma ban_inv_report: "ban_inv now m \<Longrightarrow> ban_inv now (fst (banned_report opts now b msg m))"
proof -
  assume i: "ban_inv now m"
  have eq: "fst (banned_report opts now b msg m) = fst (saveSoon opts (fst (raise_event opts now b msg m)))"
    by (simp add: banned_report_def case_prod_unfold Let_def)
  have "trackers_ok (fst (banned_report opts now b msg m)) = trackers_ok m"
    unfolding eq by (rule trackers_cong) (simp_all add: ban_simps)
  with i show ?thesis
    by (intro ban_inv_cong [OF _ _ _ _ _ i]) (simp_all add: eq ban_simps ban_inv_def)
qed

lemma ban_inv_track: "ban_inv now m \<Longrightarrow> ban_inv now (track key m)"
  by (rule ban_inv_cong [of "track key m" m]) (simp_all add: ban_simps track_refines ban_inv_def)

lemma ban_inv_count: "ban_inv now m \<Longrightarrow> ban_inv now (snd (count key kd now' w m))"
  by (rule ban_inv_cong [of "snd (count key kd now' w m)" m]) (simp_all add: ban_simps count_keeps ban_inv_def)

lemma range_update_key:
  assumes "bans_ok m" and "ban_Address b = keyLocked m w"
  shows "set (List.map_filter (range_ban m) (AList.update (keyLocked m w) b (m_bans m)))
       = set (List.map_filter (range_ban m) (m_bans m))"
proof -
  have d: "distinct (map fst (m_bans m))" and addr: "\<And>kb. kb \<in> set (m_bans m) \<Longrightarrow> ban_Address (snd kb) = fst kb"
    using assms(1) by (auto simp: bans_ok_def)
  have none: "range_ban m kb = None" if "kb \<in> set (m_bans m)" "fst kb = keyLocked m w" for kb
    using range_ban_key [of "snd kb" m w] addr [OF that(1)] that(2) by (metis prod.collapse)
  show ?thesis
    unfolding set_map_filter set_update_distinct [OF d]
    using none range_ban_key [OF assms(2)] by (auto simp del: split_paired_All split_paired_Ex)
qed

lemma banLocked_state:
  assumes "banLocked now key reason m = (b, msg, m')"
  shows "b = auto_ban m now key reason"
    and "\<exists>m2. m_bans m2 = AList.update key b (m_bans m) \<and> m_cfg m2 = m_cfg m \<and> m_ranges m2 = m_ranges m \<and>
           m_allow m2 = m_allow m \<and>
           m_autoBans m2 = m_autoBans m + 1 \<and> (trackers_ok m \<longrightarrow> trackers_ok m2) \<and>
           m' = (if m_autoBans m2 > maxAutoBans then pruneLocked now key m2 else m2)"
proof -
  let ?m0 = "m \<lparr> m_bans := AList.update key (auto_ban m now key reason) (m_bans m) \<rparr>"
  let ?m2 = "(forget key ?m0) \<lparr> m_autoBans := m_autoBans (forget key ?m0) + 1 \<rparr>"
  have t: "trackers_ok m \<Longrightarrow> trackers_ok ?m2"
    using trackers_cong [of ?m0 m] forget_keeps [of ?m0] trackers_cong [of ?m2 "forget key ?m0"] by simp
  show b: "b = auto_ban m now key reason" using assms by (simp add: banLocked_def Let_def)
  have m': "m' = (if m_autoBans ?m2 > maxAutoBans then pruneLocked now key ?m2 else ?m2)"
    using assms unfolding banLocked_def Let_def prod.inject by blast
  show "\<exists>m2. m_bans m2 = AList.update key b (m_bans m) \<and> m_cfg m2 = m_cfg m \<and> m_ranges m2 = m_ranges m \<and>
           m_allow m2 = m_allow m \<and>
           m_autoBans m2 = m_autoBans m + 1 \<and> (trackers_ok m \<longrightarrow> trackers_ok m2) \<and>
           m' = (if m_autoBans m2 > maxAutoBans then pruneLocked now key m2 else m2)"
  proof (intro exI [of _ ?m2] conjI impI)
    show "trackers_ok ?m2" if "trackers_ok m" by (rule t [OF that])
    show "m' = (if m_autoBans ?m2 > maxAutoBans then pruneLocked now key ?m2 else ?m2)" by (rule m')
  qed (simp_all add: b ban_simps)
qed

lemma ban_inv_banLocked:
  assumes i: "ban_inv now m" and b: "banLocked now (keyLocked m w) reason m = (b, msg, m')"
  shows "ban_inv now m'"
proof -
  obtain m2 where m2: "m_bans m2 = AList.update (keyLocked m w) b (m_bans m)" "m_cfg m2 = m_cfg m"
    "m_ranges m2 = m_ranges m" "m_autoBans m2 = m_autoBans m + 1" "trackers_ok m2"
    and m': "m' = (if m_autoBans m2 > maxAutoBans then pruneLocked now (keyLocked m w) m2 else m2)"
    using banLocked_state(2) [OF b] i by (auto simp: ban_inv_def)
  have addr: "ban_Address b = keyLocked m w"
    using banLocked_state(1) [OF b] by (simp add: auto_ban_def Let_def)
  have ok: "bans_ok m" using i by (simp add: ban_inv_def)
  have ok2: "bans_ok m2" by (rule bans_ok_update [OF ok, of m2 b]) (simp add: m2 addr)
  have "range_ban m2 = range_ban m" by (rule range_ban_cong) (simp add: m2)
  then have r2: "ranges_ok now m2"
    using i range_update_key [OF ok addr] by (simp add: ban_inv_def ranges_ok_def m2)
  have "auto_count now m2 \<le> Suc (auto_count now m)"
    by (rule auto_count_insert [OF ok ok2, where x = "(keyLocked m w, b)"])
      (use set_AList_update [of "keyLocked m w" b "m_bans m"] in \<open>auto simp: m2\<close>)
  then have c2: "int (auto_count now m2) \<le> m_autoBans m2"
    using i by (simp add: ban_inv_def counts_ok_def m2)
  show ?thesis
  proof (cases "m_autoBans m2 > maxAutoBans")
    case True
    then show ?thesis
      using m' prune_bans_ok [OF ok2] prune_ranges [OF r2] prune_counts [OF ok2] m2 i
        trackers_cong [of "pruneLocked now (keyLocked m w) m2" m2]
      by (simp add: ban_inv_def prune_fields)
  next
    case False
    then show ?thesis using m' ok2 r2 c2 m2 i by (simp add: ban_inv_def counts_ok_def)
  qed
qed


lemma keyLocked_cong: "m_cfg m' = m_cfg m \<Longrightarrow> keyLocked m' w = keyLocked m w"
  by (cases "To4 w") (simp_all add: keyLocked_def)

lemma ban_inv_Record: "ban_inv now m \<Longrightarrow> ban_inv now (fst (Record opts now ip kd m))"
proof -
  assume i: "ban_inv now m"
  have step: "ban_inv now (fst (banned_report opts now b msg m'))"
    if "banLocked now (keyLocked m w) reason (snd (count (keyLocked m w) kd now window (track (keyLocked m w) m)))
      = (b, msg, m')" for w reason window b msg m'
  proof -
    let ?m2 = "snd (count (keyLocked m w) kd now window (track (keyLocked m w) m))"
    have "keyLocked ?m2 w = keyLocked m w" by (rule keyLocked_cong) (simp add: ban_simps)
    with that have "banLocked now (keyLocked ?m2 w) reason ?m2 = (b, msg, m')" by simp
    then have "ban_inv now m'"
      by (rule ban_inv_banLocked [OF ban_inv_count [OF ban_inv_track [OF i]]])
    then show ?thesis by (rule ban_inv_report)
  qed
  show ?thesis
    using i step
    by (simp add: Record_def Let_def case_prod_unfold ban_inv_count ban_inv_track split: option.split)
qed

lemma ban_inv_trap_ban: "ban_inv now m \<Longrightarrow> ban_inv now (fst (snd (trap_ban opts now w trap m)))"
proof -
  assume i: "ban_inv now m"
  obtain b msg m' where b: "banLocked now (keyLocked m w) (''requested the trap path '' @ trap) m = (b, msg, m')"
    by (metis prod_cases3)
  have "ban_inv now (fst (banned_report opts now b msg m'))"
    by (rule ban_inv_report [OF ban_inv_banLocked [OF i b]])
  with i show ?thesis unfolding trap_ban_def Let_def b prod.case by (simp split: option.split)
qed

lemma too_old_inactive: "too_old now b \<Longrightarrow> \<not> Active b now"
  by (auto simp: too_old_def Active_def historyFor_def time_sub_def duration_defs split: option.splits)

lemma snapshot_fields [ban_simps]:
  "m_bans (snd (snapshot now m)) = filter (\<lambda>kb. \<not> too_old now (snd kb)) (m_bans m)"
  "m_cfg (snd (snapshot now m)) = m_cfg m" "m_ranges (snd (snapshot now m)) = m_ranges m"
  "m_autoBans (snd (snapshot now m)) = m_autoBans m" "m_allow (snd (snapshot now m)) = m_allow m"
  "m_tracked (snd (snapshot now m)) = m_tracked m" "m_lru (snd (snapshot now m)) = m_lru m"
  by (simp_all add: snapshot_def Let_def)

text \<open>Saving drops bans that ended long ago and leaves the index alone: what it still holds of them is not active.\<close>

lemma ban_inv_snapshot: "ban_inv now m \<Longrightarrow> ban_inv now (snd (snapshot now m))"
proof -
  assume i: "ban_inv now m"
  let ?m = "snd (snapshot now m)"
  have ok: "bans_ok m" using i by (simp add: ban_inv_def)
  have ok': "bans_ok ?m" by (rule bans_ok_filter [OF ok]) (rule snapshot_fields(1))
  have "range_ban ?m = range_ban m" by (rule range_ban_cong) (simp add: ban_simps)
  moreover have "{r \<in> set (List.map_filter (range_ban m) (filter (\<lambda>kb. \<not> too_old now (snd kb)) (m_bans m))). Active (snd r) now}
      = {r \<in> set (List.map_filter (range_ban m) (m_bans m)). Active (snd r) now}"
  proof -
    have "\<not> too_old now (snd kb)" if "range_ban m kb = Some r" "Active (snd r) now" for kb r
      using that too_old_inactive by (force simp: range_ban_def split: option.splits if_splits)
    then show ?thesis by (auto simp: set_map_filter simp del: split_paired_All split_paired_Ex)
  qed
  ultimately have r: "ranges_ok now ?m" using i by (simp add: ban_inv_def ranges_ok_def ban_simps)
  have "auto_count now ?m \<le> auto_count now m"
    by (rule auto_count_mono [OF ok ok']) (simp add: ban_simps)
  then show ?thesis
    using i ok' r trackers_cong [of ?m m] by (auto simp: ban_inv_def counts_ok_def ban_simps)
qed

lemma ban_inv_save: "ban_inv now m \<Longrightarrow> ban_inv now (fst (snd (save_bans opts now m)))"
  by (simp add: save_bans_def case_prod_unfold Let_def ban_inv_snapshot split: option.split)

text \<open>An operation that ends by rebuilding the index.\<close>

lemma ban_inv_reindex:
  assumes i: "ban_inv now m" and ok: "bans_ok m'" and t: "trackers_ok m'"
    and a: "m_autoBans m' = m_autoBans m" and c: "m_cfg m' = m_cfg m"
    and sub: "\<And>kb. kb \<in> set (m_bans m') \<Longrightarrow> auto_active now kb \<Longrightarrow> kb \<in> set (m_bans m)"
  shows "ban_inv now (reindexLocked m')"
proof -
  have "auto_count now m' \<le> auto_count now m"
    by (rule auto_count_mono [OF _ ok sub]) (use i in \<open>simp_all add: ban_inv_def\<close>)
  then have "counts_ok now (reindexLocked m')"
    using i a by (simp add: ban_inv_def counts_ok_def auto_count_def ban_simps)
  then show ?thesis
    using i ok t c ranges_ok_reindex bans_ok_cong [of "reindexLocked m'" m'] trackers_cong [of "reindexLocked m'" m']
    by (simp add: ban_inv_def ban_simps)
qed

lemma ban_inv_put_manual:
  assumes i: "ban_inv now m" and man: "ban_Manual b"
  shows "ban_inv now (fst (snd (put_manual opts now b msg m)))"
proof -
  let ?m = "m \<lparr> m_bans := AList.update (ban_Address b) b (m_bans m) \<rparr>"
  have ok: "bans_ok m" using i by (simp add: ban_inv_def)
  then have d: "distinct (map fst (m_bans m))" by (simp add: bans_ok_def)
  have "bans_ok ?m" by (rule bans_ok_update [OF ok, of ?m b]) simp
  moreover have "trackers_ok ?m" using i trackers_cong [of ?m m] by (simp add: ban_inv_def)
  moreover have "kb \<in> set (m_bans m)" if "kb \<in> set (m_bans ?m)" "auto_active now kb" for kb
    using that man by (auto simp: set_update_distinct [OF d] auto_active_def prune_skips_def)
  ultimately have r: "ban_inv now (reindexLocked ?m)" by (intro ban_inv_reindex [OF i]) simp_all
  have "ban_inv now (fst (raise_event opts now b msg (reindexLocked ?m)))"
    by (rule ban_inv_cong [OF _ _ _ _ _ r]) (use r in \<open>simp_all add: ban_simps ban_inv_def trackers_ok_def\<close>)
  from ban_inv_save [OF this] show ?thesis
    by (simp add: put_manual_def Let_def case_prod_unfold)
qed

lemma Ban_cases:
  obtains e where "ban_Ban opts now addr mins reason who m = (Inl e, m, [])"
  | n where "ParseCIDROrIP (trim_space addr) = Inr n" "List.find (\<lambda>a. covers a n) (m_allow m) = None"
      "0 \<le> mins" "mins \<le> 525600" "net_bits n = 32 \<longrightarrow> 8 \<le> net_ones n" "net_bits n = 128 \<longrightarrow> 32 \<le> net_ones n"
      "ban_Ban opts now addr mins reason who m =
        (let b = manual_ban now n mins reason who; r = put_manual opts now b (manual_message b mins) m
         in (Inr (b, fst r), snd r))"
proof (cases "ParseCIDROrIP (trim_space addr)")
  case (Inl e)
  then show ?thesis by (intro that(1)) (simp add: ban_Ban_def)
next
  case (Inr n)
  let ?wide = "(net_bits n = 32 \<and> net_ones n < 8) \<or> (net_bits n = 128 \<and> net_ones n < 32)"
  show ?thesis
  proof (cases "?wide \<or> mins < 0 \<or> mins > 525600")
    case True
    then show ?thesis
      by (intro that(1) [of "if ?wide then TooWide else BadMinutes"]) (auto simp: ban_Ban_def Inr)
  next
    case False
    show ?thesis
    proof (cases "List.find (\<lambda>a. covers a n) (m_allow m)")
      case None
      with False Inr show ?thesis
        by (intro that(2) [of n]) (auto simp: ban_Ban_def Let_def case_prod_unfold)
    next
      case (Some a)
      with False Inr show ?thesis by (intro that(1) [of "AlwaysAllowed a"]) (auto simp: ban_Ban_def)
    qed
  qed
qed

lemma ban_inv_Ban: "ban_inv now m \<Longrightarrow> ban_inv now (fst (snd (ban_Ban opts now addr mins reason who m)))"
  by (rule Ban_cases [of opts now addr mins reason who m])
    (auto simp: Let_def manual_ban_def intro: ban_inv_put_manual)

lemma forgets_keeps: "trackers_ok m \<Longrightarrow> trackers_ok (fold forget ks m)"
  by (induction ks arbitrary: m) (auto intro: forget_keeps)

lemma forgets_fields [ban_simps]:
  "m_bans (fold forget ks m) = m_bans m" "m_cfg (fold forget ks m) = m_cfg m"
  "m_autoBans (fold forget ks m) = m_autoBans m" "m_allow (fold forget ks m) = m_allow m"
  by (induction ks arbitrary: m) (simp_all add: ban_simps)

lemma Unban_state:
  defines "del \<equiv> \<lambda>m addr. reindexLocked (fold forget (map fst (filter (unban_match (trim_space addr)) (m_bans m)))
      (m \<lparr> m_bans := filter (\<lambda>kb. \<not> unban_match (trim_space addr) kb) (m_bans m) \<rparr>))"
  shows "fst (snd (ban_Unban opts now addr m)) = del m addr \<or>
         fst (snd (ban_Unban opts now addr m)) = fst (snd (save_bans opts now (del m addr)))"
  unfolding del_def ban_Unban_def Let_def by (simp add: case_prod_unfold)

lemma ban_inv_Unban: "ban_inv now m \<Longrightarrow> ban_inv now (fst (snd (ban_Unban opts now addr m)))"
proof -
  assume i: "ban_inv now m"
  let ?f = "m \<lparr> m_bans := filter (\<lambda>kb. \<not> unban_match (trim_space addr) kb) (m_bans m) \<rparr>"
  let ?m = "fold forget (map fst (filter (unban_match (trim_space addr)) (m_bans m))) ?f"
  have "trackers_ok ?m"
    using i trackers_cong [of ?f m] by (intro forgets_keeps) (simp add: ban_inv_def)
  moreover have "bans_ok ?m"
    by (rule bans_ok_filter [where m = m]) (use i in \<open>simp_all add: ban_inv_def ban_simps\<close>)
  ultimately have "ban_inv now (reindexLocked ?m)"
    by (intro ban_inv_reindex [OF i]) (simp_all add: ban_simps)
  then show ?thesis using Unban_state [of opts now addr m] ban_inv_save by metis
qed

lemma load_bans_ok:
  "distinct (map fst bs) \<Longrightarrow> (\<forall>kb\<in>set bs. ban_Address (snd kb) = fst kb) \<Longrightarrow>
   distinct (map fst (load_bans now new bs)) \<and> (\<forall>kb\<in>set (load_bans now new bs). ban_Address (snd kb) = fst kb)"
proof (induction new arbitrary: bs)
  case (Cons b new)
  show ?case
  proof (cases "too_old now b")
    case True
    with Cons show ?thesis by simp
  next
    case False
    let ?bs = "AList.update (ban_Address b) b bs"
    have "distinct (map fst ?bs)" using Cons.prems by (simp add: distinct_update)
    moreover have "\<forall>kb\<in>set ?bs. ban_Address (snd kb) = fst kb"
      using Cons.prems by (simp add: set_update_distinct)
    ultimately show ?thesis using Cons.IH [of ?bs] False by simp
  qed
qed simp

lemma ban_inv_Load: "ban_inv now m \<Longrightarrow> ban_inv now (ban_Load now new m)"
proof -
  assume i: "ban_inv now m"
  let ?m = "reindexLocked (m \<lparr> m_bans := load_bans now new (m_bans m) \<rparr>)"
  have ok: "bans_ok ?m"
    using i load_bans_ok [of "m_bans m" now new] by (simp add: ban_inv_def bans_ok_def ban_simps)
  have "trackers_ok (pruneLocked now [] ?m) = trackers_ok m"
    by (rule trackers_cong) (simp_all add: prune_fields ban_simps)
  then show ?thesis
    using i prune_bans_ok [OF ok] prune_counts [OF ok] prune_ranges [OF ranges_ok_reindex]
    by (simp add: ban_Load_def ban_inv_def prune_fields ban_simps)
qed

lemma ban_inv_Apply: "ban_inv now m \<Longrightarrow> ban_inv now (ban_Apply s nets m)"
  using ranges_ok_reindex
  by (simp add: ban_inv_def ban_Apply_def Let_def bans_ok_def counts_ok_def auto_count_def trackers_ok_def ban_simps)


section \<open>Runs\<close>

datatype ban_op =
    OpApply ipban_settings "ipnet list" | OpRecord "ip option" kind | OpTrap ip string
  | OpBan string int string string | OpUnban string | OpLoad "ban list" | OpSave

fun ban_do :: "ban_options \<Rightarrow> instant \<Rightarrow> ban_op \<Rightarrow> manager \<Rightarrow> manager" where
  "ban_do opts now (OpApply s nets) m = ban_Apply s nets m"
| "ban_do opts now (OpRecord ip kd) m = fst (Record opts now ip kd m)"
| "ban_do opts now (OpTrap w trap) m = fst (snd (trap_ban opts now w trap m))"
| "ban_do opts now (OpBan addr mins reason who) m = fst (snd (ban_Ban opts now addr mins reason who m))"
| "ban_do opts now (OpUnban addr) m = fst (snd (ban_Unban opts now addr m))"
| "ban_do opts now (OpLoad bans) m = ban_Load now bans m"
| "ban_do opts now OpSave m = fst (snd (save_timer opts now m))"

definition ban_step :: "ban_options \<Rightarrow> instant \<times> manager \<Rightarrow> instant \<times> ban_op \<Rightarrow> instant \<times> manager" where
  "ban_step opts s e = (fst e, ban_do opts (fst e) (snd e) (snd s))"

text \<open>The clock does not go back.\<close>

definition clock_ok :: "instant \<times> manager \<Rightarrow> instant \<times> ban_op \<Rightarrow> bool" where
  "clock_ok s e \<longleftrightarrow> fst s \<le> fst e"

definition ban_state_inv :: "instant \<times> manager \<Rightarrow> bool" where
  "ban_state_inv s = ban_inv (fst s) (snd s)"

lemma ban_do_keeps: "ban_inv now m \<Longrightarrow> ban_inv now (ban_do opts now op m)"
proof (cases op)
  case OpSave
  assume i: "ban_inv now m"
  have "ban_inv now (m \<lparr> m_pending := False \<rparr>)"
    by (rule ban_inv_cong [OF _ _ _ _ _ i]) (use i in \<open>simp_all add: ban_inv_def trackers_ok_def\<close>)
  with OpSave show ?thesis by (simp add: save_timer_def ban_inv_save)
qed (simp_all add: ban_inv_Apply ban_inv_Record ban_inv_trap_ban ban_inv_Ban ban_inv_Unban ban_inv_Load)

interpretation ban_machine: invariant_machine "ban_step opts" clock_ok ban_state_inv for opts
  by unfold_locales (auto simp: ban_step_def clock_ok_def ban_state_inv_def intro: ban_do_keeps ban_inv_later)

lemma ban_inv_New: "ban_inv now ban_New"
proof -
  have "ib_IPv6Prefix (m_cfg ban_New) = 64"
    by (simp add: ban_New_def ban_Apply_def zero_ipban_def ban_simps)
  moreover have "m_bans ban_New = []" "m_ranges ban_New = []" "m_autoBans ban_New = 0"
    "m_tracked ban_New = Map.empty" "m_lru ban_New = list_New"
    by (simp_all add: ban_New_def ban_Apply_def Let_def reindexLocked_def List.map_filter_def)
  ultimately show ?thesis
    using indexed_New [of t_key, unfolded list_New_def]
    by (simp add: ban_inv_def bans_ok_def ranges_ok_def trackers_ok_def counts_ok_def auto_count_def
        list_New_def items_def maxTracked_def maxAutoBans_def List.map_filter_def)
qed

lemma ban_run_inv:
  assumes "run_ok (ban_step opts) clock_ok (t0, ban_New) es" and "foldl (ban_step opts) (t0, ban_New) es = (t, m)"
  shows "ban_inv t m"
  using ban_machine.run_keeps [of "(t0, ban_New)" opts es] assms ban_inv_New [of t0]
  by (simp add: ban_state_inv_def)

text \<open>What \<^verbatim>\<open>Banned\<close> promises: an active ban whose range contains the address, and no exemption.\<close>

definition covered :: "manager \<Rightarrow> instant \<Rightarrow> ip \<Rightarrow> bool" where
  "covered m now w \<longleftrightarrow>
     \<not> allowedLocked m w \<and>
     list_ex (\<lambda>kb. Active (snd kb) now \<and> (case banNet (snd kb) of None \<Rightarrow> False | Some n \<Rightarrow> Contains n w)) (m_bans m)"

lemma Banned_covered: "ban_inv t m \<Longrightarrow> t \<le> now \<Longrightarrow> Banned m now (Some w) \<longleftrightarrow> covered m now w"
proof -
  assume "ban_inv t m" "t \<le> now"
  then have "ban_inv now m" by (rule ban_inv_later)
  then show ?thesis
    using Banned_exact [of m now w] by (auto simp: ban_inv_def covered_def list_ex_iff split: option.splits)
qed

text \<open>
  C8. After any sequence of operations of the ban manager (settings applied, events and
  trap hits recorded, bans and unbans by hand, loading and saving) with a clock that
  does not go back, \<^verbatim>\<open>Banned\<close>, which looks at one key and a list of ranges, answers
  exactly whether a ban in force contains the address and no exemption does.
\<close>

theorem banned_exact:
  assumes "run_ok (ban_step opts) clock_ok (t0, ban_New) es"
    and "foldl (ban_step opts) (t0, ban_New) es = (t, m)" and "t \<le> now"
  shows "Banned m now (Some w) \<longleftrightarrow> covered m now w"
  using Banned_covered [OF ban_run_inv [OF assms(1,2)] assms(3)] .

text \<open>
  C19. After any sequence of operations of the ban manager: the map of counters and the
  list in order of use hold the same addresses, each once, and at most \<open>maxTracked\<close>; at
  most \<open>maxAutoBans\<close> automatic bans are in force; every ban is stored under its own
  address.
\<close>

theorem ban_invariant:
  assumes "run_ok (ban_step opts) clock_ok (t0, ban_New) es"
    and "foldl (ban_step opts) (t0, ban_New) es = (t, m)"
  shows "key_indexed t_key (m_tracked m) (m_lru m) \<and> int (list_Len (m_lru m)) \<le> maxTracked \<and>
         int (auto_count t m) \<le> maxAutoBans \<and> list_all (\<lambda>kb. ban_Address (snd kb) = fst kb) (m_bans m) \<and>
         distinct (map fst (m_bans m))"
proof -
  have "ban_inv t m" by (rule ban_run_inv [OF assms])
  then show ?thesis
    by (auto simp: ban_inv_def trackers_ok_def counts_ok_def bans_ok_def items_def list_Len_def list_all_iff)
qed

text \<open>
  C30. Counting an event for an address works on the pair of map and list as on the plain
  list of counters in order of use: the address's counters move to the front, or new
  ones are put there and the least recently used are forgotten beyond \<open>maxTracked\<close>.
\<close>

theorem track_order_of_use:
  assumes "ban_inv now m"
  shows "items (m_lru (track key m)) = use_recent key (items (m_lru m)) \<and> ban_inv now (track key m)"
  using assms track_refines(2) [of m key] ban_inv_track [of now m key] by (auto simp: ban_inv_def)

text \<open>
  C32. When there are too many bans, pruning lifts only automatic bans with an end, never
  the one just made, and of those in force the ones that end soonest: whatever stays
  of the candidates ends no earlier than whatever goes. Afterwards at most
  \<open>maxAutoBans\<close> automatic bans are in force.
\<close>

theorem prune_lifts_soonest:
  assumes "bans_ok m" and "kb \<in> set (m_bans m)" and "kb \<notin> set (m_bans (pruneLocked now keep m))"
  shows "\<not> ban_Manual (snd kb) \<and> ban_ExpiresAt (snd kb) \<noteq> None \<and> fst kb \<noteq> keep \<and>
         int (auto_count now (pruneLocked now keep m)) \<le> maxAutoBans \<and>
         (Active (snd kb) now \<longrightarrow> kb' \<in> set (m_bans (pruneLocked now keep m)) \<longrightarrow> Active (snd kb') now \<longrightarrow>
          \<not> prune_skips keep kb' \<longrightarrow> expiry kb \<le> expiry kb')"
proof -
  have skip: "\<not> prune_skips keep kb" using prune_keeps [OF assms(1,2)] assms(3) by blast
  have sub: "set (prune_lift now keep m) \<subseteq> set (prune_active now keep m)"
    "set (prune_old now keep m) \<subseteq> set (prune_history now keep m)"
    by (simp_all add: prune_lift_def prune_old_def soonest_facts)
  have uniq: "x = kb" if "x \<in> set (m_bans m)" "fst x = fst kb" for x
    using assms(1,2) that by (metis bans_ok_def eq_key_imp_eq_value prod.collapse)
  have gone: "kb \<in> set (prune_lift now keep m)" if a: "Active (snd kb) now"
  proof -
    have "fst kb \<in> fst ` set (prune_lift now keep m) \<or> fst kb \<in> fst ` set (prune_old now keep m)"
      using assms(2,3) by (auto simp: prune_fields)
    then obtain x where x: "x \<in> set (prune_lift now keep m) \<or> x \<in> set (prune_old now keep m)" "fst x = fst kb"
      by (metis imageE)
    then have "x \<in> set (m_bans m)" using sub by (auto simp: prune_active_def prune_history_def)
    with uniq x have "kb \<in> set (prune_lift now keep m) \<or> kb \<in> set (prune_old now keep m)" by blast
    with a sub(2) show ?thesis by (auto simp: prune_history_def)
  qed
  have "expiry kb \<le> expiry kb'"
    if "Active (snd kb) now" "kb' \<in> set (m_bans (pruneLocked now keep m))" "Active (snd kb') now" "\<not> prune_skips keep kb'"
  proof -
    have "kb' \<in> set (prune_active now keep m)" using that by (simp add: prune_fields prune_active_def)
    moreover have "kb' \<notin> set (prune_lift now keep m)" using that(2) by (auto simp: prune_fields)
    ultimately show ?thesis
      using gone [OF that(1)] soonest_first unfolding prune_lift_def by blast
  qed
  with skip prune_counts [OF assms(1), of now keep] show ?thesis
    by (auto simp: prune_skips_def counts_ok_def)
qed

section \<open>Bans that an offender gets\<close>

definition settings_ok :: "ipban_settings \<Rightarrow> bool" where
  "settings_ok s \<longleftrightarrow> 1 \<le> ib_BanMinutes s \<and> ib_BanMinutes s \<le> ib_MaxBanMinutes s \<and> ib_MaxBanMinutes s \<le> 525600"

lemma ban_length_settings:
  assumes "settings_ok s" and "1 \<le> n"
  shows "ban_length s n = min (ib_BanMinutes s * 2 ^ nat (n - 1)) (ib_MaxBanMinutes s) * minute"
    and "ib_BanMinutes s * minute \<le> ban_length s n" and "ban_length s n \<le> ib_MaxBanMinutes s * minute"
proof -
  have w: "wrap64 (ib_BanMinutes s * minute) = ib_BanMinutes s * minute"
    "wrap64 (ib_MaxBanMinutes s * minute) = ib_MaxBanMinutes s * minute"
    using assms(1) by (auto intro!: wrap64_id simp: settings_ok_def in_int64_def duration_defs)
  show eq: "ban_length s n = min (ib_BanMinutes s * 2 ^ nat (n - 1)) (ib_MaxBanMinutes s) * minute"
  proof -
    have "0 < minute" by (simp add: duration_defs)
    then show ?thesis
      using assms(2) unfolding ban_length_def w Let_def by (simp add: min_mult_distrib_left min_mult_distrib_right mult.commute mult.assoc mult.left_commute)
  qed
  have "ib_BanMinutes s * 1 \<le> ib_BanMinutes s * 2 ^ nat (n - 1)"
    by (rule mult_left_mono) (use assms(1) in \<open>simp_all add: settings_ok_def\<close>)
  then show "ib_BanMinutes s * minute \<le> ban_length s n"
    using assms(1) unfolding eq by (intro mult_right_mono) (simp_all add: settings_ok_def duration_defs)
  show "ban_length s n \<le> ib_MaxBanMinutes s * minute"
    unfolding eq by (intro mult_right_mono) (simp_all add: duration_defs)
qed

lemma banLocked_fields:
  assumes "banLocked now key reason m = (b, msg, m')"
  shows "m_cfg m' = m_cfg m" "m_allow m' = m_allow m"
  using banLocked_state(2) [OF assms] by (auto simp: prune_fields)

text \<open>The ban just made is stored and never pruned.\<close>

lemma banLocked_stored:
  assumes ok: "bans_ok m" and b: "banLocked now key reason m = (b, msg, m')"
  shows "(key, b) \<in> set (m_bans m')"
proof -
  obtain m2 where m2: "m_bans m2 = AList.update key b (m_bans m)"
    and m': "m' = (if m_autoBans m2 > maxAutoBans then pruneLocked now key m2 else m2)"
    using banLocked_state(2) [OF b] by blast
  have addr: "ban_Address b = key" using banLocked_state(1) [OF b] by (simp add: auto_ban_def Let_def)
  have ok2: "bans_ok m2" by (rule bans_ok_update [OF ok, of m2 b]) (simp add: m2 addr)
  have in2: "(key, b) \<in> set (m_bans m2)"
    using ok by (simp add: m2 set_update_distinct bans_ok_def)
  then show ?thesis
    using m' prune_keeps [OF ok2 in2] by (simp add: prune_skips_def)
qed

lemma strikes_pos: "(\<forall>kb\<in>set (m_bans m). 0 \<le> ban_Strikes (snd kb)) \<Longrightarrow> 1 \<le> strikes_of m key"
  by (auto simp: strikes_of_def split: option.splits dest!: map_of_SomeD)

lemma banLocked_bans:
  assumes i: "ban_inv now m" and b: "banLocked now (keyLocked m w) reason m = (b, msg, m')"
    and na: "\<not> allowedLocked m w" and act: "Active b now'" and le: "now \<le> now'"
  shows "Banned m' now' (Some w)"
proof -
  have i': "ban_inv now m'" by (rule ban_inv_banLocked [OF i b])
  have st: "(keyLocked m w, b) \<in> set (m_bans m')"
    using banLocked_stored [OF _ b] i by (simp add: ban_inv_def)
  have "ban_Address b = keyLocked m w" using banLocked_state(1) [OF b] by (simp add: auto_ban_def Let_def)
  then have "banNet b = Some (key_target m w)" by (simp add: banNet_def ParseCIDROrIP_key)
  moreover have "Contains (key_target m w) w" by (simp add: key_contains)
  moreover have "\<not> allowedLocked m' w" using na by (simp add: allowedLocked_def banLocked_fields [OF b])
  ultimately have "covered m' now' w"
    using st act by (auto simp: covered_def list_ex_iff intro!: bexI [OF _ st])
  then show ?thesis using Banned_covered [OF i' le] by simp
qed

text \<open>
  An automatic ban starts at once, lasts the configured time, doubled for every
  ban of that address before it up to the configured maximum, and for all that time
  the address is refused.
\<close>

theorem automatic_ban_lasts:
  assumes "ban_inv now m" and "settings_ok (m_cfg m)"
    and "list_all (\<lambda>kb. 0 \<le> ban_Strikes (snd kb)) (m_bans m)"
    and "banLocked now (keyLocked m w) reason m = (b, msg, m')" and "\<not> allowedLocked m w"
  shows "ban_Strikes b = strikes_of m (keyLocked m w) \<and>
    ban_ExpiresAt b = Some (now + min (ib_BanMinutes (m_cfg m) * 2 ^ nat (ban_Strikes b - 1)) (ib_MaxBanMinutes (m_cfg m)) * minute) \<and>
    (now \<le> now' \<and> now' < now + ib_BanMinutes (m_cfg m) * minute \<longrightarrow> Banned m' now' (Some w))"
proof -
  let ?n = "strikes_of m (keyLocked m w)"
  have n: "1 \<le> ?n" using assms(3) by (intro strikes_pos) (simp add: list_all_iff)
  note L = ban_length_settings [OF assms(2) n]
  have b: "ban_Strikes b = ?n" "ban_ExpiresAt b = Some (now + ban_length (m_cfg m) ?n)"
    using banLocked_state(1) [OF assms(4)] by (simp_all add: auto_ban_def Let_def)
  have "Banned m' now' (Some w)" if "now \<le> now'" "now' < now + ib_BanMinutes (m_cfg m) * minute"
    by (rule banLocked_bans [OF assms(1,4,5) _ that(1)]) (use that(2) L(2) in \<open>simp add: Active_def b\<close>)
  with b L(1) show ?thesis by auto
qed


section \<open>Bans and unbans by hand\<close>

lemma put_manual_stored:
  assumes ok: "bans_ok m" and act: "Active b now"
  shows "(ban_Address b, b) \<in> set (m_bans (fst (snd (put_manual opts now b msg m))))"
    and "m_allow (fst (snd (put_manual opts now b msg m))) = m_allow m"
proof -
  let ?m = "fst (raise_event opts now b msg (reindexLocked (m \<lparr> m_bans := AList.update (ban_Address b) b (m_bans m) \<rparr>)))"
  have eq: "fst (snd (put_manual opts now b msg m)) = fst (snd (save_bans opts now ?m))"
    by (simp add: put_manual_def Let_def case_prod_unfold)
  have "(ban_Address b, b) \<in> set (m_bans ?m)"
    using ok by (simp add: ban_simps set_update_distinct bans_ok_def)
  moreover have "\<not> too_old now b" using act too_old_inactive by blast
  ultimately show "(ban_Address b, b) \<in> set (m_bans (fst (snd (put_manual opts now b msg m))))"
    unfolding eq by (simp add: save_bans_def Let_def case_prod_unfold ban_simps split: option.split)
  show "m_allow (fst (snd (put_manual opts now b msg m))) = m_allow m"
    unfolding eq by (simp add: save_bans_def Let_def case_prod_unfold ban_simps split: option.split)
qed

lemma put_manual_bans:
  assumes i: "ban_inv now m" and man: "ban_Manual b" and act: "Active b now'" and le: "now \<le> now'"
    and net: "banNet b = Some n" "Contains n w" and na: "\<not> allowedLocked m w"
  shows "Banned (fst (snd (put_manual opts now b msg m))) now' (Some w)"
proof -
  let ?m = "fst (snd (put_manual opts now b msg m))"
  have i': "ban_inv now ?m" by (rule ban_inv_put_manual [OF i man])
  note S = put_manual_stored [of m b now opts msg]
  have st: "(ban_Address b, b) \<in> set (m_bans ?m)"
    by (rule S(1)) (use i Active_mono [OF act le] in \<open>simp_all add: ban_inv_def\<close>)
  have "\<not> allowedLocked ?m w"
    using na S(2) i Active_mono [OF act le] by (simp add: allowedLocked_def ban_inv_def)
  then have "covered ?m now' w"
    using st act net by (auto simp: covered_def list_ex_iff intro!: bexI [OF _ st])
  then show ?thesis using Banned_covered [OF i' le] by simp
qed

text \<open>
  Unbanning an address lifts every ban that contains it: no later check refuses it,
  until it is banned again. Bans that neither contain the address nor have it as their
  own stay, unless they ended more than a week ago.
\<close>

theorem Unban_lifts:
  assumes "ban_inv now m" and "ParseIP (trim_space addr) = Some w" and "now \<le> now'"
  shows "\<not> Banned (fst (snd (ban_Unban opts now addr m))) now' (Some w) \<and>
    (kb \<in> set (m_bans m) \<and> \<not> unban_match (trim_space addr) kb \<and> \<not> too_old now (snd kb)
     \<longrightarrow> kb \<in> set (m_bans (fst (snd (ban_Unban opts now addr m)))))"
proof -
  let ?m = "fst (snd (ban_Unban opts now addr m))"
  let ?keep = "\<lambda>kb. \<not> unban_match (trim_space addr) kb"
  have bans: "m_bans ?m = filter ?keep (m_bans m) \<or>
      m_bans ?m = filter (\<lambda>kb. \<not> too_old now (snd kb)) (filter ?keep (m_bans m))"
    using Unban_state [of opts now addr m]
    by (auto simp: ban_simps save_bans_def Let_def case_prod_unfold split: option.splits)
  have "\<not> covered ?m now' w"
  proof -
    have "unban_match (trim_space addr) kb" if "banNet (snd kb) = Some n" "Contains n w" for kb n
      using that assms(2) by (simp add: unban_match_def)
    with bans show ?thesis by (auto simp: covered_def list_ex_iff split: option.splits)
  qed
  then have "\<not> Banned ?m now' (Some w)"
    using Banned_covered [OF ban_inv_Unban [OF assms(1)] assms(3)] by simp
  with bans show ?thesis by auto
qed

text \<open>IPv4 addresses share the leading 96 bits of their 16-byte form.\<close>

lemma mask_v4: "To4 v \<noteq> None \<Longrightarrow> To4 w \<noteq> None \<Longrightarrow> mask_top 96 v = mask_top 96 w"
proof -
  assume "To4 v \<noteq> None" "To4 w \<noteq> None"
  then have eq: "drop_bit 32 v = drop_bit 32 w" by (auto simp: To4_def split: if_splits)
  have "bit v i \<longleftrightarrow> bit w i" if "32 \<le> i" for i
    using arg_cong [OF eq, of "\<lambda>x. bit x (i - 32)"] that by (simp add: bit_drop_bit_eq)
  then show ?thesis by (intro bit_eqI) (auto simp: bit_mask_top)
qed

definition all_mapped :: ipnet where
  "all_mapped = \<lparr> net_IP = 0xFFFF00000000, net_ones = 96, net_bits = 128 \<rparr>"

lemma show_nat_0: "show_nat 0 = ''0''"
  by code_simp


lemma replicate_5: "replicate 5 x = [x, x, x, x, x]"
  by (simp add: eval_nat_numeral)

lemma digits_4: "digits_base b 4 n = [n div b div b div b mod b, n div b div b mod b, n div b mod b, n mod b]"
  by (simp add: eval_nat_numeral)

lemma parse_mapped: "ParseIP ''::ffff:0:0'' = Some 0xFFFF00000000"
  by (simp add: ParseIP_def parse_v6_def split_groups_def read_group_def hex_digit_def undigits_def Let_def replicate_5)

lemma show_v4_0: "show_v4 0 = ''0.0.0.0''"
  by (simp add: show_v4_def show_nat_0 digits_4)

lemma mapped_parse: "ParseCIDROrIP ''::ffff:0:0/96'' = Inr all_mapped"
proof -
  have "trim_space ''::ffff:0:0/96'' = ''::ffff:0:0/96''" by code_simp
  moreover have "cut_at CHR ''/'' ''::ffff:0:0/96'' = (''::ffff:0:0'', ''96'', True)" by code_simp
  moreover have "dotted_text ''::ffff:0:0'' = False" by code_simp
  moreover have "list_all is_digit ''96'' \<and> digits_val ''96'' = 96" by code_simp
  moreover have "mask_top 96 0xFFFF00000000 = 0xFFFF00000000" by code_simp
  ultimately show ?thesis by (simp add: ParseCIDROrIP_def ParseCIDR_def parse_mapped all_mapped_def)
qed

lemma mapped_key: "manual_key all_mapped = ''0.0.0.0/0''"
proof -
  have "To4 0xFFFF00000000 = Some 0" by code_simp
  then show ?thesis
    by (simp add: manual_key_def all_mapped_def net_string_def net_prefix_def ip_string_def show_v4_0 show_nat_0)
qed

lemma all_v4_parse: "ParseCIDROrIP ''0.0.0.0/0'' = Inr \<lparr> net_IP = 0xFFFF00000000, net_ones = 0, net_bits = 32 \<rparr>"
proof -
  let ?n = "\<lparr> net_IP = 0xFFFF00000000, net_ones = 0, net_bits = 32 \<rparr>"
  have v4: "To4 0xFFFF00000000 = Some 0" by code_simp
  have m: "mask_top 96 0xFFFF00000000 = 0xFFFF00000000" by code_simp
  have "net_string ?n = ''0.0.0.0/0''"
    by (simp add: net_string_def net_prefix_def ip_string_def show_v4_0 show_nat_0 v4)
  moreover have "net_wf ?n" by (simp add: net_wf_def net_prefix_def v4 m)
  ultimately show ?thesis using ParseCIDROrIP_net_string [of ?n] by simp
qed

text \<open>
  C36. The limit on the width of a range banned by hand (at most a /8 for IPv4) does not
  see through the IPv6 form of IPv4 addresses: a ban of \<^verbatim>\<open>::ffff:0:0/96\<close> passes it and
  refuses every IPv4 address that is not exempt.
\<close>

theorem mapped_range_bans_IPv4:
  assumes "ban_inv now m" and "List.find (\<lambda>a. covers a all_mapped) (m_allow m) = None"
    and "\<not> allowedLocked m (ip_v4 a)" and "now \<le> now'"
  shows "Banned (fst (snd (ban_Ban opts now ''::ffff:0:0/96'' 0 reason who m))) now' (Some (ip_v4 a))"
proof -
  let ?b = "manual_ban now all_mapped 0 reason who"
  let ?n = "\<lparr> net_IP = 0xFFFF00000000, net_ones = 0, net_bits = 32 \<rparr>"
  have trim: "trim_space ''::ffff:0:0/96'' = ''::ffff:0:0/96''" by code_simp
  have "fst (snd (ban_Ban opts now ''::ffff:0:0/96'' 0 reason who m))
      = fst (snd (put_manual opts now ?b (manual_message ?b 0) m))"
    using assms(2) unfolding ban_Ban_def trim mapped_parse
    by (simp add: Let_def case_prod_unfold) (simp add: all_mapped_def)
  moreover have "banNet ?b = Some ?n"
    by (simp add: banNet_def manual_ban_def mapped_key all_v4_parse)
  moreover have "Contains ?n (ip_v4 a)"
  proof -
    have "To4 0xFFFF00000000 \<noteq> None" by code_simp
    with mask_v4 [of "ip_v4 a" "0xFFFF00000000"] show ?thesis
      by (auto simp: Contains_def net_prefix_def To4_ip_v4_Some)
  qed
  moreover have "ban_Manual ?b" "Active ?b now'" by (simp_all add: manual_ban_def Active_def)
  ultimately show ?thesis using put_manual_bans [OF assms(1) _ _ assms(4) _ _ assms(3)] by metis
qed

section \<open>A burst of offences\<close>

definition tracker_of :: "manager \<Rightarrow> string \<Rightarrow> tracker option" where
  "tracker_of m key = (case m_tracked m key of None \<Rightarrow> None | Some e \<Rightarrow> list_value e (m_lru m))"

lemma tracker_of_item:
  assumes "trackers_ok m" and "t \<in> set (items (m_lru m))"
  shows "tracker_of m (t_key t) = Some t"
proof -
  have i: "key_indexed t_key (m_tracked m) (m_lru m)" using assms(1) by (simp add: trackers_ok_def)
  have "m_tracked m (t_key t) \<noteq> None" using index_absent [OF i] assms(2) by auto
  then obtain e where e: "m_tracked m (t_key t) = Some e" by blast
  obtain v where v: "list_value e (m_lru m) = Some v" "t_key v = t_key t" "v \<in> set (items (m_lru m))"
    using index_value [OF i e] by metis
  have "distinct (map t_key (items (m_lru m)))" using i by (simp add: key_indexed_def)
  then have "v = t" using v assms(2) by (auto simp: distinct_map inj_on_def)
  with e v show ?thesis by (simp add: tracker_of_def)
qed

lemma tracker_of_track:
  assumes "trackers_ok m"
  shows "tracker_of (track key m) key = Some (case tracker_of m key of None \<Rightarrow> new_tracker key | Some t \<Rightarrow> t)"
proof -
  have i: "key_indexed t_key (m_tracked m) (m_lru m)" using assms by (simp add: trackers_ok_def)
  note T = track_refines [OF assms, of key]
  show ?thesis
  proof (cases "m_tracked m key")
    case None
    then have "key \<notin> t_key ` set (items (m_lru m))" using index_absent [OF i] by simp
    then have "new_tracker key \<in> set (items (m_lru (track key m)))"
      unfolding T(2) by (cases "nat maxTracked") (auto simp: use_recent_def find_key_None maxTracked_def)
    from tracker_of_item [OF T(1) this] None show ?thesis by (simp add: tracker_of_def new_tracker_def)
  next
    case (Some e)
    obtain v where v: "list_value e (m_lru m) = Some v" "t_key v = key" "v \<in> set (items (m_lru m))"
      using index_value [OF i Some] by metis
    have d: "distinct (map t_key (items (m_lru m)))" using i by (simp add: key_indexed_def)
    have "v \<in> set (items (m_lru (track key m)))"
      unfolding T(2) using find_key [OF d v(3)] v(2) by (simp add: use_recent_def)
    from tracker_of_item [OF T(1) this] Some v show ?thesis by (simp add: tracker_of_def)
  qed
qed

lemma tracker_of_count:
  assumes t: "trackers_ok m" and k: "tracker_of m key = Some t"
  shows "fst (count key kd now w m) = snd (counter_add (t_counters t kd) now w)"
    and "tracker_of (snd (count key kd now w m)) key
       = Some (t \<lparr> t_counters := (t_counters t)(kd := fst (counter_add (t_counters t kd) now w)) \<rparr>)"
proof -
  have i: "key_indexed t_key (m_tracked m) (m_lru m)" using t by (simp add: trackers_ok_def)
  obtain e where e: "m_tracked m key = Some e" "list_value e (m_lru m) = Some t"
    using k by (auto simp: tracker_of_def split: option.splits)
  have tk: "t_key t = key" "(e, t) \<in> set (cells (m_lru m))" using index_value [OF i e(1)] e(2) by (metis option.inject)+
  let ?t = "t \<lparr> t_counters := (t_counters t)(kd := fst (counter_add (t_counters t kd) now w)) \<rparr>"
  have c: "count key kd now w m = (snd (counter_add (t_counters t kd) now w), m \<lparr> m_lru := set_value e ?t (m_lru m) \<rparr>)"
    by (simp add: count_def e case_prod_unfold Let_def)
  show "fst (count key kd now w m) = snd (counter_add (t_counters t kd) now w)" by (simp add: c)
  have "t_key ?t = key" using tk by simp
  note V = indexed_set_value [OF i e(1) this]
  have "t \<in> set (items (m_lru m))" using tk(2) by (force simp: items_def)
  then have "?t \<in> set (items (set_value e ?t (m_lru m)))" unfolding V(2) using tk(1) by force
  then have "tracker_of (snd (count key kd now w m)) (t_key ?t) = Some ?t"
    using count_keeps [OF t, of key kd now w] by (intro tracker_of_item) (simp_all add: c)
  with tk(1) show "tracker_of (snd (count key kd now w m)) key = Some ?t" by simp
qed

text \<open>Within one window of its first event the estimate is the exact number of events.\<close>

lemma counter_add_within:
  assumes "c = (if n = 0 then zero_counter else \<lparr> c_start = t0, c_prev = 0, c_cur = rat_of_nat n \<rparr>)"
    and "n = 0 \<Longrightarrow> now = t0" and "t0 \<noteq> 0" and "t0 \<le> now" and "now < t0 + w" and "0 < w" and "w \<le> max_duration"
  shows "counter_add c now w = (\<lparr> c_start = t0, c_prev = 0, c_cur = rat_of_nat (Suc n) \<rparr>, Some (rat_of_nat (Suc n)))"
proof -
  have sub: "time_sub now t0 = now - t0"
    by (rule time_sub_exact) (use assms in \<open>simp_all add: duration_defs\<close>)
  show ?thesis
  proof (cases "n = 0")
    case True
    with assms sub show ?thesis by (simp add: counter_add_def zero_counter_def Let_def)
  next
    case False
    have "\<not> 2 * w \<le> now - t0" "\<not> w \<le> now - t0" using assms by linarith+
    with False assms sub show ?thesis by (simp add: counter_add_def Let_def)
  qed
qed


definition records :: "ban_options \<Rightarrow> ip \<Rightarrow> kind \<Rightarrow> instant list \<Rightarrow> manager \<Rightarrow> manager" where
  "records opts w kd ts m = foldl (\<lambda>m t. fst (Record opts t (Some w) kd m)) m ts"

text \<open>The manager counts the address: banning is on, the rule too, no exemption and no ban in force.\<close>

definition watching :: "manager \<Rightarrow> instant \<Rightarrow> ip \<Rightarrow> kind \<Rightarrow> bool" where
  "watching m now w kd \<longleftrightarrow>
     ib_Enabled (m_cfg m) \<and> 0 < br_Threshold (rule_of (m_cfg m) kd) \<and> \<not> allowedLocked m w \<and>
     (case map_of (m_bans m) (keyLocked m w) of None \<Rightarrow> True | Some b \<Rightarrow> \<not> Active b now)"

definition window_of :: "manager \<Rightarrow> kind \<Rightarrow> duration" where
  "window_of m kd = wrap64 (br_WindowSec (rule_of (m_cfg m) kd) * second)"

definition counted :: "manager \<Rightarrow> instant \<Rightarrow> ip \<Rightarrow> kind \<Rightarrow> rat option \<times> manager" where
  "counted m now w kd = count (keyLocked m w) kd now (window_of m kd) (track (keyLocked m w) m)"

lemma Record_watching:
  assumes "watching m now w kd"
  shows "fst (Record opts now (Some w) kd m) =
    (if below (fst (counted m now w kd)) (br_Threshold (rule_of (m_cfg m) kd)) then snd (counted m now w kd)
     else (let r = banLocked now (keyLocked m w) (record_reason (rule_of (m_cfg m) kd) kd (window_of m kd))
                     (snd (counted m now w kd))
           in fst (banned_report opts now (fst r) (fst (snd r)) (snd (snd r)))))"
proof -
  have "\<not> (\<not> ib_Enabled (m_cfg m) \<or> br_Threshold (rule_of (m_cfg m) kd) \<le> 0 \<or> allowedLocked m w)"
    and "\<not> (case map_of (m_bans m) (keyLocked m w) of None \<Rightarrow> False | Some b \<Rightarrow> Active b now)"
    using assms by (auto simp: watching_def split: option.splits)
  then show ?thesis
    by (simp add: Record_def Let_def counted_def window_of_def case_prod_unfold)
qed

lemma watching_cong:
  assumes "m_cfg m' = m_cfg m" "m_allow m' = m_allow m" "m_bans m' = m_bans m"
  shows "watching m' now w kd = watching m now w kd" "keyLocked m' w = keyLocked m w" "window_of m' kd = window_of m kd"
proof -
  show k: "keyLocked m' w = keyLocked m w" by (rule keyLocked_cong) (rule assms)
  show "watching m' now w kd = watching m now w kd"
    unfolding watching_def allowedLocked_def k assms by (rule refl)
  show "window_of m' kd = window_of m kd" by (simp add: window_of_def assms)
qed

lemma watching_later: "watching m t w kd \<Longrightarrow> t \<le> now \<Longrightarrow> watching m now w kd"
  using Active_mono by (auto simp: watching_def split: option.splits)

lemma counted_fields [ban_simps]:
  "m_bans (snd (counted m now w kd)) = m_bans m" "m_cfg (snd (counted m now w kd)) = m_cfg m"
  "m_allow (snd (counted m now w kd)) = m_allow m"
  by (simp_all add: counted_def ban_simps)

lemma ban_inv_counted: "ban_inv t m \<Longrightarrow> ban_inv t (snd (counted m now w kd))"
  unfolding counted_def by (intro ban_inv_count ban_inv_track)

lemma Banned_report: "Banned (fst (banned_report opts now b msg m)) t ip = Banned m t ip"
proof -
  have eq: "fst (banned_report opts now b msg m) = fst (saveSoon opts (fst (raise_event opts now b msg m)))"
    by (simp add: banned_report_def case_prod_unfold Let_def)
  have k: "keyLocked (fst (banned_report opts now b msg m)) w = keyLocked m w" for w
    by (rule keyLocked_cong) (simp add: eq ban_simps)
  show ?thesis
    unfolding Banned_def allowedLocked_def k unfolding eq ban_simps by (rule refl)
qed

text \<open>After \<open>n\<close> events within a window of the first, at \<open>t0\<close>: the counter of the address.\<close>

definition burst :: "manager \<Rightarrow> ip \<Rightarrow> kind \<Rightarrow> instant \<Rightarrow> nat \<Rightarrow> bool" where
  "burst m w kd t0 n \<longleftrightarrow>
     (case tracker_of m (keyLocked m w) of
        None \<Rightarrow> n = 0
      | Some t \<Rightarrow> t_counters t kd = (if n = 0 then zero_counter else \<lparr> c_start = t0, c_prev = 0, c_cur = rat_of_nat n \<rparr>))"

lemma burst_step:
  assumes "trackers_ok m" and "burst m w kd t0 n" and "n = 0 \<Longrightarrow> now = t0" and "t0 \<noteq> 0" and "t0 \<le> now"
    and "now < t0 + window_of m kd" and "window_of m kd \<le> max_duration"
  shows "fst (counted m now w kd) = Some (rat_of_nat (Suc n))" and "burst (snd (counted m now w kd)) w kd t0 (Suc n)"
proof -
  let ?k = "keyLocked m w"
  let ?t = "case tracker_of m ?k of None \<Rightarrow> new_tracker ?k | Some t \<Rightarrow> t"
  have tr: "tracker_of (track ?k m) ?k = Some ?t" by (rule tracker_of_track [OF assms(1)])
  have c: "t_counters ?t kd = (if n = 0 then zero_counter else \<lparr> c_start = t0, c_prev = 0, c_cur = rat_of_nat n \<rparr>)"
    using assms(2) by (auto simp: burst_def new_tracker_def split: option.splits)
  have pos: "0 < window_of m kd" using assms(5,6) by linarith
  have A: "counter_add (t_counters ?t kd) now (window_of m kd)
      = (\<lparr> c_start = t0, c_prev = 0, c_cur = rat_of_nat (Suc n) \<rparr>, Some (rat_of_nat (Suc n)))"
    by (rule counter_add_within [OF c _ assms(4-6) pos assms(7)]) (rule assms(3))
  note C = tracker_of_count [OF track_refines(1) [OF assms(1)] tr, of kd now "window_of m kd"]
  show "fst (counted m now w kd) = Some (rat_of_nat (Suc n))"
    unfolding counted_def C(1) A by simp
  have "keyLocked (snd (counted m now w kd)) w = ?k" by (rule keyLocked_cong) (simp add: ban_simps)
  moreover have "tracker_of (snd (counted m now w kd)) ?k
      = Some (?t \<lparr> t_counters := (t_counters ?t)(kd := \<lparr> c_start = t0, c_prev = 0, c_cur = rat_of_nat (Suc n) \<rparr>) \<rparr>)"
    unfolding counted_def C(2) A by simp
  ultimately show "burst (snd (counted m now w kd)) w kd t0 (Suc n)" by (simp add: burst_def)
qed

lemma burst_bans:
  assumes "ban_inv t m" and "watching m t0 w kd" and "settings_ok (m_cfg m)"
    and "list_all (\<lambda>kb. 0 \<le> ban_Strikes (snd kb)) (m_bans m)" and "burst m w kd t0 n" and "t0 \<noteq> 0"
    and "window_of m kd \<le> max_duration" and "sorted (t # ts)" and "t0 \<le> t" and "ts \<noteq> []" and "n = 0 \<Longrightarrow> hd ts = t0"
    and "last ts < t0 + window_of m kd" and "int (n + length ts) = br_Threshold (rule_of (m_cfg m) kd)"
  shows "Banned (records opts w kd ts m) (last ts) (Some w)"
  using assms
proof (induction ts arbitrary: t m n)
  case Nil
  then show ?case by simp
next
  case (Cons now ts)
  let ?m = "snd (counted m now w kd)"
  have le: "t \<le> now" "t0 \<le> now" using Cons.prems(8,9) by auto
  have in_w: "now < t0 + window_of m kd"
  proof -
    have "now \<le> last (now # ts)" using Cons.prems(8) by (cases ts) auto
    then show ?thesis using Cons.prems(12) by linarith
  qed
  have i: "ban_inv now m" by (rule ban_inv_later [OF Cons.prems(1) le(1)])
  have "n = 0 \<Longrightarrow> now = t0" using Cons.prems(11) by simp
  note S = burst_step [OF _ Cons.prems(5) this Cons.prems(6) le(2) in_w Cons.prems(7)]
  have tr: "trackers_ok m" using i by (simp add: ban_inv_def)
  have w: "watching m now w kd" by (rule watching_later [OF Cons.prems(2) le(2)])
  note R = Record_watching [OF w, of opts]
  let ?reason = "record_reason (rule_of (m_cfg m) kd) kd (window_of m kd)"
  have cfg: "m_cfg ?m = m_cfg m" "m_allow ?m = m_allow m" "m_bans ?m = m_bans m" by (simp_all add: ban_simps)
  show ?case
  proof (cases "ts = []")
    case True
    have "\<not> below (fst (counted m now w kd)) (br_Threshold (rule_of (m_cfg m) kd))"
      using Cons.prems(13) S(1) [OF tr] True
      by (simp add: below_def)
    moreover obtain b msg m' where b: "banLocked now (keyLocked m w) ?reason ?m = (b, msg, m')"
      by (metis prod_cases3)
    ultimately have "fst (Record opts now (Some w) kd m) = fst (banned_report opts now b msg m')"
      by (simp add: R Let_def)
    moreover have "Banned m' now (Some w)"
    proof -
      have b': "banLocked now (keyLocked ?m w) ?reason ?m = (b, msg, m')"
        using b watching_cong(2) [OF cfg] by simp
      have n: "1 \<le> strikes_of ?m (keyLocked ?m w)"
        using Cons.prems(4) by (intro strikes_pos) (simp add: cfg list_all_iff)
      have "0 < minute" by (simp add: duration_defs)
      then have "0 < ib_BanMinutes (m_cfg m) * minute" using Cons.prems(3) by (simp add: settings_ok_def)
      then have "0 < ban_length (m_cfg ?m) (strikes_of ?m (keyLocked ?m w))"
        using ban_length_settings(2) [OF Cons.prems(3) n] cfg(1) by simp
      then have "Active b now"
        using banLocked_state(1) [OF b'] by (simp add: auto_ban_def Let_def Active_def)
      moreover have "\<not> allowedLocked ?m w" using w by (simp add: watching_def allowedLocked_def cfg)
      ultimately show ?thesis
        by (intro banLocked_bans [OF ban_inv_counted [OF i] b']) simp_all
    qed
    ultimately show ?thesis using True by (simp add: records_def Banned_report)
  next
    case False
    have "below (fst (counted m now w kd)) (br_Threshold (rule_of (m_cfg m) kd))"
    proof -
      have "int (Suc n) < br_Threshold (rule_of (m_cfg m) kd)" using Cons.prems(13) False by (cases ts) auto
      then have "rat_of_int (int (Suc n)) < of_int (br_Threshold (rule_of (m_cfg m) kd))" by (simp only: of_int_less_iff)
      then show ?thesis by (simp add: S(1) [OF tr] below_def)
    qed
    then have m: "fst (Record opts now (Some w) kd m) = ?m" by (simp add: R)
    have "Banned (records opts w kd ts ?m) (last ts) (Some w)"
    proof (rule Cons.IH [of now ?m "Suc n"])
      show "ban_inv now ?m" by (rule ban_inv_counted [OF i])
      show "watching ?m t0 w kd" using Cons.prems(2) watching_cong(1) [OF cfg] by simp
      show "burst ?m w kd t0 (Suc n)" by (rule S(2) [OF tr])
      show "last ts < t0 + window_of ?m kd" "window_of ?m kd \<le> max_duration"
        using Cons.prems(7,12) False watching_cong(3) [OF cfg] by simp_all
    qed (use Cons.prems False le in \<open>simp_all add: cfg\<close>)
    then show ?thesis using False m by (simp add: records_def)
  qed
qed



section \<open>Settings\<close>

definition rule_ok :: "ban_rule \<Rightarrow> bool" where
  "rule_ok r \<longleftrightarrow> br_Threshold r \<le> 100000 \<and> br_WindowSec r \<le> 86400"

lemma check_ban_rules_None: "check_ban_rules rs = None \<longleftrightarrow> list_all (\<lambda>(f, r). rule_ok r) rs"
  by (induction rs rule: check_ban_rules.induct) (auto simp: rule_ok_def)

lemma check_traps_None: "check_traps i ps = None \<longleftrightarrow> list_all (\<lambda>p. prefix ''/'' p \<and> 2 \<le> length p) ps"
  by (induction ps arbitrary: i) (auto simp: not_less)

lemma check_allow_None: "check_allow i cs = None \<longleftrightarrow> list_all (\<lambda>c. \<not> isl (ParseCIDROrIP c)) cs"
  by (induction cs arbitrary: i) (auto split: sum.splits)

lemma ok_nets_length: "list_all (\<lambda>c. \<not> isl (ParseCIDROrIP c)) cs \<longleftrightarrow> length (ok_nets cs) = length cs"
proof (induction cs)
  case Nil
  then show ?case by (simp add: ok_nets_def List.map_filter_def)
next
  case (Cons c cs)
  have "length (ok_nets cs) \<le> length cs" by (simp add: ok_nets_def List.map_filter_def)
  with Cons show ?case
    by (cases "ParseCIDROrIP c") (auto simp: ok_nets_def List.map_filter_simps)
qed

text \<open>
  Settings that were completed with defaults are accepted exactly when the
  thresholds, windows, trap paths, ban lengths, the allow list and the IPv6 prefix are
  in range; every check that fails is reported, and settings that pass bound every ban
  and lose no entry of the allow list when they are applied.
\<close>

theorem ipban_settings_valid:
  shows "ipban_Validate (ipban_ApplyDefaults s) = None \<longleftrightarrow>
    (let d = ipban_ApplyDefaults s in
     list_all (\<lambda>k. 0 \<le> br_Threshold (rule_of d k) \<and> br_Threshold (rule_of d k) \<le> 100000 \<and>
                   1 \<le> br_WindowSec (rule_of d k) \<and> br_WindowSec (rule_of d k) \<le> 86400)
       [AuthFailure, NotFound, RateLimited, WAFBlocked] \<and>
     list_all (\<lambda>p. prefix ''/'' p \<and> 2 \<le> length p) (opt_items (ib_TrapPaths d)) \<and>
     settings_ok d \<and> length (ok_nets (opt_items (ib_AllowList d))) = length (opt_items (ib_AllowList d)) \<and>
     32 \<le> ib_IPv6Prefix d \<and> ib_IPv6Prefix d \<le> 128)"
proof -
  let ?d = "ipban_ApplyDefaults s"
  have pos: "0 \<le> br_Threshold (rule_of ?d k) \<and> 1 \<le> br_WindowSec (rule_of ?d k)" for k
    by (cases k) (auto simp: ipban_ApplyDefaults_def DefaultIPBan_def default_rule_def rule_of_def Let_def)
  have mins: "1 \<le> ib_BanMinutes ?d"
    by (auto simp: ipban_ApplyDefaults_def DefaultIPBan_def Let_def)
  have rules: "rule_ok (ib_AuthFailures ?d) = rule_ok (rule_of ?d AuthFailure)"
    "rule_ok (ib_NotFound ?d) = rule_ok (rule_of ?d NotFound)"
    "rule_ok (ib_RateLimited ?d) = rule_ok (rule_of ?d RateLimited)"
    "rule_ok (ib_WAFBlocks ?d) = rule_ok (rule_of ?d WAFBlocked)"
    by (simp_all add: rule_of_def)
  have iff: "ipban_Validate ?d = None \<longleftrightarrow>
      list_all (\<lambda>k. rule_ok (rule_of ?d k)) [AuthFailure, NotFound, RateLimited, WAFBlocked] \<and>
      list_all (\<lambda>p. prefix ''/'' p \<and> 2 \<le> length p) (opt_items (ib_TrapPaths ?d)) \<and>
      (ib_BanMinutes ?d \<le> ib_MaxBanMinutes ?d \<and> ib_MaxBanMinutes ?d \<le> 525600) \<and>
      length (ok_nets (opt_items (ib_AllowList ?d))) = length (opt_items (ib_AllowList ?d)) \<and>
      32 \<le> ib_IPv6Prefix ?d \<and> ib_IPv6Prefix ?d \<le> 128"
    unfolding ipban_Validate_def option.case_eq_if check_ban_rules_None check_traps_None check_allow_None
      ok_nets_length
    using rules
    by (cases "ib_BanMinutes ?d > 525600")
      (auto simp: check_ban_rules_None check_traps_None check_allow_None ok_nets_length not_less)
  show ?thesis unfolding Let_def iff settings_ok_def using pos mins by (simp add: rule_ok_def)
qed


section \<open>Concrete managers\<close>

definition quiet :: ban_options where
  "quiet = \<lparr> o_OnBan = False, o_Save = None \<rparr>"

definition strict :: ipban_settings where
  "strict = DefaultIPBan \<lparr> ib_Enabled := True, ib_AuthFailures := \<lparr> br_Threshold = 2, br_WindowSec = 300 \<rparr> \<rparr>"

definition strict_manager :: manager where
  "strict_manager = ban_Apply strict [] ban_New"

definition client :: ip where
  "client = 0xFFFFC0000201"

lemma strict_inv: "ban_inv now strict_manager"
  unfolding strict_manager_def by (rule ban_inv_Apply [OF ban_inv_New])

lemma strict_fields:
  "m_cfg strict_manager = strict" "m_bans strict_manager = []" "m_tracked strict_manager = Map.empty"
  "m_allow strict_manager = loopback"
  by (simp_all add: strict_manager_def strict_def ban_Apply_def DefaultIPBan_def ban_New_def Let_def ban_simps
      opt_items_def ok_nets_def List.map_filter_def)

lemma strict_client: "\<not> allowedLocked strict_manager client"
proof -
  have "list_all (\<lambda>n. \<not> Contains n client) loopback" by code_simp
  then show ?thesis by (simp add: allowedLocked_def strict_fields list_all_iff)
qed

lemma strict_ok: "settings_ok strict"
  by (simp add: strict_def DefaultIPBan_def settings_ok_def)

lemma strict_watching: "watching strict_manager now client AuthFailure"
  using strict_client by (simp add: watching_def strict_fields rule_of_def) (simp add: strict_def)

theorem banned_exact_witness:
  "Banned (snd (foldl (ban_step quiet) (0, ban_New) [(5, OpApply strict []), (7, OpTrap client ''/.env'')])) 8 (Some client)
   \<longleftrightarrow> covered (snd (foldl (ban_step quiet) (0, ban_New) [(5, OpApply strict []), (7, OpTrap client ''/.env'')])) 8 client"
proof -
  let ?es = "[(5, OpApply strict []), (7, OpTrap client ''/.env'')]"
  have "run_ok (ban_step quiet) clock_ok (0, ban_New) ?es"
    by (simp add: clock_ok_def ban_step_def)
  moreover have "foldl (ban_step quiet) (0, ban_New) ?es = (7, snd (foldl (ban_step quiet) (0, ban_New) ?es))"
    by (simp add: ban_step_def)
  ultimately show ?thesis by (rule banned_exact) simp
qed

theorem ban_invariant_witness:
  "int (list_Len (m_lru (snd (foldl (ban_step quiet) (0, ban_New)
      [(5, OpApply strict []), (6, OpRecord (Some client) AuthFailure)])))) \<le> 100000"
proof -
  let ?es = "[(5, OpApply strict []), (6, OpRecord (Some client) AuthFailure)]"
  have "run_ok (ban_step quiet) clock_ok (0, ban_New) ?es"
    by (simp add: clock_ok_def ban_step_def)
  moreover have "foldl (ban_step quiet) (0, ban_New) ?es = (6, snd (foldl (ban_step quiet) (0, ban_New) ?es))"
    by (simp add: ban_step_def)
  ultimately show ?thesis using ban_invariant [of quiet 0 ?es 6] by (simp add: maxTracked_def)
qed

theorem track_order_of_use_witness:
  "map t_key (items (m_lru (track ''a'' strict_manager))) = [''a'']"
proof -
  have "items (m_lru strict_manager) = []"
    by (simp add: strict_manager_def ban_Apply_def ban_New_def Let_def ban_simps list_New_def items_def)
  with track_order_of_use [OF strict_inv [of 0], of "''a''"] show ?thesis
    by (simp add: use_recent_def maxTracked_def new_tracker_def)
qed

theorem automatic_ban_lasts_witness:
  "let r = banLocked 100 (keyLocked strict_manager client) ''test'' strict_manager
   in ban_ExpiresAt (fst r) = Some (100 + 15 * minute) \<and> Banned (snd (snd r)) 100 (Some client)"
proof -
  let ?k = "keyLocked strict_manager client"
  obtain b msg m' where b: "banLocked 100 ?k ''test'' strict_manager = (b, msg, m')" by (metis prod_cases3)
  have "strikes_of strict_manager ?k = 1" by (simp add: strikes_of_def strict_fields)
  moreover have "100 < 100 + 15 * minute" by (simp add: duration_defs)
  ultimately show ?thesis
    using automatic_ban_lasts [OF strict_inv _ _ b strict_client, of 100] strict_ok b
    by (simp add: strict_fields) (simp add: strict_def DefaultIPBan_def)
qed

theorem Unban_lifts_witness:
  "Banned (snd (snd (banLocked 100 (keyLocked strict_manager client) ''test'' strict_manager))) 100 (Some client) \<and>
   \<not> Banned (fst (snd (ban_Unban quiet 100 (ip_string client)
        (snd (snd (banLocked 100 (keyLocked strict_manager client) ''test'' strict_manager)))))) 100 (Some client)"
proof -
  let ?k = "keyLocked strict_manager client"
  obtain b msg m' where b: "banLocked 100 ?k ''test'' strict_manager = (b, msg, m')" by (metis prod_cases3)
  have "Active b 100"
    using banLocked_state(1) [OF b] ban_length_settings(2) [OF strict_ok, of 1]
    by (simp add: auto_ban_def Let_def Active_def strikes_of_def strict_fields)
      (simp add: strict_def DefaultIPBan_def duration_defs)
  then have "Banned m' 100 (Some client)" using banLocked_bans [OF strict_inv b strict_client] by simp
  moreover have "trim_space (ip_string client) = ip_string client" by (rule no_space_trim) (rule ip_string_graphic)
  then have "\<not> Banned (fst (snd (ban_Unban quiet 100 (ip_string client) m'))) 100 (Some client)"
    using Unban_lifts [OF ban_inv_banLocked [OF strict_inv b], of "ip_string client" client 100 quiet] ParseIP_ip_string
    by simp
  ultimately show ?thesis by (simp add: b)
qed

theorem mapped_range_bans_IPv4_witness:
  "Banned (fst (snd (ban_Ban quiet 0 ''::ffff:0:0/96'' 0 [] ''admin'' ban_New))) 1 (Some (ip_v4 0x08080808))"
proof -
  have "list_all (\<lambda>n. \<not> covers n all_mapped \<and> \<not> Contains n (ip_v4 0x08080808)) loopback"
  proof -
    have "ip_v4 0x08080808 = 0xFFFF08080808" by (simp add: ip_v4_def)
    moreover have "list_all (\<lambda>n. \<not> covers n all_mapped \<and> \<not> Contains n 0xFFFF08080808) loopback" by code_simp
    ultimately show ?thesis by simp
  qed
  moreover have "m_allow ban_New = loopback"
    by (simp add: ban_New_def ban_Apply_def Let_def ban_simps zero_ipban_def opt_items_def ok_nets_def List.map_filter_def)
  ultimately show ?thesis
    using mapped_range_bans_IPv4 [OF ban_inv_New, of "0x08080808" 0 1 quiet "[]" "''admin''"]
    by (simp add: find_None_iff allowedLocked_def list_all_iff)
qed



text \<open>One ban too many: the one that ends first is lifted.\<close>

definition many_ban :: "nat \<Rightarrow> ban" where
  "many_ban i =
     \<lparr> ban_Address = show_nat i, ban_Reason = [], ban_Manual = False, ban_Strikes = 1, ban_CreatedAt = 0,
       ban_ExpiresAt = Some (1000 + int i), ban_CreatedBy = [] \<rparr>"

definition many_manager :: manager where
  "many_manager = strict_manager \<lparr> m_bans := map (\<lambda>i. (show_nat i, many_ban i)) [0..<9001] \<rparr>"

theorem prune_lifts_soonest_witness:
  "expiry (show_nat 0, many_ban 0) \<le> expiry (show_nat 1, many_ban 1) \<and>
   int (auto_count 0 (pruneLocked 0 [] many_manager)) \<le> maxAutoBans"
proof -
  let ?m = "many_manager" and ?kb = "\<lambda>i. (show_nat i, many_ban i)"
  have bans: "m_bans ?m = map ?kb [0..<9001]" by (simp add: many_manager_def)
  have ok: "bans_ok ?m"
    by (auto simp: bans_ok_def bans distinct_map comp_def inj_on_def show_nat_inj many_ban_def)
  have stays: "\<not> prune_skips [] (?kb i) \<and> Active (snd (?kb i)) 0" for i
    by (simp add: prune_skips_def Active_def many_ban_def)
  have active: "prune_active 0 [] ?m = map ?kb [0..<9001]"
    unfolding prune_active_def bans using stays by (auto simp: filter_id_conv simp del: upt_Suc)
  have "sorted (map expiry (map ?kb [0..<9001]))"
    unfolding map_map comp_def by (rule sorted_map_mono) (auto simp: expiry_def many_ban_def mono_on_def)
  then have "sort_key expiry (map ?kb [0..<9001]) = map ?kb [0..<9001]"
    by (rule sort_key_id_if_sorted)
  moreover have "[0..<9001] = 0 # [Suc 0..<9001]" by (rule upt_conv_Cons) simp
  ultimately have lift: "prune_lift 0 [] ?m = [?kb 0]"
    unfolding prune_lift_def active soonest_def by (simp add: maxAutoBans_def)
  have "prune_history 0 [] ?m = []"
    unfolding prune_history_def bans using stays by (auto simp: filter_empty_conv)
  then have old: "prune_old 0 [] ?m = []" by (simp add: prune_old_def soonest_def maxHistory_def)
  have "?kb 0 \<in> set (m_bans ?m)" by (simp add: bans)
  moreover have "?kb 0 \<notin> set (m_bans (pruneLocked 0 [] ?m))" by (simp add: prune_fields lift)
  moreover have "?kb 1 \<in> set (m_bans (pruneLocked 0 [] ?m))"
    by (simp add: prune_fields lift old bans show_nat_inj)
  ultimately show ?thesis
    using prune_lifts_soonest [OF ok, of "?kb 0" 0 "[]" "?kb 1"] stays by simp
qed

end
