(* ===== verification/Http_Model.thy ===== *)
theory Http_Model
  imports Go_Prelude "HOL-Library.List_Lexorder" "HOL-Library.Char_ord"
begin

text \<open>
  What the proxy reads of requests and responses: headers, cache directives, content
  negotiation (\<^verbatim>\<open>compress.go\<close>), and the forms of a path that access rules are
  compared with (\<^verbatim>\<open>clientcert.go\<close>), all under \<^verbatim>\<open>src/internal/proxy\<close>.

  A header (\<^verbatim>\<open>http.Header\<close>) is the list of its canonical names with their values.
  Parsers of Go's library that the code only calls (dates, cookies, floats, query
  strings) are the fields of the record \<open>http_env\<close>, an argument of the functions that
  use them.
\<close>

section \<open>Headers\<close>

type_synonym header = "(string \<times> string list) list"

definition header_values :: "header \<Rightarrow> string \<Rightarrow> string list" where
  "header_values h n = (case map_of h n of None \<Rightarrow> [] | Some vs \<Rightarrow> vs)"

definition header_get :: "header \<Rightarrow> string \<Rightarrow> string" where
  "header_get h n = (case header_values h n of [] \<Rightarrow> [] | v # _ \<Rightarrow> v)"

definition header_set :: "string \<Rightarrow> string \<Rightarrow> header \<Rightarrow> header" where
  "header_set n v h = AList.update n [v] h"

definition header_add :: "string \<Rightarrow> string \<Rightarrow> header \<Rightarrow> header" where
  "header_add n v h = AList.update n (header_values h n @ [v]) h"

definition header_del :: "string \<Rightarrow> header \<Rightarrow> header" where
  "header_del n h = AList.delete n h"

record http_env =
  env_ParseTime :: "string \<Rightarrow> instant option"
  env_ParseFloat :: "string \<Rightarrow> rat option"
  env_Cookies :: "header \<Rightarrow> (string \<times> string) list"
  env_SetCookieName :: "string \<Rightarrow> string option"
  env_EncodeQuery :: "(string \<times> string list) list \<Rightarrow> string"

text \<open>
  \<^verbatim>\<open>http.CanonicalHeaderKey\<close>: the first letter and every letter after a hyphen in upper
  case, the others in lower case; a name with a byte that is not of a token stays.
\<close>

definition is_upper :: "char \<Rightarrow> bool" where
  "is_upper c \<longleftrightarrow> 65 \<le> (of_char c :: nat) \<and> (of_char c :: nat) \<le> 90"

definition is_lower :: "char \<Rightarrow> bool" where
  "is_lower c \<longleftrightarrow> 97 \<le> (of_char c :: nat) \<and> (of_char c :: nat) \<le> 122"

definition upper_char :: "char \<Rightarrow> char" where
  "upper_char c = (if is_lower c then char_of ((of_char c :: nat) - 32) else c)"

definition is_token :: "char \<Rightarrow> bool" where
  "is_token c \<longleftrightarrow> is_digit c \<or> is_upper c \<or> is_lower c \<or> c \<in> set ''!#$%&*+-.^_|~'' \<or> c = CHR 0x27 \<or> c = CHR 0x60"

fun capitalize :: "bool \<Rightarrow> string \<Rightarrow> string" where
  "capitalize up [] = []"
| "capitalize up (c # cs) = (if up then upper_char c else lower_char c) # capitalize (c = CHR ''-'') cs"

definition CanonicalHeaderKey :: "string \<Rightarrow> string" where
  "CanonicalHeaderKey s = (if list_all is_token s then capitalize True s else s)"

section \<open>Cache directives\<close>

type_synonym cache_control = "(string \<times> string) list"

definition put_directive :: "string \<Rightarrow> cache_control \<Rightarrow> cache_control" where
  "put_directive d cc =
     (let (k, v, _) = cut_at CHR ''='' (trim_space d); k = to_lower (trim_space k)
      in if k \<noteq> [] then AList.update k (trim_space v) cc else cc)"

definition parseCacheControl :: "string list \<Rightarrow> cache_control" where
  "parseCacheControl vs = fold put_directive (concat (map (split_at_char CHR '','') vs)) []"

definition cc_has :: "cache_control \<Rightarrow> string \<Rightarrow> bool" where
  "cc_has cc k \<longleftrightarrow> map_of cc k \<noteq> None"

text \<open>Indexing a Go map: the zero value when the key is missing.\<close>

definition cc_value :: "cache_control \<Rightarrow> string \<Rightarrow> string" where
  "cc_value cc k = (case map_of cc k of None \<Rightarrow> [] | Some v \<Rightarrow> v)"

definition trim_char :: "char \<Rightarrow> string \<Rightarrow> string" where
  "trim_char c s = rev (dropWhile (\<lambda>x. x = c) (rev (dropWhile (\<lambda>x. x = c) s)))"

definition seconds :: "string \<Rightarrow> duration" where
  "seconds v =
     (case atoi (trim_char CHR 0x22 v) of
        None \<Rightarrow> 0
      | Some n \<Rightarrow> if n < 0 then 0 else min n (2 ^ 31) * second)"

lemma seconds_range: "0 \<le> seconds v \<and> seconds v \<le> 2 ^ 31 * second"
  by (auto simp: seconds_def duration_defs split: option.splits)

section \<open>Vary and content negotiation\<close>

definition vary_fields :: "header \<Rightarrow> string list" where
  "vary_fields h = map trim_space (concat (map (split_at_char CHR '','') (header_values h ''Vary'')))"

fun add_names :: "string list \<Rightarrow> string list \<Rightarrow> string list" where
  "add_names names [] = names"
| "add_names names (f # fs) =
     (if f = [] \<or> f = ''*'' then add_names names fs
      else let c = CanonicalHeaderKey f
           in add_names (if c \<in> set names then names else names @ [c]) fs)"

definition varyNames :: "header \<Rightarrow> string list \<times> bool" where
  "varyNames h = (sort (add_names [] (vary_fields h)), ''*'' \<in> set (vary_fields h))"

definition equal_fold :: "string \<Rightarrow> string \<Rightarrow> bool" where
  "equal_fold s t \<longleftrightarrow> to_lower s = to_lower t"

definition addVary :: "header \<Rightarrow> string \<Rightarrow> header" where
  "addVary h name =
     (if list_ex (\<lambda>f. f = ''*'' \<or> equal_fold f name) (vary_fields h) then h else header_add ''Vary'' name h)"

lemma add_names_set:
  "set (add_names names fs) = set names \<union> CanonicalHeaderKey ` {f \<in> set fs. f \<noteq> [] \<and> f \<noteq> ''*''}"
  by (induction fs arbitrary: names) (auto simp: Let_def)

lemma add_names_distinct: "distinct names \<Longrightarrow> distinct (add_names names fs)"
  by (induction fs arbitrary: names) (auto simp: Let_def)

lemma varyNames_sorted: "sorted (fst (varyNames h)) \<and> distinct (fst (varyNames h))"
  by (simp add: varyNames_def add_names_distinct distinct_sort)

text \<open>The last \<^verbatim>\<open>q\<close> among the parameters of a coding, within 0 and 1.\<close>

definition q_value :: "http_env \<Rightarrow> string \<Rightarrow> rat \<Rightarrow> rat" where
  "q_value env p q =
     (let (k, v, found) = cut_at CHR ''='' (trim_space p)
      in if found \<and> equal_fold (trim_space k) ''q''
         then (case env_ParseFloat env (trim_space v) of
                 None \<Rightarrow> 0 | Some f \<Rightarrow> if f < 0 then 0 else min f 1)
         else q)"

text \<open>The preferences for \<^verbatim>\<open>br\<close>, \<^verbatim>\<open>gzip\<close> and \<^verbatim>\<open>*\<close>; -1 for a coding that is not mentioned.\<close>

definition add_coding :: "http_env \<Rightarrow> string \<Rightarrow> rat \<times> rat \<times> rat \<Rightarrow> rat \<times> rat \<times> rat" where
  "add_coding env part s =
     (let (br, gz, star) = s;
          (name0, params, _) = cut_at CHR '';'' part;
          name = to_lower (trim_space name0);
          q = fold (q_value env) (split_at_char CHR '';'' params) 1
      in if name = ''br'' then (q, gz, star)
         else if name = ''gzip'' \<or> name = ''x-gzip'' then (br, max gz q, star)
         else if name = ''*'' then (br, gz, q)
         else s)"

definition acceptedEncodings :: "http_env \<Rightarrow> string \<Rightarrow> string list" where
  "acceptedEncodings env hdr =
     (let (br0, gz0, star) = fold (add_coding env) (split_at_char CHR '','' hdr) (- 1, - 1, - 1);
          br = (if br0 < 0 then star else br0);
          gz = (if gz0 < 0 then star else gz0)
      in if br > 0 \<and> br \<ge> gz then ''br'' # (if gz > 0 then [''gzip''] else [])
         else if gz > 0 then ''gzip'' # (if br > 0 then [''br''] else [])
         else [])"

definition negotiateEncoding :: "http_env \<Rightarrow> string \<Rightarrow> string" where
  "negotiateEncoding env hdr = (case acceptedEncodings env hdr of [] \<Rightarrow> [] | e # _ \<Rightarrow> e)"

definition compressible_types :: "string list" where
  "compressible_types =
     [''application/json'', ''application/javascript'', ''application/x-javascript'', ''application/ecmascript'',
      ''application/xml'', ''application/wasm'', ''application/graphql'', ''application/x-www-form-urlencoded'',
      ''application/vnd.ms-fontobject'', ''application/x-font-ttf'', ''font/ttf'', ''font/otf'', ''font/collection'',
      ''image/x-icon'', ''image/vnd.microsoft.icon'', ''image/bmp'']"

definition compressible :: "string \<Rightarrow> bool" where
  "compressible contentType =
     (let (mt0, _, _) = cut_at CHR '';'' contentType; mt = to_lower (trim_space mt0)
      in if mt = ''text/event-stream'' then False
         else if prefix ''text/'' mt \<or> suffix ''+json'' mt \<or> suffix ''+xml'' mt then True
         else mt \<in> set compressible_types)"

section \<open>Forms of a path\<close>

definition isHex :: "char \<Rightarrow> bool" where
  "isHex c \<longleftrightarrow> is_digit c \<or> (97 \<le> (of_char c :: nat) \<and> (of_char c :: nat) \<le> 102) \<or>
     (65 \<le> (of_char c :: nat) \<and> (of_char c :: nat) \<le> 70)"

definition to_upper :: "string \<Rightarrow> string" where
  "to_upper = map upper_char"

definition bad_byte :: "char \<Rightarrow> bool" where
  "bad_byte c \<longleftrightarrow> (of_char c :: nat) < 32 \<or> (of_char c :: nat) = 127 \<or> (of_char c :: nat) = 92"

text \<open>The loop over the bytes of the path: none is bad, and no percent escape is left.\<close>

fun clean_path :: "string \<Rightarrow> bool" where
  "clean_path [] = True"
| "clean_path (c # cs) =
     (\<not> bad_byte c \<and>
      \<not> (c = CHR ''%'' \<and> (case cs of a # b # _ \<Rightarrow> isHex a \<and> isHex b | _ \<Rightarrow> False)) \<and>
      clean_path cs)"

definition trim_dots :: "string \<Rightarrow> string" where
  "trim_dots s = rev (dropWhile (\<lambda>c. c = CHR ''.'' \<or> c = CHR '' '') (rev s))"

definition segment :: "string \<Rightarrow> string" where
  "segment s = fst (cut_at CHR '':'' (fst (cut_at CHR '';'' s)))"

text \<open>The segments in order: as they are, and with dot segments resolved.\<close>

fun path_segments :: "string list \<Rightarrow> string list \<Rightarrow> string list \<Rightarrow> (string list \<times> string list) option" where
  "path_segments lit res [] = Some (lit, res)"
| "path_segments lit res (s # ss) =
     (let seg = segment s; trimmed = trim_dots seg in
      if seg = [] then path_segments lit res ss
      else if seg = ''.'' \<or> seg = ''..''
      then path_segments (lit @ [seg]) (if seg = ''..'' \<and> res \<noteq> [] then butlast res else res) ss
      else if trimmed = [] then None
      else path_segments (lit @ [trimmed]) (res @ [trimmed]) ss)"

definition pathForms :: "string \<Rightarrow> string \<Rightarrow> (string \<times> string) option" where
  "pathForms path raw =
     (if raw \<noteq> [] \<and> (sublist ''%2F'' (to_upper raw) \<or> sublist ''%5C'' (to_upper raw)) then None
      else if \<not> clean_path path then None
      else map_option (\<lambda>(lit, res). (''/'' @ join_with ''/'' lit, ''/'' @ join_with ''/'' res))
             (path_segments [] [] (split_at_char CHR ''/'' (to_lower path))))"

definition underPrefix :: "string \<Rightarrow> string \<Rightarrow> bool" where
  "underPrefix p x \<longleftrightarrow> p = x \<or> prefix (x @ ''/'') p"

definition trim_suffix_slash :: "string \<Rightarrow> string" where
  "trim_suffix_slash s = (if suffix ''/'' s then butlast s else s)"

definition requirePrefix :: "string \<Rightarrow> string" where
  "requirePrefix x =
     (case pathForms x [] of None \<Rightarrow> [] | Some (_, resolved) \<Rightarrow> trim_suffix_slash resolved)"

text \<open>\<^verbatim>\<open>requiredFor\<close>: whether a certificate is required; \<open>None\<close> for a path that cannot be checked.\<close>

definition requiredFor :: "bool \<Rightarrow> string list \<Rightarrow> string \<Rightarrow> string \<Rightarrow> bool option" where
  "requiredFor require requirePaths path raw =
     (if require then Some True
      else if requirePaths = [] then Some False
      else case pathForms path raw of
             None \<Rightarrow> None
           | Some (literal, resolved) \<Rightarrow>
               Some (list_ex (\<lambda>x. underPrefix literal x \<or> underPrefix resolved x) requirePaths))"

end
