(* ===== verification/Cache.thy ===== *)
theory Cache
  imports Http_Model Go_List
begin

text \<open>
  The response cache of a site (\<^verbatim>\<open>src/internal/proxy/cache.go\<close>): which responses are
  kept, for how long, under which key, and to whom they are given.

  The cache's state is the record \<open>rcache\<close>, with the fields of the Go struct: the map
  of keys to list elements, the list in order of use, the vary sets, the memory used.
  A miss on its way through the application is the record \<open>cache_writer\<close>. A channel
  that misses wait on is a number; \<^verbatim>\<open>close\<close> of it is an element of \<open>k_closed\<close>. The clock
  and the library's parsers (\<open>http_env\<close>) are arguments.
\<close>

section \<open>State\<close>

definition coalesceWait :: duration where "coalesceWait = 10 * second"
definition passFor :: duration where "passFor = 30 * second"
definition maxPass :: int where "maxPass = 10000"
definition entryOverhead :: int where "entryOverhead = 256"

definition cacheableStatus :: "int \<Rightarrow> bool" where
  "cacheableStatus s \<longleftrightarrow> s \<in> {200, 203, 301, 404, 410}"

record cache_config =
  cc_MaxMemoryMB :: int
  cc_MaxObjectKB :: int
  cc_DefaultTTLSec :: int
  cc_VaryByQuery :: string
  cc_QueryParams :: "string list"
  cc_VaryHeaders :: "string list"
  cc_BypassPaths :: "string list"

record vary_set =
  vs_names :: "string list"
  vs_variants :: int

record cache_entry =
  ce_key :: string
  ce_base :: string
  ce_path :: string
  ce_status :: int
  ce_header :: header
  ce_body :: string
  ce_stored :: instant
  ce_age :: duration
  ce_expires :: instant
  ce_public :: bool
  ce_size :: int

record rcache =
  k_maxBytes :: int
  k_maxObject :: int
  k_defaultTTL :: duration
  k_varyByQuery :: string
  k_params :: "string list"
  k_varyHeaders :: "string list"
  k_bypass :: "string list"
  k_stripAE :: bool
  k_affinity :: string
  k_entries :: "string \<rightharpoonup> nat"
  k_vary :: "string \<rightharpoonup> vary_set"
  k_lru :: "cache_entry golist"
  k_bytes :: int
  k_pass :: "(string \<times> instant) list"
  k_flights :: "string \<rightharpoonup> nat"
  k_chan :: nat
  k_closed :: "nat list"
  k_hits :: int
  k_misses :: int

record request =
  rq_method :: string
  rq_host :: string
  rq_tls :: bool
  rq_binding :: "string option"
  rq_path :: string
  rq_rawpath :: string
  rq_escaped :: string
  rq_query :: "(string \<times> string list) list"
  rq_header :: header

definition newResponseCache :: "cache_config \<Rightarrow> bool \<Rightarrow> string \<Rightarrow> rcache" where
  "newResponseCache cfg compression affinityCookie =
     \<lparr> k_maxBytes = cc_MaxMemoryMB cfg * 2 ^ 20, k_maxObject = cc_MaxObjectKB cfg * 2 ^ 10,
       k_defaultTTL = cc_DefaultTTLSec cfg * second, k_varyByQuery = cc_VaryByQuery cfg,
       k_params = map trim_space (cc_QueryParams cfg),
       k_varyHeaders = sort (map CanonicalHeaderKey (cc_VaryHeaders cfg)),
       k_bypass = cc_BypassPaths cfg, k_stripAE = compression, k_affinity = affinityCookie,
       k_entries = Map.empty, k_vary = Map.empty, k_lru = list_New, k_bytes = 0, k_pass = [],
       k_flights = Map.empty, k_chan = 0, k_closed = [], k_hits = 0, k_misses = 0 \<rparr>"

section \<open>Keys\<close>

definition hopCookieSuffix :: string where "hopCookieSuffix = ''-hop''"

definition our_cookie :: "rcache \<Rightarrow> string \<Rightarrow> bool" where
  "our_cookie c name \<longleftrightarrow> name = k_affinity c \<or> name = k_affinity c @ hopCookieSuffix"

definition cache_bypassed :: "rcache \<Rightarrow> request \<Rightarrow> bool" where
  "cache_bypassed c r =
     (if rq_method r \<noteq> ''GET'' \<and> rq_method r \<noteq> ''HEAD'' then True
      else if header_get (rq_header r) ''Range'' \<noteq> [] \<or>
              cc_has (parseCacheControl (header_values (rq_header r) ''Cache-Control'')) ''no-store'' then True
      else if k_bypass c = [] then False
      else case pathForms (rq_path r) (rq_rawpath r) of
             None \<Rightarrow> True
           | Some (literal, resolved) \<Rightarrow>
               list_ex (\<lambda>p. prefix p (rq_path r) \<or>
                 (case pathForms p [] of
                    None \<Rightarrow> False
                  | Some (_, px) \<Rightarrow> underPrefix literal (trim_suffix_slash px) \<or> underPrefix resolved (trim_suffix_slash px)))
                 (k_bypass c))"

definition hasCredentials :: "http_env \<Rightarrow> rcache \<Rightarrow> request \<Rightarrow> bool" where
  "hasCredentials env c r =
     (if header_get (rq_header r) ''Authorization'' \<noteq> [] \<or> header_get (rq_header r) ''X-Client-Cert'' \<noteq> [] then True
      else let v = header_get (rq_header r) ''X-Client-Verify'' in
        if v \<noteq> [] \<and> v \<noteq> ''NONE'' then True
        else list_ex (\<lambda>ck. k_affinity c = [] \<or> \<not> our_cookie c (fst ck)) (env_Cookies env (rq_header r)))"

definition baseKey :: "http_env \<Rightarrow> rcache \<Rightarrow> request \<Rightarrow> string" where
  "baseKey env c r =
     (let scheme = (if rq_tls r then ''https'' else ''http'');
          binding = (case rq_binding r of None \<Rightarrow> [] | Some b \<Rightarrow> b @ '' '');
          q = (if k_varyByQuery c = ''none'' then []
               else if k_varyByQuery c = ''listed''
               then env_EncodeQuery env (filter (\<lambda>kv. fst kv \<in> set (k_params c)) (rq_query r))
               else env_EncodeQuery env (rq_query r))
      in binding @ scheme @ ''://'' @ to_lower (rq_host r) @ rq_escaped r @ ''?'' @ q)"

definition header_value_text :: "http_env \<Rightarrow> rcache \<Rightarrow> header \<Rightarrow> string \<Rightarrow> string" where
  "header_value_text env c h n =
     [CHR 0x00] @ n @ ''='' @
     (if n = ''Accept-Encoding'' then (if k_stripAE c then [] else negotiateEncoding env (header_get h n))
      else if n = ''Cookie''
      then concat (map (\<lambda>(nm, v). if our_cookie c nm then [] else nm @ ''='' @ v @ '';'') (env_Cookies env h))
      else join_with '','' (header_values h n))"

definition headerValues :: "http_env \<Rightarrow> rcache \<Rightarrow> string list \<Rightarrow> header \<Rightarrow> string" where
  "headerValues env c names h = concat (map (header_value_text env c h) names)"

definition variantBase :: "http_env \<Rightarrow> rcache \<Rightarrow> string \<Rightarrow> header \<Rightarrow> string" where
  "variantBase env c base h = base @ headerValues env c (k_varyHeaders c) h"

section \<open>Removing and looking up\<close>

definition drop_variant :: "string \<Rightarrow> (string \<rightharpoonup> vary_set) \<Rightarrow> (string \<rightharpoonup> vary_set)" where
  "drop_variant base vary =
     (case vary base of
        None \<Rightarrow> vary
      | Some v \<Rightarrow>
          if vs_variants v - 1 \<le> 0 then vary(base := None)
          else vary(base \<mapsto> v \<lparr> vs_variants := vs_variants v - 1 \<rparr>))"

definition removeLocked :: "nat \<Rightarrow> rcache \<Rightarrow> rcache" where
  "removeLocked el c =
     (case list_value el (k_lru c) of
        None \<Rightarrow> c
      | Some e \<Rightarrow>
          c \<lparr> k_lru := Remove el (k_lru c), k_entries := (k_entries c)(ce_key e := None),
              k_bytes := k_bytes c - ce_size e, k_vary := drop_variant (ce_base e) (k_vary c) \<rparr>)"

definition lookup_key :: "http_env \<Rightarrow> rcache \<Rightarrow> string \<Rightarrow> vary_set \<Rightarrow> request \<Rightarrow> string" where
  "lookup_key env c vb v r = vb @ headerValues env c (vs_names v) (rq_header r)"

definition cache_lookup ::
  "http_env \<Rightarrow> instant \<Rightarrow> string \<Rightarrow> request \<Rightarrow> bool \<Rightarrow> rcache \<Rightarrow> cache_entry option \<times> rcache" where
  "cache_lookup env now base r creds c =
     (let vb = variantBase env c base (rq_header r) in
      case k_vary c vb of
        None \<Rightarrow> (None, c)
      | Some v \<Rightarrow>
          (case k_entries c (lookup_key env c vb v r) of
             None \<Rightarrow> (None, c)
           | Some el \<Rightarrow>
               (case list_value el (k_lru c) of
                  None \<Rightarrow> (None, c)
                | Some e \<Rightarrow>
                    if \<not> now < ce_expires e then (None, removeLocked el c)
                    else if creds \<and> \<not> ce_public e then (None, c)
                    else (Some e, c \<lparr> k_lru := MoveToFront el (k_lru c) \<rparr>))))"

section \<open>Answering from the cache\<close>

definition trim_weak :: "string \<Rightarrow> string" where
  "trim_weak s = (if prefix ''W/'' s then drop 2 s else s)"

definition notModified :: "http_env \<Rightarrow> request \<Rightarrow> header \<Rightarrow> bool" where
  "notModified env r h =
     (let inm = header_get (rq_header r) ''If-None-Match'' in
      if inm \<noteq> []
      then (let et = trim_weak (header_get h ''ETag'') in
            et \<noteq> [] \<and>
            list_ex (\<lambda>t. trim_space t = ''*'' \<or> trim_weak (trim_space t) = et) (split_at_char CHR '','' inm))
      else (case (env_ParseTime env (header_get (rq_header r) ''If-Modified-Since''), env_ParseTime env (header_get h ''Last-Modified'')) of
              (Some ims, Some lm) \<Rightarrow> \<not> lm > ims
            | _ \<Rightarrow> False))"

record response =
  rs_status :: int
  rs_header :: header
  rs_body :: string

text \<open>Integer division of durations, as Go truncates.\<close>

definition tdiv :: "int \<Rightarrow> int \<Rightarrow> int" where
  "tdiv a b = sgn a * sgn b * (\<bar>a\<bar> div \<bar>b\<bar>)"

definition serveHit :: "http_env \<Rightarrow> instant \<Rightarrow> request \<Rightarrow> cache_entry \<Rightarrow> header \<Rightarrow> rcache \<Rightarrow> response \<times> rcache" where
  "serveHit env now r e h0 c =
     (let h1 = fold (\<lambda>(k, v). AList.update k v) (ce_header e) h0;
          h2 = header_set ''Age'' (show_int (tdiv (time_sub now (ce_stored e) + ce_age e) second)) h1;
          h = header_set ''X-Cache'' ''HIT'' h2;
          c' = c \<lparr> k_hits := k_hits c + 1 \<rparr>
      in if notModified env r (ce_header e)
         then (\<lparr> rs_status = 304, rs_header = header_del ''Content-Length'' (header_del ''Content-Type'' h), rs_body = [] \<rparr>, c')
         else (\<lparr> rs_status = ce_status e,
                 rs_header = header_set ''Content-Length'' (show_int (int (length (ce_body e)))) h,
                 rs_body = (if rq_method r = ''HEAD'' then [] else ce_body e) \<rparr>, c'))"

section \<open>Waiting misses and passes\<close>

definition flight_join :: "string \<Rightarrow> rcache \<Rightarrow> (nat \<times> bool) \<times> rcache" where
  "flight_join key c =
     (case k_flights c key of
        Some done \<Rightarrow> ((done, False), c)
      | None \<Rightarrow> ((k_chan c, True), c \<lparr> k_flights := (k_flights c)(key \<mapsto> k_chan c), k_chan := Suc (k_chan c) \<rparr>))"

definition flight_leave :: "string \<Rightarrow> nat \<Rightarrow> rcache \<Rightarrow> rcache" where
  "flight_leave key done c =
     c \<lparr> k_flights := (if k_flights c key = Some done then (k_flights c)(key := None) else k_flights c),
         k_closed := done # k_closed c \<rparr>"

definition passing :: "instant \<Rightarrow> string \<Rightarrow> rcache \<Rightarrow> bool \<times> rcache" where
  "passing now key c =
     (case map_of (k_pass c) key of
        None \<Rightarrow> (False, c)
      | Some until \<Rightarrow>
          if \<not> now < until then (False, c \<lparr> k_pass := AList.delete key (k_pass c) \<rparr>) else (True, c))"

text \<open>The second loop over the map: arbitrary ones go until less than half are left.\<close>

fun thin_pass :: "(string \<times> instant) list \<Rightarrow> (string \<times> instant) list" where
  "thin_pass [] = []"
| "thin_pass (p # ps) = (if int (length (p # ps)) < maxPass div 2 then p # ps else thin_pass ps)"

definition markPass :: "instant \<Rightarrow> string \<Rightarrow> rcache \<Rightarrow> rcache" where
  "markPass now key c =
     (let pass = (if int (length (k_pass c)) \<ge> maxPass
                  then thin_pass (filter (\<lambda>p. now < snd p) (k_pass c)) else k_pass c)
      in c \<lparr> k_pass := AList.update key (now + passFor) pass \<rparr>)"

section \<open>Which responses are stored\<close>

record verdict =
  v_ttl :: duration
  v_age :: duration
  v_public :: bool
  v_store :: bool
  v_pass :: bool

definition no_verdict :: verdict where
  "no_verdict = \<lparr> v_ttl = 0, v_age = 0, v_public = False, v_store = False, v_pass = False \<rparr>"

text \<open>The freshness the response declares; \<open>None\<close> for an invalid \<^verbatim>\<open>Expires\<close>.\<close>

definition declared_ttl :: "http_env \<Rightarrow> instant \<Rightarrow> rcache \<Rightarrow> header \<Rightarrow> cache_control \<Rightarrow> duration option" where
  "declared_ttl env now c h cc =
     (if cc_value cc ''s-maxage'' \<noteq> [] then Some (seconds (cc_value cc ''s-maxage''))
      else if cc_value cc ''max-age'' \<noteq> [] then Some (seconds (cc_value cc ''max-age''))
      else if header_get h ''Expires'' \<noteq> []
      then (case env_ParseTime env (header_get h ''Expires'') of
              None \<Rightarrow> None
            | Some ex \<Rightarrow>
                (let base = (case env_ParseTime env (header_get h ''Date'') of Some d \<Rightarrow> d | None \<Rightarrow> now)
                 in Some (time_sub ex base)))
      else Some (k_defaultTTL c))"

definition foreign_cookie :: "http_env \<Rightarrow> rcache \<Rightarrow> string \<Rightarrow> bool" where
  "foreign_cookie env c line =
     (case env_SetCookieName env line of
        None \<Rightarrow> True
      | Some name \<Rightarrow> \<not> (k_affinity c \<noteq> [] \<and> our_cookie c name))"

definition storable :: "http_env \<Rightarrow> instant \<Rightarrow> rcache \<Rightarrow> request \<Rightarrow> int \<Rightarrow> header \<Rightarrow> bool \<Rightarrow> verdict" where
  "storable env now c r status h creds =
     (if status = 304 \<or> rq_method r \<noteq> ''GET'' then no_verdict
      else
        (let pass = no_verdict \<lparr> v_pass := True \<rparr> in
         if \<not> cacheableStatus status then pass
         else
           (let cc = parseCacheControl (header_values h ''Cache-Control'') in
            if cc_has cc ''no-store'' \<or> cc_has cc ''private'' \<or> cc_has cc ''no-cache'' then pass
            else
              (let public = cc_has cc ''public''; pass = pass \<lparr> v_public := public \<rparr> in
               if creds \<and> \<not> public then no_verdict
               else if list_ex (\<lambda>line. foreign_cookie env c line \<and> \<not> public) (header_values h ''Set-Cookie'') then pass
               else if snd (varyNames h) then pass
               else if equal_fold (trim_space (fst (cut_at CHR '';'' (header_get h ''Content-Type'')))) ''text/event-stream''
               then pass
               else if (case atoi (header_get h ''Content-Length'') of None \<Rightarrow> False | Some n \<Rightarrow> n > k_maxObject c)
               then pass
               else
                 (case declared_ttl env now c h cc of
                    None \<Rightarrow> pass
                  | Some ttl0 \<Rightarrow>
                      (let a = header_get h ''Age'';
                           age = (if a \<noteq> [] then seconds a else 0);
                           ttl = wrap64 (ttl0 - age)
                       in if ttl \<le> 0 then pass \<lparr> v_ttl := ttl, v_age := age \<rparr>
                          else \<lparr> v_ttl = ttl, v_age = age, v_public = public, v_store = True, v_pass = True \<rparr>))))))"

section \<open>Storing\<close>

record cache_writer =
  w_req :: request
  w_reqHeader :: header
  w_path :: string
  w_base :: string
  w_flightKey :: string
  w_creds :: bool
  w_flight :: "nat option"
  w_status :: int
  w_store :: bool
  w_pass :: bool
  w_header :: header
  w_ttl :: duration
  w_age :: duration
  w_public :: bool
  w_body :: string

definition writer_land :: "cache_writer \<times> rcache \<Rightarrow> cache_writer \<times> rcache" where
  "writer_land s =
     (let (w, c) = s in
      case w_flight w of
        None \<Rightarrow> (w, c)
      | Some done \<Rightarrow> (w \<lparr> w_flight := None \<rparr>, flight_leave (w_flightKey w) done c))"

definition writer_giveUp :: "instant \<Rightarrow> cache_writer \<times> rcache \<Rightarrow> cache_writer \<times> rcache" where
  "writer_giveUp now s =
     (let (w, c) = s
      in writer_land (w, if w_pass w \<and> \<not> w_creds w then markPass now (w_flightKey w) c else c))"

definition writer_WriteHeader :: "http_env \<Rightarrow> instant \<Rightarrow> int \<Rightarrow> header \<Rightarrow> cache_writer \<times> rcache \<Rightarrow> cache_writer \<times> rcache" where
  "writer_WriteHeader env now code hdr s =
     (let (w, c) = s in
      if code < 200 \<and> code \<noteq> 101 then (w, c)
      else if w_status w \<noteq> 0 then (w, c)
      else
        (let v = storable env now c (w_req w) code hdr (w_creds w);
             w' = w \<lparr> w_status := code, w_header := hdr, w_ttl := v_ttl v, w_age := v_age v,
                      w_public := v_public v, w_store := v_store v, w_pass := v_pass v \<rparr>
         in if v_store v then (w', c) else writer_giveUp now (w', c)))"

text \<open>\<^verbatim>\<open>Write\<close> of bytes of which the client took \<open>n\<close>.\<close>

definition writer_Write :: "http_env \<Rightarrow> instant \<Rightarrow> header \<Rightarrow> string \<Rightarrow> nat \<Rightarrow> cache_writer \<times> rcache \<Rightarrow> cache_writer \<times> rcache" where
  "writer_Write env now hdr b n s =
     (let (w, c) = (if w_status (fst s) = 0 then writer_WriteHeader env now 200 hdr s else s) in
      if w_store w
      then if int (length (w_body w) + n) > k_maxObject c
           then writer_giveUp now (w \<lparr> w_store := False, w_pass := True, w_body := [] \<rparr>, c)
           else (w \<lparr> w_body := w_body w @ take n b \<rparr>, c)
      else (w, c))"

definition writer_Hijack :: "cache_writer \<times> rcache \<Rightarrow> cache_writer \<times> rcache" where
  "writer_Hijack s = writer_land ((fst s) \<lparr> w_store := False \<rparr>, snd s)"

definition stripped_headers :: "string list" where
  "stripped_headers =
     [''Set-Cookie'', ''X-Cache'', ''Age'', ''Date'', ''Content-Length'', ''Connection'', ''Keep-Alive'',
      ''Transfer-Encoding'', ''Trailer'', ''Proxy-Connection'', ''Upgrade'']"

definition entry_size :: "string \<Rightarrow> string \<Rightarrow> header \<Rightarrow> int" where
  "entry_size body key hdr =
     int (length body + length key) + entryOverhead +
     sum_list (map (\<lambda>(k, vs). int (length k) + sum_list (map (\<lambda>s. int (length s)) vs)) hdr)"

definition writer_entry :: "http_env \<Rightarrow> instant \<Rightarrow> cache_writer \<Rightarrow> rcache \<Rightarrow> cache_entry" where
  "writer_entry env now w c =
     (let hdr = fold header_del stripped_headers (w_header w);
          key = w_flightKey w @ headerValues env c (fst (varyNames (w_header w))) (w_reqHeader w)
      in \<lparr> ce_key = key, ce_base = w_flightKey w, ce_path = w_path w, ce_status = w_status w, ce_header = hdr,
           ce_body = w_body w, ce_stored = now, ce_age = w_age w, ce_expires = now + w_ttl w,
           ce_public = w_public w, ce_size = entry_size (w_body w) key hdr \<rparr>)"

text \<open>Removing the entries that satisfy a condition, in the order of the list.\<close>

definition matching_cells :: "(cache_entry \<Rightarrow> bool) \<Rightarrow> rcache \<Rightarrow> nat list" where
  "matching_cells P c = map fst (filter (\<lambda>cell. P (snd cell)) (cells (k_lru c)))"

definition remove_all :: "nat list \<Rightarrow> rcache \<Rightarrow> rcache" where
  "remove_all els c = fold removeLocked els c"

text \<open>\<^verbatim>\<open>for c.bytes > c.maxBytes && c.lru.Len() > 0\<close>: the least recently used go.\<close>

function evict :: "rcache \<Rightarrow> rcache" where
  "evict c =
     (if \<not> k_bytes c > k_maxBytes c then c
      else case list_Back (k_lru c) of
             None \<Rightarrow> c
           | Some el \<Rightarrow> if list_value el (k_lru c) = None then c else evict (removeLocked el c))"
  by pat_completeness auto

termination
proof (relation "measure (\<lambda>c. length (cells (k_lru c)))", simp)
  fix c :: rcache and el
  assume "list_value el (k_lru c) \<noteq> None"
  then obtain e where e: "list_value el (k_lru c) = Some e" by blast
  then have "(el, e) \<in> set (cells (k_lru c))" by (simp add: list_value_def map_of_SomeD)
  then have "length (filter (\<lambda>x. fst x \<noteq> el) (cells (k_lru c))) < length (cells (k_lru c))"
    by (rule length_filter_less) simp
  with e show "(removeLocked el c, c) \<in> measure (\<lambda>c. length (cells (k_lru c)))"
    by (simp add: removeLocked_def Remove_def)
qed

declare evict.simps [simp del]

definition add_variant :: "string \<Rightarrow> string list \<Rightarrow> (string \<rightharpoonup> vary_set) \<Rightarrow> (string \<rightharpoonup> vary_set)" where
  "add_variant base names vary =
     (let v = (case vary base of None \<Rightarrow> \<lparr> vs_names = names, vs_variants = 0 \<rparr> | Some v \<Rightarrow> v)
      in vary(base \<mapsto> v \<lparr> vs_variants := vs_variants v + 1 \<rparr>))"

definition store_entry :: "cache_entry \<Rightarrow> string list \<Rightarrow> rcache \<Rightarrow> rcache" where
  "store_entry e names c =
     (let c1 = (case k_entries c (ce_key e) of None \<Rightarrow> c | Some el \<Rightarrow> removeLocked el c);
          c2 = (case k_vary c1 (ce_base e) of
                  None \<Rightarrow> c1
                | Some old \<Rightarrow>
                    if vs_names old = names then c1
                    else remove_all (matching_cells (\<lambda>x. ce_base x = ce_base e) c1) c1);
          (el, lru) = PushFront e (k_lru c2)
      in evict (c2 \<lparr> k_vary := add_variant (ce_base e) names (k_vary c2), k_lru := lru,
                     k_entries := (k_entries c2)(ce_key e \<mapsto> el), k_bytes := k_bytes c2 + ce_size e,
                     k_pass := AList.delete (ce_base e) (k_pass c2) \<rparr>))"

definition writer_finish :: "http_env \<Rightarrow> instant \<Rightarrow> cache_writer \<Rightarrow> rcache \<Rightarrow> rcache" where
  "writer_finish env now w c =
     (if \<not> w_store w then (if w_pass w \<and> \<not> w_creds w then markPass now (w_flightKey w) c else c)
      else store_entry (writer_entry env now w c) (fst (varyNames (w_header w))) c)"

section \<open>The handler\<close>

datatype handling =
    PassThrough
  | Bypass
  | Hit response
  | MissHead
  | Waits nat
  | Misses cache_writer

definition wants_fresh :: "request \<Rightarrow> bool" where
  "wants_fresh r =
     (let cc = parseCacheControl (header_values (rq_header r) ''Cache-Control'')
      in cc_has cc ''no-cache'' \<or> cc_value cc ''max-age'' = ''0'' \<or>
         (cc = [] \<and> sublist ''no-cache'' (to_lower (header_get (rq_header r) ''Pragma''))))"

definition new_writer :: "request \<Rightarrow> string \<Rightarrow> string \<Rightarrow> bool \<Rightarrow> nat option \<Rightarrow> cache_writer" where
  "new_writer r base flightKey creds flight =
     \<lparr> w_req = r, w_reqHeader = rq_header r, w_path = rq_path r, w_base = base, w_flightKey = flightKey,
       w_creds = creds, w_flight = flight, w_status = 0, w_store = False, w_pass = False, w_header = [],
       w_ttl = 0, w_age = 0, w_public = False, w_body = [] \<rparr>"

definition cache_handler :: "http_env \<Rightarrow> instant \<Rightarrow> request \<Rightarrow> header \<Rightarrow> rcache \<Rightarrow> handling \<times> rcache" where
  "cache_handler env now r h0 c =
     (if header_get (rq_header r) ''Upgrade'' \<noteq> [] then (PassThrough, c)
      else if cache_bypassed c r then (Bypass, c)
      else
        (let creds = hasCredentials env c r;
             base = baseKey env c r;
             (hit, c1) = (if wants_fresh r then (None, c) else cache_lookup env now base r creds c)
         in case hit of
              Some e \<Rightarrow> (let (res, c2) = serveHit env now r e h0 c1 in (Hit res, c2))
            | None \<Rightarrow>
                (let c2 = c1 \<lparr> k_misses := k_misses c1 + 1 \<rparr> in
                 if rq_method r = ''HEAD'' then (MissHead, c2)
                 else
                   (let key = variantBase env c2 base (rq_header r);
                        conditional = (header_get (rq_header r) ''If-None-Match'' \<noteq> [] \<or>
                                       header_get (rq_header r) ''If-Modified-Since'' \<noteq> [])
                    in if creds \<or> conditional then (Misses (new_writer r base key creds None), c2)
                       else
                         (let (pass, c3) = passing now key c2 in
                          if pass then (Misses (new_writer r base key creds None), c3)
                          else
                            (let ((ch, leader), c4) = flight_join key c3
                             in if leader then (Misses (new_writer r base key creds (Some ch)), c4)
                                else (Waits ch, c4)))))))"

text \<open>After the wait for another miss: a hit after all, or a miss of its own.\<close>

definition cache_resume :: "http_env \<Rightarrow> instant \<Rightarrow> request \<Rightarrow> header \<Rightarrow> rcache \<Rightarrow> handling \<times> rcache" where
  "cache_resume env now r h0 c =
     (let creds = hasCredentials env c r; base = baseKey env c r;
          (hit, c1) = cache_lookup env now base r creds c
      in case hit of
           Some e \<Rightarrow> (let (res, c2) = serveHit env now r e h0 (c1 \<lparr> k_misses := k_misses c1 - 1 \<rparr>) in (Hit res, c2))
         | None \<Rightarrow> (Misses (new_writer r base (variantBase env c1 base (rq_header r)) creds None), c1))"

section \<open>Maintenance\<close>

definition cache_purge :: "string \<Rightarrow> rcache \<Rightarrow> nat \<times> rcache" where
  "cache_purge pre c =
     (let els = matching_cells (\<lambda>e. prefix pre (ce_path e)) c; c1 = remove_all els c
      in (length els, c1 \<lparr> k_vary := (if pre = [] then Map.empty else k_vary c1), k_pass := [] \<rparr>))"

record cache_stats =
  st_Entries :: nat
  st_Bytes :: int
  st_Hits :: int
  st_Misses :: int
  st_HitRatio :: rat

definition cache_stats_of :: "rcache \<Rightarrow> cache_stats" where
  "cache_stats_of c =
     (let t = k_hits c + k_misses c
      in \<lparr> st_Entries = list_Len (k_lru c), st_Bytes = k_bytes c, st_Hits = k_hits c, st_Misses = k_misses c,
           st_HitRatio = (if t > 0 then of_int (k_hits c) / of_int t else 0) \<rparr>)"

end
