(* ===== verification/Cache_Proofs.thy ===== *)
theory Cache_Proofs
  imports Cache
begin

text \<open>
  The properties of the response cache: its invariant (memory, index and vary sets
  agree with the entries, within the budget), what a lookup may return, and which
  responses are stored at all.
\<close>

named_theorems cache_simps \<open>fields an operation leaves as they were\<close>

section \<open>The invariant\<close>

definition entries_of :: "string \<Rightarrow> cache_entry list \<Rightarrow> nat" where
  "entries_of b es = length (filter (\<lambda>e. ce_base e = b) es)"

definition total_size :: "cache_entry list \<Rightarrow> int" where
  "total_size es = sum_list (map ce_size es)"

text \<open>A vary set counts the entries of its base, and there is one exactly for the bases with entries.\<close>

definition vary_ok :: "(string \<rightharpoonup> vary_set) \<Rightarrow> cache_entry list \<Rightarrow> bool" where
  "vary_ok vary es \<longleftrightarrow>
     (\<forall>b. case vary b of None \<Rightarrow> entries_of b es = 0
                     | Some v \<Rightarrow> vs_variants v = int (entries_of b es) \<and> 0 < vs_variants v)"

text \<open>Every entry is stored under a key that a request can ask for.\<close>

definition keys_ok :: "http_env \<Rightarrow> rcache \<Rightarrow> bool" where
  "keys_ok env c \<longleftrightarrow>
     (\<forall>e\<in>set (items (k_lru c)). \<exists>v h. k_vary c (ce_base e) = Some v \<and>
        ce_key e = ce_base e @ headerValues env c (vs_names v) h)"

definition cache_core :: "http_env \<Rightarrow> rcache \<Rightarrow> bool" where
  "cache_core env c \<longleftrightarrow>
     key_indexed ce_key (k_entries c) (k_lru c) \<and> k_bytes c = total_size (items (k_lru c)) \<and>
     (\<forall>e\<in>set (items (k_lru c)). 0 < ce_size e) \<and> vary_ok (k_vary c) (items (k_lru c)) \<and> keys_ok env c"

definition cache_inv :: "http_env \<Rightarrow> rcache \<Rightarrow> bool" where
  "cache_inv env c \<longleftrightarrow> cache_core env c \<and> k_bytes c \<le> max 0 (k_maxBytes c)"

lemma filter_key_remove1:
  "distinct (map f xs) \<Longrightarrow> x \<in> set xs \<Longrightarrow> filter (\<lambda>u. f u \<noteq> f x) xs = remove1 x xs"
proof (induction xs)
  case (Cons y ys)
  show ?case
  proof (cases "y = x")
    case True
    with Cons.prems have "f x \<notin> f ` set ys" by simp
    then have "filter (\<lambda>u. f u \<noteq> f x) ys = ys" by (auto simp: filter_id_conv image_iff)
    with True show ?thesis by simp
  next
    case False
    with Cons.prems have "x \<in> set ys" "f y \<noteq> f x" by auto
    with Cons False show ?thesis by simp
  qed
qed simp

lemma total_size_remove1: "x \<in> set xs \<Longrightarrow> total_size (remove1 x xs) = total_size xs - ce_size x"
  unfolding total_size_def by (simp add: sum_list_map_remove1)

lemma entries_of_remove1:
  "x \<in> set xs \<Longrightarrow> entries_of b (remove1 x xs) = (if ce_base x = b then entries_of b xs - 1 else entries_of b xs)"
  unfolding entries_of_def filter_remove1 by (auto simp: length_remove1)

lemma entries_of_pos: "x \<in> set xs \<Longrightarrow> 0 < entries_of (ce_base x) xs"
  by (auto simp: entries_of_def filter_empty_conv)

lemma headerValues_cong:
  "k_stripAE c' = k_stripAE c \<Longrightarrow> k_affinity c' = k_affinity c \<Longrightarrow> headerValues env c' = headerValues env c"
proof -
  assume same: "k_stripAE c' = k_stripAE c" "k_affinity c' = k_affinity c"
  have "our_cookie c' = our_cookie c" by (rule ext) (simp add: our_cookie_def same)
  then have "header_value_text env c' = header_value_text env c"
    by (intro ext) (simp add: header_value_text_def same)
  then show ?thesis by (intro ext) (simp add: headerValues_def)
qed

section \<open>Removing entries\<close>

definition same_config :: "rcache \<Rightarrow> rcache \<Rightarrow> bool" where
  "same_config c' c \<longleftrightarrow> k_stripAE c' = k_stripAE c \<and> k_affinity c' = k_affinity c \<and> k_maxBytes c' = k_maxBytes c \<and>
     k_maxObject c' = k_maxObject c \<and> k_varyHeaders c' = k_varyHeaders c"

lemma same_config_trans: "same_config a b \<Longrightarrow> same_config b c \<Longrightarrow> same_config a c"
  by (simp add: same_config_def)

lemma vary_ok_drop:
  assumes v: "vary_ok vary es" and e: "e \<in> set es"
  shows "vary_ok (drop_variant (ce_base e) vary) (remove1 e es)"
proof -
  obtain s where s: "vary (ce_base e) = Some s" "vs_variants s = int (entries_of (ce_base e) es)"
    using v entries_of_pos [OF e] by (auto simp: vary_ok_def split: option.splits dest!: spec [of _ "ce_base e"])
  show ?thesis
    unfolding vary_ok_def
  proof
    fix b
    show "case drop_variant (ce_base e) vary b of None \<Rightarrow> entries_of b (remove1 e es) = 0
        | Some v \<Rightarrow> vs_variants v = int (entries_of b (remove1 e es)) \<and> 0 < vs_variants v"
    proof (cases "b = ce_base e")
      case True
      have "0 < entries_of (ce_base e) es" by (rule entries_of_pos [OF e])
      with s True show ?thesis by (auto simp: drop_variant_def entries_of_remove1 [OF e])
    next
      case False
      then have "drop_variant (ce_base e) vary b = vary b" using s by (simp add: drop_variant_def)
      moreover have "case vary b of None \<Rightarrow> entries_of b es = 0
          | Some v \<Rightarrow> vs_variants v = int (entries_of b es) \<and> 0 < vs_variants v"
        using v by (simp add: vary_ok_def)
      moreover have "entries_of b (remove1 e es) = entries_of b es" using False by (simp add: entries_of_remove1 [OF e])
      ultimately show ?thesis by (cases "vary b") simp_all
    qed
  qed
qed

lemma drop_variant_names:
  "drop_variant b vary b' = Some v \<Longrightarrow> \<exists>v'. vary b' = Some v' \<and> vs_names v' = vs_names v"
  by (auto simp: drop_variant_def split: option.splits if_splits)

lemma remove_core:
  assumes i: "cache_core env c" and k: "k_entries c key = Some el"
  obtains e where "list_value el (k_lru c) = Some e" "ce_key e = key" "e \<in> set (items (k_lru c))"
    "items (k_lru (removeLocked el c)) = remove1 e (items (k_lru c))" "cache_core env (removeLocked el c)"
    "same_config (removeLocked el c) c" "k_bytes (removeLocked el c) = k_bytes c - ce_size e"
    "k_entries (removeLocked el c) = (k_entries c)(key := None)"
    "k_vary (removeLocked el c) = drop_variant (ce_base e) (k_vary c)"
proof -
  have ind: "key_indexed ce_key (k_entries c) (k_lru c)" using i by (simp add: cache_core_def)
  obtain e where e: "list_value el (k_lru c) = Some e" "ce_key e = key" "e \<in> set (items (k_lru c))"
    using index_value [OF ind k] by metis
  let ?c = "removeLocked el c"
  have f: "k_lru ?c = Remove el (k_lru c)" "k_entries ?c = (k_entries c)(key := None)"
    "k_bytes ?c = k_bytes c - ce_size e" "k_vary ?c = drop_variant (ce_base e) (k_vary c)" "same_config ?c c"
    using e by (simp_all add: removeLocked_def same_config_def)
  note R = indexed_Remove [OF ind k]
  have d: "distinct (map ce_key (items (k_lru c)))" using ind by (simp add: key_indexed_def)
  have its: "items (k_lru ?c) = remove1 e (items (k_lru c))"
    using R(2) filter_key_remove1 [OF d e(3)] e(2) by (simp add: f)
  have vary: "vary_ok (k_vary ?c) (items (k_lru ?c))"
    unfolding its f(4) using i e(3) by (intro vary_ok_drop) (simp_all add: cache_core_def)
  have keys: "keys_ok env ?c"
    unfolding keys_ok_def
  proof
    fix x
    assume x: "x \<in> set (items (k_lru ?c))"
    then have "0 < entries_of (ce_base x) (items (k_lru ?c))" by (rule entries_of_pos)
    then obtain v where v: "k_vary ?c (ce_base x) = Some v"
      using vary by (auto simp: vary_ok_def split: option.splits dest!: spec [of _ "ce_base x"])
    then obtain v' where v': "k_vary c (ce_base x) = Some v'" "vs_names v' = vs_names v"
      using drop_variant_names [of "ce_base e" "k_vary c" "ce_base x" v] by (auto simp: f)
    have "x \<in> set (items (k_lru c))" using x its by (metis notin_set_remove1)
    then obtain h where "ce_key x = ce_base x @ headerValues env c (vs_names v') h"
      using i v'(1) by (auto simp: cache_core_def keys_ok_def)
    moreover have "headerValues env ?c = headerValues env c"
      using f(5) by (intro headerValues_cong) (simp_all add: same_config_def)
    ultimately show "\<exists>v h. k_vary ?c (ce_base x) = Some v \<and> ce_key x = ce_base x @ headerValues env ?c (vs_names v) h"
      using v v'(2) by auto
  qed
  have pos: "\<forall>x\<in>set (items (k_lru ?c)). 0 < ce_size x"
    using i its by (metis (no_types, lifting) cache_core_def notin_set_remove1)
  have "k_bytes ?c = total_size (items (k_lru ?c))"
    unfolding its using i by (simp add: f total_size_remove1 [OF e(3)] cache_core_def)
  moreover have "key_indexed ce_key (k_entries ?c) (k_lru ?c)" using R(1) by (simp add: f)
  ultimately have "cache_core env ?c" using vary keys pos by (simp add: cache_core_def)
  with that [OF e its] f show ?thesis by blast
qed


lemma remove_element:
  assumes i: "cache_core env c"
  shows "cache_core env (removeLocked el c)" "same_config (removeLocked el c) c"
    "cells (k_lru (removeLocked el c)) = filter (\<lambda>x. fst x \<noteq> el) (cells (k_lru c))"
    "k_maxBytes (removeLocked el c) = k_maxBytes c"
proof -
  have "cache_core env (removeLocked el c) \<and> same_config (removeLocked el c) c \<and>
      cells (k_lru (removeLocked el c)) = filter (\<lambda>x. fst x \<noteq> el) (cells (k_lru c))"
  proof (cases "list_value el (k_lru c)")
    case None
    then have "el \<notin> fst ` set (cells (k_lru c))" by (simp add: list_value_def map_of_eq_None_iff)
    then have "filter (\<lambda>x. fst x \<noteq> el) (cells (k_lru c)) = cells (k_lru c)"
      by (auto simp: filter_id_conv image_iff)
    with None i show ?thesis by (simp add: removeLocked_def same_config_def)
  next
    case (Some e)
    have ind: "key_indexed ce_key (k_entries c) (k_lru c)" using i by (simp add: cache_core_def)
    have "(el, e) \<in> set (cells (k_lru c))" using Some by (simp add: list_value_def map_of_SomeD)
    then have k: "k_entries c (ce_key e) = Some el" using indexedD(4) [OF ind] by blast
    have "cells (k_lru (removeLocked el c)) = filter (\<lambda>x. fst x \<noteq> el) (cells (k_lru c))"
      using Some by (simp add: removeLocked_def Remove_def)
    then show ?thesis using remove_core [OF i k] by metis
  qed
  then show "cache_core env (removeLocked el c)" "same_config (removeLocked el c) c"
    "cells (k_lru (removeLocked el c)) = filter (\<lambda>x. fst x \<noteq> el) (cells (k_lru c))" by auto
  then show "k_maxBytes (removeLocked el c) = k_maxBytes c" by (simp add: same_config_def)
qed

lemma remove_all_core:
  assumes "cache_core env c"
  shows "cache_core env (remove_all els c) \<and> same_config (remove_all els c) c \<and>
    cells (k_lru (remove_all els c)) = filter (\<lambda>x. fst x \<notin> set els) (cells (k_lru c))"
  using assms
proof (induction els arbitrary: c)
  case Nil
  then show ?case by (simp add: remove_all_def same_config_def)
next
  case (Cons el els)
  note R = remove_element [OF Cons.prems, of el]
  have "filter (\<lambda>x. fst x \<notin> set els) (filter (\<lambda>x. fst x \<noteq> el) (cells (k_lru c)))
      = filter (\<lambda>x. fst x \<notin> set (el # els)) (cells (k_lru c))"
    by (auto intro: filter_cong)
  with Cons.IH [OF R(1)] R show ?case
    by (simp add: remove_all_def same_config_def)
qed

lemma remove_matching:
  assumes i: "cache_core env c"
  shows "items (k_lru (remove_all (matching_cells P c) c)) = filter (\<lambda>e. \<not> P e) (items (k_lru c))"
proof -
  have d: "distinct (map fst (cells (k_lru c)))"
    using i indexedD(1) by (auto simp: cache_core_def)
  have "fst x \<in> set (matching_cells P c) \<longleftrightarrow> P (snd x)" if x: "x \<in> set (cells (k_lru c))" for x
  proof
    assume "fst x \<in> set (matching_cells P c)"
    then obtain y where y: "y \<in> set (cells (k_lru c))" "P (snd y)" "fst y = fst x"
      by (auto simp: matching_cells_def)
    with d x show "P (snd x)" by (metis eq_key_imp_eq_value prod.collapse)
  next
    assume "P (snd x)"
    then have "x \<in> set (filter (\<lambda>cell. P (snd cell)) (cells (k_lru c)))" using x by simp
    then show "fst x \<in> set (matching_cells P c)" unfolding matching_cells_def by (metis image_eqI image_set)
  qed
  then have "filter (\<lambda>x. fst x \<notin> set (matching_cells P c)) (cells (k_lru c)) = filter (\<lambda>x. \<not> P (snd x)) (cells (k_lru c))"
    by (intro filter_cong) auto
  then show ?thesis
    using remove_all_core [OF i, of "matching_cells P c"] by (simp add: items_def filter_map comp_def)
qed

lemma total_size_empty: "cells (k_lru c) = [] \<Longrightarrow> cache_core env c \<Longrightarrow> k_bytes c = 0"
  by (simp add: cache_core_def items_def total_size_def)

lemma evict_core:
  "cache_core env c \<Longrightarrow> cache_inv env (evict c) \<and> same_config (evict c) c"
proof (induction c rule: evict.induct)
  case (1 c)
  show ?case
  proof (cases "k_bytes c > k_maxBytes c")
    case False
    with 1 show ?thesis by (simp add: evict.simps [of c] cache_inv_def same_config_def)
  next
    case True
    show ?thesis
    proof (cases "cells (k_lru c) = []")
      case True
      with 1 total_size_empty [OF True "1.prems"] show ?thesis
        by (simp add: evict.simps [of c] list_Back_def cache_inv_def same_config_def)
    next
      case False
      obtain el e where el: "list_Back (k_lru c) = Some el" "list_value el (k_lru c) = Some e"
        using Back_value [OF False, of ce_key "k_entries c"] "1.prems" by (auto simp: cache_core_def)
      note R = remove_element [OF "1.prems", of el]
      have "evict c = evict (removeLocked el c)"
        using True el by (simp add: evict.simps [of c])
      moreover have "cache_inv env (evict (removeLocked el c)) \<and> same_config (evict (removeLocked el c)) (removeLocked el c)"
        using "1.IH" [OF _ el(1) _ R(1)] True el(2) by simp
      ultimately show ?thesis using R(2) same_config_trans by auto
    qed
  qed
qed

section \<open>Looking up\<close>

lemma lookup_sound:
  assumes i: "cache_inv env c" and l: "cache_lookup env now base r creds c = (hit, c')"
  shows "cache_inv env c'" "same_config c' c"
    and "hit = Some e \<Longrightarrow> e \<in> set (items (k_lru c)) \<and> now < ce_expires e \<and> (creds \<longrightarrow> ce_public e) \<and>
      (\<exists>v. k_vary c (variantBase env c base (rq_header r)) = Some v \<and>
           ce_key e = variantBase env c base (rq_header r) @ headerValues env c (vs_names v) (rq_header r))"
proof -
  let ?vb = "variantBase env c base (rq_header r)"
  have core: "cache_core env c" and ind: "key_indexed ce_key (k_entries c) (k_lru c)"
    using i by (simp_all add: cache_inv_def cache_core_def)
  have "cache_inv env c' \<and> same_config c' c \<and> (hit = Some e \<longrightarrow> e \<in> set (items (k_lru c)) \<and> now < ce_expires e \<and>
      (creds \<longrightarrow> ce_public e) \<and> (\<exists>v. k_vary c ?vb = Some v \<and> ce_key e = ?vb @ headerValues env c (vs_names v) (rq_header r)))"
  proof (cases "\<exists>v el. k_vary c ?vb = Some v \<and> k_entries c (lookup_key env c ?vb v r) = Some el")
    case False
    then have "hit = None \<and> c' = c"
      using l by (auto simp: cache_lookup_def Let_def split: option.splits)
    with i show ?thesis by (simp add: same_config_def)
  next
    case True
    then obtain v el where v: "k_vary c ?vb = Some v" and el: "k_entries c (lookup_key env c ?vb v r) = Some el"
      by blast
    obtain x where x: "list_value el (k_lru c) = Some x" "ce_key x = lookup_key env c ?vb v r"
      "x \<in> set (items (k_lru c))" "cache_core env (removeLocked el c)" "same_config (removeLocked el c) c"
      "k_bytes (removeLocked el c) = k_bytes c - ce_size x"
      using remove_core [OF core el] by metis
    have eq: "(hit, c') = (if \<not> now < ce_expires x then (None, removeLocked el c)
        else if creds \<and> \<not> ce_public x then (None, c) else (Some x, c \<lparr> k_lru := MoveToFront el (k_lru c) \<rparr>))"
      using l v el x(1) by (simp add: cache_lookup_def Let_def)
    have rm: "cache_inv env (removeLocked el c)"
    proof -
      have "0 < ce_size x" using core x(3) by (simp add: cache_core_def)
      then show ?thesis using i x(4-6) by (auto simp: cache_inv_def same_config_def)
    qed
    have mv: "cache_inv env (c \<lparr> k_lru := MoveToFront el (k_lru c) \<rparr>)"
    proof -
      note M = indexed_MoveToFront [OF ind el x(1)]
      have ms: "mset (items (MoveToFront el (k_lru c))) = mset (items (k_lru c))"
        unfolding items_def MoveToFront_def by (simp add: image_mset_union [symmetric] multiset_partition [symmetric])
      then have st: "set (items (MoveToFront el (k_lru c))) = set (items (k_lru c))"
        by (rule mset_eq_setD)
      have sz: "total_size (items (MoveToFront el (k_lru c))) = total_size (items (k_lru c))"
        unfolding total_size_def by (metis ms mset_map sum_mset_sum_list)
      have ct: "entries_of b (items (MoveToFront el (k_lru c))) = entries_of b (items (k_lru c))" for b
        unfolding entries_of_def by (metis ms mset_filter size_mset)
      have "headerValues env (c \<lparr> k_lru := MoveToFront el (k_lru c) \<rparr>) = headerValues env c"
        by (rule headerValues_cong) simp_all
      then have "keys_ok env (c \<lparr> k_lru := MoveToFront el (k_lru c) \<rparr>)"
        using core by (simp add: keys_ok_def st cache_core_def)
      moreover have "vary_ok (k_vary c) (items (MoveToFront el (k_lru c))) = vary_ok (k_vary c) (items (k_lru c))"
        unfolding vary_ok_def ct by (rule refl)
      ultimately show ?thesis
        using i M(1) by (simp add: cache_inv_def cache_core_def st sz)
    qed
    show ?thesis
    proof (cases "now < ce_expires x \<and> (creds \<longrightarrow> ce_public x)")
      case True
      with eq have "hit = Some x" "c' = c \<lparr> k_lru := MoveToFront el (k_lru c) \<rparr>" by auto
      with mv True x v show ?thesis by (auto simp: same_config_def lookup_key_def)
    next
      case False
      with eq have "hit = None" "c' = removeLocked el c \<or> c' = c" by (auto split: if_splits)
      with rm i x(5) show ?thesis by (auto simp: same_config_def)
    qed
  qed
  then show "cache_inv env c'" "same_config c' c"
    and "hit = Some e \<Longrightarrow> e \<in> set (items (k_lru c)) \<and> now < ce_expires e \<and> (creds \<longrightarrow> ce_public e) \<and>
      (\<exists>v. k_vary c ?vb = Some v \<and> ce_key e = ?vb @ headerValues env c (vs_names v) (rq_header r))"
    by auto
qed

section \<open>Storing\<close>

lemma vary_ok_add:
  assumes "vary_ok vary es"
  shows "vary_ok (add_variant (ce_base e) names vary) (e # es)"
  unfolding vary_ok_def
proof
  fix b
  have "case vary b of None \<Rightarrow> entries_of b es = 0 | Some v \<Rightarrow> vs_variants v = int (entries_of b es) \<and> 0 < vs_variants v"
    using assms by (simp add: vary_ok_def)
  then show "case add_variant (ce_base e) names vary b of None \<Rightarrow> entries_of b (e # es) = 0
      | Some v \<Rightarrow> vs_variants v = int (entries_of b (e # es)) \<and> 0 < vs_variants v"
    by (cases "vary b") (auto simp: add_variant_def Let_def entries_of_def split: option.splits)
qed

lemma add_variant_names:
  assumes "case vary base of None \<Rightarrow> True | Some v \<Rightarrow> vs_names v = names"
  shows "\<exists>v. add_variant base names vary base = Some v \<and> vs_names v = names"
    and "vary b = Some v \<Longrightarrow> \<exists>v'. add_variant base names vary b = Some v' \<and> vs_names v' = vs_names v"
  using assms by (auto simp: add_variant_def Let_def split: option.splits)

lemma push_core:
  assumes i: "cache_core env c" and new: "k_entries c (ce_key e) = None" and size: "0 < ce_size e"
    and key: "ce_key e = ce_base e @ headerValues env c names h"
    and names: "case k_vary c (ce_base e) of None \<Rightarrow> True | Some v \<Rightarrow> vs_names v = names"
    and p: "PushFront e (k_lru c) = (el, lru)"
  shows "cache_core env (c \<lparr> k_vary := add_variant (ce_base e) names (k_vary c), k_lru := lru,
           k_entries := (k_entries c)(ce_key e \<mapsto> el), k_bytes := k_bytes c + ce_size e, k_pass := ps \<rparr>)"
    (is "cache_core env ?c")
proof -
  have ind: "key_indexed ce_key (k_entries c) (k_lru c)" using i by (simp add: cache_core_def)
  note P = indexed_PushFront [OF ind new p]
  have hv: "headerValues env ?c = headerValues env c" by (rule headerValues_cong) simp_all
  have "keys_ok env ?c"
    unfolding keys_ok_def
  proof
    fix x
    assume "x \<in> set (items (k_lru ?c))"
    then consider "x = e" | "x \<in> set (items (k_lru c))" using P(2) by auto
    then show "\<exists>v h. k_vary ?c (ce_base x) = Some v \<and> ce_key x = ce_base x @ headerValues env ?c (vs_names v) h"
    proof cases
      case 1
      then show ?thesis using add_variant_names(1) [where vary = "k_vary c" and base = "ce_base e", OF names] key hv by auto
    next
      case 2
      then obtain v h where v: "k_vary c (ce_base x) = Some v" "ce_key x = ce_base x @ headerValues env c (vs_names v) h"
        using i by (auto simp: cache_core_def keys_ok_def)
      obtain v' where "add_variant (ce_base e) names (k_vary c) (ce_base x) = Some v'" "vs_names v' = vs_names v"
        using add_variant_names(2) [where vary = "k_vary c" and base = "ce_base e", OF names v(1)] by blast
      with v(2) hv show ?thesis by auto
    qed
  qed
  moreover have "vary_ok (add_variant (ce_base e) names (k_vary c)) (e # items (k_lru c))"
    using i by (intro vary_ok_add) (simp add: cache_core_def)
  ultimately show ?thesis
    using i P size by (simp add: cache_core_def total_size_def)
qed

lemma store_entry_inv:
  assumes i: "cache_inv env c" and size: "0 < ce_size e" and key: "ce_key e = ce_base e @ headerValues env c names h"
  shows "cache_inv env (store_entry e names c)" and "same_config (store_entry e names c) c"
proof -
  let ?c1 = "case k_entries c (ce_key e) of None \<Rightarrow> c | Some el \<Rightarrow> removeLocked el c"
  have core: "cache_core env c" using i by (simp add: cache_inv_def)
  have c1: "cache_core env ?c1 \<and> same_config ?c1 c \<and> k_entries ?c1 (ce_key e) = None"
  proof (cases "k_entries c (ce_key e)")
    case None
    with core show ?thesis by (simp add: same_config_def)
  next
    case (Some el)
    then show ?thesis using remove_core [OF core Some] by (metis fun_upd_same option.simps(5))
  qed
  let ?c2 = "case k_vary ?c1 (ce_base e) of None \<Rightarrow> ?c1
      | Some old \<Rightarrow> if vs_names old = names then ?c1
          else remove_all (matching_cells (\<lambda>x. ce_base x = ce_base e) ?c1) ?c1"
  have c2: "cache_core env ?c2 \<and> same_config ?c2 c \<and> k_entries ?c2 (ce_key e) = None \<and>
      (case k_vary ?c2 (ce_base e) of None \<Rightarrow> True | Some v \<Rightarrow> vs_names v = names)"
  proof (cases "\<exists>old. k_vary ?c1 (ce_base e) = Some old \<and> vs_names old \<noteq> names")
    case False
    then have "?c2 = ?c1" by (auto split: option.splits)
    with False c1 show ?thesis by (auto split: option.splits)
  next
    case True
    let ?r = "remove_all (matching_cells (\<lambda>x. ce_base x = ce_base e) ?c1) ?c1"
    have eq: "?c2 = ?r" using True by auto
    have R: "cache_core env ?r" "same_config ?r ?c1" using remove_all_core c1 by blast+
    have its: "items (k_lru ?r) = filter (\<lambda>x. ce_base x \<noteq> ce_base e) (items (k_lru ?c1))"
      using remove_matching [of env ?c1 "\<lambda>x. ce_base x = ce_base e"] c1 by blast
    have "entries_of (ce_base e) (items (k_lru ?r)) = 0" by (simp add: its entries_of_def)
    then have "k_vary ?r (ce_base e) = None"
      using R(1) by (auto simp: cache_core_def vary_ok_def split: option.splits dest!: spec [of _ "ce_base e"])
    moreover have "k_entries ?r (ce_key e) = None"
    proof -
      have i1: "key_indexed ce_key (k_entries ?c1) (k_lru ?c1)" and i2: "key_indexed ce_key (k_entries ?r) (k_lru ?r)"
        using c1 R by (simp_all add: cache_core_def)
      have "ce_key e \<notin> ce_key ` set (items (k_lru ?c1))" using index_absent [OF i1] c1 by blast
      then have "ce_key e \<notin> ce_key ` set (items (k_lru ?r))" unfolding its by auto
      then show ?thesis using index_absent [OF i2] by simp
    qed
    ultimately show ?thesis unfolding eq using R c1 same_config_trans by auto
  qed
  obtain el lru where p: "PushFront e (k_lru ?c2) = (el, lru)" by (cases "PushFront e (k_lru ?c2)")
  have "headerValues env ?c2 = headerValues env c"
    using c2 by (intro headerValues_cong) (auto simp: same_config_def)
  then have key2: "ce_key e = ce_base e @ headerValues env ?c2 names h" using key by simp
  let ?c3 = "?c2 \<lparr> k_vary := add_variant (ce_base e) names (k_vary ?c2), k_lru := lru,
           k_entries := (k_entries ?c2)(ce_key e \<mapsto> el), k_bytes := k_bytes ?c2 + ce_size e,
           k_pass := AList.delete (ce_base e) (k_pass ?c2) \<rparr>"
  have core3: "cache_core env ?c3"
    using c2 by (intro push_core [OF _ _ size key2 _ p]) blast+
  have eq: "store_entry e names c = evict ?c3"
    unfolding store_entry_def Let_def p prod.case by (rule refl)
  have "same_config ?c3 c" using c2 by (simp add: same_config_def)
  with evict_core [OF core3] show "cache_inv env (store_entry e names c)" "same_config (store_entry e names c) c"
    unfolding eq using same_config_trans by blast+
qed


lemma cache_inv_cong:
  assumes "k_entries c' = k_entries c" "k_vary c' = k_vary c" "k_lru c' = k_lru c" "k_bytes c' = k_bytes c" "same_config c' c"
  shows "cache_inv env c \<Longrightarrow> cache_inv env c'"
proof -
  have "headerValues env c' = headerValues env c"
    using assms(5) by (intro headerValues_cong) (simp_all add: same_config_def)
  then have "keys_ok env c' = keys_ok env c" by (simp add: keys_ok_def assms)
  then show "cache_inv env c \<Longrightarrow> cache_inv env c'"
    using assms by (simp add: cache_inv_def cache_core_def same_config_def)
qed

lemma markPass_inv: "cache_inv env c \<Longrightarrow> cache_inv env (markPass now key c)"
  by (erule cache_inv_cong [rotated 5]) (simp_all add: markPass_def Let_def same_config_def)

lemma passing_inv: "cache_inv env c \<Longrightarrow> cache_inv env (snd (passing now key c))"
  by (erule cache_inv_cong [rotated 5]) (simp_all add: passing_def same_config_def split: option.splits)

lemma join_inv: "cache_inv env c \<Longrightarrow> cache_inv env (snd (flight_join key c))"
  by (erule cache_inv_cong [rotated 5]) (simp_all add: flight_join_def same_config_def split: option.splits)

lemma leave_inv: "cache_inv env c \<Longrightarrow> cache_inv env (flight_leave key ch c)"
  by (erule cache_inv_cong [rotated 5]) (simp_all add: flight_leave_def same_config_def)

lemma land_inv: "cache_inv env (snd s) \<Longrightarrow> cache_inv env (snd (writer_land s))"
  by (simp add: writer_land_def leave_inv case_prod_unfold split: option.split)

lemma giveUp_inv: "cache_inv env (snd s) \<Longrightarrow> cache_inv env (snd (writer_giveUp now s))"
  by (simp add: writer_giveUp_def case_prod_unfold land_inv markPass_inv)

lemma WriteHeader_inv: "cache_inv env (snd s) \<Longrightarrow> cache_inv env (snd (writer_WriteHeader env now code hdr s))"
  by (simp add: writer_WriteHeader_def case_prod_unfold Let_def giveUp_inv)

lemma Write_inv:
  assumes "cache_inv env (snd s)"
  shows "cache_inv env (snd (writer_Write env now hdr b n s))"
proof -
  let ?s = "if w_status (fst s) = 0 then writer_WriteHeader env now 200 hdr s else s"
  have "cache_inv env (snd ?s)" using assms by (simp add: WriteHeader_inv)
  then show ?thesis unfolding writer_Write_def case_prod_unfold Let_def by (simp add: giveUp_inv)
qed

lemma entry_size_pos: "0 < entry_size body key hdr"
proof -
  have "0 \<le> sum_list (map (\<lambda>(k, vs). int (length k) + sum_list (map (\<lambda>s. int (length s)) vs)) hdr)"
    by (rule sum_list_nonneg) (auto intro!: add_nonneg_nonneg sum_list_nonneg)
  then show ?thesis by (simp add: entry_size_def entryOverhead_def)
qed

lemma finish_inv: "cache_inv env c \<Longrightarrow> cache_inv env (writer_finish env now w c)"
proof -
  assume i: "cache_inv env c"
  let ?e = "writer_entry env now w c" and ?names = "fst (varyNames (w_header w))"
  have "cache_inv env (store_entry ?e ?names c)"
  proof (rule store_entry_inv [OF i])
    show "0 < ce_size ?e" by (simp add: writer_entry_def Let_def entry_size_pos)
    show "ce_key ?e = ce_base ?e @ headerValues env c ?names (w_reqHeader w)"
      by (simp add: writer_entry_def Let_def)
  qed
  with i show ?thesis by (simp add: writer_finish_def markPass_inv)
qed

lemma total_size_filter:
  "(\<forall>e\<in>set es. 0 < ce_size e) \<Longrightarrow> total_size (filter P es) \<le> total_size es"
  by (induction es) (auto simp: total_size_def)

lemma total_size_nonneg: "(\<forall>e\<in>set es. 0 < ce_size e) \<Longrightarrow> 0 \<le> total_size es"
  by (induction es) (auto simp: total_size_def)

lemma purge_inv:
  assumes i: "cache_inv env c"
  shows "cache_inv env (snd (cache_purge pre c))"
    and "items (k_lru (snd (cache_purge pre c))) = filter (\<lambda>e. \<not> prefix pre (ce_path e)) (items (k_lru c))"
proof -
  let ?r = "remove_all (matching_cells (\<lambda>e. prefix pre (ce_path e)) c) c"
  have core: "cache_core env c" using i by (simp add: cache_inv_def)
  note R = remove_all_core [OF core, of "matching_cells (\<lambda>e. prefix pre (ce_path e)) c"]
  have its: "items (k_lru ?r) = filter (\<lambda>e. \<not> prefix pre (ce_path e)) (items (k_lru c))"
    by (rule remove_matching [OF core])
  have "k_bytes ?r \<le> k_bytes c"
    using R core total_size_filter [of "items (k_lru c)"] its by (simp add: cache_core_def)
  then have inv: "cache_inv env ?r" using R i by (auto simp: cache_inv_def same_config_def)
  have vary: "pre = [] \<Longrightarrow> k_vary ?r = Map.empty"
  proof (rule ext)
    fix b
    assume "pre = []"
    then have "entries_of b (items (k_lru ?r)) = 0" unfolding its entries_of_def by simp
    then show "k_vary ?r b = Map.empty b"
      using R by (auto simp: cache_core_def vary_ok_def split: option.splits dest!: spec [of _ b])
  qed
  show "cache_inv env (snd (cache_purge pre c))"
    by (rule cache_inv_cong [OF _ _ _ _ _ inv]) (use vary in \<open>auto simp: cache_purge_def Let_def same_config_def\<close>)
  show "items (k_lru (snd (cache_purge pre c))) = filter (\<lambda>e. \<not> prefix pre (ce_path e)) (items (k_lru c))"
    by (simp add: cache_purge_def Let_def its)
qed

lemma serveHit_inv: "cache_inv env c \<Longrightarrow> cache_inv env (snd (serveHit env' now r e h0 c))"
  by (erule cache_inv_cong [rotated 5]) (simp_all add: serveHit_def Let_def same_config_def)

lemma misses_inv: "cache_inv env c \<Longrightarrow> cache_inv env (c \<lparr> k_misses := n \<rparr>)"
  by (erule cache_inv_cong [rotated 5]) (simp_all add: same_config_def)

lemma lookup_inv: "cache_inv env c \<Longrightarrow> cache_inv env (snd (cache_lookup env now base r creds c))"
  using lookup_sound(1) by (metis prod.collapse)

lemma handler_inv: "cache_inv env c \<Longrightarrow> cache_inv env (snd (cache_handler env now r h0 c))"
proof -
  assume i: "cache_inv env c"
  let ?l = "if wants_fresh r then (None, c) else cache_lookup env now (baseKey env c r) r (hasCredentials env c r) c"
  have "cache_inv env (snd ?l)" using i by (simp add: lookup_inv)
  then show ?thesis
    using i
    by (auto simp: cache_handler_def Let_def case_prod_unfold intro!: serveHit_inv join_inv passing_inv misses_inv
        split: option.split)
qed

lemma resume_inv: "cache_inv env c \<Longrightarrow> cache_inv env (snd (cache_resume env now r h0 c))"
  by (auto simp: cache_resume_def Let_def case_prod_unfold intro!: serveHit_inv misses_inv lookup_inv split: option.split)

section \<open>Runs\<close>

datatype cache_op =
    Handle request header | Resume request header | WriteHead cache_writer int header
  | WriteBody cache_writer header string nat | Land cache_writer | Hijacked cache_writer
  | Finish cache_writer | Purge string

fun cache_do :: "http_env \<Rightarrow> rcache \<Rightarrow> instant \<times> cache_op \<Rightarrow> rcache" where
  "cache_do env c (now, Handle r h0) = snd (cache_handler env now r h0 c)"
| "cache_do env c (now, Resume r h0) = snd (cache_resume env now r h0 c)"
| "cache_do env c (now, WriteHead w code hdr) = snd (writer_WriteHeader env now code hdr (w, c))"
| "cache_do env c (now, WriteBody w hdr b n) = snd (writer_Write env now hdr b n (w, c))"
| "cache_do env c (now, Land w) = snd (writer_land (w, c))"
| "cache_do env c (now, Hijacked w) = snd (writer_Hijack (w, c))"
| "cache_do env c (now, Finish w) = writer_finish env now w c"
| "cache_do env c (now, Purge pre) = snd (cache_purge pre c)"

lemma cache_do_inv: "cache_inv env c \<Longrightarrow> cache_inv env (cache_do env c op)"
  by (cases "(env, c, op)" rule: cache_do.cases)
    (auto simp: handler_inv resume_inv WriteHeader_inv Write_inv land_inv writer_Hijack_def finish_inv purge_inv)

interpretation cache_machine: invariant_machine "cache_do env" "\<lambda>c op. True" "cache_inv env" for env
  by unfold_locales (rule cache_do_inv)

lemma cache_inv_new: "cache_inv env (newResponseCache cfg compression affinity)"
  using indexed_New [of ce_key]
  by (simp add: cache_inv_def cache_core_def newResponseCache_def keys_ok_def vary_ok_def entries_of_def
      list_New_def items_def total_size_def)

lemma cache_run_inv: "cache_inv env (foldl (cache_do env) (newResponseCache cfg compression affinity) ops)"
  by (rule cache_machine.run_keeps [OF cache_inv_new]) simp

text \<open>
  C18. Whatever requests, responses and purges a site's cache sees, in any interleaving:
  the memory it accounts for is the sum of its entries' sizes and within the site's
  budget; the map of keys and the list in order of use hold the same entries; and there
  is a vary set for a resource exactly while a variant of it is stored, counting them.
\<close>

theorem cache_budget:
  "let c = foldl (cache_do env) (newResponseCache cfg compression affinity) ops in
     k_bytes c = total_size (items (k_lru c)) \<and> k_bytes c \<le> max 0 (k_maxBytes c) \<and>
     key_indexed ce_key (k_entries c) (k_lru c) \<and> vary_ok (k_vary c) (items (k_lru c))"
  using cache_run_inv [of env cfg compression affinity ops]
  by (simp add: cache_inv_def cache_core_def Let_def)

section \<open>What is served and what is stored\<close>

lemma handler_hit:
  assumes "cache_handler env now r h0 c = (Hit res, c')"
  obtains e c1 where "\<not> wants_fresh r" "\<not> cache_bypassed c r"
    "cache_lookup env now (baseKey env c r) r (hasCredentials env c r) c = (Some e, c1)"
    "res = fst (serveHit env now r e h0 c1)"
proof (cases "wants_fresh r")
  case True
  with assms that show ?thesis
    by (auto simp: cache_handler_def Let_def case_prod_unfold split: if_splits)
next
  case False
  let ?l = "cache_lookup env now (baseKey env c r) r (hasCredentials env c r) c"
  show ?thesis
  proof (cases "fst ?l")
    case None
    with False assms show ?thesis
      by (auto simp: cache_handler_def Let_def case_prod_unfold split: if_splits)
  next
    case (Some e)
    then have l: "?l = (Some e, snd ?l)" by (metis prod.collapse)
    have "\<not> cache_bypassed c r" "res = fst (serveHit env now r e h0 (snd ?l))"
      using False assms Some by (auto simp: cache_handler_def Let_def case_prod_unfold split: if_splits)
    with False l that show ?thesis by blast
  qed
qed


text \<open>
  C35. A response is stored only when HTTP lets a shared cache keep it: the answer to a
  GET with a status worth repeating, without \<^verbatim>\<open>no-store\<close>, \<^verbatim>\<open>private\<close> or \<^verbatim>\<open>no-cache\<close>, that
  does not vary on everything, is no event stream, and is fresh for some time. The
  answer to a request with credentials, and one that sets another cookie than the
  server's own, must also be marked public.
\<close>

theorem storable_shareable:
  assumes "v_store (storable env now c r status h creds)"
  shows "rq_method r = ''GET'' \<and> cacheableStatus status \<and> \<not> snd (varyNames h) \<and>
    0 < v_ttl (storable env now c r status h creds) \<and>
    list_all (\<lambda>d. \<not> cc_has (parseCacheControl (header_values h ''Cache-Control'')) d) [''no-store'', ''private'', ''no-cache''] \<and>
    (\<not> v_public (storable env now c r status h creds) \<longrightarrow>
       \<not> creds \<and> list_all (\<lambda>line. \<not> foreign_cookie env c line) (header_values h ''Set-Cookie'')) \<and>
    (v_public (storable env now c r status h creds) \<longleftrightarrow>
       cc_has (parseCacheControl (header_values h ''Cache-Control'')) ''public'')"
proof -
  let ?cc = "parseCacheControl (header_values h ''Cache-Control'')"
  have early: "rq_method r = ''GET''" "cacheableStatus status" "\<not> cc_has ?cc ''no-store''" "\<not> cc_has ?cc ''private''"
    "\<not> cc_has ?cc ''no-cache''"
    using assms by (auto simp: storable_def no_verdict_def Let_def split: if_splits)
  have mid: "\<not> (creds \<and> \<not> cc_has ?cc ''public'')"
    "\<not> list_ex (\<lambda>line. foreign_cookie env c line \<and> \<not> cc_has ?cc ''public'') (header_values h ''Set-Cookie'')"
    "\<not> snd (varyNames h)"
    using assms early by (auto simp: storable_def no_verdict_def Let_def split: if_splits)
  have "v_public (storable env now c r status h creds) = cc_has ?cc ''public'' \<and>
      0 < v_ttl (storable env now c r status h creds)"
    using assms early mid
    by (auto simp: storable_def no_verdict_def Let_def split: if_splits option.splits)
  with early mid show ?thesis by (auto simp: list_ex_iff list_all_iff)
qed


section \<open>A concrete cache\<close>

definition plain_env :: http_env where
  "plain_env =
     \<lparr> env_ParseTime = (\<lambda>s. None), env_ParseFloat = (\<lambda>s. None), env_Cookies = (\<lambda>h. []),
       env_SetCookieName = (\<lambda>s. None), env_EncodeQuery = (\<lambda>q. []) \<rparr>"

definition small_config :: cache_config where
  "small_config =
     \<lparr> cc_MaxMemoryMB = 1, cc_MaxObjectKB = 64, cc_DefaultTTLSec = 60, cc_VaryByQuery = ''all'',
       cc_QueryParams = [], cc_VaryHeaders = [], cc_BypassPaths = [] \<rparr>"

definition get_page :: request where
  "get_page =
     \<lparr> rq_method = ''GET'', rq_host = ''h'', rq_tls = False, rq_binding = None, rq_path = ''/'', rq_rawpath = [],
       rq_escaped = ''/'', rq_query = [], rq_header = [] \<rparr>"

definition page_header :: header where
  "page_header = [(''Cache-Control'', [''max-age=60''])]"

definition cold :: rcache where
  "cold = newResponseCache small_config False []"

definition page_writer :: cache_writer where
  "page_writer = fst (writer_Write plain_env 5 page_header ''hello'' 5
     (new_writer get_page ''http://h/?'' ''http://h/?'' False None, cold))"

definition warm :: rcache where
  "warm = writer_finish plain_env 5 page_writer cold"

lemma warm_inv: "cache_inv plain_env warm"
  unfolding warm_def cold_def by (rule finish_inv [OF cache_inv_new])

lemma warm_hit:
  "(case fst (cache_handler plain_env 6 get_page [] warm) of Hit res \<Rightarrow> rs_body res | _ \<Rightarrow> ''miss'') = ''hello''"
  by code_simp


theorem storable_shareable_witness:
  "0 < v_ttl (storable plain_env 5 cold get_page 200 page_header False) \<and> \<not> snd (varyNames page_header)"
proof -
  have "v_store (storable plain_env 5 cold get_page 200 page_header False)" by code_simp
  from storable_shareable [OF this] show ?thesis by blast
qed


text \<open>
  C36. A response whose \<^verbatim>\<open>Expires\<close> lies more than the range of a duration (292 years)
  before its date, as the zero time of many platforms does, and that carries an \<^verbatim>\<open>Age\<close>,
  is not stale: subtracting the age from the saturated difference wraps around, and the
  response is stored for centuries.
\<close>

theorem ancient_Expires_stored:
  assumes "rq_method r = ''GET''" and "cacheableStatus status" and "map_of h ''Cache-Control'' = None"
    and "map_of h ''Set-Cookie'' = None" and "map_of h ''Vary'' = None" and "map_of h ''Content-Type'' = None"
    and "map_of h ''Content-Length'' = None" and "map_of h ''Expires'' = Some [x]" and "x \<noteq> []"
    and "env_ParseTime env x = Some ex" and "env_ParseTime env (header_get h ''Date'') = Some d"
    and "ex - d \<le> min_duration" and "header_get h ''Age'' \<noteq> []" and "0 < seconds (header_get h ''Age'')"
  shows "v_store (storable env now c r status h False) \<and>
    v_ttl (storable env now c r status h False) = 2 ^ 63 - seconds (header_get h ''Age'')"
proof -
  let ?age = "seconds (header_get h ''Age'')"
  have cc: "parseCacheControl (header_values h ''Cache-Control'') = []"
    by (simp add: header_values_def assms(3) parseCacheControl_def)
  have vary: "snd (varyNames h) = False"
    by (simp add: varyNames_def vary_fields_def header_values_def assms(5))
  have ex: "header_get h ''Expires'' = x" by (simp add: header_get_def header_values_def assms(8))
  have "time_sub ex d = min_duration"
    using assms(12) by (simp add: time_sub_def duration_defs)
  then have ttl: "declared_ttl env now c h [] = Some min_duration"
    using assms(9-11) by (simp add: declared_ttl_def cc_value_def ex)
  have "?age \<le> 2 ^ 31 * second" using seconds_range [of "header_get h ''Age''"] by simp
  then have wrap: "wrap64 (min_duration - ?age) = 2 ^ 63 - ?age"
  proof -
    assume le: "?age \<le> 2 ^ 31 * second"
    have "(2 ^ 64 + - ?age) mod 2 ^ 64 = (- ?age) mod (2 ^ 64 :: int)" by (rule mod_add_self1)
    moreover have "(2 ^ 64 + - ?age) mod 2 ^ 64 = 2 ^ 64 - ?age"
      using le assms(14) by (subst mod_pos_pos_trivial) (auto simp: duration_defs)
    ultimately have "(- ?age) mod 2 ^ 64 = 2 ^ 64 - ?age" by linarith
    moreover have "min_duration - ?age + 2 ^ 63 = - ?age" by (simp add: duration_defs)
    ultimately have eq: "(min_duration - ?age + 2 ^ 63) mod 2 ^ 64 = 2 ^ 64 - ?age" by (simp only:)
    show ?thesis unfolding wrap64_def by (subst eq) simp
  qed
  have pos: "0 < 2 ^ 63 - ?age" using \<open>?age \<le> 2 ^ 31 * second\<close> by (simp add: duration_defs)
  have ct: "header_get h ''Content-Type'' = []" "header_get h ''Content-Length'' = []" "header_values h ''Set-Cookie'' = []"
    by (simp_all add: header_get_def header_values_def assms)
  have ne: "\<not> equal_fold (trim_space (fst (cut_at CHR '';'' []))) ''text/event-stream''" "atoi [] = None" "status \<noteq> 304"
    using assms(2) by (auto simp: equal_fold_def cut_at_def trim_space_def to_lower_def atoi_def cacheableStatus_def)
  show ?thesis
    using assms(1,2,13) ne pos unfolding storable_def cc ct vary Let_def ttl
    by (simp add: cc_has_def wrap)
qed

theorem ancient_Expires_stored_witness:
  "let env = plain_env \<lparr> env_ParseTime := (\<lambda>s. if s = ''old'' then Some 0 else if s = ''new'' then Some (2 ^ 63) else None) \<rparr>;
       h = [(''Expires'', [''old'']), (''Date'', [''new'']), (''Age'', [''1''])]
   in v_store (storable env 5 cold get_page 200 h False)"
proof -
  let ?env = "plain_env \<lparr> env_ParseTime := (\<lambda>s. if s = ''old'' then Some 0 else if s = ''new'' then Some (2 ^ 63) else None) \<rparr>"
  let ?h = "[(''Expires'', [''old'']), (''Date'', [''new'']), (''Age'', [''1''])]"
  have one: "seconds ''1'' = second" by code_simp
  then have age: "seconds (header_get ?h ''Age'') = second" "header_get ?h ''Age'' = ''1''" "header_get ?h ''Date'' = ''new''"
    by (simp_all add: header_get_def header_values_def)
  have "v_store (storable ?env 5 cold get_page 200 ?h False) \<and>
      v_ttl (storable ?env 5 cold get_page 200 ?h False) = 2 ^ 63 - seconds (header_get ?h ''Age'')"
    by (rule ancient_Expires_stored [where x = "''old''" and ex = 0 and d = "2 ^ 63"])
      (simp_all add: age one get_page_def cacheableStatus_def duration_defs del: list.inject)
  then show ?thesis by (simp add: Let_def)
qed

end
