(* ===== verification/Client_Cert.thy ===== *)
theory Client_Cert
  imports Site_Model Http_Model
begin

text \<open>
  Client certificates (mutual TLS): the policy of a binding as it is configured
  (\<^verbatim>\<open>src/internal/model/tls.go\<close>), its compiled form with the cache of verified
  certificates, and the request headers that carry an identity to the application
  (\<^verbatim>\<open>src/internal/proxy/clientcert.go\<close>).

  Decoding PEM, parsing X.509, verifying a chain, hashing and printing a certificate are
  arguments (\<open>x509_env\<close>). A policy record holds its own cache; policies are shared by key.
  Control characters in a subject are replaced byte by byte.
\<close>

section \<open>Configuration\<close>

definition ClientCertIgnore :: string where "ClientCertIgnore = ''ignore''"
definition ClientCertAccept :: string where "ClientCertAccept = ''accept''"
definition ClientCertRequire :: string where "ClientCertRequire = ''require''"
definition maxCABundleBytes :: nat where "maxCABundleBytes = 262144"
definition maxCABundleCerts :: nat where "maxCABundleCerts = 100"
definition maxClientCertAllows :: nat where "maxClientCertAllows = 1000"

record certificate =
  crt_Raw :: string
  crt_CommonName :: string
  crt_Subject :: string
  crt_DNSNames :: "string list"
  crt_Emails :: "string list"
  crt_URIs :: "string list"
  crt_NotAfter :: instant

datatype verify_error = Expired | IncompatibleUsage | UnknownAuthority | OtherInvalid

record x509_env =
  x_pem_Decode :: "string \<Rightarrow> (string \<times> string) option \<times> string"
  x_ParseCertificate :: "string \<Rightarrow> string + certificate"
  x_Verify :: "certificate list \<Rightarrow> certificate list \<Rightarrow> instant \<Rightarrow> certificate \<Rightarrow> verify_error option"
  x_sha256 :: "string \<Rightarrow> string"
  x_config_key :: "client_cert_config \<Rightarrow> string"
  x_pem_Encode :: "certificate \<Rightarrow> string"

definition policy_Active :: "client_cert_config option \<Rightarrow> bool" where
  "policy_Active p \<longleftrightarrow> (case p of None \<Rightarrow> False
     | Some p \<Rightarrow> cl_Mode p = ClientCertAccept \<or> cl_Mode p = ClientCertRequire)"

definition NormalizeFingerprint :: "string \<Rightarrow> string" where
  "NormalizeFingerprint f = to_upper (filter (\<lambda>c. c \<notin> set '': -'') (trim_space f))"

definition trimList :: "string list \<Rightarrow> string list" where
  "trimList xs = filter (\<lambda>s. s \<noteq> []) (map trim_space xs)"

definition policy_applyDefaults :: "client_cert_config \<Rightarrow> client_cert_config" where
  "policy_applyDefaults p =
     (let m = to_lower (trim_space (cl_Mode p)) in
      \<lparr> cl_Mode = (if m = [] then ClientCertIgnore else m), cl_CAPEM = trim_space (cl_CAPEM p),
        cl_AllowedSubjects = trimList (cl_AllowedSubjects p),
        cl_AllowedFingerprints = map NormalizeFingerprint (trimList (cl_AllowedFingerprints p)),
        cl_RequirePaths = trimList (cl_RequirePaths p) \<rparr>)"

definition policy_empty :: "client_cert_config \<Rightarrow> bool" where
  "policy_empty p \<longleftrightarrow> cl_Mode p = ClientCertIgnore \<and> cl_CAPEM p = [] \<and> cl_AllowedSubjects p = [] \<and>
     cl_AllowedFingerprints p = [] \<and> cl_RequirePaths p = []"

definition applyTLSDefaults :: "binding \<Rightarrow> binding" where
  "applyTLSDefaults b =
     (if b_Protocol b \<noteq> ''https'' then b \<lparr> b_ClientCert := None \<rparr>
      else case b_ClientCert b of None \<Rightarrow> b
           | Some p \<Rightarrow> let q = policy_applyDefaults p
                       in b \<lparr> b_ClientCert := (if policy_empty q then None else Some q) \<rparr>)"

text \<open>
  Reading a bundle block by block. Each block that \<^verbatim>\<open>pem.Decode\<close> finds takes bytes of the
  rest, so as many rounds as the bundle has bytes are enough.
\<close>

datatype bundle_error =
    BundleEmpty | BundleTooLarge | NotACertificate string | CannotRead nat string
  | TooManyCerts | NoCertificate | TextAfter | BundleFuel

fun read_blocks :: "x509_env \<Rightarrow> nat \<Rightarrow> string \<Rightarrow> certificate list \<Rightarrow> bundle_error + certificate list \<times> string" where
  "read_blocks env 0 rest out = Inl BundleFuel"
| "read_blocks env (Suc n) rest out =
     (case x_pem_Decode env rest of
        (None, rest) \<Rightarrow> Inr (out, rest)
      | (Some (type, bytes), rest) \<Rightarrow>
          if type \<noteq> ''CERTIFICATE'' then Inl (NotACertificate (to_lower type))
          else case x_ParseCertificate env bytes of
                 Inl err \<Rightarrow> Inl (CannotRead (length out + 1) err)
               | Inr c \<Rightarrow> if length (out @ [c]) > maxCABundleCerts then Inl TooManyCerts
                          else read_blocks env n rest (out @ [c]))"

definition ParseCABundle :: "x509_env \<Rightarrow> string \<Rightarrow> bundle_error + certificate list" where
  "ParseCABundle env bundle =
     (if trim_space bundle = [] then Inl BundleEmpty
      else if length bundle > maxCABundleBytes then Inl BundleTooLarge
      else case read_blocks env (Suc (length bundle)) bundle [] of
             Inl e \<Rightarrow> Inl e
           | Inr (out, rest) \<Rightarrow>
               if out = [] then Inl NoCertificate
               else if trim_space rest \<noteq> [] then Inl TextAfter
               else Inr out)"

datatype require_path_error = MustStartWithSlash | NotPlain | DotSegment

definition validRequirePath :: "string \<Rightarrow> require_path_error option" where
  "validRequirePath path =
     (if \<not> prefix ''/'' path then Some MustStartWithSlash
      else if list_ex (\<lambda>c. (of_char c :: nat) < 32 \<or> c = CHR 0x7F \<or> c \<in> set [CHR 0x5C, CHR ''%'', CHR ''?'', CHR ''#'', CHR '';'', CHR '':'']) path
      then Some NotPlain
      else if list_ex (\<lambda>seg. seg \<noteq> [] \<and> trim_dots seg = []) (split_at_char CHR ''/'' path) then Some DotSegment
      else None)"

datatype policy_error =
    BadMode | BadBundle bundle_error | TooManyAllows | SubjectTooLong nat | NotAFingerprint nat string
  | BadRequirePath nat require_path_error

text \<open>\<^verbatim>\<open>hex.DecodeString\<close> of 32 bytes: 64 hexadecimal digits.\<close>

definition is_fingerprint :: "string \<Rightarrow> bool" where
  "is_fingerprint f \<longleftrightarrow> length f = 64 \<and> list_all isHex f"

definition first_error :: "(nat \<Rightarrow> 'a \<Rightarrow> 'e option) \<Rightarrow> 'a list \<Rightarrow> 'e option" where
  "first_error check xs = (case List.map_filter (\<lambda>(i, x). check i x) (enumerate 0 xs) of [] \<Rightarrow> None | e # _ \<Rightarrow> Some e)"

definition policy_validate :: "x509_env \<Rightarrow> client_cert_config \<Rightarrow> policy_error option" where
  "policy_validate env p =
     (if cl_Mode p = ClientCertIgnore then None
      else if cl_Mode p \<noteq> ClientCertAccept \<and> cl_Mode p \<noteq> ClientCertRequire then Some BadMode
      else case ParseCABundle env (cl_CAPEM p) of
             Inl e \<Rightarrow> Some (BadBundle e)
           | Inr _ \<Rightarrow>
               if length (cl_AllowedSubjects p) + length (cl_AllowedFingerprints p) > maxClientCertAllows then Some TooManyAllows
               else case first_error (\<lambda>i s. if length s > 1024 then Some (SubjectTooLong i) else None) (cl_AllowedSubjects p) of
                      Some e \<Rightarrow> Some e
                    | None \<Rightarrow>
                        (case first_error (\<lambda>i f. if \<not> is_fingerprint f then Some (NotAFingerprint i f) else None) (cl_AllowedFingerprints p) of
                           Some e \<Rightarrow> Some e
                         | None \<Rightarrow> first_error (\<lambda>i x. map_option (BadRequirePath i) (validRequirePath x)) (cl_RequirePaths p)))"

definition validateTLS :: "x509_env \<Rightarrow> binding \<Rightarrow> policy_error option" where
  "validateTLS env b = (case b_ClientCert b of None \<Rightarrow> None | Some p \<Rightarrow> policy_validate env p)"

section \<open>Compiled policies\<close>

definition clientVerifyTTL :: duration where "clientVerifyTTL = 5 * minute"
definition clientVerifyCache :: nat where "clientVerifyCache = 1024"

record client_identity =
  ci_verify :: string
  ci_cert :: string
  ci_subject :: string
  ci_fingerprint :: string
  ci_until :: instant

record client_policy =
  cp_key :: string
  cp_mode :: string
  cp_pool :: "certificate list"
  cp_subjects :: "string list"
  cp_fingerprints :: "string list"
  cp_requirePaths :: "string list"
  cp_cache :: "(string \<times> client_identity) list"

definition identityNone :: client_identity where
  "identityNone = \<lparr> ci_verify = ''NONE'', ci_cert = [], ci_subject = [], ci_fingerprint = [], ci_until = 0 \<rparr>"

definition identity_ok :: "client_identity \<Rightarrow> bool" where
  "identity_ok i \<longleftrightarrow> ci_verify i = ''SUCCESS''"

text \<open>A bundle that cannot be read leaves the pool empty: no certificate is accepted.\<close>

definition compileClientPolicy :: "x509_env \<Rightarrow> client_cert_config \<Rightarrow> client_policy \<times> bundle_error option" where
  "compileClientPolicy env cfg =
     (let cas = ParseCABundle env (cl_CAPEM cfg) in
      (\<lparr> cp_key = x_config_key env cfg, cp_mode = cl_Mode cfg,
         cp_pool = (case cas of Inl _ \<Rightarrow> [] | Inr cs \<Rightarrow> cs),
         cp_subjects = map (\<lambda>s. to_lower (trim_space s)) (cl_AllowedSubjects cfg),
         cp_fingerprints = map NormalizeFingerprint (cl_AllowedFingerprints cfg),
         cp_requirePaths = map requirePrefix (cl_RequirePaths cfg), cp_cache = [] \<rparr>,
       case cas of Inl e \<Rightarrow> Some e | Inr _ \<Rightarrow> None))"

definition verifyReason :: "verify_error \<Rightarrow> string" where
  "verifyReason err =
     (case err of
        Expired \<Rightarrow> ''certificate expired or not yet valid''
      | IncompatibleUsage \<Rightarrow> ''certificate not for client authentication''
      | UnknownAuthority \<Rightarrow> ''unknown issuer''
      | OtherInvalid \<Rightarrow> ''certificate invalid'')"

definition cert_names :: "certificate \<Rightarrow> string list" where
  "cert_names leaf = [crt_CommonName leaf, crt_Subject leaf] @ crt_DNSNames leaf @ crt_Emails leaf @ crt_URIs leaf"

definition cert_allowed :: "client_policy \<Rightarrow> certificate \<Rightarrow> string \<Rightarrow> bool" where
  "cert_allowed p leaf fingerprint \<longleftrightarrow>
     (cp_subjects p = [] \<and> cp_fingerprints p = []) \<or> fingerprint \<in> set (cp_fingerprints p) \<or>
     list_ex (\<lambda>n. n \<noteq> [] \<and> to_lower n \<in> set (cp_subjects p)) (cert_names leaf)"

definition upper_hex :: "nat \<Rightarrow> char" where
  "upper_hex n = ''0123456789ABCDEF'' ! n"

definition hex_of_bytes :: "string \<Rightarrow> string" where
  "hex_of_bytes s = concat (map (\<lambda>c. [upper_hex (of_char c div 16), upper_hex (of_char c mod 16)]) s)"

definition unreserved :: "char \<Rightarrow> bool" where
  "unreserved c \<longleftrightarrow> is_lower c \<or> is_upper c \<or> is_digit c \<or> c \<in> set ''-_.~''"

definition escapeComponent :: "string \<Rightarrow> string" where
  "escapeComponent s =
     concat (map (\<lambda>c. if unreserved c then [c]
                      else [CHR ''%'', upper_hex (of_char c div 16), upper_hex (of_char c mod 16)]) s)"

definition headerSafe :: "string \<Rightarrow> string" where
  "headerSafe s = map (\<lambda>c. if (of_char c :: nat) < 32 \<or> c = CHR 0x7F then CHR ''?'' else c) s"

definition verify_until :: "certificate \<Rightarrow> instant \<Rightarrow> instant" where
  "verify_until leaf now = (if crt_NotAfter leaf < now + clientVerifyTTL then crt_NotAfter leaf else now + clientVerifyTTL)"

definition verify_chain :: "x509_env \<Rightarrow> client_policy \<Rightarrow> certificate list \<Rightarrow> string \<Rightarrow> instant \<Rightarrow> client_identity" where
  "verify_chain env p chain digest now =
     (let leaf = hd chain; fingerprint = hex_of_bytes digest; u = verify_until leaf now in
      case x_Verify env (cp_pool p) (tl chain) now leaf of
        Some err \<Rightarrow> \<lparr> ci_verify = ''FAILED:'' @ verifyReason err, ci_cert = [], ci_subject = [], ci_fingerprint = [], ci_until = u \<rparr>
      | None \<Rightarrow>
          if \<not> cert_allowed p leaf fingerprint
          then \<lparr> ci_verify = ''FAILED:certificate not allowed'', ci_cert = [], ci_subject = [], ci_fingerprint = [], ci_until = u \<rparr>
          else \<lparr> ci_verify = ''SUCCESS'', ci_cert = escapeComponent (x_pem_Encode env leaf),
                 ci_subject = headerSafe (crt_Subject leaf), ci_fingerprint = fingerprint, ci_until = u \<rparr>)"

definition reverify :: "x509_env \<Rightarrow> instant \<Rightarrow> certificate list \<Rightarrow> string \<Rightarrow> client_policy \<Rightarrow> client_identity \<times> client_policy" where
  "reverify env now chain digest p =
     (let i = verify_chain env p chain digest now;
          cache = (if length (cp_cache p) \<ge> clientVerifyCache then [] else cp_cache p)
      in (i, p \<lparr> cp_cache := AList.update digest i cache \<rparr>))"

definition identify :: "x509_env \<Rightarrow> instant \<Rightarrow> certificate list \<Rightarrow> client_policy \<Rightarrow> client_identity \<times> client_policy" where
  "identify env now chain p =
     (if chain = [] then (identityNone, p)
      else
        (let digest = x_sha256 env (crt_Raw (hd chain)) in
         case map_of (cp_cache p) digest of
           Some i \<Rightarrow> if now < ci_until i then (i, p) else reverify env now chain digest p
         | None \<Rightarrow> reverify env now chain digest p))"

section \<open>Headers\<close>

definition clientCertHeaders :: "string list" where
  "clientCertHeaders = [''X-Client-Cert'', ''X-Client-Cert-Subject'', ''X-Client-Cert-Fingerprint'', ''X-Client-Verify'']"

definition isClientCertHeader :: "string \<Rightarrow> bool" where
  "isClientCertHeader name =
     (let n = map (\<lambda>c. if c = CHR ''_'' then CHR ''-'' else c) name
      in list_ex (equal_fold n) clientCertHeaders)"

definition connection_tokens :: "header \<Rightarrow> string list" where
  "connection_tokens h =
     filter (\<lambda>t. t \<noteq> []) (map trim_space (concat (map (split_at_char CHR '','') (header_values h ''Connection''))))"

definition stripClientCertHeaders :: "header \<Rightarrow> header" where
  "stripClientCertHeaders h0 =
     (let h = filter (\<lambda>kv. \<not> isClientCertHeader (fst kv)) h0;
          toks = connection_tokens h;
          keep = filter (\<lambda>t. \<not> isClientCertHeader t) toks
      in if \<not> list_ex isClientCertHeader toks then h
         else if keep = [] then header_del ''Connection'' h
         else header_set ''Connection'' (join_with '', '' keep) h)"

definition copyClientCertHeaders :: "header \<Rightarrow> header \<Rightarrow> header" where
  "copyClientCertHeaders out inn =
     fold (\<lambda>h out. let v = header_values inn h in if v \<noteq> [] then AList.update h v out else AList.delete h out)
       clientCertHeaders out"

definition identity_headers :: "client_identity \<Rightarrow> header \<Rightarrow> header" where
  "identity_headers i h =
     (let h = header_set ''X-Client-Verify'' (ci_verify i) h in
      if identity_ok i
      then header_set ''X-Client-Cert-Fingerprint'' (ci_fingerprint i)
             (header_set ''X-Client-Cert-Subject'' (ci_subject i) (header_set ''X-Client-Cert'' (ci_cert i) h))
      else h)"

section \<open>Client-supplied headers\<close>

lemma trim_leading: "trim_space (CHR '' '' # s) = trim_space s"
  by (simp add: trim_space_def is_space_def)

lemma dropWhile_hd: "dropWhile P xs \<noteq> [] \<Longrightarrow> \<not> P (hd (dropWhile P xs))"
  by (induction xs) auto

lemma trim_space_idem [simp]: "trim_space (trim_space s) = trim_space s"
proof -
  let ?t = "dropWhile is_space s"
  let ?u = "rev (dropWhile is_space (rev ?t))"
  have "dropWhile is_space ?u = ?u"
  proof (cases "?u = []")
    case False
    obtain w where "?t = ?u @ w"
      by (metis rev_append rev_rev_ident takeWhile_dropWhile_id)
    then have "hd ?u = hd ?t" "?t \<noteq> []" using False by (metis hd_append2, metis append_is_Nil_conv)
    then have "\<not> is_space (hd ?u)" using dropWhile_hd [of is_space s] by simp
    then show ?thesis using False by (cases ?u) auto
  next
    case True
    have "dropWhile is_space x = x" if "x = []" for x using that by simp
    then show ?thesis using True .
  qed
  then show ?thesis by (simp add: trim_space_def)
qed

lemma set_trim_space: "set (trim_space s) \<subseteq> set s"
  unfolding trim_space_def by (auto dest!: set_dropWhileD)

lemma split_at_char_append: "c \<notin> set a \<Longrightarrow> split_at_char c (a @ c # b) = a # split_at_char c b"
  by (induction a) auto

lemma split_at_char_fresh: "c \<notin> set a \<Longrightarrow> split_at_char c a = [a]"
  by (induction a) auto

lemma split_space: "c \<noteq> CHR '' '' \<Longrightarrow> map trim_space (split_at_char c (CHR '' '' # s)) = map trim_space (split_at_char c s)"
  by (cases "split_at_char c s") (auto simp: trim_leading)

lemma tokens_join:
  assumes "list_all (\<lambda>t. CHR '','' \<notin> set t \<and> trim_space t = t) ts" and "ts \<noteq> []"
  shows "map trim_space (split_at_char CHR '','' (join_with '', '' ts)) = ts"
  using assms
proof (induction "'', ''" ts rule: join_with.induct)
  case (2 x)
  then show ?case by (simp add: split_at_char_fresh)
next
  case (3 x y xs)
  then show ?case by (simp add: split_at_char_append split_space del: split_at_char.simps)
qed simp

lemma connection_tokens_ok: "list_all (\<lambda>t. CHR '','' \<notin> set t \<and> trim_space t = t) (connection_tokens h)"
  using set_trim_space split_at_char_no_sep by (fastforce simp: connection_tokens_def list_all_iff)

lemma connection_tokens_ne: "[] \<notin> set (connection_tokens h)"
  by (simp add: connection_tokens_def)

lemma Connection_not_ours: "\<not> isClientCertHeader ''Connection''"
  by code_simp

lemma header_values_set: "header_values (header_set n v h) n = [v]"
  by (simp add: header_values_def header_set_def update_conv)

lemma header_values_del: "header_values (header_del n h) n = []"
  by (simp add: header_values_def header_del_def delete_conv)

lemma AList_update_keys: "fst ` set (AList.update k v h) = insert k (fst ` set h)"
  using dom_update [of k v h] by (simp add: dom_map_of_conv_image_fst)

text \<open>
  C17. Whatever a client sends, no header reaches the application that it could read as one
  of the client certificate headers, in any case and with underscores for hyphens, and
  the Connection header of the forwarded request names none of them, so that no proxy
  behind drops the real ones.
\<close>

theorem no_forged_client_certificate:
  "list_all (\<lambda>kv. \<not> isClientCertHeader (fst kv)) (stripClientCertHeaders h) \<and>
   list_all (\<lambda>t. \<not> isClientCertHeader t) (connection_tokens (stripClientCertHeaders h))"
proof -
  define h1 where "h1 = filter (\<lambda>kv. \<not> isClientCertHeader (fst kv)) h"
  define toks where "toks = connection_tokens h1"
  define keep where "keep = filter (\<lambda>t. \<not> isClientCertHeader t) toks"
  have strip: "stripClientCertHeaders h =
      (if \<not> list_ex isClientCertHeader toks then h1
       else if keep = [] then header_del ''Connection'' h1
       else header_set ''Connection'' (join_with '', '' keep) h1)"
    by (simp add: stripClientCertHeaders_def h1_def toks_def keep_def Let_def)
  have h1: "\<not> isClientCertHeader (fst kv)" if "kv \<in> set h1" for kv using that by (simp add: h1_def)
  have keys: "fst ` set (header_set ''Connection'' v h1) \<subseteq> insert ''Connection'' (fst ` set h1)" for v
    by (simp add: header_set_def AList_update_keys)
  have del: "set (header_del ''Connection'' h1) \<subseteq> set h1"
    by (auto simp: header_del_def AList.delete_eq)
  have ok: "list_all (\<lambda>t. CHR '','' \<notin> set t \<and> trim_space t = t) keep" "[] \<notin> set keep"
    using connection_tokens_ok [of h1] connection_tokens_ne [of h1] by (simp_all add: keep_def toks_def list_all_iff)
  have full: "filter (\<lambda>t. t \<noteq> []) keep = keep" by (rule filter_True) (use ok(2) in auto)
  have tokens: "connection_tokens (header_set ''Connection'' (join_with '', '' keep) h1) = keep" if "keep \<noteq> []"
    unfolding connection_tokens_def header_values_set by (simp add: tokens_join [OF ok(1) that] full)
  consider "\<not> list_ex isClientCertHeader toks" | "list_ex isClientCertHeader toks" "keep = []"
    | "list_ex isClientCertHeader toks" "keep \<noteq> []" by blast
  then show ?thesis
  proof cases
    case 1
    then show ?thesis using h1 by (auto simp: strip list_all_iff list_ex_iff toks_def)
  next
    case 2
    then have "stripClientCertHeaders h = header_del ''Connection'' h1" by (simp add: strip)
    moreover have "connection_tokens (header_del ''Connection'' h1) = []"
      by (simp add: connection_tokens_def header_values_del)
    ultimately show ?thesis using h1 del unfolding list_all_iff by auto
  next
    case 3
    then have s: "stripClientCertHeaders h = header_set ''Connection'' (join_with '', '' keep) h1" by (simp add: strip)
    have "\<not> isClientCertHeader (fst kv)" if kv: "kv \<in> set (stripClientCertHeaders h)" for kv
    proof -
      have "fst kv \<in> insert ''Connection'' (fst ` set h1)" using keys kv unfolding s by (meson imageI subsetD)
      then show ?thesis
      proof
        assume "fst kv = ''Connection''"
        then show ?thesis by (simp only: Connection_not_ours) simp
      next
        assume "fst kv \<in> fst ` set h1"
        then obtain kv' where "kv' \<in> set h1" "fst kv = fst kv'" by blast
        then show ?thesis using h1 by simp
      qed
    qed
    moreover have "list_all (\<lambda>t. \<not> isClientCertHeader t) keep" by (simp add: keep_def list_all_iff)
    ultimately show ?thesis unfolding s tokens [OF 3(2)] by (simp add: list_all_iff)
  qed
qed

section \<open>Verified identities\<close>

text \<open>That a certificate passed at an instant: issued by the pool and on the lists.\<close>

definition passed :: "x509_env \<Rightarrow> client_policy \<Rightarrow> string \<Rightarrow> instant \<Rightarrow> certificate list \<Rightarrow> bool" where
  "passed env p digest t chain \<longleftrightarrow> chain \<noteq> [] \<and> x_sha256 env (crt_Raw (hd chain)) = digest \<and>
     x_Verify env (cp_pool p) (tl chain) t (hd chain) = None \<and> cert_allowed p (hd chain) (hex_of_bytes digest)"

definition vouched :: "x509_env \<Rightarrow> client_policy \<Rightarrow> (instant \<times> certificate list) list \<Rightarrow> string \<Rightarrow> client_identity \<Rightarrow> bool" where
  "vouched env p calls digest i \<longleftrightarrow> identity_ok i \<longrightarrow> ci_fingerprint i = hex_of_bytes digest \<and>
     list_ex (\<lambda>c. passed env p digest (fst c) (snd c) \<and> ci_until i = verify_until (hd (snd c)) (fst c)) calls"

definition same_policy :: "client_policy \<Rightarrow> client_policy \<Rightarrow> bool" where
  "same_policy p q \<longleftrightarrow> q = p \<lparr> cp_cache := cp_cache q \<rparr>"

type_synonym policy_run = "client_policy \<times> (instant \<times> certificate list) list"

definition identify_step :: "x509_env \<Rightarrow> policy_run \<Rightarrow> instant \<times> certificate list \<Rightarrow> policy_run" where
  "identify_step env s c = (snd (identify env (fst c) (snd c) (fst s)), snd s @ [c])"

definition policy_inv :: "x509_env \<Rightarrow> client_policy \<Rightarrow> policy_run \<Rightarrow> bool" where
  "policy_inv env p0 s \<longleftrightarrow> same_policy p0 (fst s) \<and> length (cp_cache (fst s)) \<le> clientVerifyCache \<and>
     list_all (\<lambda>e. vouched env p0 (snd s) (fst e) (snd e)) (cp_cache (fst s))"

lemma same_policyD:
  "same_policy p q \<Longrightarrow> cp_pool q = cp_pool p"
  "same_policy p q \<Longrightarrow> cp_subjects q = cp_subjects p"
  "same_policy p q \<Longrightarrow> cp_fingerprints q = cp_fingerprints p"
  by (cases p; cases q; simp add: same_policy_def)+

lemma cert_allowed_same: "same_policy p q \<Longrightarrow> cert_allowed q = cert_allowed p"
  by (intro ext) (simp add: cert_allowed_def same_policyD)

lemma passed_same: "same_policy p q \<Longrightarrow> passed env q digest t chain = passed env p digest t chain"
  by (simp add: passed_def cert_allowed_same same_policyD)

lemma verify_chain_same:
  assumes "same_policy p q"
  shows "verify_chain env q chain digest now = verify_chain env p chain digest now"
  unfolding verify_chain_def cert_allowed_same [OF assms] same_policyD(1) [OF assms] ..

lemma verify_chain_vouched:
  assumes "chain \<noteq> []" and "x_sha256 env (crt_Raw (hd chain)) = digest" and "(now, chain) \<in> set calls"
  shows "vouched env p calls digest (verify_chain env p chain digest now)"
  using assms
  by (auto simp: vouched_def verify_chain_def identity_ok_def passed_def Let_def list_ex_iff verifyReason_def
      intro!: bexI [of _ "(now, chain)"] split: option.splits verify_error.splits if_splits)

lemma vouched_more: "vouched env p calls digest i \<Longrightarrow> vouched env p (calls @ cs) digest i"
  by (auto simp: vouched_def)

lemma same_policy_cache: "same_policy p q \<Longrightarrow> same_policy p (q \<lparr> cp_cache := c \<rparr>)"
  by (cases p; cases q; simp add: same_policy_def)

lemma AList_update_length: "length (AList.update k v xs) \<le> Suc (length xs)"
  by (induction xs) auto

lemma AList_update_all: "list_all P xs \<Longrightarrow> P (k, v) \<Longrightarrow> list_all P (AList.update k v xs)"
  by (induction xs) auto

lemma vouched_all_more:
  "list_all (\<lambda>e. vouched env p calls (fst e) (snd e)) cache \<Longrightarrow>
   list_all (\<lambda>e. vouched env p (calls @ cs) (fst e) (snd e)) cache"
  by (auto simp: list_all_iff vouched_more)

lemma reverify_keeps:
  assumes "policy_inv env p0 (p, calls)" and "chain \<noteq> []" and "digest = x_sha256 env (crt_Raw (hd chain))"
  shows "policy_inv env p0 (snd (reverify env now chain digest p), calls @ [(now, chain)])"
proof -
  let ?cache = "if length (cp_cache p) \<ge> clientVerifyCache then [] else cp_cache p"
  let ?i = "verify_chain env p chain digest now"
  have same: "same_policy p0 p" and v: "list_all (\<lambda>e. vouched env p0 calls (fst e) (snd e)) (cp_cache p)"
    using assms(1) by (simp_all add: policy_inv_def)
  have "vouched env p0 (calls @ [(now, chain)]) digest ?i"
    using verify_chain_vouched [of chain env digest now "calls @ [(now, chain)]" p0] assms(2,3)
    by (simp add: verify_chain_same [OF same])
  then have "list_all (\<lambda>e. vouched env p0 (calls @ [(now, chain)]) (fst e) (snd e)) (AList.update digest ?i ?cache)"
    using vouched_all_more [OF v] by (intro AList_update_all) auto
  moreover have "length (AList.update digest ?i ?cache) \<le> clientVerifyCache"
    using AList_update_length [of digest ?i ?cache] by (auto simp: clientVerifyCache_def)
  ultimately show ?thesis by (simp add: policy_inv_def reverify_def Let_def same_policy_cache [OF same])
qed

lemma identify_keeps:
  assumes "policy_inv env p0 s"
  shows "policy_inv env p0 (identify_step env s c)"
proof -
  obtain p calls now chain where s: "s = (p, calls)" "c = (now, chain)" by fastforce
  have still: "policy_inv env p0 (p, calls @ [(now, chain)])"
    using assms vouched_all_more [of env p0 calls "cp_cache p" "[(now, chain)]"] by (simp add: s policy_inv_def)
  show ?thesis
    using still reverify_keeps [OF assms [unfolded s], of chain]
    by (auto simp: s identify_step_def identify_def Let_def split: option.splits)
qed

interpretation client_identities: invariant_machine "identify_step env" "\<lambda>s c. True" "policy_inv env p0" for env p0
  by unfold_locales (rule identify_keeps)

text \<open>
  C16. A request is taken to have a valid client certificate only on the strength of a
  verification: after any number of earlier requests with any certificates, an identity
  that is accepted carries the fingerprint of the certificate presented, and that
  certificate was issued by the policy's authorities and on its lists when it was
  verified, now or, when the result is remembered, less than five minutes ago and before
  it expired. The memory of a policy never holds more than 1024 results.
\<close>

theorem client_identity_verified:
  assumes "cp_cache p0 = []"
    and "identify env now chain (fst (foldl (identify_step env) (p0, []) calls)) = (i, p')"
    and "identity_ok i"
  shows "length (cp_cache p') \<le> clientVerifyCache \<and>
    (\<exists>digest t ch. digest = x_sha256 env (crt_Raw (hd chain)) \<and> ci_fingerprint i = hex_of_bytes digest \<and>
      passed env p0 digest t ch \<and>
      ((t, ch) = (now, chain) \<or>
       (t, ch) \<in> set calls \<and> now < t + clientVerifyTTL \<and> now < crt_NotAfter (hd ch)))"
proof -
  let ?s = "foldl (identify_step env) (p0, []) calls"
  obtain p where p: "?s = (p, calls)"
  proof -
    have "snd (foldl (identify_step env) s cs) = snd s @ cs" for s cs
      by (induction cs arbitrary: s) (auto simp: identify_step_def)
    then have "snd ?s = calls" by simp
    then show ?thesis using that by (metis prod.collapse)
  qed
  have "policy_inv env p0 (p0, [])" using assms(1) by (simp add: policy_inv_def same_policy_def)
  then have inv: "policy_inv env p0 (p, calls)"
    using client_identities.run_keeps [of env p0 "(p0, [])" calls] by (simp add: p run_ok_True)
  then have same: "same_policy p0 p" by (simp add: policy_inv_def)
  have id: "identify env now chain p = (i, p')" using assms(2) p by simp
  have "policy_inv env p0 (p', calls @ [(now, chain)])"
    using identify_keeps [OF inv, of "(now, chain)"] by (simp add: identify_step_def id)
  then have len: "length (cp_cache p') \<le> clientVerifyCache" by (simp add: policy_inv_def)
  have ne: "chain \<noteq> []" using id assms(3) by (auto simp: identify_def identity_ok_def identityNone_def)
  define digest where "digest = x_sha256 env (crt_Raw (hd chain))"
  consider (kept) "(digest, i) \<in> set (cp_cache p)" "now < ci_until i"
    | (now) "i = verify_chain env p chain digest now"
    using id ne by (auto simp: identify_def digest_def reverify_def Let_def dest: map_of_SomeD split: option.splits if_splits)
  then show ?thesis
  proof cases
    case kept
    then have "vouched env p0 calls digest i" using inv by (auto simp: policy_inv_def list_all_iff)
    then obtain t ch where "ci_fingerprint i = hex_of_bytes digest" "(t, ch) \<in> set calls"
      "passed env p0 digest t ch" "ci_until i = verify_until (hd ch) t"
      using assms(3) by (auto simp: vouched_def list_ex_iff)
    with kept(2) len show ?thesis by (fastforce simp: verify_until_def digest_def split: if_splits)
  next
    case now
    have "vouched env p0 [(now, chain)] digest i"
      using verify_chain_vouched [of chain env digest now "[(now, chain)]" p0] ne
      by (simp add: now verify_chain_same [OF same] digest_def)
    with assms(3) len show ?thesis by (auto simp: vouched_def digest_def)
  qed
qed

definition example_x509 :: x509_env where
  "example_x509 =
     \<lparr> x_pem_Decode = (\<lambda>s. (None, s)), x_ParseCertificate = (\<lambda>s. Inl s),
       x_Verify = (\<lambda>roots inter now leaf. if now < crt_NotAfter leaf then None else Some Expired),
       x_sha256 = (\<lambda>s. s), x_config_key = cl_CAPEM, x_pem_Encode = crt_Raw \<rparr>"

theorem client_identity_verified_witness:
  "let leaf = \<lparr> crt_Raw = ''A'', crt_CommonName = ''alice'', crt_Subject = ''CN=alice'', crt_DNSNames = [],
         crt_Emails = [], crt_URIs = [], crt_NotAfter = 10 ^ 15 \<rparr>;
       p = \<lparr> cp_key = ''k'', cp_mode = ClientCertRequire, cp_pool = [], cp_subjects = [''alice''], cp_fingerprints = [],
         cp_requirePaths = [], cp_cache = [] \<rparr>;
       (i, p') = identify example_x509 200 [leaf] (fst (foldl (identify_step example_x509) (p, []) [(100, [leaf])]))
   in identity_ok i \<and> length (cp_cache p') \<le> clientVerifyCache"
proof -
  let ?leaf = "\<lparr> crt_Raw = ''A'', crt_CommonName = ''alice'', crt_Subject = ''CN=alice'', crt_DNSNames = [],
         crt_Emails = [], crt_URIs = [], crt_NotAfter = 10 ^ 15 \<rparr> :: certificate"
  let ?p = "\<lparr> cp_key = ''k'', cp_mode = ClientCertRequire, cp_pool = [], cp_subjects = [''alice''], cp_fingerprints = [],
         cp_requirePaths = [], cp_cache = [] \<rparr> :: client_policy"
  let ?r = "identify example_x509 200 [?leaf] (fst (foldl (identify_step example_x509) (?p, []) [(100, [?leaf])]))"
  have ok: "identity_ok (fst ?r)" by code_simp
  have "length (cp_cache (snd ?r)) \<le> clientVerifyCache"
    using client_identity_verified [of ?p example_x509 200 "[?leaf]" "[(100, [?leaf])]" "fst ?r" "snd ?r"] ok by simp
  with ok show ?thesis by (simp add: Let_def case_prod_unfold)
qed

end
