(* ===== verification/Routing.thy ===== *)
theory Routing
  imports Client_Cert Net_Addr "HOL-Library.Product_Lexorder"
begin

text \<open>
  Bindings and routing: which site answers a request, and which sockets the proxy opens.
  Bindings and the checks on them are from \<^verbatim>\<open>src/internal/model/validate.go\<close>; the route
  table, its precedence and the listeners from \<^verbatim>\<open>src/internal/proxy/server.go\<close>; QUIC
  listeners from \<^verbatim>\<open>h3.go\<close> and the route of a TLS handshake from \<^verbatim>\<open>clientcert.go\<close>.

  A route names its site by ID and its client certificate policy by the key under which
  the server keeps it. Opening a socket is an argument that gives the error, if any. The
  table and the maps of listeners are association lists: the order in which Go ranges
  over a map does not matter for what they hold in the end.
\<close>

section \<open>Addresses of sockets\<close>

definition JoinHostPort :: "string \<Rightarrow> string \<Rightarrow> string" where
  "JoinHostPort host port = (if CHR '':'' \<in> set host then ''['' @ host @ '']:'' @ port else host @ '':'' @ port)"

text \<open>\<^verbatim>\<open>net.SplitHostPort\<close>: the port is what follows the last colon.\<close>

definition last_part :: "string \<Rightarrow> string" where
  "last_part s = rev (takeWhile (\<lambda>c. c \<noteq> CHR '':'') (rev s))"

definition SplitHostPort :: "string \<Rightarrow> (string \<times> string) option" where
  "SplitHostPort s =
     (if CHR '':'' \<notin> set s then None
      else
        let port = last_part s in
        if hd s = CHR ''['' then
          (let (host, rest, found) = cut_at CHR '']'' (tl s) in
           if found \<and> rest = CHR '':'' # port \<and> CHR ''['' \<notin> set (tl s) \<and> CHR '']'' \<notin> set rest
           then Some (host, port) else None)
        else
          (let host = take (length s - Suc (length port)) s in
           if CHR '':'' \<in> set host \<or> CHR ''['' \<in> set s \<or> CHR '']'' \<in> set s then None
           else Some (host, port)))"

definition hostOnly :: "string \<Rightarrow> string" where
  "hostOnly h = (case SplitHostPort h of Some (host, _) \<Rightarrow> host | None \<Rightarrow> h)"

section \<open>Bindings\<close>

definition binding_Key :: "binding \<Rightarrow> string" where
  "binding_Key b = b_Protocol b @ ''|'' @ b_IP b @ ''|'' @ show_int (b_Port b) @ ''|'' @ b_Host b"

definition ListenAddr :: "binding \<Rightarrow> string" where
  "ListenAddr b = JoinHostPort (b_IP b) (show_int (b_Port b))"

definition binding_String :: "binding \<Rightarrow> string" where
  "binding_String b =
     b_Protocol b @ '' '' @ (if b_IP b = [] then ''*'' else b_IP b) @ '':'' @ show_int (b_Port b) @ '':'' @ b_Host b"

definition portKey :: "binding \<Rightarrow> string" where
  "portKey b = show_int (b_Port b)"

definition binding_defaults :: "binding \<Rightarrow> binding" where
  "binding_defaults b0 =
     (let b = b0 \<lparr> b_Protocol := to_lower (trim_space (b_Protocol b0)), b_Host := to_lower (trim_space (b_Host b0)),
                   b_IP := (if b_IP b0 = ''*'' then [] else b_IP b0) \<rparr>;
          b = (if b_Port b = 0 then b \<lparr> b_Port := (if b_Protocol b = ''https'' then 443 else 80) \<rparr> else b);
          b = (if b_Protocol b = ''https'' \<and> b_CertMode b = []
               then b \<lparr> b_CertMode := (if b_CertificateID b \<noteq> [] then ''certificate'' else ''auto'') \<rparr> else b);
          b = (if b_Protocol b = ''http'' then b \<lparr> b_CertMode := [], b_CertificateID := [] \<rparr> else b)
      in applyTLSDefaults b)"

text \<open>\<^verbatim>\<open>hostRe\<close>: labels of letters, digits and inner hyphens, after an optional \<^verbatim>\<open>*.\<close>\<close>

definition label_char :: "char \<Rightarrow> bool" where
  "label_char c \<longleftrightarrow> is_lower c \<or> is_digit c"

definition label_ok :: "string \<Rightarrow> bool" where
  "label_ok l \<longleftrightarrow> l \<noteq> [] \<and> length l \<le> 63 \<and> label_char (hd l) \<and> label_char (last l) \<and>
     list_all (\<lambda>c. label_char c \<or> c = CHR ''-'') l"

definition host_ok :: "string \<Rightarrow> bool" where
  "host_ok h \<longleftrightarrow> list_all label_ok (split_at_char CHR ''.'' (if prefix ''*.'' h then drop 2 h else h))"

datatype binding_error =
    BadProtocol | BadPort | NotAnIP string | NotAHost string | AutoNeedsHost | SelectCertificate | BadCertMode
  | BadClientCert policy_error | DuplicateBinding string
  | BindingTaken string string | PortProtocol int string

definition validate_binding :: "x509_env \<Rightarrow> binding \<Rightarrow> binding_error option" where
  "validate_binding env b =
     (if b_Protocol b \<noteq> ''http'' \<and> b_Protocol b \<noteq> ''https'' then Some BadProtocol
      else if b_Port b < 1 \<or> b_Port b > 65535 then Some BadPort
      else if b_IP b \<noteq> [] \<and> ParseIP (b_IP b) = None then Some (NotAnIP (b_IP b))
      else if b_Host b \<noteq> [] \<and> \<not> host_ok (b_Host b) then Some (NotAHost (b_Host b))
      else if b_Protocol b = ''https'' \<and> b_CertMode b = ''auto'' \<and> (b_Host b = [] \<or> prefix ''*.'' (b_Host b)) then Some AutoNeedsHost
      else if b_Protocol b = ''https'' \<and> b_CertMode b = ''certificate'' \<and> b_CertificateID b = [] then Some SelectCertificate
      else if b_Protocol b = ''https'' \<and> b_CertMode b \<notin> {''auto'', ''certificate''} then Some BadCertMode
      else map_option BadClientCert (validateTLS env b))"

text \<open>The bindings of one site, in order; the error with its index.\<close>

fun validate_site_bindings :: "x509_env \<Rightarrow> string list \<Rightarrow> nat \<Rightarrow> binding list \<Rightarrow> (nat \<times> binding_error) option" where
  "validate_site_bindings env seen i [] = None"
| "validate_site_bindings env seen i (b # bs) =
     (case validate_binding env b of
        Some e \<Rightarrow> Some (i, e)
      | None \<Rightarrow>
          if binding_Key b \<in> set seen then Some (i, DuplicateBinding (binding_String b))
          else validate_site_bindings env (binding_Key b # seen) (Suc i) bs)"

text \<open>
  \<^verbatim>\<open>ValidateBindings\<close>. Both maps keep the last binding written under a key, hence the
  reversed lists.
\<close>

definition other_bindings :: "site \<Rightarrow> site list \<Rightarrow> (binding \<times> string) list" where
  "other_bindings candidate others =
     concat (map (\<lambda>o'. if site_ID o' = site_ID candidate then [] else map (\<lambda>b. (b, site_Name o')) (site_Bindings o')) others)"

fun check_bindings :: "(string \<times> string) list \<Rightarrow> (string \<times> string) list \<Rightarrow> nat \<Rightarrow> binding list \<Rightarrow> (nat \<times> binding_error) option" where
  "check_bindings keys proto i [] = None"
| "check_bindings keys proto i (b # bs) =
     (case map_of keys (binding_Key b) of
        Some name \<Rightarrow> Some (i, BindingTaken (binding_String b) name)
      | None \<Rightarrow>
          (case map_of proto (portKey b) of
             Some p \<Rightarrow> if p \<noteq> b_Protocol b then Some (i, PortProtocol (b_Port b) p) else check_bindings keys proto (Suc i) bs
           | None \<Rightarrow> check_bindings keys proto (Suc i) bs))"

definition ValidateBindings :: "site \<Rightarrow> site list \<Rightarrow> (nat \<times> binding_error) option" where
  "ValidateBindings candidate others =
     (let bs = rev (other_bindings candidate others)
      in check_bindings (map (\<lambda>(b, name). (binding_Key b, name)) bs) (map (\<lambda>(b, _). (portKey b, b_Protocol b)) bs) 0
           (site_Bindings candidate))"

section \<open>Routes\<close>

record route =
  r_ip :: "ip option"
  r_host :: string
  r_binding :: binding
  r_site :: string
  r_client :: "string option"
  r_secure :: "(string \<times> string) list"

record route_table =
  t_byPort :: "(int \<times> route list) list"

definition routes_at :: "route_table \<Rightarrow> int \<Rightarrow> route list" where
  "routes_at t port = (case map_of (t_byPort t) port of None \<Rightarrow> [] | Some rs \<Rightarrow> rs)"

definition rank :: "route \<Rightarrow> int" where
  "rank r = (if r_ip r \<noteq> None then 4 else 0) +
     (if r_host r = [] then 0 else if prefix ''*.'' (r_host r) then 1 else 2)"

definition sortRoutes :: "route list \<Rightarrow> route list" where
  "sortRoutes rs = sort_key (\<lambda>r. (- rank r, - int (length (r_host r)))) rs"

definition trim_suffix :: "string \<Rightarrow> string \<Rightarrow> string" where
  "trim_suffix sfx s = (if suffix sfx s then take (length s - length sfx) s else s)"

definition hostMatches :: "string \<Rightarrow> string \<Rightarrow> bool" where
  "hostMatches pattern host =
     (if pattern = [] then True
      else if prefix ''*.'' pattern then
        (let sfx = drop 1 pattern in suffix sfx host \<and> CHR ''.'' \<notin> set (trim_suffix sfx host))
      else pattern = host)"

definition normal_host :: "string \<Rightarrow> string" where
  "normal_host host = to_lower (trim_suffix ''.'' host)"

definition route_matches :: "ip option \<Rightarrow> string \<Rightarrow> route \<Rightarrow> bool" where
  "route_matches local host r \<longleftrightarrow> (r_ip r = None \<or> r_ip r = local) \<and> hostMatches (r_host r) host"

definition match :: "route_table \<Rightarrow> int \<Rightarrow> ip option \<Rightarrow> string \<Rightarrow> route option" where
  "match t port local host = List.find (route_matches local (normal_host host)) (routes_at t port)"

definition tlsRoute :: "route_table \<Rightarrow> int \<Rightarrow> ip option \<Rightarrow> string \<Rightarrow> route option" where
  "tlsRoute t port local sni =
     (let host = to_lower sni in
      case match t port local host of
        Some r \<Rightarrow> Some r
      | None \<Rightarrow>
          (case (if host \<noteq> [] then match t port local [] else None) of
             Some r \<Rightarrow> Some r
           | None \<Rightarrow> (case routes_at t port of [] \<Rightarrow> None | r # _ \<Rightarrow> Some r)))"

section \<open>Building the table\<close>

definition clientPolicyFor ::
  "x509_env \<Rightarrow> binding \<Rightarrow> (string \<times> client_policy) list \<Rightarrow> string option \<times> (string \<times> client_policy) list" where
  "clientPolicyFor env b policies =
     (case b_ClientCert b of
        None \<Rightarrow> (None, policies)
      | Some cfg \<Rightarrow>
          if b_Protocol b \<noteq> ''https'' \<or> \<not> policy_Active (Some cfg) then (None, policies)
          else let p = fst (compileClientPolicy env cfg) in
            case map_of policies (cp_key p) of
              Some _ \<Rightarrow> (Some (cp_key p), policies)
            | None \<Rightarrow> (Some (cp_key p), AList.update (cp_key p) p policies))"

fun binding_routes ::
  "x509_env \<Rightarrow> string \<Rightarrow> (string \<times> client_policy) list \<Rightarrow> binding list \<Rightarrow> route list \<times> (string \<times> client_policy) list" where
  "binding_routes env siteID policies [] = ([], policies)"
| "binding_routes env siteID policies (b # bs) =
     (let (client, policies) = clientPolicyFor env b policies;
          r = \<lparr> r_ip = (if b_IP b \<noteq> [] then ParseIP (b_IP b) else None), r_host = b_Host b, r_binding = b,
                r_site = siteID, r_client = client, r_secure = [] \<rparr>;
          (rs, policies) = binding_routes env siteID policies bs
      in (r # rs, policies))"

definition secure_policies :: "route list \<Rightarrow> (string \<times> string) list" where
  "secure_policies rs =
     List.map_filter (\<lambda>r. if b_Protocol (r_binding r) = ''https''
       then map_option (\<lambda>k. (to_lower (r_host r), k)) (r_client r) else None) rs"

definition site_routes ::
  "x509_env \<Rightarrow> site \<Rightarrow> (string \<times> client_policy) list \<Rightarrow> route list \<times> (string \<times> client_policy) list" where
  "site_routes env s policies =
     (let (rs, policies) = binding_routes env (site_ID s) policies (site_Bindings s);
          secure = secure_policies rs
      in (map (\<lambda>r. if b_Protocol (r_binding r) \<noteq> ''https'' then r \<lparr> r_secure := secure \<rparr> else r) rs, policies))"

fun all_routes ::
  "x509_env \<Rightarrow> (site \<Rightarrow> bool) \<Rightarrow> (string \<times> client_policy) list \<Rightarrow> site list \<Rightarrow> route list \<times> (string \<times> client_policy) list" where
  "all_routes env running policies [] = ([], policies)"
| "all_routes env running policies (s # ss) =
     (let (rs, policies) = (if running s then site_routes env s policies else ([], policies));
          (rest, policies) = all_routes env running policies ss
      in (rs @ rest, policies))"

definition build_table :: "route list \<Rightarrow> route_table" where
  "build_table rs =
     \<lparr> t_byPort = map (\<lambda>port. (port, sortRoutes (filter (\<lambda>r. b_Port (r_binding r) = port) rs)))
         (remdups (map (\<lambda>r. b_Port (r_binding r)) rs)) \<rparr>"

definition prunePolicies :: "route_table \<Rightarrow> (string \<times> client_policy) list \<Rightarrow> (string \<times> client_policy) list" where
  "prunePolicies t policies =
     filter (\<lambda>kp. list_ex (\<lambda>prs. list_ex (\<lambda>r. r_client r = Some (fst kp)) (snd prs)) (t_byPort t)) policies"

section \<open>Listeners\<close>

definition protoH3 :: string where "protoH3 = ''h3''"

record want_listener =
  w_proto :: string
  w_addr :: string
  w_port :: int

definition listener_key :: "want_listener \<Rightarrow> string" where
  "listener_key w = w_proto w @ ''|'' @ w_addr w"

definition want_port :: "int \<times> route list \<Rightarrow> want_listener list" where
  "want_port pr =
     (let (port, routes) = pr;
          proto = b_Protocol (r_binding (hd routes));
          ips = remdups (List.map_filter (\<lambda>r. map_option ip_string (r_ip r)) routes)
      in if list_ex (\<lambda>r. r_ip r = None) routes
         then [\<lparr> w_proto = proto, w_addr = JoinHostPort [] (show_int port), w_port = port \<rparr>]
         else map (\<lambda>ip. \<lparr> w_proto = proto, w_addr = JoinHostPort ip (show_int port), w_port = port \<rparr>) ips)"

definition addHTTP3 :: "bool \<Rightarrow> want_listener list \<Rightarrow> want_listener list" where
  "addHTTP3 http3 want =
     (if http3 then want @ map (\<lambda>w. w \<lparr> w_proto := protoH3 \<rparr>) (filter (\<lambda>w. w_proto w = ''https'') want) else want)"

definition wanted :: "bool \<Rightarrow> route_table \<Rightarrow> want_listener list" where
  "wanted http3 t = addHTTP3 http3 (concat (map want_port (t_byPort t)))"

definition failKey :: "want_listener \<Rightarrow> string" where
  "failKey w = (if w_proto w = protoH3 then w_addr w @ '' (UDP)'' else w_addr w)"

record listeners =
  ls_open :: "(string \<times> want_listener) list"
  ls_failed :: "(string \<times> string) list"

datatype listener_event =
  ListenerClosed string string | CannotListen string string string | NowListening string string

definition open_listener ::
  "(want_listener \<Rightarrow> string option) \<Rightarrow> (string \<times> string) list \<Rightarrow> want_listener \<Rightarrow>
   listeners \<times> listener_event list \<Rightarrow> listeners \<times> listener_event list" where
  "open_listener listen prevFailed w s =
     (let (l, evs) = s in
      if map_of (ls_open l) (listener_key w) \<noteq> None then s
      else case listen w of
             Some err \<Rightarrow>
               (l \<lparr> ls_failed := AList.update (failKey w) err (ls_failed l) \<rparr>,
                if map_of prevFailed (failKey w) = None then evs @ [CannotListen (w_addr w) (w_proto w) err] else evs)
           | None \<Rightarrow>
               (l \<lparr> ls_open := AList.update (listener_key w) w (ls_open l) \<rparr>,
                if map_of prevFailed (failKey w) \<noteq> None then evs @ [NowListening (w_addr w) (w_proto w)] else evs))"

definition reconcileListeners ::
  "bool \<Rightarrow> (want_listener \<Rightarrow> string option) \<Rightarrow> route_table \<Rightarrow> listeners \<Rightarrow> listeners \<times> listener_event list" where
  "reconcileListeners http3 listen t l =
     (let want = wanted http3 t;
          unwanted = (\<lambda>kl. fst kl \<notin> listener_key ` set want);
          closed = map (\<lambda>kl. ListenerClosed (w_proto (snd kl)) (w_addr (snd kl))) (filter unwanted (ls_open l));
          l1 = \<lparr> ls_open = filter (\<lambda>kl. \<not> unwanted kl) (ls_open l), ls_failed = [] \<rparr>
      in fold (open_listener listen (ls_failed l)) want (l1, closed))"

definition hasHTTPPort80 :: "listeners \<Rightarrow> bool" where
  "hasHTTPPort80 l \<longleftrightarrow> list_ex (\<lambda>kl. w_proto (snd kl) = ''http'' \<and> w_port (snd kl) = 80) (ls_open l)"

definition Listeners :: "listeners \<Rightarrow> string list" where
  "Listeners l =
     sort (map (\<lambda>kl. w_proto (snd kl) @ '' '' @ w_addr (snd kl)) (ls_open l) @
           map (\<lambda>ke. ''FAILED '' @ fst ke @ '': '' @ snd ke) (ls_failed l))"

section \<open>HTTP/3\<close>

definition altSvcMaxAge :: int where "altSvcMaxAge = 86400"

record h3_ports =
  h3_any :: "int list"
  h3_ips :: "(int \<times> string) list"

definition updateH3Ports :: "listeners \<Rightarrow> h3_ports" where
  "updateH3Ports l =
     (let ls = filter (\<lambda>w. w_proto w = protoH3) (map snd (ls_open l));
          host = (\<lambda>w. case SplitHostPort (w_addr w) of Some (h, _) \<Rightarrow> h | None \<Rightarrow> [])
      in \<lparr> h3_any = map w_port (filter (\<lambda>w. host w = []) ls),
           h3_ips = List.map_filter (\<lambda>w. if host w = [] then None
                      else map_option (\<lambda>ip. (w_port w, ip_string ip)) (ParseIP (host w))) ls \<rparr>)"

definition local_string :: "ip option \<Rightarrow> string" where
  "local_string local = (case local of None \<Rightarrow> ''<nil>'' | Some ip \<Rightarrow> ip_string ip)"

text \<open>The Alt-Svc header to add to a response, if any.\<close>

definition advertiseHTTP3 :: "h3_ports \<Rightarrow> bool \<Rightarrow> int \<Rightarrow> int \<Rightarrow> ip option \<Rightarrow> route option \<Rightarrow> string option" where
  "advertiseHTTP3 p tls proto port local rt =
     (if \<not> tls \<or> proto \<ge> 3 then None
      else if (port, local_string local) \<in> set (h3_ips p) \<or>
              (port \<in> set (h3_any p) \<and> (case rt of None \<Rightarrow> True | Some r \<Rightarrow> r_ip r = None))
      then Some (''h3=\":'' @ show_int port @ ''\"; ma='' @ show_int altSvcMaxAge)
      else None)"

definition HTTP3Listeners :: "listeners \<Rightarrow> string list" where
  "HTTP3Listeners l =
     sort (map (\<lambda>kl. ''udp '' @ w_addr (snd kl)) (filter (\<lambda>kl. w_proto (snd kl) = protoH3) (ls_open l)) @
           List.map_filter (\<lambda>ke. if suffix '' (UDP)'' (fst ke)
             then Some (''FAILED udp '' @ trim_suffix '' (UDP)'' (fst ke) @ '': '' @ snd ke) else None) (ls_failed l))"

section \<open>The most specific binding answers\<close>

definition specificity :: "route \<Rightarrow> int \<times> int" where
  "specificity r = (rank r, int (length (r_host r)))"

definition answers :: "int \<Rightarrow> ip option \<Rightarrow> string \<Rightarrow> route \<Rightarrow> bool" where
  "answers port local host r \<longleftrightarrow> b_Port (r_binding r) = port \<and> route_matches local (normal_host host) r"

definition unambiguous :: "route list \<Rightarrow> bool" where
  "unambiguous rs \<longleftrightarrow> distinct (map (\<lambda>r. (b_Port (r_binding r), r_ip r, r_host r)) rs)"

lemma find_sorted_min:
  assumes "sorted (map f xs)" and "List.find P xs = Some x" and "y \<in> set xs" and "P y"
  shows "f x \<le> f y"
  using assms by (induction xs) (auto split: if_splits)

lemma find_SomeD: "List.find P xs = Some x \<Longrightarrow> x \<in> set xs \<and> P x"
  by (induction xs) (auto split: if_splits)

lemma routes_at_build:
  "routes_at (build_table rs) port = sortRoutes (filter (\<lambda>r. b_Port (r_binding r) = port) rs)"
proof -
  have map_of: "map_of (map (\<lambda>p. (p, f p)) ps) port = (if port \<in> set ps then Some (f port) else None)" for f :: "int \<Rightarrow> route list" and ps
    by (induction ps) auto
  have "sortRoutes (filter (\<lambda>r. b_Port (r_binding r) = port) rs) = []" if "port \<notin> (\<lambda>r. b_Port (r_binding r)) ` set rs"
  proof -
    have "filter (\<lambda>r. b_Port (r_binding r) = port) rs = []" using that by (auto simp: filter_empty_conv)
    then show ?thesis by (simp add: sortRoutes_def)
  qed
  then show ?thesis by (simp add: routes_at_def build_table_def map_of)
qed

lemma wildcard_same:
  assumes "prefix ''*.'' p" "prefix ''*.'' q" "length p = length q" "suffix (drop 1 p) h" "suffix (drop 1 q) h"
  shows "p = q"
proof -
  have "length (drop 1 p) = length (drop 1 q)" using assms(3) by simp
  then have "drop 1 p = drop 1 q" using assms(4,5) by (metis suffix_length_suffix suffix_order.antisym le_refl)
  moreover have "p = CHR ''*'' # drop 1 p" "q = CHR ''*'' # drop 1 q" using assms(1,2) by (auto simp: prefix_def)
  ultimately show ?thesis by metis
qed

lemma equally_specific:
  assumes "route_matches local h r" and "route_matches local h r'" and "specificity r = specificity r'"
  shows "r_ip r = r_ip r' \<and> r_host r = r_host r'"
proof -
  define c where "c = (\<lambda>r :: route. if r_host r = [] then 0 :: int else if prefix ''*.'' (r_host r) then 1 else 2)"
  have rank: "rank r = (if r_ip r \<noteq> None then 4 else 0) + c r" for r by (simp add: rank_def c_def)
  have c: "0 \<le> c r \<and> c r \<le> 2" for r by (simp add: c_def)
  have "rank r = rank r'" and len: "length (r_host r) = length (r_host r')" using assms(3) by (simp_all add: specificity_def)
  then have ip: "(r_ip r = None) = (r_ip r' = None)" and cc: "c r = c r'"
    using c [of r] c [of r'] unfolding rank by (auto split: if_splits)
  have "r_ip r = r_ip r'" using assms(1,2) ip by (auto simp: route_matches_def)
  moreover have "r_host r = r_host r'"
  proof (cases "prefix ''*.'' (r_host r)")
    case True
    then have "prefix ''*.'' (r_host r')" using cc by (auto simp: c_def split: if_splits)
    with True show ?thesis
      using wildcard_same [OF True _ len] assms(1,2) by (auto simp: route_matches_def hostMatches_def Let_def split: if_splits)
  next
    case False
    then have "\<not> prefix ''*.'' (r_host r')" using cc by (auto simp: c_def split: if_splits)
    with False show ?thesis using assms(1,2) len by (auto simp: route_matches_def hostMatches_def split: if_splits)
  qed
  ultimately show ?thesis ..
qed



section \<open>Sockets\<close>

lemma ip_string_ne: "ip_string w \<noteq> []"
  using ip_codec.dec_enc [of w] by (auto simp: ParseIP_def)

lemma JoinHostPort_inj: "JoinHostPort h p = JoinHostPort h' p \<longleftrightarrow> h = h'"
proof -
  have "CHR '':'' \<in> set b" if "CHR ''['' # a @ CHR '']'' # CHR '':'' # p = b @ CHR '':'' # p" "CHR '':'' \<in> set a" for a b
  proof -
    have "(CHR ''['' # a @ [CHR '']'']) @ CHR '':'' # p = b @ CHR '':'' # p" using that(1) by simp
    then have "b = CHR ''['' # a @ [CHR '']'']" unfolding append_same_eq by simp
    then show ?thesis using that(2) by simp
  qed
  from this [of h h'] this [of h' h] show ?thesis by (auto simp: JoinHostPort_def)
qed

lemma wildcard_addr: "s \<noteq> [] \<Longrightarrow> JoinHostPort s port \<noteq> JoinHostPort [] port"
  by (auto simp: JoinHostPort_def)

lemma want_port_at:
  assumes "w \<in> set (concat (map want_port (t_byPort (build_table rs))))"
  shows "w \<in> set (want_port (w_port w, routes_at (build_table rs) (w_port w)))"
    and "\<exists>r\<in>set rs. w_proto w = b_Protocol (r_binding r)"
proof -
  let ?R = "\<lambda>port. sortRoutes (filter (\<lambda>r. b_Port (r_binding r) = port) rs)"
  obtain port where port: "port \<in> (\<lambda>r. b_Port (r_binding r)) ` set rs" "w \<in> set (want_port (port, ?R port))"
    using assms by (auto simp: build_table_def)
  have "w_port w = port" using port(2) by (auto simp: want_port_def Let_def split: if_splits)
  with port(2) show "w \<in> set (want_port (w_port w, routes_at (build_table rs) (w_port w)))"
    by (simp add: routes_at_build)
  have "?R port \<noteq> []" using port(1) by (auto simp: sortRoutes_def filter_empty_conv simp flip: set_empty)
  then have "hd (?R port) \<in> set rs" using hd_in_set [of "?R port"] by (simp add: sortRoutes_def)
  moreover have "w_proto w = b_Protocol (r_binding (hd (?R port)))"
    using port(2) by (auto simp: want_port_def Let_def split: if_splits)
  ultimately show "\<exists>r\<in>set rs. w_proto w = b_Protocol (r_binding r)" by blast
qed

lemma want_port_apart:
  assumes "w \<in> set (want_port (port, routes))" and "v \<in> set (want_port (port, routes))" and "w \<noteq> v"
  shows "w_addr w \<noteq> w_addr v" and "w_addr w \<noteq> JoinHostPort [] (show_int port)"
    and "w_addr v \<noteq> JoinHostPort [] (show_int port)"
proof -
  have ips: "\<not> list_ex (\<lambda>r. r_ip r = None) routes" using assms by (auto simp: want_port_def Let_def split: if_splits)
  then obtain i j where "w_addr w = JoinHostPort (ip_string i) (show_int port)"
    "w_addr v = JoinHostPort (ip_string j) (show_int port)"
    using assms(1,2) by (auto simp: want_port_def map_filter_def)
  then show "w_addr w \<noteq> JoinHostPort [] (show_int port)" "w_addr v \<noteq> JoinHostPort [] (show_int port)"
    by (simp_all add: wildcard_addr ip_string_ne)
  have "w_proto w = w_proto v" "w_port w = w_port v" using assms(1,2) ips by (auto simp: want_port_def)
  then show "w_addr w \<noteq> w_addr v" using assms(3) by (cases w; cases v) auto
qed




section \<open>Conflicting bindings\<close>

lemma show_int_inj: "show_int m = show_int n \<longleftrightarrow> m = n"
proof -
  have "show_nat k \<noteq> CHR ''-'' # s" for k s
    using show_nat_digits [of k] digit_not_sign [of "CHR ''-''"] by (metis list.pred_inject(2))
  from this this [symmetric] show ?thesis by (auto simp: show_int_def show_nat_inj)
qed

lemma portKey_eq: "portKey b = portKey b' \<longleftrightarrow> b_Port b = b_Port b'"
  by (simp add: portKey_def show_int_inj)

definition one_protocol :: "binding list \<Rightarrow> bool" where
  "one_protocol bs \<longleftrightarrow> (\<forall>b\<in>set bs. \<forall>b'\<in>set bs. b_Port b = b_Port b' \<longrightarrow> b_Protocol b = b_Protocol b')"

definition compatible :: "binding \<Rightarrow> binding \<Rightarrow> bool" where
  "compatible b b' \<longleftrightarrow> binding_Key b \<noteq> binding_Key b' \<and> (b_Port b = b_Port b' \<longrightarrow> b_Protocol b = b_Protocol b')"

lemma check_bindings_None:
  "check_bindings keys proto i bs = None \<longleftrightarrow>
   list_all (\<lambda>b. map_of keys (binding_Key b) = None \<and> map_of proto (portKey b) \<in> {None, Some (b_Protocol b)}) bs"
  by (induction bs arbitrary: i) (auto split: option.splits)

lemma first_protocol:
  "one_protocol (map fst bs) \<Longrightarrow>
   map_of (map (\<lambda>(b, _). (portKey b, b_Protocol b)) bs) k \<in> {None, Some p} \<longleftrightarrow>
   list_all (\<lambda>o'. portKey (fst o') = k \<longrightarrow> b_Protocol (fst o') = p) bs"
proof (induction bs)
  case (Cons c bs)
  have "one_protocol (map fst bs)" using Cons.prems unfolding one_protocol_def list.map by (meson list.set_intros(2))
  then have IH: "map_of (map (\<lambda>(b, _). (portKey b, b_Protocol b)) bs) k \<in> {None, Some p} \<longleftrightarrow>
      list_all (\<lambda>o'. portKey (fst o') = k \<longrightarrow> b_Protocol (fst o') = p) bs"
    by (rule Cons.IH)
  have same: "b_Protocol (fst c') = b_Protocol (fst c)" if "c' \<in> set bs" "portKey (fst c') = portKey (fst c)" for c'
  proof -
    have "fst c' \<in> set (map fst (c # bs))" "fst c \<in> set (map fst (c # bs))" using that(1) by simp_all
    then show ?thesis using Cons.prems that(2) unfolding one_protocol_def portKey_eq by blast
  qed
  show ?case
  proof (cases "portKey (fst c) = k")
    case True
    then have "map_of (map (\<lambda>(b, _). (portKey b, b_Protocol b)) (c # bs)) k = Some (b_Protocol (fst c))"
      by (simp add: case_prod_unfold)
    then show ?thesis using True same unfolding list_all_iff by (simp del: map_of.simps) metis
  next
    case False
    then show ?thesis using IH by (simp add: case_prod_unfold)
  qed
qed simp



text \<open>
  What that check leaves out: the bindings of one site are compared by key only, so a
  site may bind a port for both http and https. Both checks accept it, one listener opens,
  and it speaks the protocol of the route that sorts first: here requests for the https
  binding are answered in plain HTTP.
\<close>

theorem own_port_for_both_protocols:
  "let b = \<lparr> b_Protocol = ''http'', b_IP = [], b_Port = 8080, b_Host = ''a.b'', b_CertMode = [], b_CertificateID = [], b_ClientCert = None, b_Slot = [] \<rparr>;
       c = \<lparr> b_Protocol = ''https'', b_IP = [], b_Port = 8080, b_Host = [], b_CertMode = ''certificate'', b_CertificateID = ''c1'', b_ClientCert = None, b_Slot = [] \<rparr>;
       s = \<lparr> site_ID = ''s'', site_Name = ''s'', site_Type = SiteStatic, site_Bindings = [b, c], site_Node = None,
             site_Tasks = [], site_Alerts = \<lparr> sa_Disabled = False, sa_Rules = [] \<rparr>, site_ActiveRelease = [], site_Slots = [], site_Slot = [] \<rparr>
   in validate_site_bindings env [] 0 (site_Bindings s) = None \<and> ValidateBindings s [] = None \<and>
      map w_proto (wanted False (build_table (fst (all_routes env (\<lambda>s. True) [] [s])))) = [''http'']"
proof -
  let ?b = "\<lparr> b_Protocol = ''http'', b_IP = [], b_Port = 8080, b_Host = ''a.b'', b_CertMode = [], b_CertificateID = [], b_ClientCert = None, b_Slot = [] \<rparr> :: binding"
  let ?c = "\<lparr> b_Protocol = ''https'', b_IP = [], b_Port = 8080, b_Host = [], b_CertMode = ''certificate'', b_CertificateID = ''c1'', b_ClientCert = None, b_Slot = [] \<rparr> :: binding"
  have host: "host_ok ''a.b''" by code_simp
  have "validate_site_bindings env [] 0 [?b, ?c] = None"
    using host by (simp add: validate_binding_def validateTLS_def binding_Key_def)
  moreover have "map w_proto (wanted False (build_table (fst (all_routes env (\<lambda>s. True) []
      [\<lparr> site_ID = ''s'', site_Name = ''s'', site_Type = SiteStatic, site_Bindings = [?b, ?c], site_Node = None,
             site_Tasks = [], site_Alerts = \<lparr> sa_Disabled = False, sa_Rules = [] \<rparr>, site_ActiveRelease = [], site_Slots = [], site_Slot = [] \<rparr>])))) = [''http'']"
    by (simp add: site_routes_def clientPolicyFor_def secure_policies_def map_filter_def wanted_def build_table_def
        sortRoutes_def rank_def want_port_def addHTTP3_def Let_def)
  ultimately show ?thesis by (simp add: Let_def ValidateBindings_def other_bindings_def)
qed

section \<open>Reconciling\<close>

text \<open>The listeners after a reload, whatever was open before.\<close>

lemma open_listener_mono:
  "fst (open_listener listen prev w (l, evs)) = l' \<Longrightarrow>
   dom (map_of (ls_open l)) \<subseteq> dom (map_of (ls_open l')) \<and> dom (map_of (ls_failed l)) \<subseteq> dom (map_of (ls_failed l'))"
  by (auto simp: open_listener_def go_map split: option.splits if_splits)

definition failed_keys :: "(want_listener \<Rightarrow> string option) \<Rightarrow> want_listener list \<Rightarrow> string set" where
  "failed_keys listen ws = failKey ` {w \<in> set ws. listen w \<noteq> None}"

lemma failed_keys_Cons: "failed_keys listen (w # ws) = failed_keys listen [w] \<union> failed_keys listen ws"
  by (auto simp: failed_keys_def)

lemma open_listeners:
  assumes "fst (fold (open_listener listen prev) ws (l, evs)) = l'"
  shows "dom (map_of (ls_open l)) \<subseteq> dom (map_of (ls_open l'))"
    and "dom (map_of (ls_failed l)) \<subseteq> dom (map_of (ls_failed l'))"
    and "dom (map_of (ls_open l')) \<subseteq> dom (map_of (ls_open l)) \<union> listener_key ` set ws"
    and "dom (map_of (ls_failed l')) \<subseteq> dom (map_of (ls_failed l)) \<union> failed_keys listen ws"
    and "w \<in> set ws \<Longrightarrow> listener_key w \<in> dom (map_of (ls_open l')) \<or> failKey w \<in> dom (map_of (ls_failed l')) \<and> listen w \<noteq> None"
proof -
  have "dom (map_of (ls_open l)) \<subseteq> dom (map_of (ls_open l')) \<and> dom (map_of (ls_failed l)) \<subseteq> dom (map_of (ls_failed l')) \<and>
    dom (map_of (ls_open l')) \<subseteq> dom (map_of (ls_open l)) \<union> listener_key ` set ws \<and>
    dom (map_of (ls_failed l')) \<subseteq> dom (map_of (ls_failed l)) \<union> failed_keys listen ws \<and>
    (\<forall>w\<in>set ws. listener_key w \<in> dom (map_of (ls_open l')) \<or> failKey w \<in> dom (map_of (ls_failed l')) \<and> listen w \<noteq> None)"
    using assms
  proof (induction ws arbitrary: l evs)
    case Nil
    then show ?case by simp
  next
    case (Cons w ws)
    obtain l1 evs1 where o1: "open_listener listen prev w (l, evs) = (l1, evs1)" by fastforce
    have mono: "dom (map_of (ls_open l)) \<subseteq> dom (map_of (ls_open l1))" "dom (map_of (ls_failed l)) \<subseteq> dom (map_of (ls_failed l1))"
      using open_listener_mono [of listen prev w l evs l1] o1 by simp_all
    have step: "dom (map_of (ls_open l1)) \<subseteq> insert (listener_key w) (dom (map_of (ls_open l)))"
      "dom (map_of (ls_failed l1)) \<subseteq> dom (map_of (ls_failed l)) \<union> failed_keys listen [w]"
      "listener_key w \<in> dom (map_of (ls_open l1)) \<or> failKey w \<in> dom (map_of (ls_failed l1)) \<and> listen w \<noteq> None"
      using o1 by (auto simp: open_listener_def go_map failed_keys_def split: option.splits if_splits)
    have "fst (fold (open_listener listen prev) ws (l1, evs1)) = l'" using Cons.prems o1 by simp
    note IH = Cons.IH [OF this]
    have "dom (map_of (ls_open l')) \<subseteq> dom (map_of (ls_open l)) \<union> listener_key ` set (w # ws)"
      unfolding list.set image_insert using IH step(1) by blast
    moreover have "dom (map_of (ls_failed l')) \<subseteq> dom (map_of (ls_failed l)) \<union> failed_keys listen (w # ws)"
      unfolding failed_keys_Cons [of listen w ws] using IH step(2) by blast
    ultimately show ?case
      unfolding list.set using IH mono step(3) by (metis insert_iff order.trans subsetD)
  qed
  then show "dom (map_of (ls_open l)) \<subseteq> dom (map_of (ls_open l'))"
    "dom (map_of (ls_failed l)) \<subseteq> dom (map_of (ls_failed l'))"
    "dom (map_of (ls_open l')) \<subseteq> dom (map_of (ls_open l)) \<union> listener_key ` set ws"
    "dom (map_of (ls_failed l')) \<subseteq> dom (map_of (ls_failed l)) \<union> failed_keys listen ws"
    "w \<in> set ws \<Longrightarrow> listener_key w \<in> dom (map_of (ls_open l')) \<or> failKey w \<in> dom (map_of (ls_failed l')) \<and> listen w \<noteq> None"
    by blast+
qed

text \<open>
  After a reload the sockets are those of the configuration, whatever was open before:
  everything that is open is wanted, everything wanted is open or reported as failed, and
  only sockets that could not be opened are reported.
\<close>

theorem listeners_follow_configuration:
  "let l' = fst (reconcileListeners http3 listen t l); want = wanted http3 t in
   dom (map_of (ls_open l')) \<subseteq> listener_key ` set want \<and>
   list_all (\<lambda>w. case map_of (ls_open l') (listener_key w) of
       Some _ \<Rightarrow> True | None \<Rightarrow> listen w \<noteq> None \<and> map_of (ls_failed l') (failKey w) \<noteq> None) want \<and>
   dom (map_of (ls_failed l')) \<subseteq> failed_keys listen want"
proof -
  let ?want = "wanted http3 t"
  let ?l1 = "\<lparr> ls_open = filter (\<lambda>kl. fst kl \<in> listener_key ` set ?want) (ls_open l), ls_failed = [] \<rparr> :: listeners"
  let ?c = "map (\<lambda>kl. ListenerClosed (w_proto (snd kl)) (w_addr (snd kl)))
      (filter (\<lambda>kl. fst kl \<notin> listener_key ` set ?want) (ls_open l))"
  let ?l' = "fst (reconcileListeners http3 listen t l)"
  have "fst (fold (open_listener listen (ls_failed l)) ?want (?l1, ?c)) = ?l'"
    by (simp add: reconcileListeners_def Let_def)
  note o = open_listeners [OF this]
  have "dom (map_of (ls_open ?l1)) \<subseteq> listener_key ` set ?want"
    by (auto simp: dom_map_of_conv_image_fst)
  then have "dom (map_of (ls_open ?l')) \<subseteq> listener_key ` set ?want" using o(3) by blast
  moreover have "dom (map_of (ls_failed ?l')) \<subseteq> failed_keys listen ?want" using o(4) by simp
  moreover have "list_all (\<lambda>w. case map_of (ls_open ?l') (listener_key w) of
       Some _ \<Rightarrow> True | None \<Rightarrow> listen w \<noteq> None \<and> map_of (ls_failed ?l') (failKey w) \<noteq> None) ?want"
    unfolding list_all_iff
  proof
    fix w assume "w \<in> set ?want"
    from o(5) [OF this] show "case map_of (ls_open ?l') (listener_key w) of
       Some _ \<Rightarrow> True | None \<Rightarrow> listen w \<noteq> None \<and> map_of (ls_failed ?l') (failKey w) \<noteq> None"
      by (cases "map_of (ls_open ?l') (listener_key w)") auto
  qed
  ultimately show ?thesis unfolding Let_def by blast
qed

end
