(* ===== verification/Affinity.thy ===== *)
theory Affinity
  imports Net_Addr
begin

text \<open>
  Session affinity cookies (\<^verbatim>\<open>src/internal/proxy/affinity.go\<close>): a signed name of the
  backend that answered a client first.

  Bytes are natural numbers below 256. The unpadded URL alphabet of base 64 that the
  cookie is written in is modelled as \<^verbatim>\<open>encoding/base64\<close> has it, with the strict decoder.
  HMAC-SHA-256 is the argument \<open>hmac\<close>, a function of the key and the message; what is
  used of it is that it returns 32 bytes.
\<close>

section \<open>Base 64\<close>

definition b64_char :: "nat \<Rightarrow> char" where
  "b64_char n =
     (if n < 26 then char_of (65 + n) else if n < 52 then char_of (71 + n)
      else if n < 62 then char_of (n - 4) else if n = 62 then CHR ''-'' else CHR ''_'')"

definition b64_val :: "char \<Rightarrow> nat option" where
  "b64_val c =
     (let n = (of_char c :: nat) in
      if 65 \<le> n \<and> n \<le> 90 then Some (n - 65)
      else if 97 \<le> n \<and> n \<le> 122 then Some (n - 71)
      else if 48 \<le> n \<and> n \<le> 57 then Some (n + 4)
      else if n = 45 then Some 62
      else if n = 95 then Some 63
      else None)"

fun b64_encode :: "nat list \<Rightarrow> string" where
  "b64_encode [] = []"
| "b64_encode [a] = map b64_char (digits_base 64 2 (undigits 256 [a] * 16))"
| "b64_encode [a, b] = map b64_char (digits_base 64 3 (undigits 256 [a, b] * 4))"
| "b64_encode (a # b # c # r) = map b64_char (digits_base 64 4 (undigits 256 [a, b, c])) @ b64_encode r"

text \<open>The strict decoder: unused trailing bits must be zero.\<close>

fun b64_decode :: "nat list \<Rightarrow> nat list option" where
  "b64_decode [] = Some []"
| "b64_decode [w] = None"
| "b64_decode [w, x] =
     (let n = undigits 64 [w, x] in if n mod 16 = 0 then Some (digits_base 256 1 (n div 16)) else None)"
| "b64_decode [w, x, y] =
     (let n = undigits 64 [w, x, y] in if n mod 4 = 0 then Some (digits_base 256 2 (n div 4)) else None)"
| "b64_decode (w # x # y # z # r) = map_option (\<lambda>bs. digits_base 256 3 (undigits 64 [w, x, y, z]) @ bs) (b64_decode r)"

definition b64_DecodeString :: "string \<Rightarrow> nat list option" where
  "b64_DecodeString s = (case opt_list (map b64_val s) of None \<Rightarrow> None | Some vs \<Rightarrow> b64_decode vs)"

definition bytes_ok :: "nat list \<Rightarrow> bool" where
  "bytes_ok bs \<longleftrightarrow> list_all (\<lambda>b. b < 256) bs"

lemma digits_undigits: "list_all (\<lambda>g. g < b) gs \<Longrightarrow> digits_base b (length gs) (undigits b gs) = gs"
proof (induction gs rule: rev_induct)
  case Nil
  then show ?case by simp
next
  case (snoc g gs)
  then have g: "g < b" and gs: "digits_base b (length gs) (undigits b gs) = gs" by auto
  have "undigits b (gs @ [g]) = undigits b gs * b + g" by (simp add: undigits_def)
  moreover have "(undigits b gs * b + g) div b = undigits b gs" "(undigits b gs * b + g) mod b = g"
    using g by simp_all
  ultimately show ?case using gs by simp
qed

lemma undigits_less: "list_all (\<lambda>g. g < b) gs \<Longrightarrow> undigits b gs < b ^ length gs"
proof (induction gs rule: rev_induct)
  case Nil
  then show ?case by (simp add: undigits_def)
next
  case (snoc g gs)
  then have "g < b" "Suc (undigits b gs) \<le> b ^ length gs" by auto
  moreover have "Suc (undigits b gs) * b \<le> b ^ length gs * b"
    using calculation(2) by (rule mult_right_mono) simp
  ultimately show ?case by (simp add: undigits_def mult.commute)
qed

lemma b64_val_char: "n < 64 \<Longrightarrow> b64_val (b64_char n) = Some n"
  by (auto simp: b64_val_def b64_char_def Let_def)

lemma b64_read:
  "opt_list (map b64_val (map b64_char (digits_base 64 k n) @ s)) =
     map_option ((@) (digits_base 64 k n)) (opt_list (map b64_val s))"
proof -
  have app: "opt_list (map Some xs @ ys) = map_option ((@) xs) (opt_list ys)" for xs :: "nat list" and ys
    by (induction xs) (auto simp: option.map_comp comp_def option.map_ident)
  have "map b64_val (map b64_char (digits_base 64 k n)) = map Some (digits_base 64 k n)"
    using digits_bound [of 64 _ k n] by (auto simp: b64_val_char)
  then show ?thesis by (simp only: map_append app)
qed

lemma undigits_mod: "undigits b (digits_base b k n) = n" if "n < b ^ k"
  using that by (simp add: undigits_digits)

lemma b64_chunk:
  assumes "list_all (\<lambda>b. b < 256) bs" and "undigits 256 bs * m < 64 ^ k" and "0 < m"
  shows "undigits 64 (digits_base 64 k (undigits 256 bs * m)) div m = undigits 256 bs"
    and "undigits 64 (digits_base 64 k (undigits 256 bs * m)) mod m = 0"
  using assms by (simp_all add: undigits_mod)

lemma digits_list:
  "digits_base b 2 n = [n div b mod b, n mod b]"
  "digits_base b 3 n = [n div b div b mod b, n div b mod b, n mod b]"
  "digits_base b 4 n = [n div b div b div b mod b, n div b div b mod b, n div b mod b, n mod b]"
  by (simp_all add: eval_nat_numeral)

lemma b64_roundtrip: "bytes_ok bs \<Longrightarrow> b64_DecodeString (b64_encode bs) = Some bs"
proof -
  have "\<exists>vs. opt_list (map b64_val (b64_encode bs)) = Some vs \<and> b64_decode vs = Some bs" if "bytes_ok bs" for bs
    using that
  proof (induction bs rule: b64_encode.induct)
    case 1
    then show ?case by simp
  next
    case (2 a)
    have ok: "list_all (\<lambda>b. b < 256) [a]" using 2 by (simp add: bytes_ok_def)
    have lt: "undigits 256 [a] * 16 < 64 ^ 2" using undigits_less [OF ok] by simp
    note C = b64_chunk [OF ok lt]
    have "digits_base 256 1 (undigits 256 [a]) = [a]" using digits_undigits [OF ok] by simp
    moreover have "b64_decode (digits_base 64 2 (undigits 256 [a] * 16))
        = Some (digits_base 256 1 (undigits 256 [a]))"
      using C by (simp only: digits_list) (simp add: Let_def)
    ultimately show ?case using b64_read [of 2 "undigits 256 [a] * 16" "[]"] by simp
  next
    case (3 a b)
    have ok: "list_all (\<lambda>b. b < 256) [a, b]" using 3 by (simp add: bytes_ok_def)
    have lt: "undigits 256 [a, b] * 4 < 64 ^ 3" using undigits_less [OF ok] by simp
    note C = b64_chunk [OF ok lt]
    have "digits_base 256 2 (undigits 256 [a, b]) = [a, b]" using digits_undigits [OF ok] by (simp add: digits_list)
    moreover have "b64_decode (digits_base 64 3 (undigits 256 [a, b] * 4))
        = Some (digits_base 256 2 (undigits 256 [a, b]))"
      using C by (simp only: digits_list(2)) (simp add: Let_def)
    ultimately show ?case using b64_read [of 3 "undigits 256 [a, b] * 4" "[]"] by simp
  next
    case (4 a b c r)
    have ok: "list_all (\<lambda>b. b < 256) [a, b, c]" and r: "bytes_ok r" using 4 by (simp_all add: bytes_ok_def)
    have lt: "undigits 256 [a, b, c] < 64 ^ 4" using undigits_less [OF ok] by simp
    obtain vs where vs: "opt_list (map b64_val (b64_encode r)) = Some vs" "b64_decode vs = Some r"
      using 4 r by blast
    have d: "digits_base 256 3 (undigits 64 (digits_base 64 4 (undigits 256 [a, b, c]))) = [a, b, c]"
      using digits_undigits [OF ok] undigits_mod [OF lt] by (simp add: digits_list(2))
    then have "b64_decode (digits_base 64 4 (undigits 256 [a, b, c]) @ vs) = Some (a # b # c # r)"
      using vs(2) by (simp only: digits_list(3)) simp
    then show ?case
      using b64_read [of 4 "undigits 256 [a, b, c]" "b64_encode r"] vs(1) by simp
  qed
  then show "bytes_ok bs \<Longrightarrow> ?thesis" by (force simp: b64_DecodeString_def)
qed


section \<open>The cookie\<close>

definition noSlot :: int where "noSlot = - 1"

definition affPayloadLen :: nat where "affPayloadLen = 8 + 2 + 4"
definition affTagLen :: nat where "affTagLen = 12"

record affinity_cookie =
  ck_member :: "nat list"
  ck_slot :: int
  ck_issued :: int

text \<open>The bytes of a Go string.\<close>

definition str_bytes :: "string \<Rightarrow> nat list" where
  "str_bytes = map of_char"

type_synonym mac = "nat list \<Rightarrow> nat list \<Rightarrow> nat list"

record affinity_runtime =
  af_key :: "nat list"
  af_siteID :: string
  af_name :: string
  af_lifetime :: duration
  af_localID :: "nat list"

definition memberID :: "mac \<Rightarrow> nat list \<Rightarrow> string \<Rightarrow> string \<Rightarrow> nat list" where
  "memberID hmac key siteID name =
     take 8 (hmac key (str_bytes (''member'' @ [CHR 0x00] @ siteID @ [CHR 0x00] @ name)))"

definition newAffinity :: "mac \<Rightarrow> nat list \<Rightarrow> string \<Rightarrow> string \<Rightarrow> int \<Rightarrow> affinity_runtime" where
  "newAffinity hmac key siteID name lifetimeSec =
     \<lparr> af_key = key, af_siteID = siteID, af_name = name, af_lifetime = lifetimeSec * second,
       af_localID = memberID hmac key siteID ''local'' \<rparr>"

definition aff_tag :: "mac \<Rightarrow> affinity_runtime \<Rightarrow> nat list \<Rightarrow> nat list" where
  "aff_tag hmac a payload =
     take affTagLen (hmac (af_key a) (str_bytes (''nhaff1'' @ [CHR 0x00] @ af_siteID a @ [CHR 0x00]) @ payload))"

text \<open>\<^verbatim>\<open>uint16(c.slot)\<close>, \<^verbatim>\<open>uint32(c.issued)\<close> and big-endian bytes.\<close>

definition aff_payload :: "affinity_cookie \<Rightarrow> nat list" where
  "aff_payload c =
     take 8 (ck_member c @ replicate 8 0) @
     digits_base 256 2 (if ck_slot c \<ge> 0 then nat (ck_slot c mod 2 ^ 16) else 65535) @
     digits_base 256 4 (nat (ck_issued c mod 2 ^ 32))"

definition aff_encode :: "mac \<Rightarrow> affinity_runtime \<Rightarrow> affinity_cookie \<Rightarrow> string" where
  "aff_encode hmac a c = b64_encode (aff_payload c @ aff_tag hmac a (aff_payload c))"

definition aff_decode :: "mac \<Rightarrow> affinity_runtime \<Rightarrow> string \<Rightarrow> affinity_cookie option" where
  "aff_decode hmac a v =
     (case b64_DecodeString v of
        None \<Rightarrow> None
      | Some b \<Rightarrow>
          if length b \<noteq> affPayloadLen + affTagLen then None
          else if drop affPayloadLen b \<noteq> aff_tag hmac a (take affPayloadLen b) then None
          else
            (let s = undigits 256 (take 2 (drop 8 b))
             in Some \<lparr> ck_member = take 8 b, ck_slot = (if s \<noteq> 65535 then int s else noSlot),
                       ck_issued = int (undigits 256 (take 4 (drop 10 b))) \<rparr>))"

section \<open>Following a request\<close>

record affinity_state =
  as_name :: string
  as_secure :: bool
  as_in :: "affinity_cookie option"
  as_chosen :: bool
  as_member :: "nat list"
  as_slot :: int
  as_multi :: bool

text \<open>\<open>as_in\<close> is the genuine cookie the request presented, if any: \<^verbatim>\<open>st.in\<close> where \<^verbatim>\<open>st.valid\<close>.\<close>

definition affinityState_new :: "mac \<Rightarrow> affinity_runtime \<Rightarrow> bool \<Rightarrow> bool \<Rightarrow> (string \<Rightarrow> string option) \<Rightarrow> affinity_state" where
  "affinityState_new hmac a hop secure cookie =
     (let name = (if hop then af_name a @ ''-hop'' else af_name a)
      in \<lparr> as_name = name, as_secure = secure,
           as_in = (case cookie name of None \<Rightarrow> None | Some v \<Rightarrow> aff_decode hmac a v),
           as_chosen = False, as_member = [], as_slot = noSlot, as_multi = False \<rparr>)"

definition aff_pinned :: "affinity_state \<Rightarrow> nat list option" where
  "aff_pinned st = map_option ck_member (as_in st)"

definition pinnedSlot :: "affinity_runtime \<Rightarrow> affinity_state \<Rightarrow> int" where
  "pinnedSlot a st =
     (case as_in st of
        None \<Rightarrow> noSlot
      | Some c \<Rightarrow> if ck_member c \<noteq> af_localID a then noSlot else ck_slot c)"

record set_cookie =
  sc_Name :: string
  sc_Value :: string
  sc_Secure :: bool
  sc_MaxAge :: int
  sc_Expires :: "instant option"

text \<open>\<^verbatim>\<open>setCookie\<close>; \<open>unix\<close> is the clock in seconds of the Unix epoch, \<open>epoch\<close> its instant.\<close>

definition setCookie :: "mac \<Rightarrow> affinity_runtime \<Rightarrow> instant \<Rightarrow> instant \<Rightarrow> affinity_state \<Rightarrow> set_cookie option" where
  "setCookie hmac a epoch now st =
     (if \<not> as_chosen st \<or> \<not> as_multi st then None
      else if (case as_in st of
                 None \<Rightarrow> False
               | Some c \<Rightarrow> ck_member c = as_member st \<and> ck_slot c = as_slot st \<and>
                   (af_lifetime a = 0 \<or> time_sub now (epoch + ck_issued c * second) < af_lifetime a div 2))
      then None
      else Some
        \<lparr> sc_Name = as_name st,
          sc_Value = aff_encode hmac a
            \<lparr> ck_member = as_member st, ck_slot = as_slot st, ck_issued = (now - epoch) div second \<rparr>,
          sc_Secure = as_secure st,
          sc_MaxAge = (if af_lifetime a > 0 then af_lifetime a div second else 0),
          sc_Expires = (if af_lifetime a > 0 then Some (now + af_lifetime a) else None) \<rparr>)"

section \<open>A cookie is read back, and only a signed one\<close>

definition cookie_ok :: "affinity_cookie \<Rightarrow> bool" where
  "cookie_ok c \<longleftrightarrow> length (ck_member c) = 8 \<and> bytes_ok (ck_member c) \<and>
     (ck_slot c = noSlot \<or> (0 \<le> ck_slot c \<and> ck_slot c < 65535)) \<and> 0 \<le> ck_issued c \<and> ck_issued c < 2 ^ 32"

definition mac_ok :: "mac \<Rightarrow> bool" where
  "mac_ok hmac \<longleftrightarrow> (\<forall>k m. length (hmac k m) = 32 \<and> bytes_ok (hmac k m))"

lemma payload_parts:
  assumes "cookie_ok c"
  shows "length (aff_payload c) = 14" "bytes_ok (aff_payload c)" "take 8 (aff_payload c) = ck_member c"
    "undigits 256 (take 2 (drop 8 (aff_payload c))) = (if ck_slot c \<ge> 0 then nat (ck_slot c) else 65535)"
    "undigits 256 (take 4 (drop 10 (aff_payload c))) = nat (ck_issued c)"
proof -
  let ?s = "if ck_slot c \<ge> 0 then nat (ck_slot c mod 2 ^ 16) else 65535" and ?i = "nat (ck_issued c mod 2 ^ 32)"
  have m: "length (ck_member c) = 8" "bytes_ok (ck_member c)" using assms by (simp_all add: cookie_ok_def)
  have p: "aff_payload c = ck_member c @ digits_base 256 2 ?s @ digits_base 256 4 ?i"
    unfolding aff_payload_def using m(1) by simp
  have dig: "bytes_ok (digits_base 256 k n)" for k n
    using digits_bound [of 256 _ k n] by (simp add: bytes_ok_def list_all_iff)
  show "length (aff_payload c) = 14" by (simp add: p m)
  show "bytes_ok (aff_payload c)" using m dig by (simp add: p bytes_ok_def list_all_append)
  show "take 8 (aff_payload c) = ck_member c" by (simp add: p m)
  have d8: "drop 8 (aff_payload c) = digits_base 256 2 ?s @ digits_base 256 4 ?i" by (simp add: p m)
  have t2: "take 2 (digits_base 256 2 ?s @ digits_base 256 4 ?i) = digits_base 256 2 ?s" by simp
  have "?s < 256 ^ 2" "?s = (if ck_slot c \<ge> 0 then nat (ck_slot c) else 65535)"
    using assms by (auto simp: cookie_ok_def noSlot_def)
  then show "undigits 256 (take 2 (drop 8 (aff_payload c))) = (if ck_slot c \<ge> 0 then nat (ck_slot c) else 65535)"
    unfolding d8 t2 by (simp only: undigits_mod)
  have "drop 2 (drop 8 (aff_payload c)) = digits_base 256 4 ?i" unfolding d8 by simp
  then have d10: "take 4 (drop 10 (aff_payload c)) = digits_base 256 4 ?i" by simp
  have "?i < 256 ^ 4" "?i = nat (ck_issued c)" using assms by (auto simp: cookie_ok_def nat_less_iff)
  then show "undigits 256 (take 4 (drop 10 (aff_payload c))) = nat (ck_issued c)"
    unfolding d10 by (simp only: undigits_mod)
qed

lemma tag_ok: "mac_ok hmac \<Longrightarrow> length (aff_tag hmac a p) = 12 \<and> bytes_ok (aff_tag hmac a p)"
  by (auto simp: mac_ok_def aff_tag_def affTagLen_def bytes_ok_def list_all_iff dest: in_set_takeD)



end
