(* ===== verification/Balancer.thy ===== *)
theory Balancer
  imports Site_Model Affinity
begin

text \<open>
  Choosing who answers a request: the instances of a Node.js site and the upstreams of
  a proxy or load-balanced site (\<^verbatim>\<open>src/internal/proxy/upstreams.go\<close>), the rate limit per
  address (\<^verbatim>\<open>ratelimit.go\<close>) and the histogram of response times (\<^verbatim>\<open>latency.go\<close>).

  Atomic counters are fields of the records; the round-robin counter is a 64-bit word.
  The clock, the readiness of the local instances and a random number are arguments;
  parsing URLs, and the token bucket of \<^verbatim>\<open>golang.org/x/time/rate\<close>, are too. The loads
  that \<^verbatim>\<open>least_conn\<close> compares are rational numbers.
\<close>

section \<open>Instances\<close>

record backend =
  be_Slot :: int
  be_Active :: int

text \<open>The instance with the fewest requests, the first of them in the order given.\<close>

fun least_active :: "backend \<Rightarrow> backend list \<Rightarrow> backend" where
  "least_active best [] = best"
| "least_active best (b # bs) = least_active (if be_Active b < be_Active best then b else best) bs"

definition pickBackend :: "backend list \<Rightarrow> 64 word \<Rightarrow> backend option \<times> 64 word" where
  "pickBackend list rr =
     (if list = [] then (None, rr)
      else
        (let n = length list; rr' = rr + 1; start = nat (uint rr' mod int n);
             bs = drop start list @ take start list
         in (Some (least_active (hd bs) (tl bs)), rr')))"

definition pickBackendIn :: "backend list \<Rightarrow> 64 word \<Rightarrow> int \<Rightarrow> backend option \<times> 64 word" where
  "pickBackendIn list rr slot =
     (let pinned = filter (\<lambda>b. be_Slot b = slot) list
      in if slot \<noteq> noSlot \<and> pinned \<noteq> [] then (Some (least_active (hd pinned) (tl pinned)), rr)
         else pickBackend list rr)"

section \<open>Upstreams\<close>

record upstream =
  u_url :: string
  u_local :: bool
  u_weight :: int
  u_healthy :: bool
  u_active :: int
  u_fails :: int
  u_downAt :: instant
  u_affID :: "nat list"
  u_lastErr :: string

record pool =
  p_list :: "upstream list"
  p_strategy :: string
  p_hc :: health_check
  p_rr :: "64 word"
  p_hasLocal :: bool

record upstream_cfg =
  uc_URL :: string
  uc_Weight :: int

record pool_config =
  pc_upstreams :: "upstream_cfg list"
  pc_strategy :: string
  pc_hc :: health_check
  pc_local :: bool
  pc_localWeight :: int

definition fresh_upstream :: "string \<Rightarrow> bool \<Rightarrow> int \<Rightarrow> upstream" where
  "fresh_upstream url loc weight =
     \<lparr> u_url = url, u_local = loc, u_weight = max weight 1, u_healthy = \<not> loc, u_active = 0, u_fails = 0,
       u_downAt = 0, u_affID = [], u_lastErr = [] \<rparr>"

text \<open>Health survives a reload: the last member of the old pool with the same URL.\<close>

definition keep_health :: "upstream list \<Rightarrow> upstream \<Rightarrow> upstream" where
  "keep_health prev up =
     fold (\<lambda>old up. if \<not> u_local old \<and> u_url old = u_url up
                    then up \<lparr> u_healthy := u_healthy old, u_fails := u_fails old \<rparr> else up) prev up"

definition newUpstreamPool :: "(string \<Rightarrow> string option) \<Rightarrow> pool_config \<Rightarrow> pool option \<Rightarrow> pool" where
  "newUpstreamPool parse cfg prev =
     \<lparr> p_list =
         (if pc_local cfg then [fresh_upstream [] True (pc_localWeight cfg)] else []) @
         List.map_filter (\<lambda>u. case parse (uc_URL u) of
             None \<Rightarrow> None
           | Some url \<Rightarrow>
               Some (keep_health (case prev of None \<Rightarrow> [] | Some p \<Rightarrow> p_list p) (fresh_upstream url False (uc_Weight u))))
           (pc_upstreams cfg),
       p_strategy = pc_strategy cfg, p_hc = pc_hc cfg, p_rr = 0, p_hasLocal = pc_local cfg \<rparr>"

definition setAffinity :: "mac \<Rightarrow> affinity_runtime \<Rightarrow> pool \<Rightarrow> pool" where
  "setAffinity hmac a p =
     p \<lparr> p_list := map (\<lambda>u. u \<lparr> u_affID := (if u_local u then af_localID a
           else memberID hmac (af_key a) (af_siteID a) (u_url u)) \<rparr>) (p_list p) \<rparr>"

definition can_take :: "pool \<Rightarrow> bool \<Rightarrow> instant \<Rightarrow> upstream \<Rightarrow> bool" where
  "can_take p localReady now u \<longleftrightarrow>
     (if u_local u then localReady
      else u_healthy u \<and> (hc_Enabled (p_hc p) \<or> \<not> now - u_downAt u < 10 * second))"

definition available :: "pool \<Rightarrow> bool \<Rightarrow> instant \<Rightarrow> upstream list" where
  "available p localReady now =
     (let out = filter (can_take p localReady now) (p_list p) in if out = [] then p_list p else out)"

definition pool_pinned :: "pool \<Rightarrow> bool \<Rightarrow> instant \<Rightarrow> nat list \<Rightarrow> upstream option" where
  "pool_pinned p localReady now aid = List.find (\<lambda>u. u_affID u = aid) (available p localReady now)"

definition totalWeight :: "upstream list \<Rightarrow> int" where
  "totalWeight us = max (sum_list (map u_weight us)) 1"

fun weighted_ix :: "upstream list \<Rightarrow> int \<Rightarrow> nat" where
  "weighted_ix [] n = 0"
| "weighted_ix [u] n = 0"
| "weighted_ix (u # v # us) n = (if n < u_weight u then 0 else Suc (weighted_ix (v # us) (n - u_weight u)))"

definition weighted :: "upstream list \<Rightarrow> int \<Rightarrow> upstream" where
  "weighted us n = us ! weighted_ix us n"

definition load :: "upstream \<Rightarrow> rat" where
  "load u = of_int (u_active u) / of_int (u_weight u)"

fun least_loaded :: "upstream \<Rightarrow> upstream list \<Rightarrow> upstream" where
  "least_loaded best [] = best"
| "least_loaded best (u # us) = least_loaded (if load u < load best then u else best) us"

text \<open>\<^verbatim>\<open>fnv.New32a\<close>.\<close>

definition fnv32a :: "string \<Rightarrow> 32 word" where
  "fnv32a s = foldl (\<lambda>h c. (h XOR of_nat (of_char c)) * 16777619) 2166136261 s"

definition pick :: "pool \<Rightarrow> bool \<Rightarrow> instant \<Rightarrow> nat \<Rightarrow> string \<Rightarrow> upstream option \<times> pool" where
  "pick p localReady now random clientIP =
     (let us = available p localReady now in
      if us = [] then (None, p)
      else if p_strategy p = ''least_conn'' then (Some (least_loaded (hd us) (tl us)), p)
      else if p_strategy p = ''ip_hash'' then (Some (us ! (unat (fnv32a clientIP) mod length us)), p)
      else if p_strategy p = ''random'' then (Some (weighted us (int random mod totalWeight us)), p)
      else (let rr = p_rr p + 1
            in (Some (weighted us (uint rr mod totalWeight us)), p \<lparr> p_rr := rr \<rparr>)))"

definition passiveFailure :: "pool \<Rightarrow> instant \<Rightarrow> string \<Rightarrow> upstream \<Rightarrow> upstream" where
  "passiveFailure p now err u =
     (let u1 = u \<lparr> u_lastErr := err \<rparr>
      in if hc_Enabled (p_hc p) then u1 else u1 \<lparr> u_downAt := now \<rparr>)"

section \<open>Health checks\<close>

datatype probe = Answered int | ProbeFailed string
datatype health_event = UpstreamUp string | UpstreamDown string string

text \<open>One check: what the probe answered, by status, or its error.\<close>

definition check_upstream :: "pool \<Rightarrow> (int \<Rightarrow> string) \<Rightarrow> probe \<Rightarrow> upstream \<Rightarrow> upstream \<times> health_event list" where
  "check_upstream p status_text probe u =
     (let ok = (case probe of Answered code \<Rightarrow> code < 500 | ProbeFailed _ \<Rightarrow> False) in
      if ok then (u \<lparr> u_fails := 0, u_healthy := True \<rparr>, if u_healthy u then [] else [UpstreamUp (u_url u)])
      else
        (let msg = (case probe of Answered code \<Rightarrow> status_text code | ProbeFailed e \<Rightarrow> e);
             u1 = u \<lparr> u_lastErr := msg, u_fails := u_fails u + 1 \<rparr>
         in if u_fails u1 \<ge> hc_UnhealthyThreshold (p_hc p)
            then (u1 \<lparr> u_healthy := False \<rparr>, if u_healthy u then [UpstreamDown (u_url u) msg] else [])
            else (u1, [])))"

record upstream_status =
  us_URL :: string
  us_Local :: bool
  us_Healthy :: bool
  us_ActiveConns :: int
  us_LastError :: string

definition pool_status :: "pool \<Rightarrow> bool \<Rightarrow> int \<Rightarrow> instant \<Rightarrow> upstream_status list" where
  "pool_status p localReady localCount now =
     map (\<lambda>u. if u_local u
       then \<lparr> us_URL = ''this server ('' @ show_int localCount @ '' ready)'', us_Local = True,
              us_Healthy = localReady, us_ActiveConns = u_active u, us_LastError = [] \<rparr>
       else \<lparr> us_URL = u_url u, us_Local = False,
              us_Healthy = (u_healthy u \<and> (hc_Enabled (p_hc p) \<or> now - u_downAt u \<ge> 10 * second)),
              us_ActiveConns = u_active u, us_LastError = u_lastErr u \<rparr>) (p_list p)"

section \<open>Rate limits\<close>

text \<open>A token bucket of the library: \<open>allowN\<close> takes one token at an instant.\<close>

record 'b bucket_api =
  new_limiter :: "rat \<Rightarrow> int \<Rightarrow> 'b"
  allow_one :: "'b \<Rightarrow> instant \<Rightarrow> bool \<times> 'b"

record 'b client_bucket =
  cb_lim :: 'b
  cb_seen :: instant

record 'b ip_limiter =
  l_rps :: rat
  l_burst :: int
  l_clients :: "(string \<times> 'b client_bucket) list"
  l_sweep :: instant

definition newIPLimiter :: "rat \<Rightarrow> int \<Rightarrow> instant \<Rightarrow> 'b ip_limiter" where
  "newIPLimiter rps burst now = \<lparr> l_rps = rps, l_burst = burst, l_clients = [], l_sweep = now \<rparr>"

definition limiter_allow :: "'b bucket_api \<Rightarrow> instant \<Rightarrow> string \<Rightarrow> 'b ip_limiter \<Rightarrow> bool \<times> 'b ip_limiter" where
  "limiter_allow api now ip l =
     (let swept = (if time_sub now (l_sweep l) > minute
                   then l \<lparr> l_clients := filter (\<lambda>kc. \<not> time_sub now (cb_seen (snd kc)) > 5 * minute) (l_clients l),
                            l_sweep := now \<rparr>
                   else l);
          lim = (case map_of (l_clients swept) ip of
                   None \<Rightarrow> new_limiter api (l_rps l) (l_burst l) | Some c \<Rightarrow> cb_lim c);
          (ok, lim') = allow_one api lim now
      in (ok, swept \<lparr> l_clients := AList.update ip \<lparr> cb_lim = lim', cb_seen = now \<rparr> (l_clients swept) \<rparr>))"

section \<open>Response times\<close>

definition latency_ms :: "duration \<Rightarrow> rat" where
  "latency_ms d = of_int (sgn d * (\<bar>d\<bar> div 1000)) / 1000"

definition bucket_bounds :: "rat list" where
  "bucket_bounds = [5, 10, 25, 50, 100, 250, 500, 750, 1000, 1500, 2000, 3000, 5000, 10000, 30000, 60000]"

definition hist_observe :: "int list \<Rightarrow> duration \<Rightarrow> int list" where
  "hist_observe counts d =
     (let i = length (takeWhile (\<lambda>b. latency_ms d > b) bucket_bounds) in counts[i := counts ! i + 1])"


section \<open>The fewest requests\<close>

lemma least_active_in: "least_active best bs \<in> insert best (set bs)"
  by (induction bs arbitrary: best) auto

lemma least_active_min: "be_Active (least_active best bs) \<le> be_Active best \<and>
  list_all (\<lambda>b. be_Active (least_active best bs) \<le> be_Active b) bs"
proof (induction bs arbitrary: best)
  case Nil
  then show ?case by simp
next
  case (Cons b bs)
  then show ?case by (cases "be_Active b < be_Active best") (simp_all, (metis order.trans less_imp_le not_less)+)
qed

lemma least_active_hd:
  assumes "bs \<noteq> []"
  shows "least_active (hd bs) (tl bs) \<in> set bs"
    and "list_all (\<lambda>b. be_Active (least_active (hd bs) (tl bs)) \<le> be_Active b) bs"
  using least_active_in [of "hd bs" "tl bs"] least_active_min [of "hd bs" "tl bs"] assms by (cases bs; auto)+

text \<open>
  A request goes to an instance with the fewest requests in progress: of the slot the
  client's cookie pins when that slot has an instance, of all instances otherwise. There
  is a choice whenever there is an instance.
\<close>

lemma pickBackendIn_least:
  assumes "bs \<noteq> []"
  shows "\<exists>b. fst (pickBackendIn bs rr slot) = Some b \<and> b \<in> set bs \<and>
    (let pinned = filter (\<lambda>x. be_Slot x = slot) bs
     in if slot \<noteq> noSlot \<and> pinned \<noteq> [] then b \<in> set pinned \<and> list_all (\<lambda>x. be_Active b \<le> be_Active x) pinned
        else list_all (\<lambda>x. be_Active b \<le> be_Active x) bs)"
proof (cases "slot \<noteq> noSlot \<and> filter (\<lambda>x. be_Slot x = slot) bs \<noteq> []")
  case True
  let ?ps = "filter (\<lambda>x. be_Slot x = slot) bs"
  have ne: "?ps \<noteq> []" using True by blast
  have "least_active (hd ?ps) (tl ?ps) \<in> set bs" using least_active_hd(1) [OF ne] by auto
  with True least_active_hd [OF ne] show ?thesis
    unfolding pickBackendIn_def Let_def by simp
next
  case False
  let ?s = "nat (uint (rr + 1) mod int (length bs))"
  let ?bs = "drop ?s bs @ take ?s bs"
  have set: "set ?bs = set bs" by (metis Un_commute append_take_drop_id set_append)
  then have ne: "?bs \<noteq> []" using assms by (metis set_empty)
  have "fst (pickBackendIn bs rr slot) = Some (least_active (hd ?bs) (tl ?bs))"
    unfolding pickBackendIn_def pickBackend_def Let_def if_not_P [OF False] using assms by simp
  moreover have "least_active (hd ?bs) (tl ?bs) \<in> set bs"
    "list_all (\<lambda>x. be_Active (least_active (hd ?bs) (tl ?bs)) \<le> be_Active x) bs"
    using least_active_hd [OF ne] unfolding list_all_iff set by blast+
  ultimately show ?thesis unfolding Let_def if_not_P [OF False] by blast
qed

section \<open>Round robin by weight\<close>

definition prefix_weight :: "upstream list \<Rightarrow> nat \<Rightarrow> int" where
  "prefix_weight us i = sum_list (map u_weight (take i us))"

definition weights_ok :: "upstream list \<Rightarrow> bool" where
  "weights_ok us \<longleftrightarrow> list_all (\<lambda>u. 1 \<le> u_weight u) us"

lemma sum_weights_pos: "weights_ok us \<Longrightarrow> 0 \<le> sum_list (map u_weight us)"
  by (induction us) (auto simp: weights_ok_def)

text \<open>The member with index \<open>i\<close> has the interval of its weight after those before it.\<close>

lemma weighted_ix_interval:
  "us \<noteq> [] \<Longrightarrow> weights_ok us \<Longrightarrow> 0 \<le> n \<Longrightarrow> n < sum_list (map u_weight us) \<Longrightarrow>
   weighted_ix us n < length us \<and> prefix_weight us (weighted_ix us n) \<le> n \<and>
   n < prefix_weight us (weighted_ix us n) + u_weight (us ! weighted_ix us n)"
proof (induction us n rule: weighted_ix.induct)
  case (3 u v us n)
  show ?case
  proof (cases "n < u_weight u")
    case True
    with 3 show ?thesis by (simp add: prefix_weight_def)
  next
    case False
    then have "weighted_ix (v # us) (n - u_weight u) < length (v # us) \<and>
        prefix_weight (v # us) (weighted_ix (v # us) (n - u_weight u)) \<le> n - u_weight u \<and>
        n - u_weight u < prefix_weight (v # us) (weighted_ix (v # us) (n - u_weight u)) +
          u_weight ((v # us) ! weighted_ix (v # us) (n - u_weight u))"
      using 3 by (simp add: weights_ok_def)
    with False show ?thesis by (simp add: prefix_weight_def)
  qed
qed (simp_all add: prefix_weight_def)

lemma prefix_weight_mono: "weights_ok us \<Longrightarrow> i \<le> j \<Longrightarrow> prefix_weight us i \<le> prefix_weight us j"
proof -
  assume ok: "weights_ok us" and le: "i \<le> j"
  have "take j us = take i us @ take (j - i) (drop i us)" using le by (metis le_add_diff_inverse take_add)
  moreover have "0 \<le> sum_list (map u_weight (take (j - i) (drop i us)))"
    by (rule sum_weights_pos) (use ok in \<open>auto simp: weights_ok_def list_all_iff dest!: in_set_takeD in_set_dropD\<close>)
  ultimately show ?thesis by (simp add: prefix_weight_def)
qed

lemma prefix_weight_Suc: "i < length us \<Longrightarrow> prefix_weight us (Suc i) = prefix_weight us i + u_weight (us ! i)"
  by (simp add: prefix_weight_def take_Suc_conv_app_nth)

lemma weighted_ix_iff:
  assumes "us \<noteq> []" and ok: "weights_ok us" and n: "0 \<le> n" "n < sum_list (map u_weight us)" and i: "i < length us"
  shows "weighted_ix us n = i \<longleftrightarrow> prefix_weight us i \<le> n \<and> n < prefix_weight us i + u_weight (us ! i)"
proof
  show "weighted_ix us n = i \<Longrightarrow> prefix_weight us i \<le> n \<and> n < prefix_weight us i + u_weight (us ! i)"
    using weighted_ix_interval [OF assms(1,2) n] by auto
  assume r: "prefix_weight us i \<le> n \<and> n < prefix_weight us i + u_weight (us ! i)"
  let ?j = "weighted_ix us n"
  have j: "?j < length us" "prefix_weight us ?j \<le> n" "n < prefix_weight us (Suc ?j)"
    using weighted_ix_interval [OF assms(1,2) n] by (auto simp: prefix_weight_Suc)
  have r': "prefix_weight us i \<le> n" "n < prefix_weight us (Suc i)" using r i by (auto simp: prefix_weight_Suc)
  show "?j = i"
  proof (rule ccontr)
    assume "?j \<noteq> i"
    then have "Suc ?j \<le> i \<or> Suc i \<le> ?j" by linarith
    then show False
      using prefix_weight_mono [OF ok, of "Suc ?j" i] prefix_weight_mono [OF ok, of "Suc i" ?j] j r' by linarith
  qed
qed

lemma weighted_ix_card:
  assumes "us \<noteq> []" and ok: "weights_ok us" and i: "i < length us"
  shows "card {n \<in> {0..<sum_list (map u_weight us)}. weighted_ix us n = i} = nat (u_weight (us ! i))"
proof -
  have "0 \<le> prefix_weight us i"
    unfolding prefix_weight_def by (rule sum_weights_pos) (use ok in \<open>auto simp: weights_ok_def list_all_iff dest: in_set_takeD\<close>)
  moreover have "prefix_weight us (Suc i) \<le> sum_list (map u_weight us)"
    using prefix_weight_mono [OF ok, of "Suc i" "length us"] i by (simp add: prefix_weight_def)
  ultimately have "{n \<in> {0..<sum_list (map u_weight us)}. weighted_ix us n = i}
      = {prefix_weight us i..<prefix_weight us i + u_weight (us ! i)}"
    using weighted_ix_iff [OF assms(1) ok _ _ i] prefix_weight_Suc [OF i] by fastforce
  then show ?thesis by simp
qed

text \<open>A full turn of the counter meets every remainder once.\<close>

lemma full_turn:
  fixes w r :: int
  assumes w: "0 < w"
  shows "card {k \<in> {1..w}. Q ((r + k) mod w)} = card {n \<in> {0..<w}. Q n}"
proof -
  have inj: "inj_on (\<lambda>k. (r + k) mod w) {1..w}"
  proof (rule inj_onI)
    fix x y assume xy: "x \<in> {1..w}" "y \<in> {1..w}" "(r + x) mod w = (r + y) mod w"
    then have "w dvd (r + x) - (r + y)" by (simp add: mod_eq_dvd_iff)
    then have "w dvd x - y" by simp
    moreover have "\<bar>x - y\<bar> < w" using xy by auto
    ultimately show "x = y" by (metis dvd_imp_le_int abs_of_pos eq_iff_diff_eq_0 not_less w)
  qed
  have "(\<lambda>k. (r + k) mod w) ` {1..w} = {0..<w}"
  proof (rule card_subset_eq)
    show "(\<lambda>k. (r + k) mod w) ` {1..w} \<subseteq> {0..<w}" using w by auto
    show "card ((\<lambda>k. (r + k) mod w) ` {1..w}) = card {0..<w}" using card_image [OF inj] by simp
  qed simp
  moreover have "f ` A = B \<Longrightarrow> {n \<in> B. Q n} = f ` {k \<in> A. Q (f k)}" for f :: "int \<Rightarrow> int" and A B by blast
  ultimately have "{n \<in> {0..<w}. Q n} = (\<lambda>k. (r + k) mod w) ` {k \<in> {1..w}. Q ((r + k) mod w)}" by blast
  moreover have "inj_on (\<lambda>k. (r + k) mod w) {k \<in> {1..w}. Q ((r + k) mod w)}"
    by (rule inj_on_subset [OF inj]) auto
  ultimately show ?thesis by (simp add: card_image)
qed

fun picks :: "pool \<Rightarrow> bool \<Rightarrow> instant \<Rightarrow> nat \<Rightarrow> string \<Rightarrow> nat \<Rightarrow> upstream option list" where
  "picks p localReady now random ip 0 = []"
| "picks p localReady now random ip (Suc n) =
     (let (u, p') = pick p localReady now random ip in u # picks p' localReady now random ip n)"

definition round_robin :: "pool \<Rightarrow> bool" where
  "round_robin p \<longleftrightarrow> p_strategy p \<notin> {''least_conn'', ''ip_hash'', ''random''}"

lemma available_rr: "available (p \<lparr> p_rr := r \<rparr>) localReady now = available p localReady now"
proof -
  have "can_take (p \<lparr> p_rr := r \<rparr>) localReady now = can_take p localReady now"
    by (rule ext) (simp add: can_take_def)
  then show ?thesis by (simp add: available_def Let_def)
qed

lemma picks_round_robin:
  assumes "round_robin p" and "available p localReady now \<noteq> []"
  shows "picks p localReady now random ip n =
    map (\<lambda>k. Some (weighted (available p localReady now) (uint (p_rr p + of_nat (Suc k)) mod totalWeight (available p localReady now)))) [0..<n]"
  using assms
proof (induction n arbitrary: p)
  case 0
  then show ?case by simp
next
  case (Suc n)
  let ?us = "available p localReady now" and ?p = "p \<lparr> p_rr := p_rr p + 1 \<rparr>"
  have pk: "pick p localReady now random ip = (Some (weighted ?us (uint (p_rr p + 1) mod totalWeight ?us)), ?p)"
    using Suc.prems by (simp add: pick_def round_robin_def Let_def)
  have "picks ?p localReady now random ip n =
      map (\<lambda>k. Some (weighted ?us (uint (p_rr p + 1 + of_nat (Suc k)) mod totalWeight ?us))) [0..<n]"
    using Suc.IH [of ?p] Suc.prems by (simp add: available_rr round_robin_def)
  moreover have "[0..<Suc n] = 0 # map Suc [0..<n]" by (metis map_Suc_upt upt_conv_Cons zero_less_Suc)
  ultimately show ?case by (simp add: pk comp_def add.assoc del: upt_Suc)
qed

text \<open>
  C21. Round robin is fair by weight: of as many consecutive choices as the weights of the
  available upstreams add up to, each upstream gets exactly as many as its weight, from
  whatever value of the counter that does not overflow meanwhile.
\<close>

theorem round_robin_fair:
  assumes "round_robin p" and "us = available p localReady now" and "us \<noteq> []" and "weights_ok us" and "distinct us"
    and "uint (p_rr p) + totalWeight us < 2 ^ 64" and "u \<in> set us"
  shows "count_list (picks p localReady now random ip (nat (totalWeight us))) (Some u) = nat (u_weight u)"
proof -
  let ?W = "totalWeight us" and ?r = "uint (p_rr p)"
  obtain i where i: "i < length us" "us ! i = u" using assms(7) by (metis in_set_conv_nth)
  have "1 \<le> u_weight u" "u_weight u \<le> sum_list (map u_weight us)"
  proof -
    show "1 \<le> u_weight u" using assms(4,7) by (auto simp: weights_ok_def list_all_iff)
    have "prefix_weight us (Suc i) \<le> prefix_weight us (length us)"
      by (rule prefix_weight_mono [OF assms(4)]) (use i in simp)
    moreover have "0 \<le> prefix_weight us i"
      using prefix_weight_mono [OF assms(4), of 0 i] by (simp add: prefix_weight_def)
    ultimately show "u_weight u \<le> sum_list (map u_weight us)"
      using prefix_weight_Suc [OF i(1)] i(2) by (simp add: prefix_weight_def)
  qed
  then have W: "?W = sum_list (map u_weight us)" "0 < ?W" by (auto simp: totalWeight_def)
  have uint: "uint (p_rr p + of_nat (Suc k)) = ?r + int (Suc k)" if "k < nat ?W" for k
  proof -
    have "?r + int (Suc k) < 2 ^ 64" using that assms(6) by linarith
    moreover have "0 \<le> ?r" by simp
    ultimately have sum: "0 \<le> ?r + int (Suc k)" "?r + int (Suc k) < 2 ^ 64" "int (Suc k) < 2 ^ 64" by linarith+
    then have lt: "Suc k < 2 ^ 64" by simp
    have "uint (of_nat (Suc k) :: 64 word) = int (Suc k)"
      unfolding unsigned_of_nat using lt by (simp add: take_bit_nat_eq_self)
    then have "uint (p_rr p + of_nat (Suc k)) = (?r + int (Suc k)) mod 2 ^ 64"
      unfolding uint_word_ariths(1) by (simp only: word_size) simp
    with sum(1,2) show ?thesis by (simp only: mod_pos_pos_trivial)
  qed
  have hit: "weighted us (n mod ?W) = u \<longleftrightarrow> weighted_ix us (n mod ?W) = i" for n
  proof -
    have "weighted_ix us (n mod ?W) < length us"
      using weighted_ix_interval [OF assms(3,4), of "n mod ?W"] W by simp
    then show ?thesis using i assms(5) by (auto simp: weighted_def nth_eq_iff_index_eq)
  qed
  have "picks p localReady now random ip (nat ?W) = map (\<lambda>k. Some (weighted us ((?r + int (Suc k)) mod ?W))) [0..<nat ?W]"
    unfolding picks_round_robin [OF assms(1) assms(3) [unfolded assms(2)]] assms(2) [symmetric]
    using uint by simp
  then have "count_list (picks p localReady now random ip (nat ?W)) (Some u)
      = length (filter (\<lambda>k. weighted_ix us ((?r + int (Suc k)) mod ?W) = i) [0..<nat ?W])"
    by (simp add: count_list_eq_length_filter filter_map comp_def hit eq_commute [of u])
  also have "\<dots> = card {k \<in> {0..<nat ?W}. weighted_ix us ((?r + int (Suc k)) mod ?W) = i}"
    using distinct_card [of "filter (\<lambda>k. weighted_ix us ((?r + int (Suc k)) mod ?W) = i) [0..<nat ?W]"] by simp
  also have "\<dots> = card {k \<in> {1..?W}. weighted_ix us ((?r + k) mod ?W) = i}"
  proof (rule bij_betw_same_card [of "\<lambda>k. int (Suc k)"])
    show "bij_betw (\<lambda>k. int (Suc k)) {k \<in> {0..<nat ?W}. weighted_ix us ((?r + int (Suc k)) mod ?W) = i}
        {k \<in> {1..?W}. weighted_ix us ((?r + k) mod ?W) = i}"
      by (rule bij_betw_byWitness [where f' = "\<lambda>k. nat (k - 1)"]) (auto simp: nat_diff_distrib)
  qed
  also have "\<dots> = card {n \<in> {0..<?W}. weighted_ix us n = i}" by (rule full_turn [OF W(2)])
  also have "\<dots> = nat (u_weight u)" using weighted_ix_card [OF assms(3,4) i(1)] W(1) i(2) by simp
  finally show ?thesis .
qed

theorem round_robin_fair_witness:
  "count_list (picks
     \<lparr> p_list = [fresh_upstream ''a'' False 2, fresh_upstream ''b'' False 1], p_strategy = ''round_robin'',
       p_hc = \<lparr> hc_Enabled = True, hc_Path = ''/'', hc_IntervalSec = 5, hc_TimeoutSec = 5, hc_UnhealthyThreshold = 3 \<rparr>,
       p_rr = 7, p_hasLocal = False \<rparr> False 0 0 [] 3) (Some (fresh_upstream ''a'' False 2)) = 2"
proof -
  let ?a = "fresh_upstream ''a'' False 2" and ?b = "fresh_upstream ''b'' False 1"
  let ?hc = "\<lparr> hc_Enabled = True, hc_Path = ''/'', hc_IntervalSec = 5, hc_TimeoutSec = 5, hc_UnhealthyThreshold = 3 \<rparr>"
  let ?p = "\<lparr> p_list = [?a, ?b], p_strategy = ''round_robin'', p_hc = ?hc, p_rr = 7, p_hasLocal = False \<rparr>"
  have av: "[?a, ?b] = available ?p False 0"
    by (simp add: available_def can_take_def fresh_upstream_def)
  have tw: "totalWeight [?a, ?b] = 3" "u_weight ?a = 2" by (simp_all add: totalWeight_def fresh_upstream_def)
  have ok: "weights_ok [?a, ?b]" "distinct [?a, ?b]" by (simp_all add: weights_ok_def fresh_upstream_def)
  have "count_list (picks ?p False 0 0 [] (nat (totalWeight [?a, ?b]))) (Some ?a) = nat (u_weight ?a)"
    by (rule round_robin_fair [OF _ av _ ok]) (simp_all add: round_robin_def tw)
  then show ?thesis unfolding tw by simp
qed

section \<open>Choosing among the available\<close>

lemma weighted_in: "us \<noteq> [] \<Longrightarrow> weighted us n \<in> set us"
proof -
  have "us \<noteq> [] \<Longrightarrow> weighted_ix us n < length us" for us n
    by (induction us n rule: weighted_ix.induct) auto
  then show "us \<noteq> [] \<Longrightarrow> weighted us n \<in> set us" by (simp add: weighted_def)
qed

lemma least_loaded_in: "least_loaded best us \<in> insert best (set us)"
  by (induction us arbitrary: best) auto

text \<open>
  Whatever the strategy, a pool with members gives one of them, and one that can take
  requests now when there is any.
\<close>

lemma pick_available:
  assumes "p_list p \<noteq> []"
  obtains u where "fst (pick p localReady now random ip) = Some u" "u \<in> set (p_list p)"
    "list_ex (can_take p localReady now) (p_list p) \<longrightarrow> can_take p localReady now u"
proof -
  let ?us = "available p localReady now"
  have ne: "?us \<noteq> []" using assms by (simp add: available_def Let_def)
  have hash: "?us ! (unat (fnv32a ip) mod length ?us) \<in> set ?us" using ne by simp
  have least: "least_loaded (hd ?us) (tl ?us) \<in> set ?us"
    using ne least_loaded_in [of "hd ?us" "tl ?us"] by (cases ?us) auto
  have "\<exists>u. fst (pick p localReady now random ip) = Some u \<and> u \<in> set ?us"
    using ne hash least weighted_in [OF ne] by (auto simp: pick_def Let_def)
  moreover have "u \<in> set (p_list p) \<and> (list_ex (can_take p localReady now) (p_list p) \<longrightarrow> can_take p localReady now u)"
    if "u \<in> set ?us" for u
    using that by (auto simp: available_def Let_def filter_empty_conv list_ex_iff split: if_splits)
  ultimately show ?thesis using that by blast
qed

section \<open>Health\<close>

definition probe_ok :: "probe \<Rightarrow> bool" where
  "probe_ok pr = (case pr of Answered code \<Rightarrow> code < 500 | ProbeFailed _ \<Rightarrow> False)"

definition checks :: "pool \<Rightarrow> (int \<Rightarrow> string) \<Rightarrow> upstream \<Rightarrow> probe list \<Rightarrow> upstream" where
  "checks p status_text u prs = foldl (\<lambda>u pr. fst (check_upstream p status_text pr u)) u prs"

definition trailing_failures :: "probe list \<Rightarrow> nat" where
  "trailing_failures prs = length (takeWhile (\<lambda>pr. \<not> probe_ok pr) (rev prs))"

lemma check_step:
  "u_fails (fst (check_upstream p st pr u)) = (if probe_ok pr then 0 else u_fails u + 1)"
  "u_healthy (fst (check_upstream p st pr u)) =
     (if probe_ok pr then True else if u_fails u + 1 \<ge> hc_UnhealthyThreshold (p_hc p) then False else u_healthy u)"
  by (auto simp: check_upstream_def probe_ok_def Let_def split: probe.splits)

text \<open>
  C22. Health checks have the hysteresis that is configured: after any sequence of probes
  of a new upstream it is down exactly when the last probes, as many as the threshold,
  all failed. One answer below 500 brings it back.
\<close>

theorem upstream_down_after_threshold:
  assumes "1 \<le> hc_UnhealthyThreshold (p_hc p)"
  shows "u_healthy (checks p st (fresh_upstream url False w) prs) \<longleftrightarrow>
    int (trailing_failures prs) < hc_UnhealthyThreshold (p_hc p)"
proof -
  have "u_fails (checks p st (fresh_upstream url False w) prs) = int (trailing_failures prs) \<and>
      (u_healthy (checks p st (fresh_upstream url False w) prs) \<longleftrightarrow>
        int (trailing_failures prs) < hc_UnhealthyThreshold (p_hc p))"
  proof (induction prs rule: rev_induct)
    case Nil
    with assms show ?case by (simp add: checks_def trailing_failures_def fresh_upstream_def)
  next
    case (snoc pr prs)
    have c: "checks p st (fresh_upstream url False w) (prs @ [pr])
        = fst (check_upstream p st pr (checks p st (fresh_upstream url False w) prs))"
      by (simp add: checks_def)
    have t: "trailing_failures (prs @ [pr]) = (if probe_ok pr then 0 else Suc (trailing_failures prs))"
      by (simp add: trailing_failures_def)
    show ?case unfolding c t check_step using snoc assms by auto
  qed
  then show ?thesis by blast
qed

theorem upstream_down_after_threshold_witness:
  "\<not> u_healthy (checks
     \<lparr> p_list = [], p_strategy = [],
       p_hc = \<lparr> hc_Enabled = True, hc_Path = ''/'', hc_IntervalSec = 5, hc_TimeoutSec = 5, hc_UnhealthyThreshold = 2 \<rparr>,
       p_rr = 0, p_hasLocal = False \<rparr> (\<lambda>c. []) (fresh_upstream ''a'' False 1) [Answered 200, Answered 503, ProbeFailed ''refused''])"
  by (subst upstream_down_after_threshold) (simp_all add: trailing_failures_def probe_ok_def)

end
