(* ===== verification/Traffic.thy ===== *)
theory Traffic
  imports Balancer
begin

text \<open>
  The traffic counters of a site (\<^verbatim>\<open>src/internal/proxy/stats.go\<close>): totals, the ring of
  sixty seconds behind the requests-per-second figure, and the window that feeds the
  metrics history. The clock is an argument, in whole seconds of the Unix epoch, which
  does not go back; counters are integers.
\<close>

record site_stats =
  st_requests :: int
  st_2xx :: int
  st_3xx :: int
  st_4xx :: int
  st_5xx :: int
  st_bytesIn :: int
  st_bytesOut :: int
  st_latencyMicros :: int
  st_h1 :: int
  st_h2 :: int
  st_h3 :: int
  st_latency :: "int list"
  st_secs :: "int list"
  st_secEpoch :: "int list"
  st_minReq :: int
  st_minErr :: int
  st_minLat :: int

definition new_stats :: site_stats where
  "new_stats = \<lparr> st_requests = 0, st_2xx = 0, st_3xx = 0, st_4xx = 0, st_5xx = 0, st_bytesIn = 0, st_bytesOut = 0,
     st_latencyMicros = 0, st_h1 = 0, st_h2 = 0, st_h3 = 0, st_latency = replicate 17 0, st_secs = replicate 60 0,
     st_secEpoch = replicate 60 0, st_minReq = 0, st_minErr = 0, st_minLat = 0 \<rparr>"

definition micros :: "duration \<Rightarrow> int" where
  "micros d = sgn d * (\<bar>d\<bar> div 1000)"

definition count_status :: "int \<Rightarrow> site_stats \<Rightarrow> site_stats" where
  "count_status status s =
     (if status \<ge> 500 then s \<lparr> st_5xx := st_5xx s + 1 \<rparr>
      else if status \<ge> 400 then s \<lparr> st_4xx := st_4xx s + 1 \<rparr>
      else if status \<ge> 300 then s \<lparr> st_3xx := st_3xx s + 1 \<rparr>
      else s \<lparr> st_2xx := st_2xx s + 1 \<rparr>)"

definition tick_second :: "int \<Rightarrow> site_stats \<Rightarrow> site_stats" where
  "tick_second now s =
     (let i = nat (now mod 60);
          s = (if st_secEpoch s ! i \<noteq> now
               then s \<lparr> st_secEpoch := (st_secEpoch s)[i := now], st_secs := (st_secs s)[i := 0] \<rparr> else s)
      in s \<lparr> st_secs := (st_secs s)[i := st_secs s ! i + 1] \<rparr>)"

definition record_stats :: "int \<Rightarrow> int \<Rightarrow> int \<Rightarrow> int \<Rightarrow> duration \<Rightarrow> site_stats \<Rightarrow> site_stats" where
  "record_stats now status inn out d s0 =
     (let s = count_status status (s0 \<lparr> st_requests := st_requests s0 + 1 \<rparr>);
          s = s \<lparr> st_bytesIn := st_bytesIn s + inn, st_bytesOut := st_bytesOut s + out,
                  st_latencyMicros := st_latencyMicros s + micros d, st_latency := hist_observe (st_latency s) d \<rparr>;
          s = tick_second now s
      in s \<lparr> st_minReq := st_minReq s + 1, st_minErr := (if status \<ge> 500 then st_minErr s + 1 else st_minErr s),
             st_minLat := st_minLat s + micros d \<rparr>)"

definition countProto :: "int \<Rightarrow> site_stats \<Rightarrow> site_stats" where
  "countProto major s =
     (if major = 3 then s \<lparr> st_h3 := st_h3 s + 1 \<rparr>
      else if major = 2 then s \<lparr> st_h2 := st_h2 s + 1 \<rparr>
      else s \<lparr> st_h1 := st_h1 s + 1 \<rparr>)"

record traffic_snapshot =
  ts_Requests :: int
  ts_Status2xx :: int
  ts_Status3xx :: int
  ts_Status4xx :: int
  ts_Status5xx :: int
  ts_BytesIn :: int
  ts_BytesOut :: int
  ts_AvgLatencyMs :: rat
  ts_RPS :: rat

definition window_sum :: "int \<Rightarrow> site_stats \<Rightarrow> int" where
  "window_sum now s =
     sum_list (map (\<lambda>(e, n). if now - e < 60 then n else 0) (zip (st_secEpoch s) (st_secs s)))"

definition stats_snapshot :: "int \<Rightarrow> site_stats \<Rightarrow> traffic_snapshot" where
  "stats_snapshot now s =
     \<lparr> ts_Requests = st_requests s, ts_Status2xx = st_2xx s, ts_Status3xx = st_3xx s, ts_Status4xx = st_4xx s,
       ts_Status5xx = st_5xx s, ts_BytesIn = st_bytesIn s, ts_BytesOut = st_bytesOut s,
       ts_AvgLatencyMs = (if st_requests s > 0 then of_int (st_latencyMicros s) / of_int (st_requests s) / 1000 else 0),
       ts_RPS = of_int (window_sum now s) / 60 \<rparr>"

definition takeMinute :: "site_stats \<Rightarrow> (int \<times> int \<times> rat) \<times> site_stats" where
  "takeMinute s =
     ((st_minReq s, st_minErr s,
       if st_minReq s > 0 then of_int (st_minLat s) / of_int (st_minReq s) / 1000 else 0),
      s \<lparr> st_minReq := 0, st_minErr := 0, st_minLat := 0 \<rparr>)"

section \<open>The ring of seconds\<close>

record request_done =
  rd_time :: int
  rd_status :: int
  rd_in :: int
  rd_out :: int
  rd_took :: duration

definition record_done :: "site_stats \<Rightarrow> request_done \<Rightarrow> site_stats" where
  "record_done s r = record_stats (rd_time r) (rd_status r) (rd_in r) (rd_out r) (rd_took r) s"

definition slot_of :: "int \<Rightarrow> nat" where
  "slot_of t = nat (t mod 60)"

lemma slot_of_less: "slot_of t < 60"
  by (simp add: slot_of_def nat_less_iff)

text \<open>
  A slot of the ring holds the last second that fell on it and the number of requests of
  that second.
\<close>

definition ring_inv :: "int list \<Rightarrow> site_stats \<Rightarrow> bool" where
  "ring_inv h s \<longleftrightarrow> length (st_secs s) = 60 \<and> length (st_secEpoch s) = 60 \<and>
     (\<forall>i<60. (let e = st_secEpoch s ! i in
        (e = 0 \<or> e \<in> set h \<and> slot_of e = i) \<and>
        (\<forall>t\<in>set h. slot_of t = i \<longrightarrow> t \<le> e) \<and>
        st_secs s ! i = int (length (filter (\<lambda>t. slot_of t = i \<and> t = e) h))))"

lemma record_ring:
  "st_secs (record_done s r) = st_secs (tick_second (rd_time r) s)"
  "st_secEpoch (record_done s r) = st_secEpoch (tick_second (rd_time r) s)"
  by (simp_all add: record_done_def record_stats_def count_status_def tick_second_def Let_def)

lemma tick_ring:
  assumes inv: "ring_inv h s" and "\<forall>t\<in>set h. 0 \<le> t \<and> t \<le> now" and "0 \<le> now"
  shows "ring_inv (h @ [now]) (tick_second now s)"
proof -
  let ?k = "slot_of now"
  have k: "?k < 60" by (rule slot_of_less)
  have len: "length (st_secs s) = 60" "length (st_secEpoch s) = 60" using inv by (simp_all add: ring_inv_def)
  have at: "(st_secEpoch s ! i = 0 \<or> st_secEpoch s ! i \<in> set h \<and> slot_of (st_secEpoch s ! i) = i)"
    "t \<in> set h \<Longrightarrow> slot_of t = i \<Longrightarrow> t \<le> st_secEpoch s ! i"
    "st_secs s ! i = int (length (filter (\<lambda>t. slot_of t = i \<and> t = st_secEpoch s ! i) h))" if "i < 60" for i t
    using inv that by (auto simp: ring_inv_def Let_def)
  have epoch_le: "st_secEpoch s ! ?k \<le> now" using at(1) [OF k] assms(2,3) by auto
  have E: "st_secEpoch (tick_second now s) = (st_secEpoch s)[?k := now]"
  proof (cases "st_secEpoch s ! ?k = now")
    case True
    then have "(st_secEpoch s)[?k := now] = st_secEpoch s" by (metis list_update_id)
    with True show ?thesis by (simp add: tick_second_def Let_def slot_of_def)
  qed (simp add: tick_second_def Let_def slot_of_def)
  have S: "st_secs (tick_second now s) = (st_secs s)[?k := (if st_secEpoch s ! ?k = now then st_secs s ! ?k else 0) + 1]"
    using len k by (auto simp: tick_second_def Let_def slot_of_def)
  have none: "filter (\<lambda>t. slot_of t = ?k \<and> t = now) h = []" if "st_secEpoch s ! ?k \<noteq> now"
  proof -
    have "t \<noteq> now" if "t \<in> set h" "slot_of t = ?k" for t
      using at(2) [OF k that] epoch_le \<open>st_secEpoch s ! ?k \<noteq> now\<close> by auto
    then show ?thesis by (auto simp: filter_empty_conv)
  qed
  show ?thesis
    unfolding ring_inv_def Let_def
  proof (intro conjI allI impI ballI)
    fix i :: nat assume i: "i < 60"
    show "st_secEpoch (tick_second now s) ! i = 0 \<or> st_secEpoch (tick_second now s) ! i \<in> set (h @ [now]) \<and> slot_of (st_secEpoch (tick_second now s) ! i) = i"
      using at(1) [OF i] len k by (cases "i = ?k") (auto simp: E)
    show "t \<le> st_secEpoch (tick_second now s) ! i" if "t \<in> set (h @ [now])" "slot_of t = i" for t
      using that at(2) [OF i, of t] assms(2) len k by (cases "i = ?k") (auto simp: E)
    show "st_secs (tick_second now s) ! i = int (length (filter (\<lambda>t. slot_of t = i \<and> t = st_secEpoch (tick_second now s) ! i) (h @ [now])))"
      using at(3) [OF i] len k none by (cases "i = ?k") (auto simp: E S)
  qed (simp_all add: E S len)
qed

lemma filter_classes:
  "sum_list (map (\<lambda>i. int (length (filter (\<lambda>x. f x = i \<and> Q x) xs))) [0..<n]) = int (length (filter (\<lambda>x. f x < n \<and> Q x) xs))"
  for f :: "'a \<Rightarrow> nat"
proof (induction n)
  case (Suc n)
  have "int (length (filter (\<lambda>x. f x < Suc n \<and> Q x) xs)) =
      int (length (filter (\<lambda>x. f x < n \<and> Q x) xs)) + int (length (filter (\<lambda>x. f x = n \<and> Q x) xs))"
    by (induction xs) auto
  then show ?case using Suc by simp
qed simp

lemma ring_window:
  assumes inv: "ring_inv h s" and le: "\<forall>t\<in>set h. 0 \<le> t \<and> t \<le> now"
  shows "window_sum now s = int (length (filter (\<lambda>t. now - t < 60) h))"
proof -
  have len: "length (st_secs s) = 60" "length (st_secEpoch s) = 60" using inv by (simp_all add: ring_inv_def)
  have at: "(st_secEpoch s ! i = 0 \<or> st_secEpoch s ! i \<in> set h \<and> slot_of (st_secEpoch s ! i) = i)"
    "t \<in> set h \<Longrightarrow> slot_of t = i \<Longrightarrow> t \<le> st_secEpoch s ! i"
    "st_secs s ! i = int (length (filter (\<lambda>t. slot_of t = i \<and> t = st_secEpoch s ! i) h))" if "i < 60" for i t
    using inv that by (auto simp: ring_inv_def Let_def)
  have zip: "zip (st_secEpoch s) (st_secs s) = map (\<lambda>i. (st_secEpoch s ! i, st_secs s ! i)) [0..<60]"
    by (rule nth_equalityI) (simp_all add: len)
  have "window_sum now s = sum_list (map (\<lambda>i. int (length (filter (\<lambda>t. slot_of t = i \<and> (t = st_secEpoch s ! slot_of t \<and> now - t < 60)) h))) [0..<60])"
    unfolding window_sum_def zip map_map
  proof (intro arg_cong [where f = sum_list] map_cong refl)
    fix i assume "i \<in> set [0..<60]"
    then have i: "i < 60" by simp
    have "filter (\<lambda>t. slot_of t = i \<and> (t = st_secEpoch s ! slot_of t \<and> now - t < 60)) h =
        (if now - st_secEpoch s ! i < 60 then filter (\<lambda>t. slot_of t = i \<and> t = st_secEpoch s ! i) h else [])"
      by (auto simp: filter_empty_conv intro!: filter_cong)
    then show "((\<lambda>(e, n). if now - e < 60 then n else 0) \<circ> (\<lambda>i. (st_secEpoch s ! i, st_secs s ! i))) i =
        int (length (filter (\<lambda>t. slot_of t = i \<and> (t = st_secEpoch s ! slot_of t \<and> now - t < 60)) h))"
      using at(3) [OF i] by simp
  qed
  also have "\<dots> = int (length (filter (\<lambda>t. slot_of t < 60 \<and> (t = st_secEpoch s ! slot_of t \<and> now - t < 60)) h))"
    by (rule filter_classes)
  also have "filter (\<lambda>t. slot_of t < 60 \<and> (t = st_secEpoch s ! slot_of t \<and> now - t < 60)) h = filter (\<lambda>t. now - t < 60) h"
  proof (rule filter_cong [OF refl])
    fix t assume t: "t \<in> set h"
    let ?e = "st_secEpoch s ! slot_of t"
    have "t = ?e" if near: "now - t < 60"
    proof (cases "?e \<in> set h \<and> slot_of ?e = slot_of t")
      case True
      then have "?e mod 60 = t mod 60" by (auto simp: slot_of_def eq_nat_nat_iff)
      then have "60 dvd ?e - t" by (simp add: mod_eq_dvd_iff)
      moreover have "t \<le> ?e" "?e \<le> now" using at(2) [OF slot_of_less t refl] True le by auto
      ultimately show ?thesis using near by (auto dest!: zdvd_imp_le)
    next
      case False
      then have "?e = 0" using at(1) [OF slot_of_less, of t] by blast
      moreover have "t \<le> ?e" by (rule at(2) [OF slot_of_less t refl])
      ultimately show ?thesis using le t by force
    qed
    then show "(slot_of t < 60 \<and> t = ?e \<and> now - t < 60) = (now - t < 60)" using slot_of_less by blast
  qed
  finally show ?thesis .
qed

text \<open>
  C23. The requests-per-second figure is the number of requests of the last sixty seconds
  over sixty, after any history of requests at seconds that do not go back; and the four
  status classes always add up to the number of requests.
\<close>

theorem rps_counts_the_last_minute:
  assumes "sorted (map rd_time rs)" and "list_all (\<lambda>r. 0 \<le> rd_time r \<and> rd_time r \<le> now) rs"
    and "t = stats_snapshot now (foldl record_done new_stats rs)"
  shows "ts_RPS t = of_int (int (length (filter (\<lambda>r. now - rd_time r < 60) rs))) / 60 \<and>
    ts_Requests t = int (length rs) \<and>
    ts_Requests t = ts_Status2xx t + ts_Status3xx t + ts_Status4xx t + ts_Status5xx t"
proof -
  have ring: "ring_inv (map rd_time rs) (foldl record_done new_stats rs)"
    if "sorted (map rd_time rs)" "\<forall>r\<in>set rs. 0 \<le> rd_time r" for rs
    using that
  proof (induction rs rule: rev_induct)
    case Nil
    then show ?case by (simp add: ring_inv_def new_stats_def Let_def)
  next
    case (snoc r rs)
    then have "ring_inv (map rd_time rs) (foldl record_done new_stats rs)" by (simp add: sorted_append)
    then have "ring_inv (map rd_time rs @ [rd_time r]) (tick_second (rd_time r) (foldl record_done new_stats rs))"
      by (rule tick_ring) (use snoc.prems in \<open>auto simp: sorted_append\<close>)
    then show ?case by (simp add: ring_inv_def record_ring)
  qed
  have "window_sum now (foldl record_done new_stats rs) = int (length (filter (\<lambda>t. now - t < 60) (map rd_time rs)))"
    by (rule ring_window [OF ring]) (use assms(1,2) in \<open>auto simp: list_all_iff\<close>)
  moreover have "st_requests (foldl record_done s rs) = st_requests s + int (length rs)" for s
    by (induction rs arbitrary: s) (simp_all add: record_done_def record_stats_def count_status_def tick_second_def Let_def)
  moreover have "st_requests s = st_2xx s + st_3xx s + st_4xx s + st_5xx s \<Longrightarrow>
      (let s' = foldl record_done s rs in st_requests s' = st_2xx s' + st_3xx s' + st_4xx s' + st_5xx s')" for s
    by (induction rs arbitrary: s) (simp_all add: record_done_def record_stats_def count_status_def tick_second_def Let_def)
  from this [of new_stats] have "st_requests s' = st_2xx s' + st_3xx s' + st_4xx s' + st_5xx s'"
    if "s' = foldl record_done new_stats rs" for s' using that by (simp add: new_stats_def Let_def)
  ultimately show ?thesis
    by (simp add: assms(3) stats_snapshot_def filter_map comp_def new_stats_def)
qed

theorem rps_counts_the_last_minute_witness:
  "let r = (\<lambda>t. \<lparr> rd_time = t, rd_status = 200, rd_in = 0, rd_out = 10, rd_took = 5000 \<rparr>)
   in ts_RPS (stats_snapshot 121 (foldl record_done new_stats [r 1, r 61, r 62, r 121])) = 2 / 60"
proof -
  let ?r = "\<lambda>t. \<lparr> rd_time = t, rd_status = 200, rd_in = 0, rd_out = 10, rd_took = 5000 \<rparr> :: request_done"
  show ?thesis
    using rps_counts_the_last_minute [of "[?r 1, ?r 61, ?r 62, ?r 121]" 121] by simp
qed

end
