(* ===== verification/Front_Door.thy ===== *)
theory Front_Door
  imports Routing Ipban Cache Traffic
begin

text \<open>
  The way of a request through the proxy, up to the handler of its site: the address of
  the client, automatic bans, client certificates (\<^verbatim>\<open>src/internal/proxy/server.go\<close>,
  \<^verbatim>\<open>clientcert.go\<close>), the pipeline of a site and its locations (\<^verbatim>\<open>site.go\<close>, \<^verbatim>\<open>waf.go\<close>).

  A request carries what Go keeps in its context: the client's address once it is known
  and the certificate check for later paths. Handlers return what they answer, or the
  request they pass on, with the state they change. Arguments (\<open>front_env\<close>): bcrypt,
  SHA-256, reading basic credentials and request URIs, ACME challenges, the token bucket, the firewall's
  verdict and the rewrite engine's result. The body of the built-in error page is named
  by its status and text.
\<close>

section \<open>Requests and answers\<close>

record cert_check =
  chk_policies :: "client_policy list"
  chk_id :: client_identity

record front_request =
  fr_req :: request
  fr_remote :: string
  fr_local :: "(int \<times> ip option) option"
  fr_sni :: string
  fr_peer :: "certificate list"
  fr_length :: int
  fr_client :: "string option"
  fr_check :: "cert_check option"
  fr_proxied :: bool

definition fr_header :: "front_request \<Rightarrow> header" where
  "fr_header r = rq_header (fr_req r)"

definition set_header :: "header \<Rightarrow> front_request \<Rightarrow> front_request" where
  "set_header h r = r \<lparr> fr_req := (fr_req r) \<lparr> rq_header := h \<rparr> \<rparr>"

datatype page = BuiltinPage int string | CustomPage string | PlainText string | NoBody

record http_answer =
  a_status :: int
  a_header :: header
  a_page :: page

definition errorPage :: "(string \<times> string) list \<Rightarrow> int \<Rightarrow> string \<Rightarrow> header \<Rightarrow> http_answer" where
  "errorPage custom status detail h =
     \<lparr> a_status = status,
       a_header = header_set ''Cache-Control'' ''no-store''
         (header_set ''Content-Type'' ''text/html; charset=utf-8'' (header_del ''Content-Length'' h)),
       a_page = (case map_of custom (show_int status) of
                   Some body \<Rightarrow> if body \<noteq> [] then CustomPage body else BuiltinPage status detail
                 | None \<Rightarrow> BuiltinPage status detail) \<rparr>"

definition redirect_answer :: "string \<Rightarrow> int \<Rightarrow> header \<Rightarrow> http_answer" where
  "redirect_answer location status h = \<lparr> a_status = status, a_header = header_set ''Location'' location h, a_page = NoBody \<rparr>"

section \<open>The client's address\<close>

definition remoteIP :: "front_request \<Rightarrow> string" where
  "remoteIP r = (case SplitHostPort (fr_remote r) of Some (h, _) \<Rightarrow> h | None \<Rightarrow> fr_remote r)"

definition inNets :: "ip option \<Rightarrow> ipnet list \<Rightarrow> bool" where
  "inNets ip nets = (case ip of None \<Rightarrow> False | Some w \<Rightarrow> list_ex (\<lambda>n. Contains n w) nets)"

definition trustsForwarded :: "ipnet list \<Rightarrow> front_request \<Rightarrow> bool" where
  "trustsForwarded trusted r \<longleftrightarrow> trusted \<noteq> [] \<and> inNets (ParseIP (remoteIP r)) trusted"

definition forwardedFor :: "header \<Rightarrow> string" where
  "forwardedFor h = join_with '','' (header_values h ''X-Forwarded-For'')"

definition forwardedIP :: "string \<Rightarrow> ip option" where
  "forwardedIP entry0 =
     (let entry = trim_space entry0 in
      case ParseIP entry of
        Some ip \<Rightarrow> Some ip
      | None \<Rightarrow>
          (case SplitHostPort entry of
             Some (host, _) \<Rightarrow> ParseIP host
           | None \<Rightarrow> if prefix ''['' entry \<and> suffix '']'' entry then ParseIP (butlast (tl entry)) else None))"

text \<open>The walk from the last entry to the first.\<close>

fun forwarded_walk :: "ipnet list \<Rightarrow> string \<Rightarrow> string list \<Rightarrow> string" where
  "forwarded_walk trusted peer [] = peer"
| "forwarded_walk trusted peer (e # es) =
     (case forwardedIP e of
        None \<Rightarrow> peer
      | Some ip \<Rightarrow> if \<not> inNets (Some ip) trusted then ip_string ip else forwarded_walk trusted peer es)"

definition clientIP :: "ipnet list \<Rightarrow> front_request \<Rightarrow> string" where
  "clientIP trusted r =
     (case fr_client r of
        Some v \<Rightarrow> v
      | None \<Rightarrow>
          if \<not> trustsForwarded trusted r then remoteIP r
          else forwarded_walk trusted (remoteIP r) (rev (split_at_char CHR '','' (forwardedFor (fr_header r)))))"

section \<open>Counting for bans\<close>

definition triedPassword :: "request \<Rightarrow> bool" where
  "triedPassword r =
     (if rq_method r = ''OPTIONS'' then False
      else let auth = header_get (rq_header r) ''Authorization'' in
        if auth \<noteq> [] then (case cut_at CHR '' '' (trim_space auth) of (scheme, _, _) \<Rightarrow> equal_fold scheme ''Basic'')
        else if rq_method r \<noteq> ''POST'' then False
        else (case cut_at CHR '';'' (header_get (rq_header r) ''Content-Type'') of (mt0, _, _) \<Rightarrow>
                let mt = to_lower (trim_space mt0)
                in mt = ''application/x-www-form-urlencoded'' \<or> mt = ''multipart/form-data''))"

definition countForBan :: "ban_options \<Rightarrow> instant \<Rightarrow> ip option \<Rightarrow> request \<Rightarrow> int \<Rightarrow> manager \<Rightarrow> manager" where
  "countForBan opts now ip r status m =
     (if ip = None then m
      else if status = 401 \<and> triedPassword r then fst (Record opts now ip AuthFailure m)
      else if status = 404 then fst (Record opts now ip NotFound m)
      else if status = 429 then fst (Record opts now ip RateLimited m)
      else m)"

definition refuseBanned :: "header \<Rightarrow> http_answer" where
  "refuseBanned h =
     \<lparr> a_status = 403,
       a_header = header_set ''Connection'' ''close'' (header_set ''Cache-Control'' ''no-store''
         (header_set ''Content-Type'' ''text/plain; charset=utf-8'' h)),
       a_page = PlainText (''Forbidden'' @ [CHR 0x0A]) \<rparr>"

section \<open>Sites\<close>

record header_rule =
  hr_Action :: string
  hr_Name :: string
  hr_Value :: string

record location_config =
  loc_Path :: string
  loc_Kind :: string
  loc_SiteID :: string
  loc_StripPrefix :: bool
  loc_handler :: bool

record routing_config =
  ro_HTTPSRedirect :: bool
  ro_HSTS :: "(int \<times> bool \<times> bool) option"
  ro_Maintenance :: bool
  ro_RetryAfterSec :: int
  ro_MaintenanceHTML :: string
  ro_ExcludePaths :: "string list"
  ro_Realm :: string
  ro_MaxBodyMB :: int
  ro_RequestHeaders :: "header_rule list"
  ro_ResponseHeaders :: "header_rule list"
  ro_ErrorPages :: "(string \<times> string) list"
  ro_BanExempt :: bool
  ro_AllowTrapPaths :: bool

record 'b site_runtime =
  sr_id :: string
  sr_routing :: routing_config
  sr_allow :: "ipnet list"
  sr_deny :: "ipnet list"
  sr_maintAllow :: "ipnet list"
  sr_limiter :: "'b ip_limiter option"
  sr_basicUsers :: "(string \<times> string) list option"
  sr_authCache :: "string list"
  sr_httpsPort :: int
  sr_waf :: "bool option"
  sr_rewrites :: bool
  sr_locations :: "location_config list"

text \<open>\<open>sr_waf\<close> is whether the firewall blocks, when the site has one.\<close>

datatype rewrite_result =
    RewriteNone front_request
  | RewriteRedirect string int
  | RewriteBlock int
  | RewriteRespond string int string
  | RewriteProxy front_request

datatype waf_verdict = WafBusy | WafPass | WafExceeded

record 'b front_env =
  fe_x509 :: x509_env
  fe_BasicAuth :: "header \<Rightarrow> (string \<times> string) option"
  fe_bcrypt :: "string \<Rightarrow> string \<Rightarrow> bool"
  fe_sha256 :: "string \<Rightarrow> string"
  fe_RequestURI :: "request \<Rightarrow> string"
  fe_bucket :: "'b bucket_api"
  fe_waf :: "string \<Rightarrow> front_request \<Rightarrow> waf_verdict"
  fe_requestID :: string
  fe_acme :: "front_request \<Rightarrow> bool"
  fe_rewrite :: "string \<Rightarrow> front_request \<Rightarrow> rewrite_result"

section \<open>Client certificates\<close>

text \<open>Whether a path may be taken: \<open>None\<close>, or the status and text of the refusal.\<close>

fun cert_allows :: "bool \<Rightarrow> client_identity \<Rightarrow> string \<Rightarrow> string \<Rightarrow> client_policy list \<Rightarrow> (int \<times> string) option" where
  "cert_allows tls i path raw [] = None"
| "cert_allows tls i path raw (p # ps) =
     (case requiredFor (cp_mode p = ClientCertRequire) (cp_requirePaths p) path raw of
        None \<Rightarrow> Some (400, ''The request path is not valid.'')
      | Some False \<Rightarrow> cert_allows tls i path raw ps
      | Some True \<Rightarrow>
          Some (403,
            if \<not> tls then ''A client certificate is required, which needs HTTPS.''
            else if ci_verify i \<noteq> ''NONE''
            then ''Your client certificate is not accepted here ('' @
                 (if prefix ''FAILED:'' (ci_verify i) then drop 7 (ci_verify i) else ci_verify i) @ '').''
            else ''A client certificate is required.''))"

definition check_allows :: "cert_check \<Rightarrow> front_request \<Rightarrow> string \<Rightarrow> string \<Rightarrow> (int \<times> string) option" where
  "check_allows c r path raw = cert_allows (rq_tls (fr_req r)) (chk_id c) path raw (chk_policies c)"

datatype gate = GatePass front_request | GateRefuse http_answer

definition refuse_gate :: "(string \<times> string) list \<Rightarrow> (int \<times> string) \<Rightarrow> gate" where
  "refuse_gate pages sm = GateRefuse (errorPage pages (fst sm) (snd sm) [])"

definition plainCertGate :: "(string \<times> client_policy) list \<Rightarrow> 'b site_runtime \<Rightarrow> route \<Rightarrow> front_request \<Rightarrow> gate" where
  "plainCertGate policies site rt r =
     (if r_secure rt = [] then GatePass r
      else if ro_HTTPSRedirect (sr_routing site) \<and> sr_httpsPort site \<noteq> 0 then GatePass r
      else
        (let host = normal_host (hostOnly (rq_host (fr_req r)));
             keys = remdups (map snd (filter (\<lambda>hk. hostMatches (fst hk) host) (r_secure rt)));
             c = \<lparr> chk_policies = List.map_filter (map_of policies) keys, chk_id = identityNone \<rparr>
         in if chk_policies c = [] then GatePass r
            else case check_allows c r (rq_path (fr_req r)) (rq_rawpath (fr_req r)) of
                   Some sm \<Rightarrow> refuse_gate (ro_ErrorPages (sr_routing site)) sm
                 | None \<Rightarrow> GatePass (r \<lparr> fr_check := Some c \<rparr>)))"

definition clientCertGate ::
  "x509_env \<Rightarrow> instant \<Rightarrow> route_table \<Rightarrow> 'b site_runtime \<Rightarrow> route \<Rightarrow> int \<Rightarrow> ip option \<Rightarrow>
   (string \<times> client_policy) list \<Rightarrow> front_request \<Rightarrow> gate \<times> (string \<times> client_policy) list" where
  "clientCertGate env now t site rt port local policies r0 =
     (let r = set_header (stripClientCertHeaders (fr_header r0)) r0 in
      if \<not> rq_tls (fr_req r) then (plainCertGate policies site rt r, policies)
      else case r_client rt of
             None \<Rightarrow> (GatePass r, policies)
           | Some key \<Rightarrow>
               (case map_of policies key of
                  None \<Rightarrow> (GatePass r, policies)
                | Some p \<Rightarrow>
                    if (case tlsRoute t port local (fr_sni r) of None \<Rightarrow> True | Some hs \<Rightarrow> r_client hs \<noteq> Some key) \<or>
                       (cp_mode p = ClientCertRequire \<and> fr_peer r = [])
                    then (GateRefuse (errorPage [] 421
                            ''This connection cannot be used for this host name. Please try again.''
                            (header_set ''Connection'' ''close'' [])), policies)
                    else
                      (let (i, p') = identify env now (fr_peer r) p;
                           policies' = AList.update key p' policies;
                           c = \<lparr> chk_policies = [p], chk_id = i \<rparr>
                       in if identity_ok i
                          then (GatePass (set_header (identity_headers i (fr_header r)) r), policies')
                          else case check_allows c r (rq_path (fr_req r)) (rq_rawpath (fr_req r)) of
                                 Some sm \<Rightarrow> (refuse_gate (ro_ErrorPages (sr_routing site)) sm, policies')
                               | None \<Rightarrow>
                                   (GatePass (set_header (identity_headers i (fr_header r))
                                      (if cp_requirePaths p \<noteq> [] then r \<lparr> fr_check := Some c \<rparr> else r)), policies'))))"

section \<open>Locations\<close>

text \<open>\<^verbatim>\<open>sr_locations\<close> is sorted once, the longest path first.\<close>

definition sort_locations :: "location_config list \<Rightarrow> location_config list" where
  "sort_locations ls = sort_key (\<lambda>l. - int (length (loc_Path l))) ls"

definition location_serves :: "string \<Rightarrow> location_config \<Rightarrow> bool" where
  "location_serves p l \<longleftrightarrow> p = loc_Path l \<or> prefix (trim_suffix ''/'' (loc_Path l) @ ''/'') p"

definition locationFor :: "location_config list \<Rightarrow> string \<Rightarrow> location_config option" where
  "locationFor ls p = List.find (location_serves p) ls"

definition trim_prefix :: "string \<Rightarrow> string \<Rightarrow> string" where
  "trim_prefix pre s = (if prefix pre s then drop (length pre) s else s)"

definition loc_strip :: "location_config \<Rightarrow> string \<Rightarrow> string" where
  "loc_strip l p = ''/'' @ dropWhile (\<lambda>c. c = CHR ''/'') (trim_prefix (trim_suffix ''/'' (loc_Path l)) p)"

definition clientCertPaths :: "'b site_runtime \<Rightarrow> front_request \<Rightarrow> (int \<times> string) option" where
  "clientCertPaths site r =
     (case fr_check r of
        None \<Rightarrow> None
      | Some c \<Rightarrow>
          (case check_allows c r (rq_path (fr_req r)) [] of
             Some sm \<Rightarrow> Some sm
           | None \<Rightarrow>
               if fr_proxied r then None
               else case locationFor (sr_locations site) (rq_path (fr_req r)) of
                      None \<Rightarrow> None
                    | Some l \<Rightarrow> if loc_StripPrefix l then check_allows c r (loc_strip l (rq_path (fr_req r))) [] else None))"

section \<open>The pipeline\<close>

text \<open>\<^verbatim>\<open>%q\<close> of printable text.\<close>

definition go_quote :: "string \<Rightarrow> string" where
  "go_quote s = [CHR 0x22] @ concat (map (\<lambda>c. if c = CHR 0x22 \<or> c = CHR 0x5C then [CHR 0x5C, c] else [c]) s) @ [CHR 0x22]"

definition untrustedForwarded :: "string list" where
  "untrustedForwarded = [''X-Forwarded-Prefix'', ''X-Forwarded-Port'', ''X-Forwarded-Server'', ''X-Forwarded-Ssl'', ''X-Forwarded-Scheme'']"

definition excluded :: "string \<Rightarrow> string \<Rightarrow> string list \<Rightarrow> bool" where
  "excluded p raw pfxs =
     (case pathForms p raw of
        None \<Rightarrow> False
      | Some (literal, resolved) \<Rightarrow>
          list_ex (\<lambda>x. x \<noteq> [] \<and>
            (case pathForms x [] of
               None \<Rightarrow> False
             | Some (_, px) \<Rightarrow> underPrefix literal (trim_suffix_slash px) \<and> underPrefix resolved (trim_suffix_slash px))) pfxs)"

definition checkBasic :: "'b front_env \<Rightarrow> front_request \<Rightarrow> (string \<times> string) list \<Rightarrow> string list \<Rightarrow> bool \<times> string list" where
  "checkBasic env r users cache =
     (case fe_BasicAuth env (fr_header r) of
        None \<Rightarrow> (False, cache)
      | Some (user, pass) \<Rightarrow>
          (case map_of users user of
             None \<Rightarrow> (False, cache)
           | Some hash \<Rightarrow>
               (let key = fe_sha256 env (user @ [CHR 0x00] @ pass @ [CHR 0x00] @ hash) in
                if key \<in> set cache then (True, cache)
                else if \<not> fe_bcrypt env hash pass then (False, cache)
                else (True, key # cache))))"

fun applyHeaderRules :: "header_rule list \<Rightarrow> header \<Rightarrow> header" where
  "applyHeaderRules [] h = h"
| "applyHeaderRules (hr # rs) h =
     applyHeaderRules rs
       (let n = CanonicalHeaderKey (hr_Name hr) in
        if hr_Action hr = ''set'' then header_set n (hr_Value hr) h
        else if hr_Action hr = ''add'' then header_add n (hr_Value hr) h
        else if hr_Action hr = ''remove'' then header_del n h
        else h)"

definition crossSite :: "request \<Rightarrow> bool" where
  "crossSite r \<longleftrightarrow> equal_fold (header_get (rq_header r) ''Sec-Fetch-Site'') ''cross-site''"

text \<open>\<^verbatim>\<open>inspectWAF\<close>: the answer of a refused request, and the ban manager.\<close>

definition inspectWAF ::
  "'b front_env \<Rightarrow> ban_options \<Rightarrow> instant \<Rightarrow> 'b site_runtime \<Rightarrow> bool \<Rightarrow> front_request \<Rightarrow> string \<Rightarrow> header \<Rightarrow>
   manager option \<Rightarrow> http_answer option \<times> manager option" where
  "inspectWAF env opts now site block r client h bans =
     (let pages = ro_ErrorPages (sr_routing site) in
      case fe_waf env (sr_id site) r of
        WafBusy \<Rightarrow> (Some (errorPage pages 503 ''The server is busy. Please try again shortly.'' (header_set ''Retry-After'' ''1'' h)), bans)
      | WafPass \<Rightarrow> (None, bans)
      | WafExceeded \<Rightarrow>
          if \<not> block then (None, bans)
          else
            (Some (errorPage pages 403
               (''This request was blocked by the web application firewall. If you think it should not have been, tell the site'' @
                [CHR 0x27] @ ''s administrator the request ID '' @ fe_requestID env @ ''.'')
               (header_set ''X-Request-Id'' (fe_requestID env) h)),
             if ro_BanExempt (sr_routing site) \<or> crossSite (fr_req r) then bans
             else map_option (\<lambda>m. fst (Record opts now (ParseIP client) WAFBlocked m)) bans))"

datatype outcome = Answered http_answer | Dispatched front_request header

definition hsts_value :: "int \<times> bool \<times> bool \<Rightarrow> string" where
  "hsts_value v = (case v of (age, sub, pre) \<Rightarrow>
     ''max-age='' @ show_int age @ (if sub then ''; includeSubDomains'' else []) @ (if pre then ''; preload'' else []))"

definition maintenance_answer :: "routing_config \<Rightarrow> header \<Rightarrow> http_answer" where
  "maintenance_answer ro h0 =
     (let h = (if ro_RetryAfterSec ro > 0 then header_set ''Retry-After'' (show_int (ro_RetryAfterSec ro)) h0 else h0) in
      if ro_MaintenanceHTML ro \<noteq> []
      then \<lparr> a_status = 503, a_header = header_set ''Cache-Control'' ''no-store'' (header_set ''Content-Type'' ''text/html; charset=utf-8'' h),
             a_page = CustomPage (ro_MaintenanceHTML ro) \<rparr>
      else errorPage (ro_ErrorPages ro) 503 ''This site is down for maintenance. Please try again shortly.'' h)"

text \<open>From the body limit on: the firewall, the rewrite rules and the later paths.\<close>

definition serve_late ::
  "'b front_env \<Rightarrow> ban_options \<Rightarrow> instant \<Rightarrow> 'b site_runtime \<Rightarrow> front_request \<Rightarrow> string \<Rightarrow> header \<Rightarrow> manager option \<Rightarrow>
   outcome \<times> manager option" where
  "serve_late env opts now site r client h bans =
     (let ro = sr_routing site; pages = ro_ErrorPages ro in
      if ro_MaxBodyMB ro > 0 \<and> fr_length r > ro_MaxBodyMB ro * 2 ^ 20
      then (Answered (errorPage pages 413 ''The request body is too large.'' h), bans)
      else
        (let (refused, bans) = (case sr_waf site of None \<Rightarrow> (None, bans)
                                | Some block \<Rightarrow> inspectWAF env opts now site block r client h bans) in
         case refused of
           Some a \<Rightarrow> (Answered a, bans)
         | None \<Rightarrow>
             (case (if sr_rewrites site then fe_rewrite env (sr_id site) r else RewriteNone r) of
                RewriteRedirect loc status \<Rightarrow> (Answered (redirect_answer loc status h), bans)
              | RewriteBlock status \<Rightarrow> (Answered (errorPage pages status ''This request was blocked.'' h), bans)
              | RewriteRespond ct status body \<Rightarrow>
                  (Answered \<lparr> a_status = status, a_header = header_set ''Content-Type'' ct h, a_page = CustomPage body \<rparr>, bans)
              | RewriteNone r' \<Rightarrow>
                  (case clientCertPaths site r' of
                     Some sm \<Rightarrow> (Answered (errorPage pages (fst sm) (snd sm) h), bans)
                   | None \<Rightarrow> (Dispatched (set_header (applyHeaderRules (ro_RequestHeaders ro) (fr_header r')) r') h, bans))
              | RewriteProxy r' \<Rightarrow>
                  (let r' = r' \<lparr> fr_proxied := True \<rparr> in
                   case clientCertPaths site r' of
                     Some sm \<Rightarrow> (Answered (errorPage pages (fst sm) (snd sm) h), bans)
                   | None \<Rightarrow> (Dispatched (set_header (applyHeaderRules (ro_RequestHeaders ro) (fr_header r')) r') h, bans)))))"

text \<open>Basic authentication, then the rest.\<close>

definition serve_auth ::
  "'b front_env \<Rightarrow> ban_options \<Rightarrow> instant \<Rightarrow> 'b site_runtime \<Rightarrow> front_request \<Rightarrow> string \<Rightarrow> header \<Rightarrow> manager option \<Rightarrow>
   outcome \<times> 'b site_runtime \<times> manager option" where
  "serve_auth env opts now site0 r client h bans =
     (let ro = sr_routing site0;
          (ok, cache) = (case sr_basicUsers site0 of
              None \<Rightarrow> (True, sr_authCache site0)
            | Some users \<Rightarrow>
                if excluded (rq_path (fr_req r)) (rq_rawpath (fr_req r)) (ro_ExcludePaths ro) then (True, sr_authCache site0)
                else checkBasic env r users (sr_authCache site0));
          site = site0 \<lparr> sr_authCache := cache \<rparr>
      in if \<not> ok
         then (Answered (errorPage (ro_ErrorPages ro) 401 ''Authentication is required.''
                 (header_set ''WWW-Authenticate'' (''Basic realm='' @ go_quote (ro_Realm ro) @ '', charset='' @ go_quote ''UTF-8'') h)), site, bans)
         else (let (out, bans) = serve_late env opts now site r client h bans in (out, site, bans)))"

text \<open>The rate limit, then authentication.\<close>

definition serve_limited ::
  "'b front_env \<Rightarrow> ban_options \<Rightarrow> instant \<Rightarrow> 'b site_runtime \<Rightarrow> front_request \<Rightarrow> string \<Rightarrow> header \<Rightarrow> manager option \<Rightarrow>
   outcome \<times> 'b site_runtime \<times> manager option" where
  "serve_limited env opts now site0 r client h bans =
     (let (ok, limiter) = (case sr_limiter site0 of
              None \<Rightarrow> (True, None)
            | Some l \<Rightarrow> let (ok, l') = limiter_allow (fe_bucket env) now client l in (ok, Some l'));
          site = site0 \<lparr> sr_limiter := limiter \<rparr>
      in if \<not> ok
         then (Answered (errorPage (ro_ErrorPages (sr_routing site)) 429 ''Too many requests. Slow down and try again.''
                 (header_set ''Retry-After'' ''1'' h)), site, bans)
         else serve_auth env opts now site r client h bans)"

text \<open>The request as it enters the pipeline: headers that only trusted proxies may set are removed.\<close>

definition entering :: "ipnet list \<Rightarrow> front_request \<Rightarrow> front_request" where
  "entering trusted r =
     (let r1 = r \<lparr> fr_client := Some (clientIP trusted r) \<rparr>
      in if trustsForwarded trusted r1 then r1 else set_header (fold header_del untrustedForwarded (fr_header r1)) r1)"

definition https_location :: "'b front_env \<Rightarrow> 'b site_runtime \<Rightarrow> request \<Rightarrow> string" where
  "https_location env site r =
     (let host = hostOnly (rq_host r)
      in ''https://'' @ (if sr_httpsPort site \<noteq> 443 then JoinHostPort host (show_int (sr_httpsPort site)) else host) @
         fe_RequestURI env r)"

definition serve_site ::
  "'b front_env \<Rightarrow> ban_options \<Rightarrow> instant \<Rightarrow> ipnet list \<Rightarrow> 'b site_runtime \<Rightarrow> manager option \<Rightarrow> front_request \<Rightarrow>
   outcome \<times> 'b site_runtime \<times> manager option" where
  "serve_site env opts now trusted site bans r0 =
     (let ro = sr_routing site;
          client = clientIP trusted r0;
          r = entering trusted r0;
          tls = rq_tls (fr_req r);
          h = (case ro_HSTS ro of None \<Rightarrow> []
               | Some v \<Rightarrow> if tls then header_set ''Strict-Transport-Security'' (hsts_value v) [] else []);
          ip = ParseIP client
      in if ro_HTTPSRedirect ro \<and> \<not> tls \<and> sr_httpsPort site \<noteq> 0
         then (Answered (redirect_answer (https_location env site (fr_req r)) 301 []), site, bans)
         else if (sr_allow site \<noteq> [] \<and> \<not> inNets ip (sr_allow site)) \<or> inNets ip (sr_deny site)
         then (Answered (errorPage (ro_ErrorPages ro) 403 ''Access from your address is not allowed.'' h), site, bans)
         else if ro_Maintenance ro \<and> \<not> inNets ip (sr_maintAllow site)
         then (Answered (maintenance_answer ro h), site, bans)
         else serve_limited env opts now site r client h bans)"

section \<open>The entry point\<close>

record 'b front_server =
  fs_table :: route_table
  fs_policies :: "(string \<times> client_policy) list"
  fs_trusted :: "ipnet list"
  fs_bans :: "manager option"
  fs_runtimes :: "(string \<times> 'b site_runtime) list"
  fs_stats :: "(string \<times> site_stats) list"
  fs_ServerHeader :: string
  fs_DefaultPageHTML :: string
  fs_h3 :: h3_ports

definition templateEscape :: "string \<Rightarrow> string" where
  "templateEscape s = concat (map (\<lambda>c.
     if c = CHR ''&'' then ''&amp;'' else if c = CHR ''<'' then ''&lt;'' else if c = CHR ''>'' then ''&gt;''
     else if c = CHR 0x22 then ''&quot;'' else if c = CHR ''%'' then ''%%'' else [c]) s)"

definition default_answer :: "'b front_server \<Rightarrow> front_request \<Rightarrow> header \<Rightarrow> http_answer" where
  "default_answer s r h0 =
     (let h = (if fs_ServerHeader s \<noteq> [] then header_set ''Server'' (fs_ServerHeader s) h0 else h0)
      in \<lparr> a_status = 404, a_header = header_set ''Content-Type'' ''text/html; charset=utf-8'' h,
           a_page = (if fs_DefaultPageHTML s \<noteq> [] then CustomPage (fs_DefaultPageHTML s)
                     else BuiltinPage 404 (templateEscape (hostOnly (rq_host (fr_req r))))) \<rparr>)"

text \<open>\<^verbatim>\<open>responseWriter.WriteHeader\<close> of a final status.\<close>

definition write_answer :: "string \<Rightarrow> header_rule list \<Rightarrow> http_answer \<Rightarrow> http_answer" where
  "write_answer server rules a =
     (let h = (if server \<noteq> [] \<and> header_get (a_header a) ''Server'' = [] then header_set ''Server'' server (a_header a) else a_header a)
      in a \<lparr> a_header := applyHeaderRules rules h \<rparr>)"

definition stats_for :: "'b front_server \<Rightarrow> string \<Rightarrow> site_stats" where
  "stats_for s sid = (case map_of (fs_stats s) sid of None \<Rightarrow> new_stats | Some st \<Rightarrow> st)"

text \<open>Bans and traps, before anything a site does: the ban manager, and whether the client is refused.\<close>

definition ban_gate :: "ban_options \<Rightarrow> instant \<Rightarrow> bool \<Rightarrow> ip option \<Rightarrow> string \<Rightarrow> manager \<Rightarrow> bool \<times> manager" where
  "ban_gate opts now traps ip path m =
     (if Banned m now ip then (True, m)
      else if traps then (case Trap opts now ip path m of (hit, m', _) \<Rightarrow> (hit, m'))
      else (False, m))"

text \<open>
  A request from the listener to the answer. \<open>core\<close> is the handler of a site behind the
  pipeline; \<open>took\<close>, \<open>written\<close> and \<open>proto\<close> are what the deferred bookkeeping measures.
  The result is \<open>None\<close> when an ACME challenge was answered.
\<close>

definition after_site ::
  "ban_options \<Rightarrow> instant \<Rightarrow> ip option \<Rightarrow> string \<Rightarrow> request \<Rightarrow> int \<Rightarrow> int \<Rightarrow> int \<Rightarrow> duration \<Rightarrow> int \<Rightarrow> 'b front_server \<Rightarrow> 'b front_server" where
  "after_site opts now banIP sid r status inn written took proto s =
     (let st = countProto proto (record_stats (now div second) status (max inn 0) written took (stats_for s sid))
      in s \<lparr> fs_stats := AList.update sid st (fs_stats s),
             fs_bans := map_option (countForBan opts now banIP r status) (fs_bans s) \<rparr>)"

definition serve_route ::
  "'b front_env \<Rightarrow> ban_options \<Rightarrow> instant \<Rightarrow> ('b site_runtime \<Rightarrow> front_request \<Rightarrow> header \<Rightarrow> http_answer) \<Rightarrow> route \<Rightarrow> 'b site_runtime \<Rightarrow>
   int \<Rightarrow> ip option \<Rightarrow> 'b front_server \<Rightarrow> front_request \<Rightarrow> http_answer \<times> request \<times> 'b front_server" where
  "serve_route env opts now core rt site port local s r =
     (case clientCertGate (fe_x509 env) now (fs_table s) site rt port local (fs_policies s) r of
        (GateRefuse a, policies) \<Rightarrow> (a, fr_req r, s \<lparr> fs_policies := policies \<rparr>)
      | (GatePass r', policies) \<Rightarrow>
          (case serve_site env opts now (fs_trusted s) site (fs_bans s) r' of
             (out, site', bans) \<Rightarrow>
               (let s' = s \<lparr> fs_policies := policies, fs_bans := bans,
                             fs_runtimes := AList.update (r_site rt) site' (fs_runtimes s) \<rparr>
                in case out of
                     Answered a \<Rightarrow> (a, fr_req r', s')
                   | Dispatched r2 h \<Rightarrow> (core site' r2 h, fr_req r2, s'))))"

definition serve ::
  "'b front_env \<Rightarrow> ban_options \<Rightarrow> instant \<Rightarrow> ('b site_runtime \<Rightarrow> front_request \<Rightarrow> header \<Rightarrow> http_answer) \<Rightarrow> int \<Rightarrow> duration \<Rightarrow> int \<Rightarrow>
   'b front_server \<Rightarrow> front_request \<Rightarrow> http_answer option \<times> 'b front_server" where
  "serve env opts now core written took proto s r0 =
     (if fe_acme env r0 then (None, s)
      else
        (let (port, local) = (case fr_local r0 of None \<Rightarrow> (0, None) | Some pl \<Rightarrow> pl);
             rt = match (fs_table s) port local (hostOnly (rq_host (fr_req r0)));
             found = (case rt of None \<Rightarrow> None | Some route \<Rightarrow> map_option (Pair route) (map_of (fs_runtimes s) (r_site route)));
             h0 = (case advertiseHTTP3 (fs_h3 s) (rq_tls (fr_req r0)) proto port local rt of
                     None \<Rightarrow> [] | Some v \<Rightarrow> header_add ''Alt-Svc'' v []);
             watch = (fs_bans s \<noteq> None \<and> (case found of None \<Rightarrow> True | Some (_, site) \<Rightarrow> \<not> ro_BanExempt (sr_routing site)));
             traps = (case found of None \<Rightarrow> True | Some (_, site) \<Rightarrow> \<not> ro_AllowTrapPaths (sr_routing site));
             r = (if watch then r0 \<lparr> fr_client := Some (clientIP (fs_trusted s) r0) \<rparr> else r0);
             banIP = (if watch then ParseIP (clientIP (fs_trusted s) r0) else None);
             (refused, s1) = (case fs_bans s of
                Some m \<Rightarrow> if watch then (case ban_gate opts now traps banIP (rq_path (fr_req r)) m of
                                         (refused, m') \<Rightarrow> (refused, s \<lparr> fs_bans := Some m' \<rparr>)) else (False, s)
              | None \<Rightarrow> (False, s))
         in if refused then (Some (refuseBanned h0), s1)
            else case found of
                   None \<Rightarrow>
                     (Some (default_answer s r h0),
                      s1 \<lparr> fs_bans := map_option (countForBan opts now banIP (fr_req r) 404) (fs_bans s1) \<rparr>)
                 | Some (route, site) \<Rightarrow>
                     (case serve_route env opts now core route site port local s1 r of
                        (a, req, s2) \<Rightarrow>
                          (let a' = write_answer (fs_ServerHeader s) (ro_ResponseHeaders (sr_routing site)) (a \<lparr> a_header := h0 @ a_header a \<rparr>)
                           in (Some a', after_site opts now banIP (sr_id site) req (a_status a') (fr_length r) written took proto s2)))))"

section \<open>Reloading\<close>

definition server_Reload ::
  "x509_env \<Rightarrow> string list \<Rightarrow> (site \<Rightarrow> bool) \<Rightarrow> (site \<Rightarrow> 'b site_runtime option \<Rightarrow> 'b site_runtime) \<Rightarrow> site list \<Rightarrow> 'b front_server \<Rightarrow> 'b front_server" where
  "server_Reload env trustedProxies running compileSite sites s =
     (let (rs, policies) = all_routes env running (fs_policies s) sites;
          t = build_table rs
      in s \<lparr> fs_trusted := ok_nets trustedProxies, fs_table := t, fs_policies := prunePolicies t policies,
             fs_runtimes := map (\<lambda>x. (site_ID x, compileSite x (map_of (fs_runtimes s) (site_ID x)))) sites \<rparr>)"

end
