(* ===== verification/Front_Proofs.thy ===== *)
theory Front_Proofs
  imports Front_Door
begin

text \<open>
  What the front door promises: who a client is taken for, that banned clients are
  refused, that what needs a certificate is not served without, and what a request has
  passed when it reaches the handler of its site.
\<close>

section \<open>The client's address\<close>

lemma split_append_sep: "split_at_char c (a @ c # b) = split_at_char c a @ split_at_char c b"
  by (induction a) (auto split: list.splits)

definition trusted_entry :: "ipnet list \<Rightarrow> string \<Rightarrow> bool" where
  "trusted_entry trusted e \<longleftrightarrow> (case forwardedIP e of None \<Rightarrow> False | Some ip \<Rightarrow> inNets (Some ip) trusted)"

lemma walk_trusted:
  "list_all (trusted_entry trusted) xs \<Longrightarrow> forwarded_walk trusted peer (xs @ rest) = forwarded_walk trusted peer rest"
  by (induction xs) (auto simp: trusted_entry_def split: option.splits)

text \<open>The chain with what a client wrote in front of it.\<close>

definition behind :: "string option \<Rightarrow> string \<Rightarrow> string" where
  "behind forged chain = (case forged of None \<Rightarrow> chain | Some f \<Rightarrow> f @ '','' @ chain)"

lemma clientIP_behind:
  assumes "fr_client r = None" and "trustsForwarded trusted r"
    and "forwardedFor (fr_header r) = behind forged chain" and "split_at_char CHR '','' chain = e # proxies"
    and "list_all (trusted_entry trusted) proxies" and "\<not> trusted_entry trusted e"
  shows "clientIP trusted r = (case forwardedIP e of None \<Rightarrow> remoteIP r | Some ip \<Rightarrow> ip_string ip)"
proof -
  obtain pre where pre: "split_at_char CHR '','' (behind forged chain) = pre @ e # proxies"
    using assms(4) by (cases forged) (auto simp: behind_def split_append_sep)
  have "list_all (trusted_entry trusted) (rev proxies)" using assms(5) by (simp add: list_all_rev)
  from walk_trusted [OF this, of "remoteIP r" "e # rev pre"]
  have "forwarded_walk trusted (remoteIP r) (rev (pre @ e # proxies)) = forwarded_walk trusted (remoteIP r) (e # rev pre)" by simp
  then show ?thesis
    using assms(1,2,6) by (auto simp: clientIP_def assms(3) pre trusted_entry_def split: option.splits)
qed

text \<open>
  C14. A client cannot choose the address it is taken for: behind trusted proxies it is the
  last entry of X-Forwarded-For that a trusted proxy added about someone it does not
  trust, whatever the client put in front, on the same line or on lines of its own; an
  entry that cannot be read counts as the peer. Without a trusted peer it is the peer.
\<close>

theorem client_address_not_forged:
  assumes "fr_client r = None" and "fr_client r' = None" and "remoteIP r' = remoteIP r"
    and "forwardedFor (fr_header r) = behind forged chain" and "forwardedFor (fr_header r') = behind forged' chain"
    and "split_at_char CHR '','' chain = e # proxies"
    and "list_all (trusted_entry trusted) proxies" and "\<not> trusted_entry trusted e"
  shows "clientIP trusted r = clientIP trusted r' \<and>
    clientIP trusted r =
      (if trustsForwarded trusted r then case forwardedIP e of None \<Rightarrow> remoteIP r | Some ip \<Rightarrow> ip_string ip
       else remoteIP r)"
proof -
  have same: "trustsForwarded trusted r' = trustsForwarded trusted r" using assms(3) by (simp add: trustsForwarded_def)
  show ?thesis
  proof (cases "trustsForwarded trusted r")
    case True
    then show ?thesis
      using clientIP_behind [OF assms(1) True assms(4,6-8)] clientIP_behind [OF assms(2) _ assms(5,6-8)] same assms(3)
      by (cases "forwardedIP e") simp_all
  next
    case False
    then show ?thesis using same assms(1-3) by (simp add: clientIP_def)
  qed
qed

section \<open>Examples\<close>

lemmas parse_ip_eval = ParseIP_def parse_v4_def read_dotted_def read_octet_def undigits_def ip_v4_def digits_val_def
  digit_val_def is_digit_def

definition net10 :: ipnet where
  "net10 = \<lparr> net_IP = 0xFFFF0A000000, net_ones = 8, net_bits = 32 \<rparr>"

lemma parse_proxy: "ParseIP ''10.0.0.1'' = Some 0xFFFF0A000001"
  by (simp add: parse_ip_eval)

lemma parse_client: "ParseIP ''9.8.7.6'' = Some 0xFFFF09080706"
  by (simp add: parse_ip_eval)

lemma net10_contains: "Contains net10 0xFFFF0A000001" "\<not> Contains net10 0xFFFF09080706"
  by code_simp+

definition example_front :: "string list \<Rightarrow> front_request" where
  "example_front forwarded =
     \<lparr> fr_req = \<lparr> rq_method = ''GET'', rq_host = ''h'', rq_tls = False, rq_binding = None, rq_path = ''/pub'', rq_rawpath = [],
                   rq_escaped = ''/pub'', rq_query = [], rq_header = [(''X-Forwarded-For'', forwarded)] \<rparr>,
       fr_remote = ''10.0.0.1:5'', fr_local = None, fr_sni = [], fr_peer = [], fr_length = 0, fr_client = None,
       fr_check = None, fr_proxied = False \<rparr>"

lemma example_remote: "remoteIP (example_front f) = ''10.0.0.1''"
proof -
  have "SplitHostPort ''10.0.0.1:5'' = Some (''10.0.0.1'', ''5'')" by code_simp
  then show ?thesis by (simp add: remoteIP_def example_front_def)
qed

lemma example_trusts: "trustsForwarded [net10] (example_front f)"
  by (simp add: trustsForwarded_def example_remote parse_proxy inNets_def net10_contains)

lemma example_entry: "forwardedIP ''9.8.7.6'' = Some 0xFFFF09080706" "\<not> trusted_entry [net10] ''9.8.7.6''"
proof -
  have "trim_space ''9.8.7.6'' = ''9.8.7.6''" by code_simp
  then show e: "forwardedIP ''9.8.7.6'' = Some 0xFFFF09080706" by (simp add: forwardedIP_def parse_client)
  show "\<not> trusted_entry [net10] ''9.8.7.6''" by (simp add: trusted_entry_def e inNets_def net10_contains)
qed

lemma example_chain: "split_at_char CHR '','' ''9.8.7.6'' = [''9.8.7.6'']" by code_simp

lemma example_forwarded:
  "forwardedFor (fr_header (example_front [''1.1.1.1'', ''9.8.7.6''])) = behind (Some ''1.1.1.1'') ''9.8.7.6''"
  "forwardedFor (fr_header (example_front [''9.8.7.6''])) = behind None ''9.8.7.6''"
  by (simp_all add: forwardedFor_def fr_header_def example_front_def header_values_def behind_def)

definition example_env :: "unit front_env" where
  "example_env =
     \<lparr> fe_x509 = example_x509, fe_BasicAuth = (\<lambda>h. None), fe_bcrypt = (\<lambda>a b. a = b), fe_sha256 = (\<lambda>s. s), fe_RequestURI = rq_escaped,
       fe_bucket = \<lparr> new_limiter = (\<lambda>r b. ()), allow_one = (\<lambda>l now. (True, l)) \<rparr>, fe_waf = (\<lambda>s r. WafPass), fe_requestID = ''id'',
       fe_acme = (\<lambda>r. False), fe_rewrite = (\<lambda>s r. RewriteNone r) \<rparr>"

definition example_site :: "unit site_runtime" where
  "example_site =
     \<lparr> sr_id = ''s'', sr_routing = \<lparr> ro_HTTPSRedirect = False, ro_HSTS = None, ro_Maintenance = False, ro_RetryAfterSec = 0, ro_MaintenanceHTML = [],
         ro_ExcludePaths = [], ro_Realm = [], ro_MaxBodyMB = 1, ro_RequestHeaders = [], ro_ResponseHeaders = [], ro_ErrorPages = [],
         ro_BanExempt = False, ro_AllowTrapPaths = False \<rparr>,
       sr_allow = [], sr_deny = [], sr_maintAllow = [], sr_limiter = None, sr_basicUsers = None, sr_authCache = [], sr_httpsPort = 0,
       sr_waf = Some True, sr_rewrites = True, sr_locations = [] \<rparr>"

lemma inNets_none [simp]: "\<not> inNets ip []"
  by (simp add: inNets_def split: option.splits)

definition example_opts :: ban_options where
  "example_opts = \<lparr> o_OnBan = False, o_Save = None \<rparr>"

text \<open>A plain request of the example site is dispatched as long as its certificate check allows it.\<close>

lemma example_dispatched:
  assumes "clientCertPaths example_site (entering trusted r) = None" and "fr_length r = 0"
  shows "serve_site example_env opts now trusted example_site bans r =
    (Dispatched (set_header (fr_header (entering trusted r)) (entering trusted r)) [], example_site, bans)"
proof -
  have len: "fr_length (entering trusted r) = 0" using assms(2) by (simp add: entering_def set_header_def Let_def)
  have ex: "ro_HTTPSRedirect (sr_routing example_site) = False" "ro_HSTS (sr_routing example_site) = None" "ro_Maintenance (sr_routing example_site) = False"
    "sr_allow example_site = []" "sr_deny example_site = []" "sr_limiter example_site = None" "sr_basicUsers example_site = None"
    "ro_MaxBodyMB (sr_routing example_site) = 1" "sr_waf example_site = Some True" "sr_rewrites example_site" "sr_authCache example_site = []"
    "ro_RequestHeaders (sr_routing example_site) = []" "example_site \<lparr> sr_limiter := None, sr_authCache := [] \<rparr> = example_site"
    "example_site \<lparr> sr_limiter := None \<rparr> = example_site" "example_site \<lparr> sr_authCache := [] \<rparr> = example_site"
    by (simp_all add: example_site_def)
  have waf: "inspectWAF example_env opts now example_site True x c h bans = (None, bans)" for x c h
    by (simp add: inspectWAF_def example_env_def)
  have rw: "fe_rewrite example_env i x = RewriteNone x" for i x by (simp add: example_env_def)
  have late: "serve_late example_env opts now example_site (entering trusted r) (clientIP trusted r) [] bans =
      (Dispatched (set_header (fr_header (entering trusted r)) (entering trusted r)) [], bans)"
    unfolding serve_late_def Let_def using assms(1) by (simp add: ex waf rw len)
  have auth: "serve_auth example_env opts now example_site (entering trusted r) (clientIP trusted r) [] bans =
      (Dispatched (set_header (fr_header (entering trusted r)) (entering trusted r)) [], example_site, bans)"
    unfolding serve_auth_def Let_def by (simp add: ex late)
  show ?thesis
    unfolding serve_site_def serve_limited_def Let_def by (simp add: ex auth)
qed

theorem client_address_not_forged_witness:
  "clientIP [net10] (example_front [''1.1.1.1'', ''9.8.7.6'']) = clientIP [net10] (example_front [''9.8.7.6'']) \<and>
   clientIP [net10] (example_front [''9.8.7.6'']) = ip_string 0xFFFF09080706"
proof -
  have c: "fr_client (example_front f) = None" for f by (simp add: example_front_def)
  note n = client_address_not_forged [OF c c _ _ _ example_chain _ example_entry(2)]
  have "list_all (trusted_entry [net10]) []" by simp
  with n [OF _ example_forwarded] n [OF _ example_forwarded(2) example_forwarded(2)]
  show ?thesis by (simp add: example_remote example_trusts example_entry(1))
qed

section \<open>Banned clients\<close>

text \<open>The site of the route that a request matches, if any.\<close>

definition site_of :: "'b front_server \<Rightarrow> front_request \<Rightarrow> (route \<times> 'b site_runtime) option" where
  "site_of s r =
     (let (port, local) = (case fr_local r of None \<Rightarrow> (0, None) | Some pl \<Rightarrow> pl) in
      case match (fs_table s) port local (hostOnly (rq_host (fr_req r))) of
        None \<Rightarrow> None | Some route \<Rightarrow> map_option (Pair route) (map_of (fs_runtimes s) (r_site route)))"

lemma serve_banned:
  assumes "\<not> fe_acme env r" and "fs_bans s = Some m"
    and "case site_of s r of None \<Rightarrow> True | Some (_, site) \<Rightarrow> \<not> ro_BanExempt (sr_routing site)"
    and "Banned m now (ParseIP (clientIP (fs_trusted s) r))"
  shows "\<exists>h. serve env opts now core written took proto s r = (Some (refuseBanned h), s)"
  using assms
  unfolding serve_def site_of_def ban_gate_def Let_def
  by (auto simp: case_prod_unfold split: option.splits)


section \<open>What a request has passed\<close>

definition basic_ok :: "'b front_env \<Rightarrow> 'b site_runtime \<Rightarrow> header \<Rightarrow> bool" where
  "basic_ok env site h \<longleftrightarrow>
     (\<exists>user pass users hash. fe_BasicAuth env h = Some (user, pass) \<and> sr_basicUsers site = Some users \<and>
        map_of users user = Some hash \<and>
        (fe_bcrypt env hash pass \<or> fe_sha256 env (user @ [CHR 0x00] @ pass @ [CHR 0x00] @ hash) \<in> set (sr_authCache site)))"

lemma checkBasic_ok:
  "checkBasic env r users cache = (True, cache') \<Longrightarrow> sr_basicUsers site = Some users \<Longrightarrow> sr_authCache site = cache \<Longrightarrow>
   basic_ok env site (fr_header r)"
  by (auto simp: checkBasic_def basic_ok_def Let_def split: option.splits if_splits)

lemma entering_same:
  "fr_check (entering trusted r) = fr_check r" "rq_tls (fr_req (entering trusted r)) = rq_tls (fr_req r)"
  "rq_path (fr_req (entering trusted r)) = rq_path (fr_req r)" "rq_rawpath (fr_req (entering trusted r)) = rq_rawpath (fr_req r)"
  "rq_host (fr_req (entering trusted r)) = rq_host (fr_req r)"
  by (simp_all add: entering_def set_header_def Let_def)

definition admitted :: "'b site_runtime \<Rightarrow> string \<Rightarrow> bool" where
  "admitted site client \<longleftrightarrow> (sr_allow site = [] \<or> inNets (ParseIP client) (sr_allow site)) \<and> \<not> inNets (ParseIP client) (sr_deny site) \<and>
     (ro_Maintenance (sr_routing site) \<longrightarrow> inNets (ParseIP client) (sr_maintAllow site))"

definition authenticated :: "'b front_env \<Rightarrow> 'b site_runtime \<Rightarrow> front_request \<Rightarrow> bool" where
  "authenticated env site r \<longleftrightarrow> sr_basicUsers site = None \<or>
     excluded (rq_path (fr_req r)) (rq_rawpath (fr_req r)) (ro_ExcludePaths (sr_routing site)) \<or> basic_ok env site (fr_header r)"

lemma serve_auth_dispatched:
  assumes "serve_auth env opts now site r client h bans = (Dispatched r2 h2, site', bans')"
  shows "\<exists>cache. serve_late env opts now (site \<lparr> sr_authCache := cache \<rparr>) r client h bans = (Dispatched r2 h2, bans')"
    and "authenticated env site r"
proof -
  define oc where "oc = (case sr_basicUsers site of
              None \<Rightarrow> (True, sr_authCache site)
            | Some users \<Rightarrow>
                if excluded (rq_path (fr_req r)) (rq_rawpath (fr_req r)) (ro_ExcludePaths (sr_routing site)) then (True, sr_authCache site)
                else checkBasic env r users (sr_authCache site))"
  have oc: "fst oc" and late: "serve_late env opts now (site \<lparr> sr_authCache := snd oc \<rparr>) r client h bans = (Dispatched r2 h2, bans')"
    using assms unfolding serve_auth_def Let_def oc_def [symmetric]
    by (auto simp: case_prod_unfold prod_eq_iff split: if_splits)
  from late show "\<exists>cache. serve_late env opts now (site \<lparr> sr_authCache := cache \<rparr>) r client h bans = (Dispatched r2 h2, bans')" ..
  show "authenticated env site r"
    using oc by (auto simp: oc_def authenticated_def prod_eq_iff intro: checkBasic_ok [of env r _ _ "snd oc"]
      split: option.splits if_splits)
qed

lemma serve_limited_dispatched:
  assumes "serve_limited env opts now site r client h bans = (Dispatched r2 h2, site', bans')"
  shows "\<exists>l. serve_auth env opts now (site \<lparr> sr_limiter := l \<rparr>) r client h bans = (Dispatched r2 h2, site', bans')"
  using assms unfolding serve_limited_def Let_def by (auto simp: case_prod_unfold split: if_splits)

lemma authenticated_limiter: "authenticated env (site \<lparr> sr_limiter := l \<rparr>) r = authenticated env site r"
  by (simp add: authenticated_def basic_ok_def)

lemma serve_site_dispatched:
  assumes "serve_site env opts now trusted site bans r0 = (Dispatched r2 h2, site', bans')"
  shows "\<exists>l cache h. serve_late env opts now (site \<lparr> sr_limiter := l, sr_authCache := cache \<rparr>) (entering trusted r0)
      (clientIP trusted r0) h bans = (Dispatched r2 h2, bans')"
    and "\<not> (ro_HTTPSRedirect (sr_routing site) \<and> \<not> rq_tls (fr_req r0) \<and> sr_httpsPort site \<noteq> 0)"
    and "admitted site (clientIP trusted r0)" and "authenticated env site (entering trusted r0)"
proof -
  obtain h where lim: "serve_limited env opts now site (entering trusted r0) (clientIP trusted r0) h bans = (Dispatched r2 h2, site', bans')"
    and no: "\<not> (ro_HTTPSRedirect (sr_routing site) \<and> \<not> rq_tls (fr_req r0) \<and> sr_httpsPort site \<noteq> 0)"
    and ad: "admitted site (clientIP trusted r0)"
    using assms unfolding serve_site_def Let_def by (auto simp: entering_same admitted_def split: if_splits)
  show "\<not> (ro_HTTPSRedirect (sr_routing site) \<and> \<not> rq_tls (fr_req r0) \<and> sr_httpsPort site \<noteq> 0)"
    "admitted site (clientIP trusted r0)" by (fact no, fact ad)
  from serve_limited_dispatched [OF lim] obtain l where
    "serve_auth env opts now (site \<lparr> sr_limiter := l \<rparr>) (entering trusted r0) (clientIP trusted r0) h bans = (Dispatched r2 h2, site', bans')" ..
  from serve_auth_dispatched [OF this]
  show "\<exists>l cache h. serve_late env opts now (site \<lparr> sr_limiter := l, sr_authCache := cache \<rparr>) (entering trusted r0)
      (clientIP trusted r0) h bans = (Dispatched r2 h2, bans')"
    "authenticated env site (entering trusted r0)"
    by (auto simp: authenticated_limiter)
qed

definition passed_on :: "'b front_env \<Rightarrow> 'b site_runtime \<Rightarrow> front_request \<Rightarrow> front_request \<Rightarrow> bool" where
  "passed_on env site r r' \<longleftrightarrow>
     (if sr_rewrites site
      then fe_rewrite env (sr_id site) r = RewriteNone r' \<or>
        (\<exists>q. fe_rewrite env (sr_id site) r = RewriteProxy q \<and> r' = q \<lparr> fr_proxied := True \<rparr>)
      else r' = r)"

definition within_limits :: "'b front_env \<Rightarrow> 'b site_runtime \<Rightarrow> front_request \<Rightarrow> bool" where
  "within_limits env site r \<longleftrightarrow>
     (ro_MaxBodyMB (sr_routing site) > 0 \<longrightarrow> fr_length r \<le> ro_MaxBodyMB (sr_routing site) * 2 ^ 20) \<and>
     (case sr_waf site of None \<Rightarrow> True | Some block \<Rightarrow> fe_waf env (sr_id site) r \<noteq> WafBusy \<and> (block \<longrightarrow> fe_waf env (sr_id site) r = WafPass))"

lemma inspectWAF_pass:
  "fst (inspectWAF env opts now site block r client h bans) = None \<Longrightarrow>
   fe_waf env (sr_id site) r \<noteq> WafBusy \<and> (block \<longrightarrow> fe_waf env (sr_id site) r = WafPass)"
  by (auto simp: inspectWAF_def Let_def split: waf_verdict.splits if_splits)

lemma serve_late_dispatched:
  assumes "serve_late env opts now site r client h bans = (Dispatched r2 h2, bans')"
  shows "within_limits env site r"
    and "\<exists>r'. passed_on env site r r' \<and> clientCertPaths site r' = None \<and>
      r2 = set_header (applyHeaderRules (ro_RequestHeaders (sr_routing site)) (fr_header r')) r'"
proof -
  let ?rw = "if sr_rewrites site then fe_rewrite env (sr_id site) r else RewriteNone r"
  define w where "w = (case sr_waf site of None \<Rightarrow> (None, bans) | Some block \<Rightarrow> inspectWAF env opts now site block r client h bans)"
  have size: "\<not> (ro_MaxBodyMB (sr_routing site) > 0 \<and> fr_length r > ro_MaxBodyMB (sr_routing site) * 2 ^ 20)"
    and waf: "fst w = None"
    and rest: "(case ?rw of
                RewriteRedirect loc status \<Rightarrow> (Answered (redirect_answer loc status h), snd w)
              | RewriteBlock status \<Rightarrow> (Answered (errorPage (ro_ErrorPages (sr_routing site)) status ''This request was blocked.'' h), snd w)
              | RewriteRespond ct status body \<Rightarrow>
                  (Answered \<lparr> a_status = status, a_header = header_set ''Content-Type'' ct h, a_page = CustomPage body \<rparr>, snd w)
              | RewriteNone r' \<Rightarrow>
                  (case clientCertPaths site r' of
                     Some sm \<Rightarrow> (Answered (errorPage (ro_ErrorPages (sr_routing site)) (fst sm) (snd sm) h), snd w)
                   | None \<Rightarrow> (Dispatched (set_header (applyHeaderRules (ro_RequestHeaders (sr_routing site)) (fr_header r')) r') h, snd w))
              | RewriteProxy r' \<Rightarrow>
                  (let r' = r' \<lparr> fr_proxied := True \<rparr> in
                   case clientCertPaths site r' of
                     Some sm \<Rightarrow> (Answered (errorPage (ro_ErrorPages (sr_routing site)) (fst sm) (snd sm) h), snd w)
                   | None \<Rightarrow> (Dispatched (set_header (applyHeaderRules (ro_RequestHeaders (sr_routing site)) (fr_header r')) r') h, snd w)))
        = (Dispatched r2 h2, bans')"
    using assms unfolding serve_late_def Let_def w_def [symmetric] case_prod_unfold
    by (cases "fst w"; simp split: if_splits)+
  have "within_limits env site r"
    using size waf by (cases "sr_waf site") (auto simp: within_limits_def w_def dest: inspectWAF_pass)
  then show "within_limits env site r" .
  show "\<exists>r'. passed_on env site r r' \<and> clientCertPaths site r' = None \<and>
      r2 = set_header (applyHeaderRules (ro_RequestHeaders (sr_routing site)) (fr_header r')) r'"
  proof (cases ?rw)
    case (RewriteNone r')
    then have "passed_on env site r r'" by (auto simp: passed_on_def split: if_splits)
    then show ?thesis using rest unfolding RewriteNone by (auto split: option.splits)
  next
    case (RewriteProxy q)
    then have "passed_on env site r (q \<lparr> fr_proxied := True \<rparr>)" by (auto simp: passed_on_def split: if_splits)
    then show ?thesis using rest unfolding RewriteProxy by (auto simp: Let_def split: option.splits)
  qed (use rest in simp_all)
qed

text \<open>
  C15. A request reaches the handler of its site only past every check of the pipeline: its
  client's address is allowed, not denied and, during maintenance, exempt; it has the
  name and password of a user of the site where the site asks for one (checked now, or
  remembered from a check); its body is within the limit; a firewall that blocks let it
  pass; and it did not come by plain HTTP when the site redirects that.
\<close>

theorem dispatched_past_every_check:
  assumes "serve_site env opts now trusted site bans r = (Dispatched r2 h, site', bans')"
  shows "admitted site (clientIP trusted r) \<and> authenticated env site (entering trusted r) \<and>
    within_limits env site (entering trusted r) \<and>
    \<not> (ro_HTTPSRedirect (sr_routing site) \<and> \<not> rq_tls (fr_req r) \<and> sr_httpsPort site \<noteq> 0)"
proof -
  obtain l cache h' where "serve_late env opts now (site \<lparr> sr_limiter := l, sr_authCache := cache \<rparr>) (entering trusted r)
      (clientIP trusted r) h' bans = (Dispatched r2 h, bans')"
    using serve_site_dispatched(1) [OF assms] by blast
  from serve_late_dispatched(1) [OF this] have "within_limits env site (entering trusted r)"
    by (cases "sr_waf site") (simp_all add: within_limits_def)
  with serve_site_dispatched(2-4) [OF assms] show ?thesis by blast
qed

theorem dispatched_past_every_check_witness:
  "within_limits example_env example_site (entering [net10] (example_front []))"
proof -
  have "clientCertPaths example_site (entering [net10] (example_front [])) = None"
    by (simp add: clientCertPaths_def entering_same) (simp add: example_front_def)
  moreover have "fr_length (example_front []) = 0" by (simp add: example_front_def)
  ultimately show ?thesis using dispatched_past_every_check [OF example_dispatched [of _ _ example_opts 0 None]] by blast
qed

section \<open>Certificates\<close>

definition unprotected :: "client_policy \<Rightarrow> string \<Rightarrow> string \<Rightarrow> bool" where
  "unprotected p path raw \<longleftrightarrow> requiredFor (cp_mode p = ClientCertRequire) (cp_requirePaths p) path raw = Some False"

lemma cert_allows_None: "cert_allows tls i path raw ps = None \<Longrightarrow> p \<in> set ps \<Longrightarrow> unprotected p path raw"
  by (induction ps) (auto simp: unprotected_def split: option.splits bool.splits)

text \<open>The policies that apply to a request: its binding's, or those of the site's https bindings for its host name.\<close>

definition applies :: "(string \<times> client_policy) list \<Rightarrow> route \<Rightarrow> front_request \<Rightarrow> client_policy \<Rightarrow> bool" where
  "applies policies rt r p \<longleftrightarrow>
     (if rq_tls (fr_req r) then \<exists>key. r_client rt = Some key \<and> map_of policies key = Some p
      else \<exists>host key. (host, key) \<in> set (r_secure rt) \<and> hostMatches host (normal_host (hostOnly (rq_host (fr_req r)))) \<and>
        map_of policies key = Some p)"

lemma plain_gate_passes:
  assumes gate: "plainCertGate policies site rt r = GatePass r1" and tls: "\<not> rq_tls (fr_req r)" and ap: "applies policies rt r p"
    and no: "\<not> (ro_HTTPSRedirect (sr_routing site) \<and> sr_httpsPort site \<noteq> 0)"
  shows "unprotected p (rq_path (fr_req r)) (rq_rawpath (fr_req r)) \<and> rq_tls (fr_req r1) = rq_tls (fr_req r) \<and>
    (\<exists>c. fr_check r1 = Some c \<and> p \<in> set (chk_policies c))"
proof -
  define keys where "keys = remdups (map snd (filter (\<lambda>hk. hostMatches (fst hk) (normal_host (hostOnly (rq_host (fr_req r))))) (r_secure rt)))"
  define c where "c = \<lparr> chk_policies = List.map_filter (map_of policies) keys, chk_id = identityNone \<rparr>"
  obtain host key where sec: "(host, key) \<in> set (r_secure rt)" "hostMatches host (normal_host (hostOnly (rq_host (fr_req r))))" "map_of policies key = Some p"
    using ap tls by (auto simp: applies_def)
  then have "key \<in> set keys" by (force simp: keys_def)
  then have p: "p \<in> set (chk_policies c)" using sec(3) by (force simp: c_def map_filter_def)
  then have ne: "chk_policies c \<noteq> []" "r_secure rt \<noteq> []" using sec(1) by auto
  have "(case check_allows c r (rq_path (fr_req r)) (rq_rawpath (fr_req r)) of
      Some sm \<Rightarrow> refuse_gate (ro_ErrorPages (sr_routing site)) sm | None \<Rightarrow> GatePass (r \<lparr> fr_check := Some c \<rparr>)) = GatePass r1"
    using gate ne no unfolding plainCertGate_def Let_def keys_def [symmetric] c_def [symmetric] by auto
  then have "check_allows c r (rq_path (fr_req r)) (rq_rawpath (fr_req r)) = None" "r1 = r \<lparr> fr_check := Some c \<rparr>"
    by (auto simp: refuse_gate_def split: option.splits)
  with p show ?thesis by (auto simp: check_allows_def intro: cert_allows_None)
qed

lemma tls_gate_passes:
  assumes gate: "clientCertGate env now t site rt port local policies r = (GatePass r1, policies')"
    and tls: "rq_tls (fr_req r)" and ap: "applies policies rt r p"
    and bad: "\<not> identity_ok (fst (identify env now (fr_peer r) p))"
  shows "unprotected p (rq_path (fr_req r)) (rq_rawpath (fr_req r)) \<and> rq_tls (fr_req r1) = rq_tls (fr_req r) \<and>
    (cp_requirePaths p = [] \<or> (\<exists>c. fr_check r1 = Some c \<and> p \<in> set (chk_policies c)))"
proof -
  obtain key where key: "r_client rt = Some key" "map_of policies key = Some p" using ap tls by (auto simp: applies_def)
  let ?r = "set_header (stripClientCertHeaders (fr_header r)) r"
  let ?i = "fst (identify env now (fr_peer r) p)"
  let ?c = "\<lparr> chk_policies = [p], chk_id = ?i \<rparr>"
  have same: "rq_tls (fr_req ?r)" "fr_peer ?r = fr_peer r" "rq_path (fr_req ?r) = rq_path (fr_req r)" "rq_rawpath (fr_req ?r) = rq_rawpath (fr_req r)"
    using tls by (simp_all add: set_header_def)
  have ok: "check_allows ?c ?r (rq_path (fr_req r)) (rq_rawpath (fr_req r)) = None"
    and r1: "r1 = set_header (identity_headers ?i (fr_header ?r)) (if cp_requirePaths p \<noteq> [] then ?r \<lparr> fr_check := Some ?c \<rparr> else ?r)"
    using gate bad key same unfolding clientCertGate_def Let_def case_prod_unfold
    by (auto simp: refuse_gate_def split: if_splits option.splits)
  have "unprotected p (rq_path (fr_req r)) (rq_rawpath (fr_req r))"
    using cert_allows_None [OF ok [unfolded check_allows_def]] by simp
  with r1 same(1) tls show ?thesis by (auto simp: set_header_def)
qed

definition rewrites_keep :: "'b front_env \<Rightarrow> bool" where
  "rewrites_keep env \<longleftrightarrow> (\<forall>sid r r'. fe_rewrite env sid r = RewriteNone r' \<or> fe_rewrite env sid r = RewriteProxy r' \<longrightarrow>
     fr_check r' = fr_check r)"

lemma passed_on_check: "rewrites_keep env \<Longrightarrow> passed_on env site r r' \<Longrightarrow> fr_check r' = fr_check r"
  by (auto simp: rewrites_keep_def passed_on_def split: if_splits)

text \<open>The paths under which a request reaches a handler: its own, and the one its location passes on.\<close>

definition stays_unprotected :: "client_policy \<Rightarrow> location_config list \<Rightarrow> front_request \<Rightarrow> bool" where
  "stays_unprotected p locations r \<longleftrightarrow> unprotected p (rq_path (fr_req r)) [] \<and>
     (case locationFor locations (rq_path (fr_req r)) of
        None \<Rightarrow> True
      | Some l \<Rightarrow> fr_proxied r \<or> (loc_StripPrefix l \<longrightarrow> unprotected p (loc_strip l (rq_path (fr_req r))) []))"

lemma clientCertPaths_None:
  assumes "clientCertPaths site r = None" and "fr_check r = Some c" and "p \<in> set (chk_policies c)"
  shows "stays_unprotected p (sr_locations site) r"
  using assms cert_allows_None [of _ _ _ _ "chk_policies c" p]
  by (auto simp: clientCertPaths_def stays_unprotected_def check_allows_def split: option.splits if_splits)

text \<open>
  C2. What a binding requires a client certificate for is not served without one: a
  request that reaches the handler of its site over HTTPS has an identity its binding's
  policy accepts, or neither the path it asked for, nor the path the rewrite rules made of
  it, nor the path its location passes on falls under the policy; over plain HTTP the
  policies of the site's https bindings for the same host name bind it the same way.
\<close>

theorem protected_paths_need_certificates:
  assumes "clientCertGate xenv now t site rt port local policies r = (GatePass r1, policies')"
    and "serve_site env opts now' trusted site bans r1 = (Dispatched r2 h, site', bans')"
    and "applies policies rt r p" and "rewrites_keep env"
  shows "rq_tls (fr_req r) \<and> identity_ok (fst (identify xenv now (fr_peer r) p)) \<or>
    unprotected p (rq_path (fr_req r)) (rq_rawpath (fr_req r)) \<and> stays_unprotected p (sr_locations site) r2"
proof (cases "rq_tls (fr_req r) \<and> identity_ok (fst (identify xenv now (fr_peer r) p))")
  case False
  have tls1: "rq_tls (fr_req r1) = rq_tls (fr_req r)"
    using assms(1) unfolding clientCertGate_def plainCertGate_def Let_def case_prod_unfold
    by (auto simp: set_header_def refuse_gate_def split: if_splits option.splits)
  have "unprotected p (rq_path (fr_req r)) (rq_rawpath (fr_req r)) \<and>
      (cp_requirePaths p = [] \<or> (\<exists>c. fr_check r1 = Some c \<and> p \<in> set (chk_policies c)))"
  proof (cases "rq_tls (fr_req r)")
    case True
    then show ?thesis using tls_gate_passes [OF assms(1) True assms(3)] False by blast
  next
    case plain: False
    let ?r = "set_header (stripClientCertHeaders (fr_header r)) r"
    have "plainCertGate policies site rt ?r = GatePass r1" "applies policies rt ?r p" "\<not> rq_tls (fr_req ?r)"
      using assms(1,3) plain by (auto simp: clientCertGate_def Let_def set_header_def applies_def)
    then show ?thesis
      using plain_gate_passes [of policies site rt ?r r1 p] serve_site_dispatched(2) [OF assms(2)] tls1 plain
      by (auto simp: set_header_def)
  qed
  moreover obtain l cache h' where late: "serve_late env opts now' (site \<lparr> sr_limiter := l, sr_authCache := cache \<rparr>) (entering trusted r1)
      (clientIP trusted r1) h' bans = (Dispatched r2 h, bans')"
    using serve_site_dispatched(1) [OF assms(2)] by blast
  moreover obtain r' where r': "passed_on env (site \<lparr> sr_limiter := l, sr_authCache := cache \<rparr>) (entering trusted r1) r'"
    "clientCertPaths (site \<lparr> sr_limiter := l, sr_authCache := cache \<rparr>) r' = None"
    "r2 = set_header (applyHeaderRules (ro_RequestHeaders (sr_routing site)) (fr_header r')) r'"
    using serve_late_dispatched(2) [OF late] by auto
  moreover have "fr_check r' = fr_check r1" using passed_on_check [OF assms(4) r'(1)] by (simp add: entering_same)
  moreover have "stays_unprotected p (sr_locations site) r2 = stays_unprotected p (sr_locations site) r'"
    by (cases "locationFor (sr_locations site) (rq_path (fr_req r'))") (simp_all add: r'(3) stays_unprotected_def set_header_def)
  moreover have "stays_unprotected p (sr_locations site) r'" if "cp_requirePaths p = []" "cp_mode p \<noteq> ClientCertRequire"
    using that by (auto simp: stays_unprotected_def unprotected_def requiredFor_def split: option.splits)
  moreover have "cp_mode p \<noteq> ClientCertRequire" if "unprotected p path raw" for path raw
    using that by (auto simp: unprotected_def requiredFor_def)
  ultimately show ?thesis using clientCertPaths_None [OF r'(2)] by auto
qed blast

definition example_policy :: client_policy where
  "example_policy = \<lparr> cp_key = ''k'', cp_mode = ClientCertAccept, cp_pool = [], cp_subjects = [], cp_fingerprints = [],
     cp_requirePaths = [''/admin''], cp_cache = [] \<rparr>"

theorem protected_paths_need_certificates_witness:
  "unprotected example_policy ''/pub'' []"
proof -
  let ?b = "\<lparr> b_Protocol = ''http'', b_IP = [], b_Port = 80, b_Host = [], b_CertMode = [], b_CertificateID = [], b_ClientCert = None, b_Slot = [] \<rparr> :: binding"
  let ?rt = "\<lparr> r_ip = None, r_host = [], r_binding = ?b, r_site = ''s'', r_client = None, r_secure = [([], ''k'')] \<rparr> :: route"
  let ?c = "\<lparr> chk_policies = [example_policy], chk_id = identityNone \<rparr>"
  let ?q = "set_header (stripClientCertHeaders (fr_header (example_front []))) (example_front [])"
  let ?r1 = "?q \<lparr> fr_check := Some ?c \<rparr>"
  have un: "requiredFor False [''/admin''] ''/pub'' [] = Some False" by code_simp
  have path: "rq_path (fr_req ?r1) = ''/pub''" "rq_rawpath (fr_req ?r1) = []" "rq_path (fr_req ?q) = ''/pub''" "rq_rawpath (fr_req ?q) = []"
    "\<not> rq_tls (fr_req ?q)" "\<not> rq_tls (fr_req (example_front []))"
    by (simp_all add: set_header_def example_front_def)
  have mode: "cp_mode example_policy \<noteq> ClientCertRequire" "cp_requirePaths example_policy = [''/admin'']"
    by (simp_all add: example_policy_def ClientCertAccept_def ClientCertRequire_def)
  have allow: "check_allows ?c r ''/pub'' [] = None" for r using un mode by (simp add: check_allows_def)
  have gate: "clientCertGate example_x509 0 (build_table []) example_site ?rt 80 None [(''k'', example_policy)] (example_front []) =
      (GatePass ?r1, [(''k'', example_policy)])"
    using path allow by (simp add: clientCertGate_def Let_def plainCertGate_def hostMatches_def map_filter_def example_site_def)
  have "clientCertPaths example_site (entering [net10] ?r1) = None"
    using allow by (simp add: clientCertPaths_def entering_same path locationFor_def) (simp add: example_site_def)
  then have site: "serve_site example_env example_opts 0 [net10] example_site None ?r1 =
      (Dispatched (set_header (fr_header (entering [net10] ?r1)) (entering [net10] ?r1)) [], example_site, None)"
    by (rule example_dispatched) (simp add: set_header_def example_front_def)
  have ap: "applies [(''k'', example_policy)] ?rt (example_front []) example_policy"
    using path by (simp add: applies_def hostMatches_def)
  have rw: "rewrites_keep example_env" by (simp add: rewrites_keep_def example_env_def)
  have "unprotected example_policy (rq_path (fr_req (example_front []))) (rq_rawpath (fr_req (example_front [])))"
    using protected_paths_need_certificates [OF gate site ap rw] path(6) by blast
  then show ?thesis by (simp add: example_front_def)
qed

end
