(* ===== verification/Ports.thy ===== *)
theory Ports
  imports Go_Prelude
begin

text \<open>
  The ports that instances listen on (\<^verbatim>\<open>procmgr/ports.go\<close>): the allocator, the
  recognition of an application's report that its port is taken, and the warning about
  the ephemeral range. \<^verbatim>\<open>rand.IntN\<close> is the argument \<open>off\<close>, with its documented range,
  and \<^verbatim>\<open>portFree\<close>, which asks the operating system, is the argument \<open>free\<close>.
\<close>

section \<open>The allocator\<close>

record port_allocator =
  pa_start :: int
  pa_end :: int
  pa_used :: "int set"

datatype port_error = Range_empty | No_free_port

definition newPortAllocator :: "int \<Rightarrow> int \<Rightarrow> port_allocator" where
  "newPortAllocator start stop = \<lparr> pa_start = start, pa_end = stop, pa_used = {} \<rparr>"

definition setRange :: "int \<Rightarrow> int \<Rightarrow> port_allocator \<Rightarrow> port_allocator" where
  "setRange start stop p = p\<lparr> pa_start := start, pa_end := stop \<rparr>"

definition range_size :: "port_allocator \<Rightarrow> int" where
  "range_size p = pa_end p - pa_start p + 1"

text \<open>The loop of \<^verbatim>\<open>allocate\<close> from its \<open>i\<close>-th round on, with \<open>k\<close> rounds left.\<close>

fun try_ports :: "(int \<Rightarrow> bool) \<Rightarrow> int \<Rightarrow> port_allocator \<Rightarrow> int \<Rightarrow> nat \<Rightarrow> int option" where
  "try_ports free off p i 0 = None"
| "try_ports free off p i (Suc k) =
     (let port = pa_start p + (off + i) mod range_size p
      in if port \<in> pa_used p \<or> \<not> free port then try_ports free off p (i + 1) k else Some port)"

definition allocate :: "(int \<Rightarrow> bool) \<Rightarrow> int \<Rightarrow> port_allocator \<Rightarrow> (port_error + int) \<times> port_allocator" where
  "allocate free off p =
     (if range_size p \<le> 0 then (Inl Range_empty, p)
      else case try_ports free off p 0 (nat (range_size p)) of
             Some port \<Rightarrow> (Inr port, p\<lparr> pa_used := insert port (pa_used p) \<rparr>)
           | None \<Rightarrow> (Inl No_free_port, p))"

definition release_port :: "int \<Rightarrow> port_allocator \<Rightarrow> port_allocator" where
  "release_port port p = p\<lparr> pa_used := pa_used p - {port} \<rparr>"

definition in_range :: "port_allocator \<Rightarrow> int \<Rightarrow> bool" where
  "in_range p port \<longleftrightarrow> pa_start p \<le> port \<and> port \<le> pa_end p"

lemma try_ports_Some:
  assumes "try_ports free off p i k = Some port" and "0 < range_size p"
  shows "port \<notin> pa_used p \<and> free port \<and> in_range p port"
  using assms
proof (induction k arbitrary: i)
  case (Suc k)
  have "0 \<le> (off + i) mod range_size p" "(off + i) mod range_size p < range_size p"
    using Suc.prems(2) by simp_all
  with Suc show ?case
    by (auto simp: Let_def in_range_def range_size_def split: if_splits)
qed simp

lemma try_ports_None:
  "try_ports free off p i k = None \<longleftrightarrow>
   (\<forall>j<k. let port = pa_start p + (off + i + int j) mod range_size p in port \<in> pa_used p \<or> \<not> free port)"
proof (induction k arbitrary: i)
  case (Suc k)
  have "(\<forall>j<Suc k. P j) \<longleftrightarrow> P 0 \<and> (\<forall>j<k. P (Suc j))" for P by (metis less_Suc_eq_0_disj not0_implies_Suc)
  with Suc [of "i + 1"] show ?case by (auto simp: Let_def algebra_simps)
qed simp

text \<open>Going round from any offset meets every port of the range.\<close>

lemma offsets_cover:
  assumes "in_range p port"
  shows "\<exists>j < nat (range_size p). pa_start p + (off + int j) mod range_size p = port"
proof -
  let ?n = "range_size p" and ?d = "port - pa_start p"
  have n: "0 < ?n" and d: "0 \<le> ?d" "?d < ?n" using assms by (auto simp: in_range_def range_size_def)
  define j where "j = nat ((?d - off) mod ?n)"
  have j: "int j = (?d - off) mod ?n" and "j < nat ?n" using n by (simp_all add: j_def nat_less_iff)
  moreover have "(off + int j) mod ?n = ?d"
    unfolding j using d by (simp add: mod_add_right_eq)
  ultimately show ?thesis by (intro exI [of _ j]) simp
qed

lemma allocate_Inr:
  assumes "allocate free off p = (Inr port, p')"
  shows "port \<notin> pa_used p" and "free port" and "in_range p port"
    and "p' = p\<lparr> pa_used := insert port (pa_used p) \<rparr>"
  using assms try_ports_Some [of free off p 0 _ port]
  by (auto simp: allocate_def split: if_splits option.splits)

lemma allocate_Inl: "allocate free off p = (Inl e, p') \<Longrightarrow> p' = p"
  by (auto simp: allocate_def split: if_splits option.splits)

lemma allocate_fails_iff:
  "(\<exists>e p'. allocate free off p = (Inl e, p')) \<longleftrightarrow>
   (\<forall>port. in_range p port \<longrightarrow> port \<in> pa_used p \<or> \<not> free port)"
proof (cases "range_size p \<le> 0")
  case True
  then show ?thesis by (auto simp: allocate_def in_range_def range_size_def)
next
  case False
  have "try_ports free off p 0 (nat (range_size p)) = None \<longleftrightarrow>
        (\<forall>port. in_range p port \<longrightarrow> port \<in> pa_used p \<or> \<not> free port)" (is "?L \<longleftrightarrow> ?R")
  proof
    assume ?L
    then have *: "pa_start p + (off + int j) mod range_size p \<in> pa_used p \<or>
                  \<not> free (pa_start p + (off + int j) mod range_size p)" if "j < nat (range_size p)" for j
      using that by (auto simp: try_ports_None Let_def)
    show ?R using offsets_cover [of p _ off] * by metis
  next
    assume R: ?R
    show ?L
    proof (rule ccontr)
      assume "\<not> ?L"
      then obtain port where "try_ports free off p 0 (nat (range_size p)) = Some port" by auto
      with try_ports_Some [OF this] False R show False by auto
    qed
  qed
  with False show ?thesis by (auto simp: allocate_def split: option.splits)
qed

section \<open>An address already in use\<close>

text \<open>\<^verbatim>\<open>strings.Index\<close> and \<^verbatim>\<open>strings.Contains\<close>.\<close>

fun str_index :: "string \<Rightarrow> string \<Rightarrow> nat option" where
  "str_index sub [] = (if sub = [] then Some 0 else None)"
| "str_index sub (x # xs) = (if prefix sub (x # xs) then Some 0 else map_option Suc (str_index sub xs))"

definition str_contains :: "string \<Rightarrow> string \<Rightarrow> bool" where
  "str_contains s sub \<longleftrightarrow> str_index sub s \<noteq> None"

lemma str_index_Some:
  "str_index sub s = Some i \<Longrightarrow> s = take i s @ sub @ drop (i + length sub) s \<and> i + length sub \<le> length s"
proof (induction s arbitrary: i)
  case (Cons x xs)
  show ?case
  proof (cases "prefix sub (x # xs)")
    case True
    with Cons.prems show ?thesis by (auto simp: prefix_def dest: arg_cong [of _ _ length])
  next
    case False
    with Cons show ?thesis by auto
  qed
qed (simp split: if_splits)

lemma str_index_None: "str_index sub s = None \<longleftrightarrow> (\<nexists>a b. s = a @ sub @ b)"
proof (induction s)
  case (Cons x xs)
  have "(\<exists>a b. x # xs = a @ sub @ b) \<longleftrightarrow> prefix sub (x # xs) \<or> (\<exists>a b. xs = a @ sub @ b)"
    by (metis append_Cons append_Nil append_is_Nil_conv list.exhaust list.inject prefixE prefixI)
  with Cons show ?case by auto
qed simp

lemma str_index_first: "str_index sub (a @ sub @ b) = Some i \<Longrightarrow> i \<le> length a"
proof (induction a arbitrary: i)
  case Nil
  have "prefix sub (sub @ b)" by simp
  with Nil show ?case by (cases "sub @ b") (auto split: if_splits simp: append_eq_Cons_conv)
next
  case (Cons x a)
  then show ?case by (auto split: if_splits)
qed

text \<open>
  The loop of \<^verbatim>\<open>mentionsAddrInUse\<close> over the occurrences of the port. It does not end for
  an empty port before a digit; a port is printed with \<^verbatim>\<open>strconv.Itoa\<close>.
\<close>

definition digit_at :: "string \<Rightarrow> nat \<Rightarrow> bool" where
  "digit_at s i \<longleftrightarrow> i < length s \<and> is_digit (s ! i)"

partial_function (option) scan_port :: "string \<Rightarrow> string \<Rightarrow> bool option" where
  "scan_port port rest =
     (case str_index port rest of
        None \<Rightarrow> Some False
      | Some i \<Rightarrow>
          let e = i + length port
          in if (i = 0 \<or> \<not> digit_at rest (i - 1)) \<and> (e = length rest \<or> \<not> digit_at rest e) then Some True
             else scan_port port (drop e rest))"

definition mentionsAddrInUse :: "string \<Rightarrow> string \<Rightarrow> bool option" where
  "mentionsAddrInUse line port =
     (let lower = to_lower line
      in if \<not> str_contains line ''EADDRINUSE'' \<and> \<not> str_contains lower ''address already in use'' \<and>
            \<not> str_contains lower ''only one usage of each socket address''
         then Some False
         else scan_port port line)"

declare scan_port.simps [code]

text \<open>The port stands in the line as a number of its own.\<close>

definition own_number :: "string \<Rightarrow> string \<Rightarrow> string \<Rightarrow> bool" where
  "own_number port a b \<longleftrightarrow> (a = [] \<or> \<not> is_digit (last a)) \<and> (b = [] \<or> \<not> is_digit (hd b))"

lemma scan_port_returns:
  assumes "port \<noteq> []"
  shows "\<exists>v. scan_port port rest = Some v"
proof (induction rest rule: length_induct)
  case (1 rest)
  show ?case
  proof (cases "str_index port rest")
    case (Some i)
    have "length (drop (i + length port) rest) < length rest"
      using str_index_Some [OF Some] length_greater_0_conv [of port] assms unfolding length_drop by linarith
    with 1 have "\<exists>v. scan_port port (drop (i + length port) rest) = Some v" by blast
    with Some show ?thesis by (subst scan_port.simps) (auto simp: Let_def)
  qed (subst scan_port.simps, auto)
qed

lemma digit_at_before: "i \<le> length s \<Longrightarrow> i \<noteq> 0 \<Longrightarrow> digit_at s (i - 1) \<longleftrightarrow> is_digit (last (take i s))"
  by (subst last_conv_nth) (auto simp: digit_at_def)

lemma digit_at_after: "digit_at s e \<longleftrightarrow> drop e s \<noteq> [] \<and> is_digit (hd (drop e s))"
  by (auto simp: digit_at_def hd_drop_conv_nth)

text \<open>An occurrence found earlier than a number of its own ends before it begins.\<close>

lemma occurrence_before:
  assumes eq: "a @ port @ b = c @ port @ d" and len: "length c < length a"
    and digits: "list_all is_digit port" and own: "own_number port a b"
  shows "\<exists>a'. a = c @ port @ a' \<and> d = a' @ port @ b \<and> a' \<noteq> [] \<and> \<not> is_digit (last a')"
proof -
  obtain u where u: "a = c @ u" "port @ d = u @ port @ b" "u \<noteq> []"
  proof -
    from eq len have "a = c @ drop (length c) a"
      by (metis append_eq_append_conv_if less_imp_le_nat append_take_drop_id)
    then show ?thesis using that [of "drop (length c) a"] eq len
      by (metis append.assoc append_self_conv2 drop_eq_Nil linorder_not_le same_append_eq)
  qed
  have lu: "\<not> is_digit (last u)" using own u by (auto simp: own_number_def)
  have "length port < length u"
  proof (rule ccontr)
    assume "\<not> length port < length u"
    then have "u = take (length u) port" using u(2) by (metis append_eq_conv_conj linorder_not_less take_append take_all_iff append_Nil2 diff_is_0_eq take0)
    then have "last u \<in> set port" using u(3) by (metis in_set_takeD last_in_set)
    with digits lu show False by (auto simp: list_all_iff)
  qed
  then have "u = port @ drop (length port) u" and "drop (length port) u \<noteq> []"
    using u(2) by (metis append_eq_append_conv_if append_take_drop_id less_imp_le_nat, simp)
  then obtain a' where a': "u = port @ a'" "a' \<noteq> []" by metis
  then show ?thesis using u lu by (intro exI [of _ a']) auto
qed

lemma scan_port_finds:
  assumes digits: "list_all is_digit port" and "port \<noteq> []" and "own_number port a b"
  shows "scan_port port (a @ port @ b) = Some True"
  using assms(3)
proof (induction a rule: length_induct)
  case (1 a)
  let ?s = "a @ port @ b"
  obtain i where i: "str_index port ?s = Some i" by (cases "str_index port ?s") (auto simp: str_index_None)
  let ?e = "i + length port" and ?ok = "(i = 0 \<or> \<not> digit_at ?s (i - 1)) \<and> (i + length port = length ?s \<or> \<not> digit_at ?s (i + length port))"
  have split: "?s = take i ?s @ port @ drop ?e ?s" and le: "i \<le> length a" and len: "?e \<le> length ?s"
    using str_index_Some [OF i] str_index_first [OF i] by (blast, blast, blast)
  show ?case
  proof (cases ?ok)
    case True
    with i show ?thesis by (subst scan_port.simps) (simp add: Let_def)
  next
    case False
    have step: "scan_port port ?s = scan_port port (drop ?e ?s)"
      by (subst scan_port.simps) (simp only: i option.case Let_def if_not_P [OF False])
    have "i \<noteq> length a"
    proof
      assume ia: "i = length a"
      then have "i = 0 \<or> \<not> digit_at ?s (i - 1)" and "\<not> digit_at ?s ?e"
        using 1(2) by (auto simp: own_number_def digit_at_def nth_append last_conv_nth hd_conv_nth)
      with False show False by blast
    qed
    then have "length (take i ?s) < length a" using le by simp
    from occurrence_before [OF split this digits 1(2)]
    obtain a' where a': "a = take i ?s @ port @ a'" "drop ?e ?s = a' @ port @ b" "a' \<noteq> []" "\<not> is_digit (last a')"
      by blast
    have "length a' < length a" using a'(1) assms(2) by (metis length_append add.assoc add_less_cancel_right add.commute less_add_same_cancel1 add_gr_0 length_greater_0_conv)
    moreover have "own_number port a' b" using a' 1(2) by (simp add: own_number_def)
    ultimately show ?thesis using 1(1) a'(2) step by simp
  qed
qed

text \<open>
  What it finds is followed by no digit, and preceded by none unless by the port itself:
  a port written twice in a row is taken for the port.
\<close>

lemma scan_port_sound:
  assumes "scan_port port rest = Some True" and "port \<noteq> []"
  shows "\<exists>a b. rest = a @ port @ b \<and> (b = [] \<or> \<not> is_digit (hd b)) \<and>
           (a = [] \<or> \<not> is_digit (last a) \<or> suffix port a)"
  using assms(1)
proof (induction rest rule: length_induct)
  case (1 rest)
  obtain i where i: "str_index port rest = Some i"
    using 1(2) by (subst (asm) scan_port.simps) (auto split: option.splits)
  let ?e = "i + length port"
  note io = str_index_Some [OF i]
  show ?case
  proof (cases "(i = 0 \<or> \<not> digit_at rest (i - 1)) \<and> (?e = length rest \<or> \<not> digit_at rest ?e)")
    case True
    have "drop ?e rest = [] \<or> \<not> is_digit (hd (drop ?e rest))" using True by (auto simp: digit_at_after)
    moreover have "take i rest = [] \<or> \<not> is_digit (last (take i rest))"
      using True io digit_at_before [of i rest] by auto
    ultimately show ?thesis using io by blast
  next
    case False
    have "scan_port port rest = scan_port port (drop ?e rest)"
      by (subst scan_port.simps) (simp only: i option.case Let_def if_not_P [OF False])
    moreover have "length (drop ?e rest) < length rest"
      using io length_greater_0_conv [of port] assms(2) unfolding length_drop by linarith
    ultimately obtain a b where ab: "drop ?e rest = a @ port @ b" "b = [] \<or> \<not> is_digit (hd b)"
      "a = [] \<or> \<not> is_digit (last a) \<or> suffix port a"
      using 1 by (metis (no_types, lifting))
    have "rest = (take i rest @ port @ a) @ port @ b" using io ab(1) by simp
    moreover have "\<not> is_digit (last (take i rest @ port @ a)) \<or> suffix port (take i rest @ port @ a)"
      using ab(3) by (cases "a = []") (auto simp: suffix_def)
    ultimately show ?thesis using ab(2) by blast
  qed
qed

section \<open>The ephemeral range\<close>

text \<open>\<^verbatim>\<open>ephemeralRange\<close> asks the operating system: an argument, as is its source.\<close>

definition ephemeralOverlap :: "(int \<times> int) option \<Rightarrow> string \<Rightarrow> int \<Rightarrow> int \<Rightarrow> string" where
  "ephemeralOverlap os_range source start stop =
     (case os_range of
        None \<Rightarrow> []
      | Some (lo, hi) \<Rightarrow>
          if stop < lo \<or> hi < start then []
          else ''instance ports '' @ show_int start @ ''-'' @ show_int stop @ '' overlap the ephemeral port range '' @
               show_int lo @ ''-'' @ show_int hi @ '' ('' @ source @ '')'')"

lemma ephemeralOverlap_iff:
  assumes "start \<le> stop" and "lo \<le> hi"
  shows "ephemeralOverlap (Some (lo, hi)) src start stop \<noteq> [] \<longleftrightarrow>
         (\<exists>port. start \<le> port \<and> port \<le> stop \<and> lo \<le> port \<and> port \<le> hi)"
proof -
  have "(\<exists>port. start \<le> port \<and> port \<le> stop \<and> lo \<le> port \<and> port \<le> hi) \<longleftrightarrow> \<not> (stop < lo \<or> hi < start)"
    using assms by (auto intro: exI [of _ "max start lo"])
  then show ?thesis by (simp add: ephemeralOverlap_def)
qed

end
