(* ===== verification/Supervisor.thy ===== *)
theory Supervisor
  imports Site_Model Ports
begin

text \<open>
  The supervision of processes (\<^verbatim>\<open>procmgr/app.go\<close>, \<^verbatim>\<open>instance.go\<close>, \<^verbatim>\<open>manager.go\<close>): apps,
  their slots, the instances the slots keep alive, rapid-fail protection with automatic
  recovery, and recycling without downtime.

  Apps, slots and instances are shared by pointer in the code, so they live in stores:
  a pointer is a position in the list of its kind. Every slot is a goroutine; \<open>s_pc\<close> says
  where it is in \<^verbatim>\<open>run\<close>, \<^verbatim>\<open>spawn\<close>, \<^verbatim>\<open>replace\<close> and \<^verbatim>\<open>retire\<close>, and what it does between two
  places where others can run is one step. A command sent to a slot waits in \<open>s_cmds\<close>
  until the slot receives it. What the operating system answers (whether a folder exists,
  whether a port is free, how a process ends, the clock) is in the events.

  Three fields are bookkeeping of the model: \<open>in_slot\<close>, the slot that spawned an instance,
  \<open>in_auto\<close>, whether its port came from the allocator, and \<open>in_held\<close>, true until the code
  releases the instance's port.
\<close>

section \<open>Instances, slots and apps\<close>

datatype inst_state = I_starting | I_ready | I_stopping | I_exited

record proc_inst =
  in_app :: nat
  in_slot :: nat
  in_index :: nat
  in_port :: int
  in_startedAt :: instant
  in_state :: inst_state
  in_healthy :: bool
  in_healthFails :: int
  in_lastHealth :: instant
  in_exited :: bool
  in_exitCode :: int
  in_addrInUse :: bool
  in_requests :: int
  in_mem :: nat
  in_auto :: bool
  in_held :: bool

text \<open>Who waits for the answer to a recycle: a rolling recycle or \<^verbatim>\<open>requestRecycle\<close>.\<close>

datatype recycle_from = From_roll nat | From_request

datatype slot_cmd = Cmd_stop | Cmd_recycle recycle_from

text \<open>What an instance is spawned for, and what follows after one is retired.\<close>

datatype purpose = For_start | For_replace nat | For_fixed

datatype retire_then = Then_finish | Then_spawn | Then_serve nat | Then_failed purpose nat bool

datatype slot_pc =
    At_top
  | At_spawn purpose nat
  | Spawning purpose nat nat
  | Overlap nat nat
  | Retiring nat retire_then
  | Serving nat
  | Tripped
  | Parked
  | Pausing duration
  | Finished

record slot =
  s_app :: nat
  s_index :: nat
  s_pc :: slot_pc
  s_cmds :: "slot_cmd list"
  s_answering :: "slot_cmd option"
  s_cur :: "nat option"
  s_next :: "nat option"
  s_restarts :: nat
  s_lastExit :: "(int \<times> instant) option"
  s_failures :: nat
  s_lostPort :: nat
  s_recyclePending :: bool

text \<open>The parts the text \<^verbatim>\<open>failMsg\<close> is put together from.\<close>

datatype fail_part =
    Rapid_fail nat duration
  | Until_started
  | Restarting_in duration
  | Auto_failed
  | Retrying_in duration

record app =
  a_id :: string
  a_slotName :: string
  a_site :: site
  a_slots :: "nat list"
  a_running :: bool
  a_failed :: bool
  a_failMsg :: "fail_part list"
  a_crashTimes :: "instant list"
  a_schedFired :: "string \<rightharpoonup> string"
  a_recoverTimer :: "duration option"
  a_recoveries :: nat
  a_lastRecovery :: instant
  a_watching :: bool
  a_backends :: "nat list"
  a_autoStarts :: nat

record rolling =
  ro_waiting :: "nat option"
  ro_rest :: "nat list"

record procs =
  w_ports :: port_allocator
  w_insts :: "proc_inst list"
  w_slots :: "slot list"
  w_apps :: "app list"
  w_rolls :: "rolling list"
  w_registry :: "string \<rightharpoonup> nat"
  w_swapping :: "string set"
  w_stopped :: bool

abbreviation the_inst :: "procs \<Rightarrow> nat \<Rightarrow> proc_inst" where
  "the_inst w i \<equiv> w_insts w ! i"

abbreviation the_slot :: "procs \<Rightarrow> nat \<Rightarrow> slot" where
  "the_slot w s \<equiv> w_slots w ! s"

abbreviation the_app :: "procs \<Rightarrow> nat \<Rightarrow> app" where
  "the_app w a \<equiv> w_apps w ! a"

definition upd_inst :: "nat \<Rightarrow> (proc_inst \<Rightarrow> proc_inst) \<Rightarrow> procs \<Rightarrow> procs" where
  "upd_inst i f w = w\<lparr> w_insts := (w_insts w)[i := f (the_inst w i)] \<rparr>"

definition upd_slot :: "nat \<Rightarrow> (slot \<Rightarrow> slot) \<Rightarrow> procs \<Rightarrow> procs" where
  "upd_slot s f w = w\<lparr> w_slots := (w_slots w)[s := f (the_slot w s)] \<rparr>"

definition upd_app :: "nat \<Rightarrow> (app \<Rightarrow> app) \<Rightarrow> procs \<Rightarrow> procs" where
  "upd_app a f w = w\<lparr> w_apps := (w_apps w)[a := f (the_app w a)] \<rparr>"

definition new_procs :: "int \<Rightarrow> int \<Rightarrow> procs" where
  "new_procs start stop =
     \<lparr> w_ports = newPortAllocator start stop, w_insts = [], w_slots = [], w_apps = [], w_rolls = [],
       w_registry = Map.empty, w_swapping = {}, w_stopped = False \<rparr>"

definition new_app :: "string \<Rightarrow> string \<Rightarrow> site \<Rightarrow> app" where
  "new_app sid slot st =
     \<lparr> a_id = sid, a_slotName = slot, a_site = st, a_slots = [], a_running = False, a_failed = False,
       a_failMsg = [], a_crashTimes = [], a_schedFired = Map.empty, a_recoverTimer = None,
       a_recoveries = 0, a_lastRecovery = 0, a_watching = False, a_backends = [], a_autoStarts = 0 \<rparr>"

definition app_key :: "app \<Rightarrow> string" where
  "app_key ap = SlotKey (a_id ap) (a_slotName ap)"

text \<open>The process settings of an app's site. \<^verbatim>\<open>Apply\<close> keeps apps of sites that have them.\<close>

definition node_of :: "app \<Rightarrow> node_config" where
  "node_of ap = the (site_Node (a_site ap))"

text \<open>\<^verbatim>\<open>time.Duration(n) * time.Second\<close>.\<close>

definition secs :: "int \<Rightarrow> duration" where
  "secs n = wrap64 (n * second)"

section \<open>Rapid-fail protection\<close>

definition restartDelay :: "nat \<Rightarrow> duration \<Rightarrow> duration" where
  "restartDelay failures lastUptime =
     (if failures \<le> 1 then second else min (second * 2 ^ min (failures - 1) 5) (30 * second))"

definition recoveryDelay :: "duration \<Rightarrow> nat \<Rightarrow> duration" where
  "recoveryDelay base previous = min (wrap64 (base * 2 ^ min previous 10)) hour"

definition recordCrash :: "instant \<Rightarrow> app \<Rightarrow> bool \<times> app" where
  "recordCrash now ap =
     (let n = node_of ap; window = secs (n_RestartWindowSec n);
          times = filter (\<lambda>t. time_sub now t < window) (a_crashTimes ap) @ [now];
          ap = ap\<lparr> a_crashTimes := times \<rparr>
      in if 0 < n_MaxRestarts n \<and> n_MaxRestarts n < int (length times) \<and> \<not> a_failed ap
         then (True, ap\<lparr> a_failed := True, a_failMsg := [Rapid_fail (length times) window] \<rparr>)
         else (False, ap))"

definition cancelRecoveryLocked :: "app \<Rightarrow> app" where
  "cancelRecoveryLocked ap = ap\<lparr> a_recoverTimer := None \<rparr>"

definition scheduleRecoveryLocked :: "instant \<Rightarrow> app \<Rightarrow> duration option \<times> app" where
  "scheduleRecoveryLocked now ap =
     (let ap = cancelRecoveryLocked ap; n = node_of ap
      in if n_RapidFailAction n = ''stop'' then (None, ap)
         else
           (let ap = (if hour < time_sub now (a_lastRecovery ap) then ap\<lparr> a_recoveries := 0 \<rparr> else ap);
                d = recoveryDelay (secs (n_RecoverAfterSec n)) (a_recoveries ap)
            in (Some d, ap\<lparr> a_recoverTimer := Some d \<rparr>)))"

section \<open>Publishing\<close>

definition ready_of :: "procs \<Rightarrow> nat option \<Rightarrow> nat list" where
  "ready_of w i = (case i of Some j \<Rightarrow> if in_state (the_inst w j) = I_ready then [j] else [] | None \<Rightarrow> [])"

definition backends_now :: "procs \<Rightarrow> app \<Rightarrow> nat list" where
  "backends_now w ap =
     (if site_Type (a_site ap) = SiteWorker then []
      else concat (map (\<lambda>s. ready_of w (s_cur (the_slot w s)) @ ready_of w (s_next (the_slot w s))) (a_slots ap)))"

definition publish :: "nat \<Rightarrow> procs \<Rightarrow> procs" where
  "publish a w = upd_app a (\<lambda>ap. ap\<lparr> a_backends := backends_now w ap \<rparr>) w"

section \<open>Starting, stopping and resizing an app\<close>

datatype proc_error = No_folder | Not_running | Not_node | No_slot | Swap_in_progress

definition new_slot :: "nat \<Rightarrow> nat \<Rightarrow> slot" where
  "new_slot a i =
     \<lparr> s_app = a, s_index = i, s_pc = At_top, s_cmds = [], s_answering = None, s_cur = None, s_next = None,
       s_restarts = 0, s_lastExit = None, s_failures = 0, s_lostPort = 0, s_recyclePending = False \<rparr>"

text \<open>\<^verbatim>\<open>newSlot\<close> for the indices from \<open>from\<close> on, appended to the app's slots.\<close>

definition add_slots :: "nat \<Rightarrow> nat \<Rightarrow> nat \<Rightarrow> procs \<Rightarrow> procs" where
  "add_slots a from n w =
     (let m = length (w_slots w)
      in upd_app a (\<lambda>ap. ap\<lparr> a_slots := a_slots ap @ [m..<m + n] \<rparr>)
           (w\<lparr> w_slots := w_slots w @ map (\<lambda>i. new_slot a (from + i)) [0..<n] \<rparr>))"

definition send :: "slot_cmd \<Rightarrow> nat \<Rightarrow> procs \<Rightarrow> procs" where
  "send c s w = upd_slot s (\<lambda>sl. sl\<lparr> s_cmds := s_cmds sl @ [c] \<rparr>) w"

definition stopSlots :: "nat list \<Rightarrow> procs \<Rightarrow> procs" where
  "stopSlots ss w = fold (send Cmd_stop) ss w"

definition app_start :: "bool \<Rightarrow> nat \<Rightarrow> procs \<Rightarrow> procs \<times> proc_error option" where
  "app_start dirOK a w =
     (let ap = the_app w a
      in if a_running ap then (w, None)
         else if \<not> dirOK then (w, Some No_folder)
         else
           (let w = upd_app a (\<lambda>ap. (cancelRecoveryLocked ap)\<lparr> a_running := True, a_failed := False,
                       a_failMsg := [], a_crashTimes := [], a_slots := [],
                       a_watching := n_WatchFiles (node_of ap) \<rparr>) w
            in (add_slots a 0 (nat (n_Instances (node_of ap))) w, None)))"

text \<open>
  \<^verbatim>\<open>stop\<close> up to where it waits for its slots; each slot publishes as it stops, and the
  last \<^verbatim>\<open>publish\<close> is a step of its own.
\<close>

definition app_stop :: "nat \<Rightarrow> procs \<Rightarrow> procs" where
  "app_stop a w =
     (let ss = a_slots (the_app w a)
      in stopSlots ss
           (upd_app a (\<lambda>ap. (cancelRecoveryLocked ap)\<lparr> a_slots := [], a_running := False, a_watching := False \<rparr>) w))"

definition resize :: "nat \<Rightarrow> nat \<Rightarrow> procs \<Rightarrow> procs" where
  "resize n a w =
     (if \<not> a_running (the_app w a) then w
      else
        (let k = length (a_slots (the_app w a));
             w = add_slots a k (n - k) w;
             extra = drop n (a_slots (the_app w a));
             w = upd_app a (\<lambda>ap. ap\<lparr> a_slots := take n (a_slots ap) \<rparr>) w
         in publish a (stopSlots extra w)))"

text \<open>What \<^verbatim>\<open>tripRapidFail\<close> does to the app under its lock, and then to the slots.\<close>

definition trip_app :: "instant \<Rightarrow> app \<Rightarrow> app" where
  "trip_app now ap =
     (let (d, ap) = scheduleRecoveryLocked now (ap\<lparr> a_slots := [], a_running := False \<rparr>);
          said = (case d of None \<Rightarrow> Until_started | Some d \<Rightarrow> Restarting_in d)
      in ap\<lparr> a_watching := False, a_failMsg := a_failMsg ap @ [said] \<rparr>)"

definition tripRapidFail :: "instant \<Rightarrow> nat \<Rightarrow> procs \<Rightarrow> procs" where
  "tripRapidFail now a w =
     stopSlots (a_slots (the_app w a)) (publish a (upd_app a (trip_app now) w))"

section \<open>Automatic recovery\<close>

text \<open>
  \<^verbatim>\<open>autoRecover\<close> holds the lock twice: it decides in the first part and calls \<^verbatim>\<open>start\<close>
  in the second; an operator's command can come between the two.
\<close>

definition autoRecover_begin :: "instant \<Rightarrow> nat \<Rightarrow> procs \<Rightarrow> procs" where
  "autoRecover_begin now a w =
     (let ap = the_app w a
      in if w_stopped w \<or> w_registry w (app_key ap) \<noteq> Some a then w
         else if a_recoverTimer ap = None \<or> \<not> a_failed ap \<or> a_running ap then w
         else upd_app a (\<lambda>ap. ap\<lparr> a_recoverTimer := None, a_recoveries := a_recoveries ap + 1,
                a_lastRecovery := now, a_autoStarts := a_autoStarts ap + 1 \<rparr>) w)"

definition autoRecover_start :: "instant \<Rightarrow> bool \<Rightarrow> nat \<Rightarrow> procs \<Rightarrow> procs" where
  "autoRecover_start now dirOK a w =
     (let w = upd_app a (\<lambda>ap. ap\<lparr> a_autoStarts := a_autoStarts ap - 1 \<rparr>) w
      in case app_start dirOK a w of
           (w, None) \<Rightarrow> w
         | (w, Some _) \<Rightarrow>
             upd_app a (\<lambda>ap.
               let (d, ap) = scheduleRecoveryLocked now ap
               in ap\<lparr> a_failMsg := Auto_failed # (case d of None \<Rightarrow> [] | Some d \<Rightarrow> [Retrying_in d]) \<rparr>) w)"

section \<open>A slot\<close>

definition portRetries :: nat where
  "portRetries = 2"

definition set_pc :: "slot_pc \<Rightarrow> nat \<Rightarrow> procs \<Rightarrow> procs" where
  "set_pc pc s w = upd_slot s (\<lambda>sl. sl\<lparr> s_pc := pc \<rparr>) w"

definition setCur :: "nat option \<Rightarrow> nat \<Rightarrow> procs \<Rightarrow> procs" where
  "setCur i s w = upd_slot s (\<lambda>sl. sl\<lparr> s_cur := i \<rparr>) w"

definition setState :: "inst_state \<Rightarrow> nat \<Rightarrow> procs \<Rightarrow> procs" where
  "setState st i w = upd_inst i (\<lambda>x. x\<lparr> in_state := st \<rparr>) w"

text \<open>The reply to the command being carried out: its sender goes on.\<close>

definition answer :: "nat \<Rightarrow> procs \<Rightarrow> procs" where
  "answer s w =
     (let w' = (case s_answering (the_slot w s) of
                  Some (Cmd_recycle (From_roll r)) \<Rightarrow> w\<lparr> w_rolls := (w_rolls w)[r := (w_rolls w ! r)\<lparr> ro_waiting := None \<rparr>] \<rparr>
                | Some (Cmd_recycle From_request) \<Rightarrow> upd_slot s (\<lambda>sl. sl\<lparr> s_recyclePending := False \<rparr>) w
                | _ \<Rightarrow> w)
      in upd_slot s (\<lambda>sl. sl\<lparr> s_answering := None \<rparr>) w')"

text \<open>The end of an instance's use: its port goes back to the allocator.\<close>

definition release_inst :: "nat \<Rightarrow> procs \<Rightarrow> procs" where
  "release_inst i w =
     (upd_inst i (\<lambda>x. x\<lparr> in_held := False \<rparr>) w)\<lparr> w_ports := release_port (in_port (the_inst w i)) (w_ports w) \<rparr>"

text \<open>\<^verbatim>\<open>retire\<close> until it waits for the requests in flight and for the process to end.\<close>

definition retire_begin :: "nat \<Rightarrow> retire_then \<Rightarrow> nat \<Rightarrow> procs \<Rightarrow> procs" where
  "retire_begin i th s w = set_pc (Retiring i th) s (publish (s_app (the_slot w s)) (setState I_stopping i w))"

text \<open>After a crash or a failed start that counted: trip, or wait and start again.\<close>

definition after_crash :: "instant \<Rightarrow> bool \<Rightarrow> duration \<Rightarrow> nat \<Rightarrow> procs \<Rightarrow> procs" where
  "after_crash now lived uptime s w =
     (let a = s_app (the_slot w s); (tripped, ap) = recordCrash now (the_app w a);
          w = upd_app a (\<lambda>_. ap) w
      in if tripped then set_pc Tripped s w
         else upd_slot s (\<lambda>sl. sl\<lparr> s_restarts := s_restarts sl + (if lived then 1 else 0),
                s_pc := Pausing (restartDelay (s_failures sl) uptime) \<rparr>) w)"

text \<open>What follows when \<^verbatim>\<open>spawn\<close> returns an error, and when it returns an instance.\<close>

definition spawn_failed :: "instant \<Rightarrow> purpose \<Rightarrow> nat \<Rightarrow> procs \<Rightarrow> procs" where
  "spawn_failed now pu s w =
     (case pu of
        For_start \<Rightarrow>
          after_crash now False 0 s
            (upd_slot s (\<lambda>sl. sl\<lparr> s_failures := s_failures sl + 1, s_lastExit := Some (- 1, now) \<rparr>) w)
      | For_replace old \<Rightarrow> set_pc (Serving old) s (answer s w)
      | For_fixed \<Rightarrow> set_pc At_top s (answer s (publish (s_app (the_slot w s)) (setCur None s w))))"

definition spawn_ok :: "purpose \<Rightarrow> nat \<Rightarrow> nat \<Rightarrow> procs \<Rightarrow> procs" where
  "spawn_ok pu i s w =
     (let a = s_app (the_slot w s)
      in case pu of
           For_start \<Rightarrow> set_pc (Serving i) s (publish a (setCur (Some i) s w))
         | For_replace old \<Rightarrow>
             set_pc (Overlap old i) s (publish a (upd_slot s (\<lambda>sl. sl\<lparr> s_next := Some i \<rparr>) w))
         | For_fixed \<Rightarrow> set_pc (Serving i) s (answer s (publish a (setCur (Some i) s w))))"

text \<open>
  \<^verbatim>\<open>spawnOnce\<close> up to where it waits for the process to be ready. \<open>launch\<close> says whether
  the command could be built and the process started.
\<close>

record spawn_env =
  sp_now :: instant
  sp_dirOK :: bool
  sp_off :: int
  sp_free :: "int \<Rightarrow> bool"
  sp_launch :: bool

definition new_inst :: "instant \<Rightarrow> nat \<Rightarrow> nat \<Rightarrow> nat \<Rightarrow> int \<Rightarrow> bool \<Rightarrow> proc_inst" where
  "new_inst now a s idx port auto_port =
     \<lparr> in_app = a, in_slot = s, in_index = idx, in_port = port, in_startedAt = now, in_state = I_starting,
       in_healthy = True, in_healthFails = 0, in_lastHealth = 0, in_exited = False, in_exitCode = 0,
       in_addrInUse = False, in_requests = 0, in_mem = 0, in_auto = auto_port, in_held = True \<rparr>"

definition spawn_port :: "spawn_env \<Rightarrow> app \<Rightarrow> port_allocator \<Rightarrow> (port_error + int) \<times> port_allocator" where
  "spawn_port e ap pa =
     (if site_Type (a_site ap) = SiteWorker then (Inr 0, pa)
      else if n_PortMode (node_of ap) \<noteq> ''fixed'' then allocate (sp_free e) (sp_off e) pa
      else (Inr (n_FixedPort (node_of ap)), pa))"

definition spawnOnce_begin :: "spawn_env \<Rightarrow> purpose \<Rightarrow> nat \<Rightarrow> nat \<Rightarrow> procs \<Rightarrow> procs" where
  "spawnOnce_begin e pu attempt s w =
     (let a = s_app (the_slot w s); ap = the_app w a
      in if \<not> sp_dirOK e then spawn_failed (sp_now e) pu s w
         else
           (case spawn_port e ap (w_ports w) of
              (Inl _, _) \<Rightarrow> spawn_failed (sp_now e) pu s w
            | (Inr port, pa) \<Rightarrow>
                if \<not> sp_launch e
                then spawn_failed (sp_now e) pu s (w\<lparr> w_ports := if port \<noteq> 0 then release_port port pa else pa \<rparr>)
                else set_pc (Spawning pu attempt (length (w_insts w))) s
                       (w\<lparr> w_ports := pa,
                           w_insts := w_insts w @ [new_inst (sp_now e) a s (s_index (the_slot w s)) port
                             (site_Type (a_site ap) \<noteq> SiteWorker \<and> n_PortMode (node_of ap) \<noteq> ''fixed'')] \<rparr>)))"

text \<open>\<^verbatim>\<open>isWorker\<close>: whether another site mounts this one is an argument.\<close>

definition isWorker :: "(string \<Rightarrow> bool) \<Rightarrow> site \<Rightarrow> bool" where
  "isWorker mounted st \<longleftrightarrow> site_Type st = SiteWorker \<or> (site_Bindings st = [] \<and> \<not> mounted (site_ID st))"

text \<open>The readiness check failed: was it only that another process had taken the port?\<close>

definition lost_port :: "(string \<Rightarrow> bool) \<Rightarrow> bool \<Rightarrow> site \<Rightarrow> proc_inst \<Rightarrow> bool" where
  "lost_port mounted free st x \<longleftrightarrow>
     site_Type st \<noteq> SiteWorker \<and> n_PortMode (the (site_Node st)) \<noteq> ''fixed'' \<and> in_exited x \<and>
     (in_addrInUse x \<or> (\<not> isWorker mounted st \<and> \<not> free))"

text \<open>\<^verbatim>\<open>portLost\<close>: an instance that was ready and only lost its port, so often in a row.\<close>

definition portLost :: "duration \<Rightarrow> proc_inst \<Rightarrow> node_config \<Rightarrow> slot \<Rightarrow> bool \<times> slot" where
  "portLost uptime x n sl =
     (let lost = (n_PortMode n \<noteq> ''fixed'' \<and> in_addrInUse x \<and> uptime \<le> secs (n_StartupTimeoutSec n))
      in if \<not> lost \<or> portRetries \<le> s_lostPort sl then (False, sl\<lparr> s_lostPort := 0 \<rparr>)
         else (True, sl\<lparr> s_lostPort := s_lostPort sl + 1 \<rparr>))"

definition stays_down :: "string \<Rightarrow> int \<Rightarrow> bool" where
  "stays_down policy code \<longleftrightarrow> policy = ''never'' \<or> (policy = ''on-failure'' \<and> code = 0)"

text \<open>The branch of \<^verbatim>\<open>run\<close> for an instance that exited.\<close>

definition inst_exited :: "instant \<Rightarrow> nat \<Rightarrow> nat \<Rightarrow> procs \<Rightarrow> procs" where
  "inst_exited now i s w =
     (let x = the_inst w i; uptime = time_sub now (in_startedAt x); a = s_app (the_slot w s);
          w = release_inst i w; n = node_of (the_app w a);
          (lost, sl) = portLost uptime x n (the_slot w s);
          w = upd_slot s (\<lambda>_. sl\<lparr> s_cur := None \<rparr>) w
      in if lost then set_pc At_top s (publish a w)
         else
           (let w = publish a (upd_slot s (\<lambda>sl. sl\<lparr> s_lastExit := Some (in_exitCode x, now),
                      s_failures := (if 60 * second < uptime then 0 else s_failures sl) + 1 \<rparr>) w)
            in if stays_down (n_RestartPolicy n) (in_exitCode x) then set_pc Parked s w
               else after_crash now True uptime s w))"

text \<open>\<^verbatim>\<open>replace\<close>, once traffic is on both instances: move it to the new one, retire the old one.\<close>

definition replace_commit :: "nat \<Rightarrow> nat \<Rightarrow> nat \<Rightarrow> procs \<Rightarrow> procs" where
  "replace_commit old i s w =
     retire_begin old (Then_serve i) s
       (publish (s_app (the_slot w s)) (upd_slot s (\<lambda>sl. sl\<lparr> s_cur := Some i, s_next := None \<rparr>) w))"

text \<open>The end of \<^verbatim>\<open>retire\<close>, and what its caller does next.\<close>

definition retire_end :: "instant \<Rightarrow> nat \<Rightarrow> retire_then \<Rightarrow> nat \<Rightarrow> procs \<Rightarrow> procs" where
  "retire_end now i th s w =
     (let w = release_inst i w
      in case th of
           Then_finish \<Rightarrow> set_pc Finished s (answer s (setCur None s w))
         | Then_spawn \<Rightarrow> set_pc (At_spawn For_fixed 0) s (publish (s_app (the_slot w s)) (setCur None s w))
         | Then_serve j \<Rightarrow> set_pc (Serving j) s (answer s w)
         | Then_failed pu attempt lost \<Rightarrow>
             if lost \<and> attempt < portRetries then set_pc (At_spawn pu (attempt + 1)) s w
             else spawn_failed now pu s w)"

text \<open>Receiving a command: in \<^verbatim>\<open>select\<close>, in \<^verbatim>\<open>idle\<close>, in \<^verbatim>\<open>wait\<close>.\<close>

definition take_cmd :: "nat \<Rightarrow> nat \<Rightarrow> procs \<Rightarrow> procs" where
  "take_cmd k s w =
     upd_slot s (\<lambda>sl. sl\<lparr> s_answering := Some (s_cmds sl ! k),
       s_cmds := take k (s_cmds sl) @ drop (Suc k) (s_cmds sl) \<rparr>) w"

definition receive :: "nat \<Rightarrow> nat \<Rightarrow> procs \<Rightarrow> procs" where
  "receive k s w =
     (let sl = the_slot w s; c = s_cmds sl ! k; n = node_of (the_app w (s_app sl)); w = take_cmd k s w
      in case s_pc sl of
           Serving i \<Rightarrow>
             if c = Cmd_stop then retire_begin i Then_finish s w
             else if n_PortMode n = ''fixed'' then retire_begin i Then_spawn s w
             else set_pc (At_spawn (For_replace i) 0) s w
         | _ \<Rightarrow> set_pc (if c = Cmd_stop then Finished else At_top) s (answer s w))"

definition receiving :: "slot_pc \<Rightarrow> bool" where
  "receiving pc \<longleftrightarrow> (case pc of Serving _ \<Rightarrow> True | Parked \<Rightarrow> True | Pausing _ \<Rightarrow> True | _ \<Rightarrow> False)"

section \<open>Rolling recycles and requests\<close>

text \<open>\<^verbatim>\<open>recycle\<close>: the slots of the moment, replaced one after the other.\<close>

definition app_recycle :: "nat \<Rightarrow> procs \<Rightarrow> procs \<times> proc_error option" where
  "app_recycle a w =
     (if \<not> a_running (the_app w a) then (w, Some Not_running)
      else (w\<lparr> w_rolls := w_rolls w @ [\<lparr> ro_waiting = None, ro_rest = a_slots (the_app w a) \<rparr>] \<rparr>, None))"

text \<open>The loop of \<^verbatim>\<open>recycle\<close>: send to the next slot when the last one has answered or ended.\<close>

definition roll_next :: "nat \<Rightarrow> procs \<Rightarrow> procs" where
  "roll_next r w =
     (let ro = w_rolls w ! r
      in case ro_waiting ro of
           Some s \<Rightarrow>
             if s_pc (the_slot w s) = Finished
             then w\<lparr> w_rolls := (w_rolls w)[r := ro\<lparr> ro_waiting := None \<rparr>] \<rparr> else w
         | None \<Rightarrow>
             (case ro_rest ro of
                [] \<Rightarrow> w
              | s # ss \<Rightarrow>
                  send (Cmd_recycle (From_roll r)) s
                    (w\<lparr> w_rolls := (w_rolls w)[r := \<lparr> ro_waiting = Some s, ro_rest = ss \<rparr>] \<rparr>)))"

definition requestRecycle :: "nat \<Rightarrow> procs \<Rightarrow> procs" where
  "requestRecycle s w =
     (if s_recyclePending (the_slot w s) then w
      else send (Cmd_recycle From_request) s (upd_slot s (\<lambda>sl. sl\<lparr> s_recyclePending := True \<rparr>) w))"

section \<open>Steps\<close>

text \<open>What can happen: operators and configuration, the goroutines of slots, processes, timers.\<close>

datatype sup_event =
    E_start nat bool
  | E_stop nat
  | E_recycle nat
  | E_resize nat nat
  | E_publish nat
  | E_configure nat site
  | E_register string string site
  | E_setRange int int
  | E_roll nat
  | E_request nat
  | E_top nat
  | E_spawn nat spawn_env
  | E_ready nat
  | E_startFailed nat "string \<Rightarrow> bool" bool
  | E_overlap nat
  | E_retired nat instant
  | E_exitSeen nat instant
  | E_command nat nat
  | E_timer nat
  | E_trip nat instant
  | E_processExit nat int
  | E_addrInUse nat
  | E_recover nat instant
  | E_recoverStart nat instant bool

definition slot_step :: "sup_event \<Rightarrow> nat \<Rightarrow> procs \<Rightarrow> procs" where
  "slot_step ev s w =
     (let sl = the_slot w s; a = s_app sl; ap = the_app w a
      in case (ev, s_pc sl) of
           (E_top _, At_top) \<Rightarrow> set_pc (if a_failed ap then Parked else At_spawn For_start 0) s w
         | (E_spawn _ e, At_spawn pu attempt) \<Rightarrow> spawnOnce_begin e pu attempt s w
         | (E_ready _, Spawning pu attempt i) \<Rightarrow> spawn_ok pu i s (setState I_ready i w)
         | (E_startFailed _ mounted free, Spawning pu attempt i) \<Rightarrow>
             retire_begin i (Then_failed pu attempt (lost_port mounted free (a_site ap) (the_inst w i))) s w
         | (E_overlap _, Overlap old i) \<Rightarrow> replace_commit old i s w
         | (E_retired _ now, Retiring i th) \<Rightarrow> retire_end now i th s w
         | (E_exitSeen _ now, Serving i) \<Rightarrow> if in_exited (the_inst w i) then inst_exited now i s w else w
         | (E_timer _, Pausing _) \<Rightarrow> set_pc At_top s w
         | (E_trip _ now, Tripped) \<Rightarrow> set_pc Parked s (tripRapidFail now a w)
         | (E_command _ k, pc) \<Rightarrow> if receiving pc \<and> k < length (s_cmds sl) then receive k s w else w
         | _ \<Rightarrow> w)"

definition process_exit :: "nat \<Rightarrow> int \<Rightarrow> procs \<Rightarrow> procs" where
  "process_exit i code w =
     (if in_exited (the_inst w i) then w
      else upd_inst i (\<lambda>x. x\<lparr> in_exitCode := code, in_state := I_exited, in_exited := True \<rparr>) w)"

definition register :: "string \<Rightarrow> string \<Rightarrow> site \<Rightarrow> procs \<Rightarrow> procs" where
  "register sid slot st w =
     w\<lparr> w_apps := w_apps w @ [new_app sid slot st], w_registry := (w_registry w)(SlotKey sid slot \<mapsto> length (w_apps w)) \<rparr>"

definition sup_step :: "procs \<Rightarrow> sup_event \<Rightarrow> procs" where
  "sup_step w ev =
     (case ev of
        E_start a dirOK \<Rightarrow> fst (app_start dirOK a w)
      | E_stop a \<Rightarrow> app_stop a w
      | E_recycle a \<Rightarrow> fst (app_recycle a w)
      | E_resize a n \<Rightarrow> resize n a w
      | E_publish a \<Rightarrow> publish a w
      | E_configure a st \<Rightarrow> upd_app a (\<lambda>ap. ap\<lparr> a_site := st \<rparr>) w
      | E_register sid slot st \<Rightarrow> register sid slot st w
      | E_setRange start stop \<Rightarrow> w\<lparr> w_ports := setRange start stop (w_ports w) \<rparr>
      | E_roll r \<Rightarrow> roll_next r w
      | E_request s \<Rightarrow> requestRecycle s w
      | E_top s \<Rightarrow> slot_step ev s w
      | E_spawn s _ \<Rightarrow> slot_step ev s w
      | E_ready s \<Rightarrow> slot_step ev s w
      | E_startFailed s _ _ \<Rightarrow> slot_step ev s w
      | E_overlap s \<Rightarrow> slot_step ev s w
      | E_retired s _ \<Rightarrow> slot_step ev s w
      | E_exitSeen s _ \<Rightarrow> slot_step ev s w
      | E_command s _ \<Rightarrow> slot_step ev s w
      | E_timer s \<Rightarrow> slot_step ev s w
      | E_trip s _ \<Rightarrow> slot_step ev s w
      | E_processExit i code \<Rightarrow> process_exit i code w
      | E_addrInUse i \<Rightarrow> upd_inst i (\<lambda>x. x\<lparr> in_addrInUse := True \<rparr>) w
      | E_recover a now \<Rightarrow> autoRecover_begin now a w
      | E_recoverStart a now dirOK \<Rightarrow> autoRecover_start now dirOK a w)"

text \<open>An event is possible when what it names exists and, for the second part of
  \<^verbatim>\<open>autoRecover\<close>, its first part has run.\<close>

definition sup_ok :: "procs \<Rightarrow> sup_event \<Rightarrow> bool" where
  "sup_ok w ev =
     (case ev of
        E_start a _ \<Rightarrow> a < length (w_apps w) | E_stop a \<Rightarrow> a < length (w_apps w)
      | E_recycle a \<Rightarrow> a < length (w_apps w) | E_resize a _ \<Rightarrow> a < length (w_apps w)
      | E_publish a \<Rightarrow> a < length (w_apps w) | E_configure a _ \<Rightarrow> a < length (w_apps w)
      | E_register _ _ _ \<Rightarrow> True | E_setRange _ _ \<Rightarrow> True
      | E_roll r \<Rightarrow> r < length (w_rolls w) | E_request s \<Rightarrow> s < length (w_slots w)
      | E_top s \<Rightarrow> s < length (w_slots w) | E_spawn s _ \<Rightarrow> s < length (w_slots w)
      | E_ready s \<Rightarrow> s < length (w_slots w) | E_startFailed s _ _ \<Rightarrow> s < length (w_slots w)
      | E_overlap s \<Rightarrow> s < length (w_slots w) | E_retired s _ \<Rightarrow> s < length (w_slots w)
      | E_exitSeen s _ \<Rightarrow> s < length (w_slots w) | E_command s _ \<Rightarrow> s < length (w_slots w)
      | E_timer s \<Rightarrow> s < length (w_slots w) | E_trip s _ \<Rightarrow> s < length (w_slots w)
      | E_processExit i _ \<Rightarrow> i < length (w_insts w) | E_addrInUse i \<Rightarrow> i < length (w_insts w)
      | E_recover a _ \<Rightarrow> a < length (w_apps w)
      | E_recoverStart a _ _ \<Rightarrow> a < length (w_apps w) \<and> 0 < a_autoStarts (the_app w a))"

end
