(* ===== verification/Supervisor_Proofs.thy ===== *)
theory Supervisor_Proofs
  imports Supervisor
begin

text \<open>
  What supervision keeps in every interleaving of operators, slots, processes and timers:
  ports are exclusive and never leaked, every process belongs to a slot that will retire
  it, and a recycle leaves the site with a ready instance at every moment.
\<close>

named_theorems sup \<open>how each operation changes the stores\<close>

section \<open>What the operations change\<close>

lemma upd_inst_sup [sup]:
  "w_insts (upd_inst i f w) = (w_insts w)[i := f (the_inst w i)]" "w_slots (upd_inst i f w) = w_slots w"
  "w_apps (upd_inst i f w) = w_apps w" "w_ports (upd_inst i f w) = w_ports w"
  "w_rolls (upd_inst i f w) = w_rolls w" "w_registry (upd_inst i f w) = w_registry w"
  by (simp_all add: upd_inst_def)

lemma upd_slot_sup [sup]:
  "w_slots (upd_slot s f w) = (w_slots w)[s := f (the_slot w s)]" "w_insts (upd_slot s f w) = w_insts w"
  "w_apps (upd_slot s f w) = w_apps w" "w_ports (upd_slot s f w) = w_ports w"
  "w_rolls (upd_slot s f w) = w_rolls w" "w_registry (upd_slot s f w) = w_registry w"
  by (simp_all add: upd_slot_def)

lemma upd_app_sup [sup]:
  "w_apps (upd_app a f w) = (w_apps w)[a := f (the_app w a)]" "w_insts (upd_app a f w) = w_insts w"
  "w_slots (upd_app a f w) = w_slots w" "w_ports (upd_app a f w) = w_ports w"
  "w_rolls (upd_app a f w) = w_rolls w" "w_registry (upd_app a f w) = w_registry w"
  by (simp_all add: upd_app_def)

lemma publish_sup [sup]:
  "w_insts (publish a w) = w_insts w" "w_slots (publish a w) = w_slots w" "w_ports (publish a w) = w_ports w"
  "w_rolls (publish a w) = w_rolls w" "w_registry (publish a w) = w_registry w"
  "w_apps (publish a w) = (w_apps w)[a := (the_app w a)\<lparr> a_backends := backends_now w (the_app w a) \<rparr>]"
  by (simp_all add: publish_def sup)

lemma set_pc_sup [sup]:
  "w_slots (set_pc pc s w) = (w_slots w)[s := (the_slot w s)\<lparr> s_pc := pc \<rparr>]" "w_insts (set_pc pc s w) = w_insts w"
  "w_apps (set_pc pc s w) = w_apps w" "w_ports (set_pc pc s w) = w_ports w"
  "w_rolls (set_pc pc s w) = w_rolls w" "w_registry (set_pc pc s w) = w_registry w"
  by (simp_all add: set_pc_def sup)

lemma setCur_sup [sup]:
  "w_slots (setCur c s w) = (w_slots w)[s := (the_slot w s)\<lparr> s_cur := c \<rparr>]" "w_insts (setCur c s w) = w_insts w"
  "w_apps (setCur c s w) = w_apps w" "w_ports (setCur c s w) = w_ports w"
  "w_rolls (setCur c s w) = w_rolls w" "w_registry (setCur c s w) = w_registry w"
  by (simp_all add: setCur_def sup)

lemma setState_sup [sup]:
  "w_insts (setState st i w) = (w_insts w)[i := (the_inst w i)\<lparr> in_state := st \<rparr>]" "w_slots (setState st i w) = w_slots w"
  "w_apps (setState st i w) = w_apps w" "w_ports (setState st i w) = w_ports w"
  "w_rolls (setState st i w) = w_rolls w" "w_registry (setState st i w) = w_registry w"
  by (simp_all add: setState_def sup)

lemma release_inst_sup [sup]:
  "w_insts (release_inst i w) = (w_insts w)[i := (the_inst w i)\<lparr> in_held := False \<rparr>]" "w_slots (release_inst i w) = w_slots w"
  "w_apps (release_inst i w) = w_apps w" "w_ports (release_inst i w) = release_port (in_port (the_inst w i)) (w_ports w)"
  "w_rolls (release_inst i w) = w_rolls w" "w_registry (release_inst i w) = w_registry w"
  by (simp_all add: release_inst_def sup)

text \<open>A slot that has answered its command.\<close>

definition answered :: "slot \<Rightarrow> slot" where
  "answered sl = sl\<lparr> s_recyclePending := (s_recyclePending sl \<and> s_answering sl \<noteq> Some (Cmd_recycle From_request)),
     s_answering := None \<rparr>"

lemma answered_fields [simp]:
  "s_app (answered sl) = s_app sl" "s_pc (answered sl) = s_pc sl" "s_cmds (answered sl) = s_cmds sl"
  "s_cur (answered sl) = s_cur sl" "s_next (answered sl) = s_next sl" "s_index (answered sl) = s_index sl"
  by (simp_all add: answered_def)

lemma answer_sup [sup]:
  "s < length (w_slots w) \<Longrightarrow> w_slots (answer s w) = (w_slots w)[s := answered (the_slot w s)]"
  "w_insts (answer s w) = w_insts w" "w_apps (answer s w) = w_apps w" "w_ports (answer s w) = w_ports w"
  "w_registry (answer s w) = w_registry w"
  by (auto simp: answer_def sup answered_def Let_def split: option.splits slot_cmd.splits recycle_from.splits)

lemma send_sup [sup]:
  "w_slots (send c s w) = (w_slots w)[s := (the_slot w s)\<lparr> s_cmds := s_cmds (the_slot w s) @ [c] \<rparr>]"
  "w_insts (send c s w) = w_insts w" "w_apps (send c s w) = w_apps w" "w_ports (send c s w) = w_ports w"
  "w_rolls (send c s w) = w_rolls w" "w_registry (send c s w) = w_registry w"
  by (simp_all add: send_def sup)

lemma stopSlots_frame [sup]:
  "w_insts (stopSlots ss w) = w_insts w" "w_apps (stopSlots ss w) = w_apps w" "w_ports (stopSlots ss w) = w_ports w"
  "w_rolls (stopSlots ss w) = w_rolls w" "w_registry (stopSlots ss w) = w_registry w"
  "length (w_slots (stopSlots ss w)) = length (w_slots w)"
  by (induction ss arbitrary: w) (simp_all add: stopSlots_def sup)

lemma stopSlots_slots:
  assumes "t < length (w_slots w)" and "distinct ss" and "set ss \<subseteq> {..<length (w_slots w)}"
  shows "the_slot (stopSlots ss w) t =
         (if t \<in> set ss then (the_slot w t)\<lparr> s_cmds := s_cmds (the_slot w t) @ [Cmd_stop] \<rparr> else the_slot w t)"
  using assms
  by (induction ss arbitrary: w) (auto simp: stopSlots_def sup nth_list_update)

lemma add_slots_sup [sup]:
  "w_insts (add_slots a k n w) = w_insts w" "w_ports (add_slots a k n w) = w_ports w"
  "w_slots (add_slots a k n w) = w_slots w @ map (\<lambda>i. new_slot a (k + i)) [0..<n]"
  "w_apps (add_slots a k n w) = (w_apps w)[a := (the_app w a)\<lparr> a_slots := a_slots (the_app w a) @
     [length (w_slots w)..<length (w_slots w) + n] \<rparr>]"
  "w_registry (add_slots a k n w) = w_registry w"
  by (simp_all add: add_slots_def Let_def sup)

section \<open>Where the instances of a slot are\<close>

fun old_of :: "purpose \<Rightarrow> nat list" where
  "old_of (For_replace i) = [i]"
| "old_of For_start = []"
| "old_of For_fixed = []"

text \<open>The instances a slot's goroutine refers to; the current one; its replacement.\<close>

fun then_insts :: "retire_then \<Rightarrow> nat list" where
  "then_insts (Then_serve j) = [j]"
| "then_insts (Then_failed pu _ _) = old_of pu"
| "then_insts Then_finish = []"
| "then_insts Then_spawn = []"

fun pc_insts :: "slot_pc \<Rightarrow> nat list" where
  "pc_insts (At_spawn pu _) = old_of pu"
| "pc_insts (Spawning pu _ i) = i # old_of pu"
| "pc_insts (Overlap old i) = [old, i]"
| "pc_insts (Retiring i th) = i # then_insts th"
| "pc_insts (Serving i) = [i]"
| "pc_insts At_top = []"
| "pc_insts Tripped = []"
| "pc_insts Parked = []"
| "pc_insts (Pausing _) = []"
| "pc_insts Finished = []"

fun old_cur :: "purpose \<Rightarrow> nat option" where
  "old_cur (For_replace i) = Some i"
| "old_cur For_start = None"
| "old_cur For_fixed = None"

fun pc_cur :: "slot_pc \<Rightarrow> nat option" where
  "pc_cur (At_spawn pu _) = old_cur pu"
| "pc_cur (Spawning pu _ i) = old_cur pu"
| "pc_cur (Overlap old i) = Some old"
| "pc_cur (Retiring i (Then_serve j)) = Some j"
| "pc_cur (Retiring i (Then_failed pu _ _)) = old_cur pu"
| "pc_cur (Retiring i Then_finish) = Some i"
| "pc_cur (Retiring i Then_spawn) = Some i"
| "pc_cur (Serving i) = Some i"
| "pc_cur At_top = None"
| "pc_cur Tripped = None"
| "pc_cur Parked = None"
| "pc_cur (Pausing _) = None"
| "pc_cur Finished = None"

fun pc_next :: "slot_pc \<Rightarrow> nat option" where
  "pc_next (Overlap old i) = Some i"
| "pc_next _ = None"

text \<open>
  A slot refers to exactly the instances it spawned and has not released, each once, and
  publishes what its place in the code says.
\<close>

definition slot_ok :: "proc_inst list \<Rightarrow> nat \<Rightarrow> slot \<Rightarrow> bool" where
  "slot_ok xs s sl \<longleftrightarrow>
     s_cur sl = pc_cur (s_pc sl) \<and> s_next sl = pc_next (s_pc sl) \<and> distinct (pc_insts (s_pc sl)) \<and>
     set (pc_insts (s_pc sl)) = {i. i < length xs \<and> in_held (xs ! i) \<and> in_slot (xs ! i) = s}"

text \<open>A slot on its way out: it has been told to stop, is stopping, or has ended.\<close>

definition leaving :: "slot \<Rightarrow> bool" where
  "leaving sl \<longleftrightarrow> Cmd_stop \<in> set (s_cmds sl) \<or>
     (case s_pc sl of Finished \<Rightarrow> True | Retiring _ Then_finish \<Rightarrow> True | _ \<Rightarrow> False)"

definition apps_ok :: "slot list \<Rightarrow> app list \<Rightarrow> bool" where
  "apps_ok ss as \<longleftrightarrow>
     (\<forall>a < length as. distinct (a_slots (as ! a)) \<and>
        set (a_slots (as ! a)) = {s. s < length ss \<and> s_app (ss ! s) = a \<and> \<not> leaving (ss ! s)} \<and>
        (a_running (as ! a) \<or> a_slots (as ! a) = []))"

definition slots_ok :: "slot list \<Rightarrow> proc_inst list \<Rightarrow> app list \<Rightarrow> bool" where
  "slots_ok ss xs as \<longleftrightarrow> (\<forall>s < length ss. slot_ok xs s (ss ! s) \<and> s_app (ss ! s) < length as) \<and>
     (\<forall>i < length xs. in_slot (xs ! i) < length ss)"

section \<open>Steps of one slot\<close>

lemma nth_upd: "xs[i := x] ! j = (if i = j \<and> i < length xs then x else xs ! j)"
  by (cases "i < length xs") (auto simp: nth_list_update list_update_beyond)

definition app_shape :: "app \<Rightarrow> nat list \<times> bool \<times> site" where
  "app_shape ap = (a_slots ap, a_running ap, a_site ap)"

text \<open>The instances of other slots stay as they are; instances are only added.\<close>

definition insts_frame :: "nat \<Rightarrow> proc_inst list \<Rightarrow> proc_inst list \<Rightarrow> bool" where
  "insts_frame s xs ys \<longleftrightarrow> length xs \<le> length ys \<and>
     (\<forall>i < length xs. in_slot (ys ! i) = in_slot (xs ! i) \<and>
        (in_slot (xs ! i) \<noteq> s \<longrightarrow> in_held (ys ! i) = in_held (xs ! i))) \<and>
     (\<forall>i < length ys. length xs \<le> i \<longrightarrow> in_slot (ys ! i) = s)"

text \<open>A step of slot \<open>s\<close> that leaves the slots of apps and the other slots alone.\<close>

definition slot_move :: "nat \<Rightarrow> procs \<Rightarrow> procs \<Rightarrow> bool" where
  "slot_move s w w' \<longleftrightarrow>
     (\<exists>sl. w_slots w' = (w_slots w)[s := sl] \<and> s_app sl = s_app (the_slot w s) \<and>
        leaving sl = leaving (the_slot w s) \<and> slot_ok (w_insts w') s sl) \<and>
     map app_shape (w_apps w') = map app_shape (w_apps w) \<and> insts_frame s (w_insts w) (w_insts w')"

lemma insts_frame_refl [simp]: "insts_frame s xs xs"
  by (simp add: insts_frame_def)

lemma insts_frame_upd:
  "in_slot x = in_slot (xs ! i) \<Longrightarrow> in_slot x \<noteq> s \<longrightarrow> in_held x = in_held (xs ! i) \<Longrightarrow> insts_frame s xs (xs[i := x])"
  by (auto simp: insts_frame_def nth_upd)

lemma insts_frame_add: "in_slot x = s \<Longrightarrow> insts_frame s xs (xs @ [x])"
  by (auto simp: insts_frame_def nth_append)

lemma shape_upd [simp]:
  "app_shape y = app_shape (as ! a) \<Longrightarrow> map app_shape (as[a := y]) = map app_shape as"
  by (metis list_update_id map_update)

lemma shape_fields [simp]:
  "app_shape (ap\<lparr> a_backends := v \<rparr>) = app_shape ap" "app_shape (snd (recordCrash now ap)) = app_shape ap"
  by (simp_all add: app_shape_def recordCrash_def Let_def)

lemma slot_ok_other:
  assumes "slot_ok xs t sl" and "insts_frame s xs ys" and "t \<noteq> s"
  shows "slot_ok ys t sl"
proof -
  have "{i. i < length ys \<and> in_held (ys ! i) \<and> in_slot (ys ! i) = t} =
        {i. i < length xs \<and> in_held (xs ! i) \<and> in_slot (xs ! i) = t}"
    using assms(2,3) by (fastforce simp: insts_frame_def)
  with assms(1) show ?thesis by (simp add: slot_ok_def)
qed

lemma slots_ok_move:
  assumes ok: "slots_ok (w_slots w) (w_insts w) (w_apps w)" and s: "s < length (w_slots w)" and mv: "slot_move s w w'"
  shows "slots_ok (w_slots w') (w_insts w') (w_apps w')"
proof -
  obtain sl where sl: "w_slots w' = (w_slots w)[s := sl]" "s_app sl = s_app (the_slot w s)" "slot_ok (w_insts w') s sl"
    and fr: "insts_frame s (w_insts w) (w_insts w')" and len: "length (w_apps w') = length (w_apps w)"
    using mv by (auto simp: slot_move_def dest: map_eq_imp_length_eq)
  have "slot_ok (w_insts w') t (the_slot w' t) \<and> s_app (the_slot w' t) < length (w_apps w')" if "t < length (w_slots w')" for t
    using that ok s sl fr len by (cases "t = s") (auto simp: slots_ok_def intro: slot_ok_other)
  moreover have "in_slot (w_insts w' ! i) < length (w_slots w')" if "i < length (w_insts w')" for i
    using that ok s sl(1) fr by (cases "i < length (w_insts w)") (auto simp: slots_ok_def insts_frame_def)
  ultimately show ?thesis by (simp add: slots_ok_def)
qed

lemma apps_ok_move:
  assumes ok: "apps_ok (w_slots w) (w_apps w)" and s: "s < length (w_slots w)" and mv: "slot_move s w w'"
  shows "apps_ok (w_slots w') (w_apps w')"
proof -
  obtain sl where sl: "w_slots w' = (w_slots w)[s := sl]" "s_app sl = s_app (the_slot w s)" "leaving sl = leaving (the_slot w s)"
    and sh: "map app_shape (w_apps w') = map app_shape (w_apps w)"
    using mv by (auto simp: slot_move_def)
  have len: "length (w_apps w') = length (w_apps w)" using sh by (rule map_eq_imp_length_eq)
  have "a_slots (w_apps w' ! a) = a_slots (w_apps w ! a) \<and> a_running (w_apps w' ! a) = a_running (w_apps w ! a)"
    if "a < length (w_apps w)" for a
    using that len arg_cong [OF sh, of "\<lambda>l. l ! a"] by (simp add: app_shape_def)
  moreover have "s_app (w_slots w' ! t) = s_app (the_slot w t)" "leaving (w_slots w' ! t) = leaving (the_slot w t)"
    "length (w_slots w') = length (w_slots w)" for t
    using sl s by (cases "t = s"; simp)+
  ultimately show ?thesis using ok len by (simp add: apps_ok_def)
qed

lemma slot_ok_same:
  "slot_ok xs s sl \<Longrightarrow> s_cur sl' = pc_cur (s_pc sl') \<Longrightarrow> s_next sl' = pc_next (s_pc sl') \<Longrightarrow>
   distinct (pc_insts (s_pc sl')) \<Longrightarrow> set (pc_insts (s_pc sl')) = set (pc_insts (s_pc sl)) \<Longrightarrow> slot_ok xs s sl'"
  unfolding slot_ok_def by blast

lemma slot_ok_release:
  assumes "slot_ok xs s sl" and "s_cur sl' = pc_cur (s_pc sl')" and "s_next sl' = pc_next (s_pc sl')"
    and "distinct (pc_insts (s_pc sl'))" and "i \<in> set (pc_insts (s_pc sl))"
    and "set (pc_insts (s_pc sl')) = set (pc_insts (s_pc sl)) - {i}"
  shows "slot_ok (xs[i := (xs ! i)\<lparr> in_held := False \<rparr>]) s sl'"
proof -
  have "{j. j < length xs \<and> in_held (xs ! j) \<and> in_slot (xs ! j) = s} - {i} =
    {j. j < length (xs[i := (xs ! i)\<lparr> in_held := False \<rparr>]) \<and> in_held (xs[i := (xs ! i)\<lparr> in_held := False \<rparr>] ! j) \<and>
        in_slot (xs[i := (xs ! i)\<lparr> in_held := False \<rparr>] ! j) = s}"
    by (auto simp: nth_upd)
  with assms show ?thesis unfolding slot_ok_def by metis
qed

lemma slot_ok_inst:
  assumes "in_held x = in_held (xs ! i)" and "in_slot x = in_slot (xs ! i)"
  shows "slot_ok (xs[i := x]) s sl = slot_ok xs s sl"
proof -
  have "{j. j < length (xs[i := x]) \<and> in_held (xs[i := x] ! j) \<and> in_slot (xs[i := x] ! j) = s} =
        {j. j < length xs \<and> in_held (xs ! j) \<and> in_slot (xs ! j) = s}"
    using assms by (auto simp: nth_upd)
  then show ?thesis unfolding slot_ok_def by metis
qed

lemma slot_ok_new:
  assumes "slot_ok xs s sl" and "s_cur sl' = pc_cur (s_pc sl')" and "s_next sl' = pc_next (s_pc sl')"
    and "pc_insts (s_pc sl') = length xs # pc_insts (s_pc sl)" and "in_held x" and "in_slot x = s"
  shows "slot_ok (xs @ [x]) s sl'"
proof -
  have "{j. j < length (xs @ [x]) \<and> in_held ((xs @ [x]) ! j) \<and> in_slot ((xs @ [x]) ! j) = s} =
        insert (length xs) {j. j < length xs \<and> in_held (xs ! j) \<and> in_slot (xs ! j) = s}"
    using assms(5,6) by (auto simp: nth_append)
  moreover have "length xs \<notin> set (pc_insts (s_pc sl))" using assms(1) by (auto simp: slot_ok_def)
  ultimately show ?thesis using assms unfolding slot_ok_def by (metis distinct.simps(2) list.simps(15))
qed

text \<open>Each operation of a slot is such a step, whatever the place it starts from.\<close>

text \<open>A place from which the slot does not simply end.\<close>

fun staying :: "slot_pc \<Rightarrow> bool" where
  "staying Finished = False"
| "staying (Retiring _ Then_finish) = False"
| "staying _ = True"

lemma leaving_cong:
  "s_cmds sl' = s_cmds sl \<Longrightarrow> staying (s_pc sl) \<Longrightarrow> staying (s_pc sl') \<Longrightarrow> leaving sl' = leaving sl"
  by (auto simp: leaving_def split: slot_pc.splits retire_then.splits)

text \<open>To show a move it is enough to give the slot that results.\<close>

lemma slot_moveI:
  assumes "w_slots w' = (w_slots w)[s := sl]" and "s_app sl = s_app (the_slot w s)" and "s_cmds sl = s_cmds (the_slot w s)"
    and "staying (s_pc (the_slot w s))" and "staying (s_pc sl)" and "slot_ok (w_insts w') s sl"
    and "map app_shape (w_apps w') = map app_shape (w_apps w)" and "insts_frame s (w_insts w) (w_insts w')"
  shows "slot_move s w w'"
  using assms leaving_cong [OF assms(3-5)] unfolding slot_move_def by blast

lemma slot_move_same:
  assumes "slot_ok xs s sl0" and "w_slots w' = (w_slots w)[s := sl]" and "w_insts w' = xs"
    and "s_app sl = s_app (the_slot w s)" and "s_cmds sl = s_cmds (the_slot w s)"
    and "staying (s_pc (the_slot w s))" and "staying (s_pc sl)"
    and "s_cur sl = pc_cur (s_pc sl)" and "s_next sl = pc_next (s_pc sl)" and "distinct (pc_insts (s_pc sl))"
    and "set (pc_insts (s_pc sl)) = set (pc_insts (s_pc sl0))"
    and "map app_shape (w_apps w') = map app_shape (w_apps w)" and "insts_frame s (w_insts w) xs"
  shows "slot_move s w w'"
  using assms slot_ok_same [OF assms(1,8-11)] by (intro slot_moveI [of _ _ _ sl]) simp_all

lemma after_crash_slots:
  assumes "s < length (w_slots w)"
  obtains sl where "w_slots (after_crash now lived up s w) = (w_slots w)[s := sl]"
    "s_app sl = s_app (the_slot w s)" "s_cmds sl = s_cmds (the_slot w s)" "s_cur sl = s_cur (the_slot w s)"
    "s_next sl = s_next (the_slot w s)" "pc_insts (s_pc sl) = []" "pc_cur (s_pc sl) = None" "pc_next (s_pc sl) = None"
    "staying (s_pc sl)" "w_insts (after_crash now lived up s w) = w_insts w"
    "map app_shape (w_apps (after_crash now lived up s w)) = map app_shape (w_apps w)"
    "w_ports (after_crash now lived up s w) = w_ports w"
proof -
  obtain tripped ap where c: "recordCrash now (the_app w (s_app (the_slot w s))) = (tripped, ap)" by fastforce
  have sh: "app_shape ap = app_shape (the_app w (s_app (the_slot w s)))"
    using shape_fields(2) [of now "the_app w (s_app (the_slot w s))"] c by simp
  let ?w = "after_crash now lived up s w"
  have "w_slots ?w = (w_slots w)[s := the_slot ?w s]" "s_app (the_slot ?w s) = s_app (the_slot w s)"
    "s_cmds (the_slot ?w s) = s_cmds (the_slot w s)" "s_cur (the_slot ?w s) = s_cur (the_slot w s)"
    "s_next (the_slot ?w s) = s_next (the_slot w s)" "pc_insts (s_pc (the_slot ?w s)) = []"
    "pc_cur (s_pc (the_slot ?w s)) = None" "pc_next (s_pc (the_slot ?w s)) = None" "staying (s_pc (the_slot ?w s))"
    "w_insts ?w = w_insts w" "map app_shape (w_apps ?w) = map app_shape (w_apps w)" "w_ports ?w = w_ports w"
    using c sh assms by (simp_all add: after_crash_def sup Let_def)
  then show ?thesis by (rule that)
qed

text \<open>A slot that is back to the instances it had when it began to spawn one.\<close>

definition spawn_base :: "purpose \<Rightarrow> nat \<Rightarrow> procs \<Rightarrow> procs \<Rightarrow> bool" where
  "spawn_base pu s v w \<longleftrightarrow>
     s < length (w_slots v) \<and> w_slots w = w_slots v \<and> w_apps w = w_apps v \<and> insts_frame s (w_insts v) (w_insts w) \<and>
     staying (s_pc (the_slot v s)) \<and> slot_ok (w_insts w) s ((the_slot v s)\<lparr> s_pc := At_spawn pu 0 \<rparr>)"

lemma spawn_failed_move:
  assumes "spawn_base pu s v w"
  shows "slot_move s v (spawn_failed now pu s w)"
proof -
  have s: "s < length (w_slots v)" and eq: "w_slots w = w_slots v" "w_apps w = w_apps v"
    and fr: "insts_frame s (w_insts v) (w_insts w)" and st: "staying (s_pc (the_slot v s))"
    and ok: "slot_ok (w_insts w) s ((the_slot v s)\<lparr> s_pc := At_spawn pu 0 \<rparr>)"
    using assms by (simp_all add: spawn_base_def)
  have cur: "s_cur (the_slot v s) = pc_cur (At_spawn pu 0)" and nxt: "s_next (the_slot v s) = None"
    using ok by (simp_all add: slot_ok_def)
  show ?thesis
  proof (cases pu)
    case For_start
    let ?w = "upd_slot s (\<lambda>sl. sl\<lparr> s_failures := s_failures sl + 1, s_lastExit := Some (- 1, now) \<rparr>) w"
    have s': "s < length (w_slots ?w)" using s eq by (simp add: sup)
    obtain sl where sl: "w_slots (after_crash now False 0 s ?w) = (w_slots ?w)[s := sl]"
      "s_app sl = s_app (the_slot ?w s)" "s_cmds sl = s_cmds (the_slot ?w s)" "s_cur sl = s_cur (the_slot ?w s)"
      "s_next sl = s_next (the_slot ?w s)" "pc_insts (s_pc sl) = []" "pc_cur (s_pc sl) = None" "pc_next (s_pc sl) = None"
      "staying (s_pc sl)" "w_insts (after_crash now False 0 s ?w) = w_insts ?w"
      "map app_shape (w_apps (after_crash now False 0 s ?w)) = map app_shape (w_apps ?w)"
      by (rule after_crash_slots [OF s'])
    show ?thesis unfolding spawn_failed_def For_start purpose.case
      using sl s eq cur nxt For_start fr
      by (intro slot_move_same [OF ok, where sl = sl]) (simp_all add: sup st)
  next
    case (For_replace i)
    then show ?thesis using s eq cur nxt fr
      by (intro slot_move_same [OF ok, where sl = "(answered (the_slot v s))\<lparr> s_pc := Serving i \<rparr>"])
         (simp_all add: spawn_failed_def sup st)
  next
    case For_fixed
    then show ?thesis using s eq cur nxt fr
      by (intro slot_move_same [OF ok, where sl = "(answered ((the_slot v s)\<lparr> s_cur := None \<rparr>))\<lparr> s_pc := At_top \<rparr>"])
         (simp_all add: spawn_failed_def sup st)
  qed
qed

text \<open>What \<^verbatim>\<open>spawn\<close> returns becomes current, or stands beside the old one.\<close>

lemma spawn_ok_move:
  assumes s: "s < length (w_slots w)" and pc: "s_pc (the_slot w s) = Spawning pu attempt i"
    and ok: "slot_ok (w_insts w) s (the_slot w s)"
  shows "slot_move s w (spawn_ok pu i s (setState I_ready i w))"
proof -
  have cur: "s_cur (the_slot w s) = pc_cur (Spawning pu attempt i)" and nxt: "s_next (the_slot w s) = None"
    and d: "distinct (pc_insts (Spawning pu attempt i))"
    using ok pc by (auto simp: slot_ok_def)
  have ok': "slot_ok ((w_insts w)[i := (the_inst w i)\<lparr> in_state := I_ready \<rparr>]) s (the_slot w s)"
    using ok by (simp add: slot_ok_inst)
  have fr: "insts_frame s (w_insts w) ((w_insts w)[i := (the_inst w i)\<lparr> in_state := I_ready \<rparr>])"
    by (rule insts_frame_upd) simp_all
  have st: "staying (s_pc (the_slot w s))" by (simp add: pc)
  show ?thesis
  proof (cases pu)
    case For_start
    then show ?thesis using s pc cur nxt fr st
      by (intro slot_move_same [OF ok', where sl = "(the_slot w s)\<lparr> s_cur := Some i, s_pc := Serving i \<rparr>"])
         (simp_all add: spawn_ok_def sup)
  next
    case (For_replace old)
    then show ?thesis using s pc cur nxt fr st d
      by (intro slot_move_same [OF ok', where sl = "(the_slot w s)\<lparr> s_next := Some i, s_pc := Overlap old i \<rparr>"])
         (auto simp: spawn_ok_def sup)
  next
    case For_fixed
    then show ?thesis using s pc cur nxt fr st
      by (intro slot_move_same [OF ok', where sl = "(answered ((the_slot w s)\<lparr> s_cur := Some i \<rparr>))\<lparr> s_pc := Serving i \<rparr>"])
         (simp_all add: spawn_ok_def sup)
  qed
qed

lemma slot_okD:
  assumes "slot_ok xs s sl" and "s_pc sl = pc"
  shows "s_cur sl = pc_cur pc" and "s_next sl = pc_next pc" and "distinct (pc_insts pc)"
  using assms by (simp_all add: slot_ok_def)

lemma retire_begin_move:
  assumes s: "s < length (w_slots w)" and ok: "slot_ok (w_insts w) s sl0"
    and st: "staying (s_pc (the_slot v s))" "staying (Retiring i th)"
    and cur: "s_cur (the_slot w s) = pc_cur (Retiring i th)" and nxt: "s_next (the_slot w s) = None"
    and d: "distinct (pc_insts (Retiring i th))" "set (pc_insts (Retiring i th)) = set (pc_insts (s_pc sl0))"
    and v: "w_slots w = (w_slots v)[s := the_slot w s]" "s_app (the_slot w s) = s_app (the_slot v s)"
      "s_cmds (the_slot w s) = s_cmds (the_slot v s)" "map app_shape (w_apps w) = map app_shape (w_apps v)"
      "w_insts w = w_insts v"
  shows "slot_move s v (retire_begin i th s w)"
proof -
  let ?sl = "(the_slot w s)\<lparr> s_pc := Retiring i th \<rparr>"
  have ok': "slot_ok ((w_insts v)[i := (the_inst v i)\<lparr> in_state := I_stopping \<rparr>]) s sl0"
    using ok v(5) by (simp add: slot_ok_inst)
  have fr: "insts_frame s (w_insts v) ((w_insts v)[i := (the_inst v i)\<lparr> in_state := I_stopping \<rparr>])"
    by (rule insts_frame_upd) simp_all
  have sl: "(w_slots w)[s := ?sl] = (w_slots v)[s := ?sl]" by (subst v(1)) simp
  show ?thesis using s st cur nxt d v fr sl
    by (intro slot_move_same [OF ok', where sl = ?sl]) (simp_all add: retire_begin_def sup)
qed

lemma replace_commit_move:
  assumes s: "s < length (w_slots w)" and pc: "s_pc (the_slot w s) = Overlap old i"
    and ok: "slot_ok (w_insts w) s (the_slot w s)"
  shows "slot_move s w (replace_commit old i s w)"
  unfolding replace_commit_def
  using s pc ok slot_okD [OF ok pc]
  by (intro retire_begin_move [where ?sl0.0 = "the_slot w s"]) (auto simp: sup)

text \<open>A released instance leaves the slot; what remains is what the slot goes on with.\<close>

lemma release_base:
  assumes ok: "slot_ok (w_insts w) s (the_slot w s)" and i: "i \<in> set (pc_insts (s_pc (the_slot w s)))"
    and sl: "s_cur sl = pc_cur (s_pc sl)" "s_next sl = pc_next (s_pc sl)" "distinct (pc_insts (s_pc sl))"
      "set (pc_insts (s_pc sl)) = set (pc_insts (s_pc (the_slot w s))) - {i}"
  shows "slot_ok (w_insts (release_inst i w)) s sl" and "insts_frame s (w_insts w) (w_insts (release_inst i w))"
proof -
  show "slot_ok (w_insts (release_inst i w)) s sl"
    unfolding release_inst_sup by (rule slot_ok_release [OF ok sl(1-3) i sl(4)])
  have "in_slot (the_inst w i) = s" using ok i by (auto simp: slot_ok_def)
  then show "insts_frame s (w_insts w) (w_insts (release_inst i w))"
    unfolding release_inst_sup by (intro insts_frame_upd) simp_all
qed

lemma slot_move_release:
  assumes "slot_ok (w_insts w) s (the_slot w s)" and "i \<in> set (pc_insts (s_pc (the_slot w s)))"
    and "w_slots w' = (w_slots w)[s := sl]" and "w_insts w' = w_insts (release_inst i w)"
    and "s_app sl = s_app (the_slot w s)" and "s_cmds sl = s_cmds (the_slot w s)"
    and "staying (s_pc (the_slot w s))" and "staying (s_pc sl)"
    and "s_cur sl = pc_cur (s_pc sl)" and "s_next sl = pc_next (s_pc sl)" and "distinct (pc_insts (s_pc sl))"
    and "set (pc_insts (s_pc sl)) = set (pc_insts (s_pc (the_slot w s))) - {i}"
    and "map app_shape (w_apps w') = map app_shape (w_apps w)"
  shows "slot_move s w w'"
  using assms release_base [OF assms(1,2,9-12)] by (intro slot_moveI [of _ _ _ sl]) simp_all

lemma retire_end_move:
  assumes s: "s < length (w_slots w)" and pc: "s_pc (the_slot w s) = Retiring i th" and th: "th \<noteq> Then_finish"
    and ok: "slot_ok (w_insts w) s (the_slot w s)"
  shows "slot_move s w (retire_end now i th s w)"
proof -
  note rel = slot_move_release [OF ok]
  have cur: "s_cur (the_slot w s) = pc_cur (Retiring i th)" and nxt: "s_next (the_slot w s) = None"
    and d: "distinct (pc_insts (Retiring i th))" and st: "staying (s_pc (the_slot w s))"
    using slot_okD [OF ok pc] pc th by (simp_all, cases th) simp_all
  show ?thesis
  proof (cases th)
    case Then_finish
    with th show ?thesis by simp
  next
    case Then_spawn
    with s pc cur nxt d st show ?thesis
      by (intro rel [of i _ "(the_slot w s)\<lparr> s_cur := None, s_pc := At_spawn For_fixed 0 \<rparr>"])
         (simp_all add: retire_end_def sup)
  next
    case (Then_serve j)
    with s pc cur nxt d st show ?thesis
      by (intro rel [of i _ "(answered (the_slot w s))\<lparr> s_pc := Serving j \<rparr>"])
         (auto simp: retire_end_def sup)
  next
    case (Then_failed pu attempt lost)
    have d': "i \<notin> set (old_of pu)" and dd: "distinct (old_of pu)" using d Then_failed by simp_all
    show ?thesis
    proof (cases "lost \<and> attempt < portRetries")
      case True
      with Then_failed s pc cur nxt st d' dd show ?thesis
        by (intro rel [of i _ "(the_slot w s)\<lparr> s_pc := At_spawn pu (attempt + 1) \<rparr>"])
           (simp_all add: retire_end_def sup)
    next
      case False
      have "spawn_base pu s w (release_inst i w)"
        using release_base [OF ok, of i "(the_slot w s)\<lparr> s_pc := At_spawn pu 0 \<rparr>"] s pc cur nxt st d' dd Then_failed
        by (simp add: spawn_base_def release_inst_sup(2,3))
      then show ?thesis using False Then_failed by (auto simp: retire_end_def Let_def spawn_failed_move)
    qed
  qed
qed

lemma inst_exited_move:
  assumes s: "s < length (w_slots w)" and pc: "s_pc (the_slot w s) = Serving i"
    and ok: "slot_ok (w_insts w) s (the_slot w s)"
  shows "slot_move s w (inst_exited now i s w)"
proof -
  note rel = slot_move_release [OF ok]
  have cur: "s_cur (the_slot w s) = Some i" and nxt: "s_next (the_slot w s) = None"
    using slot_okD [OF ok pc] by simp_all
  define x where "x = the_inst w i"
  define up where "up = time_sub now (in_startedAt x)"
  define n where "n = node_of (the_app w (s_app (the_slot w s)))"
  obtain lost sl where pl: "portLost up x n (the_slot w s) = (lost, sl)" by fastforce
  have sl: "s_app sl = s_app (the_slot w s)" "s_cmds sl = s_cmds (the_slot w s)" "s_next sl = None" "s_pc sl = Serving i"
    using pl nxt pc by (auto simp: portLost_def Let_def split: if_splits)
  note unf = inst_exited_def Let_def x_def [symmetric] up_def [symmetric] release_inst_sup n_def [symmetric] pl split_conv
  show ?thesis
  proof (cases lost)
    case True
    then show ?thesis unfolding unf using s pc cur sl
      by (intro rel [of i _ "sl\<lparr> s_cur := None, s_pc := At_top \<rparr>"]) (simp_all add: sup)
  next
    case False
    let ?sl = "sl\<lparr> s_cur := None, s_lastExit := Some (in_exitCode x, now),
                  s_failures := (if 60 * second < up then 0 else s_failures sl) + 1 \<rparr>"
    let ?w = "publish (s_app (the_slot w s)) (upd_slot s (\<lambda>sl. sl\<lparr> s_lastExit := Some (in_exitCode x, now),
                      s_failures := (if 60 * second < up then 0 else s_failures sl) + 1 \<rparr>)
                (upd_slot s (\<lambda>_. sl\<lparr> s_cur := None \<rparr>) (release_inst i w)))"
    have s': "s < length (w_slots ?w)" using s by (simp add: sup)
    obtain sl2 where sl2: "w_slots (after_crash now True up s ?w) = (w_slots ?w)[s := sl2]"
      "s_app sl2 = s_app (the_slot ?w s)" "s_cmds sl2 = s_cmds (the_slot ?w s)" "s_cur sl2 = s_cur (the_slot ?w s)"
      "s_next sl2 = s_next (the_slot ?w s)" "pc_insts (s_pc sl2) = []" "pc_cur (s_pc sl2) = None" "pc_next (s_pc sl2) = None"
      "staying (s_pc sl2)" "w_insts (after_crash now True up s ?w) = w_insts ?w"
      "map app_shape (w_apps (after_crash now True up s ?w)) = map app_shape (w_apps ?w)"
      by (rule after_crash_slots [OF s'])
    have "slot_move s w (set_pc Parked s ?w)" using s pc cur sl
      by (intro rel [of i _ "?sl\<lparr> s_pc := Parked \<rparr>"]) (simp_all add: sup)
    moreover have "slot_move s w (after_crash now True up s ?w)" using s pc cur sl sl2
      by (intro rel [of i _ sl2]) (simp_all add: sup)
    ultimately show ?thesis unfolding unf using False by (simp add: x_def [symmetric])
  qed
qed

lemma spawnOnce_begin_move:
  assumes s: "s < length (w_slots w)" and pc: "s_pc (the_slot w s) = At_spawn pu attempt"
    and ok: "slot_ok (w_insts w) s (the_slot w s)"
  shows "slot_move s w (spawnOnce_begin e pu attempt s w)"
proof -
  have cur: "s_cur (the_slot w s) = pc_cur (At_spawn pu attempt)" and nxt: "s_next (the_slot w s) = None"
    using slot_okD [OF ok pc] by simp_all
  have base: "spawn_base pu s w (w\<lparr> w_ports := p \<rparr>)" for p
    using slot_ok_same [OF ok, of "(the_slot w s)\<lparr> s_pc := At_spawn pu 0 \<rparr>"] s pc cur nxt ok
    by (cases pu) (simp_all add: spawn_base_def)
  have base': "spawn_base pu s w w" using base [of "w_ports w"] by (simp add: spawn_base_def)
  define a where "a = s_app (the_slot w s)"
  let ?sl = "(the_slot w s)\<lparr> s_pc := Spawning pu attempt (length (w_insts w)) \<rparr>"
  have new: "slot_ok (w_insts w @ [x]) s ?sl" if "in_held x" "in_slot x = s" for x
    using that pc cur nxt by (intro slot_ok_new [OF ok]) simp_all
  have started: "slot_move s w (set_pc (Spawning pu attempt (length (w_insts w))) s
      (w\<lparr> w_ports := p, w_insts := w_insts w @ [new_inst now a s idx port auto_port] \<rparr>))" for p now idx port auto_port
    using s pc new [of "new_inst now a s idx port auto_port"]
    by (intro slot_moveI [of _ _ _ ?sl]) (simp_all add: sup new_inst_def insts_frame_add)
  show ?thesis
    using spawn_failed_move [OF base] spawn_failed_move [OF base'] started
    unfolding spawnOnce_begin_def Let_def a_def
    by (simp split: prod.splits sum.splits)
qed

text \<open>Receiving a command keeps the slot leaving exactly when it was.\<close>

lemma slot_move_core:
  assumes "slot_ok xs s sl0" and "w_slots w' = (w_slots w)[s := sl]" and "w_insts w' = xs"
    and "s_app sl = s_app (the_slot w s)" and "leaving sl = leaving (the_slot w s)"
    and "s_cur sl = pc_cur (s_pc sl)" and "s_next sl = pc_next (s_pc sl)" and "distinct (pc_insts (s_pc sl))"
    and "set (pc_insts (s_pc sl)) = set (pc_insts (s_pc sl0))"
    and "map app_shape (w_apps w') = map app_shape (w_apps w)" and "insts_frame s (w_insts w) xs"
  shows "slot_move s w w'"
  using assms slot_ok_same [OF assms(1,6-9)] by (auto simp: slot_move_def)

lemma set_without_nth:
  "k < length xs \<Longrightarrow> xs ! k \<noteq> c \<Longrightarrow> c \<in> set (take k xs @ drop (Suc k) xs) \<longleftrightarrow> c \<in> set xs"
  by (subst (3) id_take_nth_drop) auto

lemma take_cmd_sup [sup]:
  "w_slots (take_cmd k s w) = (w_slots w)[s := (the_slot w s)\<lparr> s_answering := Some (s_cmds (the_slot w s) ! k),
     s_cmds := take k (s_cmds (the_slot w s)) @ drop (Suc k) (s_cmds (the_slot w s)) \<rparr>]"
  "w_insts (take_cmd k s w) = w_insts w" "w_apps (take_cmd k s w) = w_apps w" "w_ports (take_cmd k s w) = w_ports w"
  "w_rolls (take_cmd k s w) = w_rolls w" "w_registry (take_cmd k s w) = w_registry w"
  by (simp_all add: take_cmd_def sup)

lemma leaving_stop: "Cmd_stop \<in> set (s_cmds sl) \<Longrightarrow> leaving sl"
  by (simp add: leaving_def)

lemma leaving_other:
  assumes "k < length (s_cmds sl)" and "s_cmds sl ! k \<noteq> Cmd_stop"
    and "s_cmds sl' = take k (s_cmds sl) @ drop (Suc k) (s_cmds sl)" and "staying (s_pc sl)" and "staying (s_pc sl')"
  shows "leaving sl' = leaving sl"
proof -
  have "Cmd_stop \<in> set (s_cmds sl') \<longleftrightarrow> Cmd_stop \<in> set (s_cmds sl)"
    unfolding assms(3) using assms(1,2) by (rule set_without_nth)
  then show ?thesis using assms(4,5)
    by (cases "s_pc sl" rule: staying.cases; cases "s_pc sl'" rule: staying.cases) (simp_all add: leaving_def)
qed

lemma receive_move:
  assumes s: "s < length (w_slots w)" and pc: "receiving (s_pc (the_slot w s))" and k: "k < length (s_cmds (the_slot w s))"
    and ok: "slot_ok (w_insts w) s (the_slot w s)"
  shows "slot_move s w (receive k s w)"
proof -
  define sl where "sl = the_slot w s"
  define sl1 where "sl1 = sl\<lparr> s_answering := Some (s_cmds sl ! k), s_cmds := take k (s_cmds sl) @ drop (Suc k) (s_cmds sl) \<rparr>"
  have w1: "w_slots (take_cmd k s w) = (w_slots w)[s := sl1]" and ok': "slot_ok (w_insts w) s sl"
    using ok by (simp_all add: sup sl1_def sl_def)
  have f: "s_cur sl1 = s_cur sl" "s_next sl1 = s_next sl" "s_app sl1 = s_app sl" "s_pc sl1 = s_pc sl"
    "s_cmds sl1 = take k (s_cmds sl) @ drop (Suc k) (s_cmds sl)" by (simp_all add: sl1_def)
  have k': "k < length (s_cmds sl)" using k by (simp add: sl_def)
  have stop: "leaving sl" if "s_cmds sl ! k = Cmd_stop"
    using that k' by (intro leaving_stop) (metis nth_mem)
  show ?thesis
  proof (cases "\<exists>i. s_pc sl = Serving i")
    case True
    then obtain i where i: "s_pc sl = Serving i" by blast
    note D = slot_okD [OF ok' i]
    have fr: "insts_frame s (w_insts w) ((w_insts w)[i := (the_inst w i)\<lparr> in_state := I_stopping \<rparr>])"
      by (rule insts_frame_upd) simp_all
    have ok2: "slot_ok ((w_insts w)[i := (the_inst w i)\<lparr> in_state := I_stopping \<rparr>]) s sl"
      using ok' by (simp add: slot_ok_inst)
    have ret: "slot_move s w (retire_begin i th s (take_cmd k s w))"
      if "leaving (sl1\<lparr> s_pc := Retiring i th \<rparr>) = leaving sl" "th = Then_finish \<or> th = Then_spawn" for th
      using that s D f w1 i fr
      by (intro slot_move_core [OF ok2, where sl = "sl1\<lparr> s_pc := Retiring i th \<rparr>"])
         (auto simp: retire_begin_def sup sl_def [symmetric] sl1_def [symmetric])
    show ?thesis
    proof (cases "s_cmds sl ! k = Cmd_stop")
      case True
      then show ?thesis using ret [of Then_finish] stop i
        by (simp add: receive_def Let_def sl_def [symmetric] leaving_def)
    next
      case False
      have "leaving (sl1\<lparr> s_pc := Retiring i Then_spawn \<rparr>) = leaving sl"
        and l: "leaving (sl1\<lparr> s_pc := At_spawn (For_replace i) 0 \<rparr>) = leaving sl"
        using leaving_other [OF k' False] f i by simp_all
      moreover have "slot_move s w (set_pc (At_spawn (For_replace i) 0) s (take_cmd k s w))"
        using l s D f w1 i
        by (intro slot_move_core [OF ok', where sl = "sl1\<lparr> s_pc := At_spawn (For_replace i) 0 \<rparr>"])
           (simp_all add: sup sl_def [symmetric] sl1_def [symmetric])
      ultimately show ?thesis using False ret [of Then_spawn] i
        by (simp add: receive_def Let_def sl_def [symmetric])
    qed
  next
    case False
    let ?pc = "if s_cmds sl ! k = Cmd_stop then Finished else At_top"
    have none: "pc_insts (s_pc sl) = []" "pc_cur (s_pc sl) = None" "pc_next (s_pc sl) = None" and st: "staying (s_pc sl)"
      using pc False by (cases "s_pc sl"; simp add: receiving_def sl_def [symmetric])+
    have "leaving ((answered sl1)\<lparr> s_pc := ?pc \<rparr>) = leaving sl"
      using stop leaving_other [OF k', of "(answered sl1)\<lparr> s_pc := At_top \<rparr>"] f st by (simp add: leaving_def)
    then have "slot_move s w (set_pc ?pc s (answer s (take_cmd k s w)))"
      using s slot_okD [OF ok' refl] f w1 none
      by (intro slot_move_core [OF ok', where sl = "(answered sl1)\<lparr> s_pc := ?pc \<rparr>"])
         (auto simp: sup sl_def [symmetric] sl1_def [symmetric])
    moreover have "receive k s w = set_pc ?pc s (answer s (take_cmd k s w))"
      using False by (simp add: receive_def Let_def sl_def [symmetric] split: slot_pc.split)
    ultimately show ?thesis by simp
  qed
qed

lemma retire_finish_move:
  assumes s: "s < length (w_slots w)" and pc: "s_pc (the_slot w s) = Retiring i Then_finish"
    and ok: "slot_ok (w_insts w) s (the_slot w s)"
  shows "slot_move s w (retire_end now i Then_finish s w)"
proof -
  let ?sl = "(answered ((the_slot w s)\<lparr> s_cur := None \<rparr>))\<lparr> s_pc := Finished \<rparr>"
  have "slot_ok (w_insts (release_inst i w)) s ?sl" and "insts_frame s (w_insts w) (w_insts (release_inst i w))"
    using slot_okD [OF ok pc] pc by (intro release_base [OF ok, where sl = ?sl]; simp)+
  moreover have "leaving ?sl = leaving (the_slot w s)" using pc by (simp add: leaving_def)
  ultimately show ?thesis using s by (auto simp: slot_move_def retire_end_def sup)
qed

section \<open>The invariant of the supervisor\<close>

definition sup_inv :: "procs \<Rightarrow> bool" where
  "sup_inv w \<longleftrightarrow> slots_ok (w_slots w) (w_insts w) (w_apps w) \<and> apps_ok (w_slots w) (w_apps w)"

lemma sup_inv_move: "sup_inv w \<Longrightarrow> s < length (w_slots w) \<Longrightarrow> slot_move s w w' \<Longrightarrow> sup_inv w'"
  unfolding sup_inv_def using slots_ok_move apps_ok_move by blast

lemma sup_inv_slot: "sup_inv w \<Longrightarrow> s < length (w_slots w) \<Longrightarrow> slot_ok (w_insts w) s (the_slot w s)"
  by (simp add: sup_inv_def slots_ok_def)

text \<open>Moves that change nothing but where the slot is, or what the apps publish.\<close>

lemma set_pc_move:
  assumes "s < length (w_slots w)" and ok: "slot_ok (w_insts w) s (the_slot w s)"
    and "staying (s_pc (the_slot w s))" and "staying pc" and "pc_insts (s_pc (the_slot w s)) = []" and "pc_insts pc = []"
    and "pc_cur (s_pc (the_slot w s)) = None" and "pc_cur pc = None" and "pc_next pc = None" and "pc_next (s_pc (the_slot w s)) = None"
  shows "slot_move s w (set_pc pc s w)"
  using assms slot_okD [OF ok refl]
  by (intro slot_move_same [OF ok, where sl = "(the_slot w s)\<lparr> s_pc := pc \<rparr>"]) (simp_all add: sup)

lemma sup_inv_shape:
  assumes "sup_inv w" and "w_slots w' = w_slots w" and "w_insts w' = w_insts w" and "map app_shape (w_apps w') = map app_shape (w_apps w)"
  shows "sup_inv w'"
proof -
  have len: "length (w_apps w') = length (w_apps w)" using assms(4) by (rule map_eq_imp_length_eq)
  have "a_slots (w_apps w' ! a) = a_slots (w_apps w ! a) \<and> a_running (w_apps w' ! a) = a_running (w_apps w ! a)"
    if "a < length (w_apps w)" for a
    using that len arg_cong [OF assms(4), of "\<lambda>l. l ! a"] by (simp add: app_shape_def)
  with assms(1-3) len show ?thesis by (simp add: sup_inv_def slots_ok_def apps_ok_def)
qed

lemma sup_inv_inst:
  assumes "sup_inv w" and "w_slots w' = w_slots w" and "w_apps w' = w_apps w" and "w_insts w' = (w_insts w)[i := x]"
    and "in_held x = in_held (the_inst w i)" and "in_slot x = in_slot (the_inst w i)"
  shows "sup_inv w'"
proof -
  have "in_slot ((w_insts w)[i := x] ! j) = in_slot (the_inst w j)" for j using assms(6) by (simp add: nth_upd)
  with assms show ?thesis by (simp add: sup_inv_def slots_ok_def slot_ok_inst)
qed

text \<open>Slots leave their app when they are told to stop, and new ones join a running app.\<close>

lemma sup_inv_detach:
  assumes inv: "sup_inv w" and a: "a < length (w_apps w)"
    and w1: "w_slots w1 = w_slots w" "w_insts w1 = w_insts w" "w_apps w1 = (w_apps w)[a := ap]"
    and ss: "distinct ss" "set ss \<subseteq> set (a_slots (the_app w a))"
    and ap: "distinct (a_slots ap)" "set (a_slots ap) = set (a_slots (the_app w a)) - set ss" "a_running ap \<or> a_slots ap = []"
  shows "sup_inv (stopSlots ss w1)"
proof -
  let ?w = "stopSlots ss w1"
  have sub: "set ss \<subseteq> {..<length (w_slots w1)}" and app: "\<And>s. s \<in> set ss \<Longrightarrow> s_app (the_slot w s) = a"
    using inv a ss(2) w1(1) by (auto simp: sup_inv_def apps_ok_def)
  have nth: "the_slot ?w t = (if t \<in> set ss then (the_slot w t)\<lparr> s_cmds := s_cmds (the_slot w t) @ [Cmd_stop] \<rparr> else the_slot w t)"
    if "t < length (w_slots w)" for t
    using stopSlots_slots [OF _ ss(1) sub, of t] that w1(1) by simp
  have ok: "slot_ok (w_insts w) t (the_slot ?w t) = slot_ok (w_insts w) t (the_slot w t)"
    and app': "s_app (the_slot ?w t) = s_app (the_slot w t)"
    and lv: "leaving (the_slot ?w t) \<longleftrightarrow> t \<in> set ss \<or> leaving (the_slot w t)" if "t < length (w_slots w)" for t
    using nth [OF that] by (simp_all add: slot_ok_def leaving_def)
  have "slots_ok (w_slots ?w) (w_insts ?w) (w_apps ?w)"
    using inv w1 ok app' by (simp add: sup_inv_def slots_ok_def sup)
  moreover have "apps_ok (w_slots ?w) (w_apps ?w)"
  proof -
    have "distinct (a_slots (w_apps ?w ! b)) \<and>
          set (a_slots (w_apps ?w ! b)) = {s. s < length (w_slots ?w) \<and> s_app (the_slot ?w s) = b \<and> \<not> leaving (the_slot ?w s)} \<and>
          (a_running (w_apps ?w ! b) \<or> a_slots (w_apps ?w ! b) = [])" if b: "b < length (w_apps w)" for b
    proof -
      have old: "distinct (a_slots (the_app w b))" "a_running (the_app w b) \<or> a_slots (the_app w b) = []"
        "set (a_slots (the_app w b)) = {s. s < length (w_slots w) \<and> s_app (the_slot w s) = b \<and> \<not> leaving (the_slot w s)}"
        using inv b by (auto simp: sup_inv_def apps_ok_def)
      have sets: "{s. s < length (w_slots ?w) \<and> s_app (the_slot ?w s) = b \<and> \<not> leaving (the_slot ?w s)} =
            set (a_slots (the_app w b)) - set ss"
        unfolding old(3) using app' lv w1 by (auto simp: sup)
      show ?thesis
      proof (cases "b = a")
        case True
        then show ?thesis using ap a w1 sets by (simp add: sup)
      next
        case False
        then have "set (a_slots (the_app w b)) \<inter> set ss = {}" using app old(3) by auto
        with False show ?thesis using old w1 sets by (auto simp: sup)
      qed
    qed
    then show ?thesis using w1 by (simp add: apps_ok_def sup)
  qed
  ultimately show ?thesis by (simp add: sup_inv_def)
qed

lemma sup_inv_add_slots:
  assumes inv: "sup_inv w" and a: "a < length (w_apps w)" and run: "a_running (the_app w a)"
  shows "sup_inv (add_slots a k n w)"
proof -
  let ?m = "length (w_slots w)" and ?w = "add_slots a k n w"
  have old: "the_slot ?w t = the_slot w t" if "t < ?m" for t using that by (simp add: sup nth_append)
  have new: "the_slot ?w t = new_slot a (k + (t - ?m))" if "\<not> t < ?m" "t < ?m + n" for t
    using that by (simp add: sup nth_append)
  have in_old: "in_slot (the_inst w i) < ?m" if "i < length (w_insts w)" for i
    using that inv by (simp add: sup_inv_def slots_ok_def)
  have "slot_ok (w_insts w) t (the_slot ?w t) \<and> s_app (the_slot ?w t) < length (w_apps w)" if "t < ?m + n" for t
  proof (cases "t < ?m")
    case True
    then show ?thesis using inv old by (simp add: sup_inv_def slots_ok_def)
  next
    case False
    moreover have "{i. i < length (w_insts w) \<and> in_held (the_inst w i) \<and> in_slot (the_inst w i) = t} = {}"
      using False in_old by fastforce
    ultimately show ?thesis using that a by (simp add: new new_slot_def slot_ok_def)
  qed
  then have "slots_ok (w_slots ?w) (w_insts ?w) (w_apps ?w)"
    using in_old by (fastforce simp: slots_ok_def sup)
  moreover have "apps_ok (w_slots ?w) (w_apps ?w)"
  proof -
    have lv: "\<not> leaving (new_slot a j)" and ap: "s_app (new_slot a j) = a" for j by (simp_all add: new_slot_def leaving_def)
    have "distinct (a_slots (w_apps ?w ! b)) \<and>
          set (a_slots (w_apps ?w ! b)) = {s. s < ?m + n \<and> s_app (the_slot ?w s) = b \<and> \<not> leaving (the_slot ?w s)} \<and>
          (a_running (w_apps ?w ! b) \<or> a_slots (w_apps ?w ! b) = [])" if b: "b < length (w_apps w)" for b
    proof -
      have ob: "distinct (a_slots (the_app w b))" "a_running (the_app w b) \<or> a_slots (the_app w b) = []"
        "set (a_slots (the_app w b)) = {s. s < ?m \<and> s_app (the_slot w s) = b \<and> \<not> leaving (the_slot w s)}"
        using inv b by (auto simp: sup_inv_def apps_ok_def)
      have sets: "{s. s < ?m + n \<and> s_app (the_slot ?w s) = b \<and> \<not> leaving (the_slot ?w s)} =
            set (a_slots (the_app w b)) \<union> (if b = a then {?m..<?m + n} else {})"
      proof (intro set_eqI)
        fix t
        show "t \<in> {s. s < ?m + n \<and> s_app (the_slot ?w s) = b \<and> \<not> leaving (the_slot ?w s)} \<longleftrightarrow>
              t \<in> set (a_slots (the_app w b)) \<union> (if b = a then {?m..<?m + n} else {})"
          unfolding ob(3) using old [of t] new [of t] lv ap by (cases "t < ?m") auto
      qed
      have lt: "set (a_slots (the_app w b)) \<inter> {?m..<?m + n} = {}" unfolding ob(3) by auto
      show ?thesis
      proof (cases "b = a")
        case True
        then have "w_apps ?w ! b = (the_app w b)\<lparr> a_slots := a_slots (the_app w b) @ [?m..<?m + n] \<rparr>"
          using a by (simp add: sup)
        then show ?thesis unfolding sets using True ob(1) run lt by simp
      next
        case False
        then have "w_apps ?w ! b = the_app w b" by (simp add: sup)
        then show ?thesis unfolding sets using False ob(1,2) by simp
      qed
    qed
    then show ?thesis by (simp add: apps_ok_def add_slots_sup(3,4))
  qed
  ultimately show ?thesis by (simp add: sup_inv_def)
qed

lemma sup_inv_start:
  assumes inv: "sup_inv w" and a: "a < length (w_apps w)"
  shows "sup_inv (fst (app_start dirOK a w))"
proof (cases "a_running (the_app w a) \<or> \<not> dirOK")
  case True
  then show ?thesis using inv by (auto simp: app_start_def Let_def)
next
  case False
  have "a_slots (the_app w a) = []" using inv a False unfolding sup_inv_def apps_ok_def by blast
  let ?ap = "(cancelRecoveryLocked (the_app w a))\<lparr> a_running := True, a_failed := False,
                       a_failMsg := [], a_crashTimes := [], a_slots := [],
                       a_watching := n_WatchFiles (node_of (the_app w a)) \<rparr>"
  have "sup_inv (stopSlots [] (upd_app a (\<lambda>_. ?ap) w))"
    using inv a \<open>a_slots (the_app w a) = []\<close>
    by (intro sup_inv_detach [where ap = ?ap]) (simp_all add: sup)
  then have "sup_inv (add_slots a 0 m (upd_app a (\<lambda>_. ?ap) w))" for m
    using a by (intro sup_inv_add_slots) (simp_all add: sup stopSlots_def)
  then show ?thesis using False by (simp add: app_start_def Let_def upd_app_def)
qed

lemma shape_recover [simp]:
  "app_shape (snd (scheduleRecoveryLocked now ap)) = app_shape ap"
  "app_shape (cancelRecoveryLocked ap) = app_shape ap"
  by (simp_all add: scheduleRecoveryLocked_def cancelRecoveryLocked_def app_shape_def Let_def)

lemma sup_inv_stop:
  assumes "sup_inv w" and "a < length (w_apps w)"
  shows "sup_inv (app_stop a w)"
  unfolding app_stop_def Let_def
  using assms by (intro sup_inv_detach [where w = w and a = a])
    (auto simp: sup cancelRecoveryLocked_def sup_inv_def apps_ok_def)

lemma sup_inv_publish: "sup_inv w \<Longrightarrow> sup_inv (publish a w)"
  by (rule sup_inv_shape) (simp_all add: sup)

lemma sup_inv_resize:
  assumes inv: "sup_inv w" and a: "a < length (w_apps w)"
  shows "sup_inv (resize n a w)"
proof (cases "a_running (the_app w a)")
  case True
  let ?k = "length (a_slots (the_app w a))"
  let ?w = "add_slots a ?k (n - ?k) w"
  have inv1: "sup_inv ?w" using sup_inv_add_slots [OF inv a True] .
  have a1: "a < length (w_apps ?w)" and run: "a_running (the_app ?w a)" using a True by (simp_all add: sup)
  have d: "distinct (a_slots (the_app ?w a))" using inv1 a1 by (simp add: sup_inv_def apps_ok_def)
  then have split: "set (take n xs) = set xs - set (drop n xs)" if "xs = a_slots (the_app ?w a)" for xs
    using that set_take_disj_set_drop_if_distinct [of xs n n] append_take_drop_id [of n xs] set_append [of "take n xs" "drop n xs"]
    by auto
  have "sup_inv (stopSlots (drop n (a_slots (the_app ?w a))) (upd_app a (\<lambda>ap. ap\<lparr> a_slots := take n (a_slots ap) \<rparr>) ?w))"
    using inv1 a1 run d split [OF refl]
    by (intro sup_inv_detach [where w = ?w and a = a, OF inv1 a1 upd_app_sup(3,2,1)]) (simp_all add: set_drop_subset)
  then show ?thesis using True by (simp add: resize_def Let_def sup_inv_publish)
qed (simp add: resize_def inv)

lemma trip_app_fields [simp]:
  "a_slots (trip_app now ap) = []" "a_site (trip_app now ap) = a_site ap" "a_running (trip_app now ap) = False"
  by (simp_all add: trip_app_def scheduleRecoveryLocked_def cancelRecoveryLocked_def Let_def)

lemma sup_inv_trip:
  assumes inv: "sup_inv w" and s: "s < length (w_slots w)" and pc: "s_pc (the_slot w s) = Tripped"
  shows "sup_inv (set_pc Parked s (tripRapidFail now (s_app (the_slot w s)) w))"
proof -
  let ?a = "s_app (the_slot w s)"
  have a: "?a < length (w_apps w)" using inv s by (simp add: sup_inv_def slots_ok_def)
  define f where "f = trip_app now"
  define ap where "ap = (f (the_app w ?a))\<lparr> a_backends := backends_now (upd_app ?a f w) (f (the_app w ?a)) \<rparr>"
  have empty: "a_slots ap = []"
    unfolding ap_def f_def by simp
  have w1: "w_slots (publish ?a (upd_app ?a f w)) = w_slots w" "w_insts (publish ?a (upd_app ?a f w)) = w_insts w"
    "w_apps (publish ?a (upd_app ?a f w)) = (w_apps w)[?a := ap]"
    using a by (simp_all add: sup ap_def)
  have d: "distinct (a_slots (the_app w ?a))" using inv a by (simp add: sup_inv_def apps_ok_def)
  have "sup_inv (stopSlots (a_slots (the_app w ?a)) (publish ?a (upd_app ?a f w)))" (is "sup_inv ?w")
    using d empty by (intro sup_inv_detach [OF inv a w1]) simp_all
  then have inv': "sup_inv ?w" .
  have s': "s < length (w_slots ?w)" using s by (simp add: sup)
  have pc': "s_pc (the_slot ?w s) = Tripped"
  proof -
    have "set (a_slots (the_app w ?a)) \<subseteq> {..<length (w_slots w)}" using inv a by (auto simp: sup_inv_def apps_ok_def)
    then show ?thesis using stopSlots_slots [of s "publish ?a (upd_app ?a f w)" "a_slots (the_app w ?a)"] s d pc
      by (simp add: sup)
  qed
  have "slot_move s ?w (set_pc Parked s ?w)"
    using s' sup_inv_slot [OF inv' s'] pc' by (intro set_pc_move) simp_all
  then have "sup_inv (set_pc Parked s ?w)" by (rule sup_inv_move [OF inv' s'])
  then show ?thesis by (simp add: tripRapidFail_def Let_def f_def)
qed

lemma sup_inv_slot_step:
  assumes inv: "sup_inv w" and s: "s < length (w_slots w)"
  shows "sup_inv (slot_step ev s w)"
proof -
  note ok = sup_inv_slot [OF inv s]
  note mv = sup_inv_move [OF inv s]
  have quiet: "sup_inv (set_pc pc s w)"
    if "pc_insts (s_pc (the_slot w s)) = []" "pc_insts pc = []" "pc_cur (s_pc (the_slot w s)) = None" "pc_cur pc = None"
       "pc_next (s_pc (the_slot w s)) = None" "pc_next pc = None" "staying (s_pc (the_slot w s))" "staying pc" for pc
    using that by (intro mv set_pc_move [OF s ok])
  have failed: "sup_inv (retire_begin i (Then_failed pu attempt lost) s w)"
    if "s_pc (the_slot w s) = Spawning pu attempt i" for pu attempt i lost
    using that slot_okD [OF ok that] s by (intro mv retire_begin_move [OF s ok]) simp_all
  have ended: "sup_inv (retire_end now i th s w)" if "s_pc (the_slot w s) = Retiring i th" for now i th
    using that retire_finish_move [OF s _ ok] retire_end_move [OF s _ _ ok] by (cases "th = Then_finish") (auto intro: mv)
  show ?thesis
    using inv quiet failed ended
      mv [OF spawnOnce_begin_move [OF s _ ok]] mv [OF spawn_ok_move [OF s _ ok]] mv [OF replace_commit_move [OF s _ ok]]
      mv [OF inst_exited_move [OF s _ ok]] mv [OF receive_move [OF s _ _ ok]] sup_inv_trip [OF inv s]
    unfolding slot_step_def Let_def
    by (simp split: sup_event.split slot_pc.split)
qed

lemma send_recycle_move:
  assumes "s < length (w_slots w)" and "slot_ok (w_insts w) s (the_slot w s)" and "c \<noteq> Cmd_stop"
    and w1: "w_slots w1 = (w_slots w)[s := sl]" "w_insts w1 = w_insts w" "w_apps w1 = w_apps w"
    and sl: "s_app sl = s_app (the_slot w s)" "s_pc sl = s_pc (the_slot w s)" "s_cmds sl = s_cmds (the_slot w s)"
      "s_cur sl = s_cur (the_slot w s)" "s_next sl = s_next (the_slot w s)"
  shows "slot_move s w (send c s w1)"
  using assms slot_okD [OF assms(2) refl]
  by (intro slot_move_core [OF assms(2), where sl = "sl\<lparr> s_cmds := s_cmds sl @ [c] \<rparr>"]) (auto simp: sup leaving_def)

lemma send_beyond: "\<not> s < length (w_slots w) \<Longrightarrow> w_slots (send c s w) = w_slots w"
  by (simp add: sup list_update_beyond)

lemma sup_inv_roll:
  assumes inv: "sup_inv w"
  shows "sup_inv (roll_next r w)"
proof -
  have rolls: "sup_inv (w\<lparr> w_rolls := l \<rparr>)" for l by (rule sup_inv_shape [OF inv]) simp_all
  have "sup_inv (send (Cmd_recycle (From_roll r)) s (w\<lparr> w_rolls := l \<rparr>))" for s l
  proof (cases "s < length (w_slots w)")
    case True
    then show ?thesis
      by (intro sup_inv_move [OF inv True] send_recycle_move [OF True sup_inv_slot [OF inv True], where sl = "the_slot w s"])
         simp_all
  next
    case False
    then show ?thesis by (intro sup_inv_shape [OF rolls [of l]] send_beyond) (simp_all add: sup)
  qed
  with inv rolls show ?thesis by (simp add: roll_next_def Let_def split: option.split list.split)
qed

lemma sup_inv_request:
  assumes inv: "sup_inv w" and s: "s < length (w_slots w)"
  shows "sup_inv (requestRecycle s w)"
proof -
  have "sup_inv (send (Cmd_recycle From_request) s (upd_slot s (\<lambda>sl. sl\<lparr> s_recyclePending := True \<rparr>) w))"
    by (intro sup_inv_move [OF inv s] send_recycle_move [OF s sup_inv_slot [OF inv s],
          where sl = "(the_slot w s)\<lparr> s_recyclePending := True \<rparr>"]) (simp_all add: sup)
  with inv show ?thesis by (simp add: requestRecycle_def)
qed

lemma sup_inv_register:
  assumes inv: "sup_inv w"
  shows "sup_inv (register sid slot st w)"
proof -
  let ?w = "register sid slot st w"
  have "slots_ok (w_slots ?w) (w_insts ?w) (w_apps ?w)"
    using inv by (fastforce simp: sup_inv_def slots_ok_def register_def)
  moreover have none: "{s. s < length (w_slots w) \<and> s_app (the_slot w s) = length (w_apps w) \<and> \<not> leaving (the_slot w s)} = {}"
    using inv by (auto simp: sup_inv_def slots_ok_def)
  have "apps_ok (w_slots ?w) (w_apps ?w)"
    using inv none unfolding sup_inv_def apps_ok_def register_def
    by (simp add: nth_append new_app_def less_Suc_eq)
  ultimately show ?thesis by (simp add: sup_inv_def)
qed

lemma sup_inv_configure:
  assumes "sup_inv w"
  shows "sup_inv (upd_app a (\<lambda>ap. ap\<lparr> a_site := st \<rparr>) w)"
  using assms by (simp add: sup_inv_def slots_ok_def apps_ok_def sup nth_upd)

lemma sup_inv_recover:
  assumes inv: "sup_inv w" and a: "a < length (w_apps w)"
  shows "sup_inv (autoRecover_begin now a w)" and "sup_inv (autoRecover_start now dirOK a w)"
proof -
  have shape: "sup_inv (upd_app a f v)" if "sup_inv v" "\<And>ap. app_shape (f ap) = app_shape ap" for f v
    using that by (intro sup_inv_shape [OF that(1)]) (simp_all add: sup)
  show "sup_inv (autoRecover_begin now a w)"
    using inv shape by (auto simp: autoRecover_begin_def Let_def app_shape_def)
  let ?w = "upd_app a (\<lambda>ap. ap\<lparr> a_autoStarts := a_autoStarts ap - 1 \<rparr>) w"
  have "sup_inv ?w" by (rule shape [OF inv]) (simp add: app_shape_def)
  then have st: "sup_inv (fst (app_start dirOK a ?w))" using a by (intro sup_inv_start) (simp_all add: sup)
  have msg: "app_shape (let (d, ap') = scheduleRecoveryLocked now ap
        in ap'\<lparr> a_failMsg := Auto_failed # (case d of None \<Rightarrow> [] | Some d \<Rightarrow> [Retrying_in d]) \<rparr>) = app_shape ap" for ap
    using shape_recover(1) [of now ap] by (auto simp: app_shape_def split: prod.split)
  show "sup_inv (autoRecover_start now dirOK a w)"
    using st shape [OF st msg]
    by (auto simp: autoRecover_start_def Let_def split: prod.split option.split)
qed

lemma sup_inv_step:
  assumes inv: "sup_inv w" and ok: "sup_ok w ev"
  shows "sup_inv (sup_step w ev)"
proof -
  have inst: "sup_inv (upd_inst i f w)"
    if "in_held (f (the_inst w i)) = in_held (the_inst w i)" "in_slot (f (the_inst w i)) = in_slot (the_inst w i)" for i f
    using that by (intro sup_inv_inst [OF inv, where i = i and x = "f (the_inst w i)"]) (simp_all add: sup)
  have ports: "sup_inv (w\<lparr> w_ports := p \<rparr>)" and rolls: "sup_inv (w\<lparr> w_rolls := l \<rparr>)" for p l
    by (rule sup_inv_shape [OF inv]; simp)+
  show ?thesis
    using ok inv inst ports rolls sup_inv_start [OF inv] sup_inv_stop [OF inv] sup_inv_resize [OF inv] sup_inv_publish [OF inv]
      sup_inv_configure [OF inv] sup_inv_register [OF inv] sup_inv_roll [OF inv] sup_inv_request [OF inv]
      sup_inv_slot_step [OF inv] sup_inv_recover [OF inv]
    by (cases ev) (simp_all add: sup_step_def sup_ok_def app_recycle_def process_exit_def)
qed

lemma sup_inv_new: "sup_inv (new_procs start stop)"
  by (simp add: sup_inv_def slots_ok_def apps_ok_def new_procs_def)

interpretation supervisor: invariant_machine sup_step sup_ok sup_inv
  by unfold_locales (rule sup_inv_step)

section \<open>Ports\<close>

definition held_auto :: "procs \<Rightarrow> nat set" where
  "held_auto w = {i. i < length (w_insts w) \<and> in_held (the_inst w i) \<and> in_auto (the_inst w i)}"

definition port_within :: "int \<Rightarrow> int \<Rightarrow> int \<Rightarrow> bool" where
  "port_within lo hi port \<longleftrightarrow> lo \<le> port \<and> port \<le> hi"

definition fixed_apart :: "int \<Rightarrow> int \<Rightarrow> site \<Rightarrow> bool" where
  "fixed_apart lo hi st \<longleftrightarrow> \<not> port_within lo hi (n_FixedPort (the (site_Node st)))"

text \<open>
  The allocator's ports are those of the instances that hold one, each held once. The
  configured ranges lie between \<open>lo\<close> and \<open>hi\<close>, and fixed ports outside.
\<close>

definition ports_inv :: "int \<Rightarrow> int \<Rightarrow> procs \<Rightarrow> bool" where
  "ports_inv lo hi w \<longleftrightarrow>
     lo \<le> pa_start (w_ports w) \<and> pa_end (w_ports w) \<le> hi \<and>
     pa_used (w_ports w) = (\<lambda>i. in_port (the_inst w i)) ` held_auto w \<and>
     inj_on (\<lambda>i. in_port (the_inst w i)) (held_auto w) \<and>
     (\<forall>i < length (w_insts w). in_auto (the_inst w i) \<longleftrightarrow> port_within lo hi (in_port (the_inst w i))) \<and>
     (\<forall>ap \<in> set (w_apps w). fixed_apart lo hi (a_site ap))"

lemma sites_of_shape:
  assumes "map app_shape as = map app_shape bs"
  shows "a_site ` set as = a_site ` set bs"
proof -
  have "a_site = (\<lambda>x. snd (snd x)) \<circ> app_shape" by (simp add: fun_eq_iff app_shape_def)
  then have "map a_site as = map a_site bs" using assms by (metis map_map)
  then show ?thesis by (metis list.set_map)
qed

lemma sites_apart:
  assumes "a_site ` set as = a_site ` set bs"
  shows "(\<forall>ap \<in> set as. fixed_apart lo hi (a_site ap)) = (\<forall>ap \<in> set bs. fixed_apart lo hi (a_site ap))"
proof -
  have "(\<forall>ap \<in> set as. fixed_apart lo hi (a_site ap)) = (\<forall>st \<in> a_site ` set as. fixed_apart lo hi st)" by simp
  also have "\<dots> = (\<forall>st \<in> a_site ` set bs. fixed_apart lo hi st)" by (simp only: assms)
  finally show ?thesis by simp
qed

lemma ports_inv_cong:
  assumes "ports_inv lo hi w" and "w_ports w' = w_ports w" and "a_site ` set (w_apps w') = a_site ` set (w_apps w)"
    and len: "length (w_insts w') = length (w_insts w)"
    and same: "\<And>i. i < length (w_insts w) \<Longrightarrow> in_port (the_inst w' i) = in_port (the_inst w i) \<and>
      in_held (the_inst w' i) = in_held (the_inst w i) \<and> in_auto (the_inst w' i) = in_auto (the_inst w i)"
  shows "ports_inv lo hi w'"
proof -
  have h: "held_auto w' = held_auto w" using len same by (auto simp: held_auto_def)
  have p: "i \<in> held_auto w \<Longrightarrow> in_port (the_inst w' i) = in_port (the_inst w i)" for i
    using same by (auto simp: held_auto_def)
  have "(\<lambda>i. in_port (the_inst w' i)) ` held_auto w' = (\<lambda>i. in_port (the_inst w i)) ` held_auto w"
    unfolding h using p by (rule image_cong [OF refl])
  moreover have "inj_on (\<lambda>i. in_port (the_inst w' i)) (held_auto w') = inj_on (\<lambda>i. in_port (the_inst w i)) (held_auto w)"
    unfolding h using p by (rule inj_on_cong)
  moreover have "(\<forall>ap \<in> set (w_apps w'). fixed_apart lo hi (a_site ap)) = (\<forall>ap \<in> set (w_apps w). fixed_apart lo hi (a_site ap))"
    by (rule sites_apart [OF assms(3)])
  ultimately show ?thesis using assms(1,2) len same by (simp add: ports_inv_def)
qed

lemma ports_inv_frame:
  "ports_inv lo hi w \<Longrightarrow> w_ports w' = w_ports w \<Longrightarrow> w_insts w' = w_insts w \<Longrightarrow>
   map app_shape (w_apps w') = map app_shape (w_apps w) \<Longrightarrow> ports_inv lo hi w'"
  by (rule ports_inv_cong [OF _ _ sites_of_shape]) simp_all

lemma ports_inv_inst:
  assumes "ports_inv lo hi w" and "w_ports w' = w_ports w" and "w_insts w' = (w_insts w)[i := x]"
    and "map app_shape (w_apps w') = map app_shape (w_apps w)"
    and "in_port x = in_port (the_inst w i)" and "in_held x = in_held (the_inst w i)" and "in_auto x = in_auto (the_inst w i)"
  shows "ports_inv lo hi w'"
  using assms by (intro ports_inv_cong [OF assms(1,2) sites_of_shape]) (simp_all add: nth_upd)

text \<open>Releasing an instance's port takes nobody else's.\<close>

lemma ports_inv_release:
  assumes inv: "ports_inv lo hi w" and i: "i < length (w_insts w)" "in_held (the_inst w i)"
    and w': "w_ports w' = w_ports (release_inst i w)" "w_insts w' = w_insts (release_inst i w)"
      "map app_shape (w_apps w') = map app_shape (w_apps w)"
  shows "ports_inv lo hi w'"
proof -
  have nth: "the_inst w' j = (if j = i then (the_inst w i)\<lparr> in_held := False \<rparr> else the_inst w j)" for j
    using i w'(2) by (auto simp: sup nth_upd)
  have len: "length (w_insts w') = length (w_insts w)" using w'(2) by (simp add: sup)
  have h: "held_auto w' = held_auto w - {i}" using nth len by (auto simp: held_auto_def)
  have p: "in_port (the_inst w' j) = in_port (the_inst w j)" "in_auto (the_inst w' j) = in_auto (the_inst w j)" for j
    by (simp_all add: nth)
  have used: "pa_used (w_ports w) = (\<lambda>j. in_port (the_inst w j)) ` held_auto w"
    and inj: "inj_on (\<lambda>j. in_port (the_inst w j)) (held_auto w)"
    and auto_iff: "\<And>j. j < length (w_insts w) \<Longrightarrow> in_auto (the_inst w j) \<longleftrightarrow> port_within lo hi (in_port (the_inst w j))"
    using inv by (simp_all add: ports_inv_def)
  have "pa_used (w_ports w') = pa_used (w_ports w) - {in_port (the_inst w i)}"
    using w'(1) by (simp add: sup release_port_def)
  also have "\<dots> = (\<lambda>j. in_port (the_inst w j)) ` (held_auto w - {i})"
  proof (cases "in_auto (the_inst w i)")
    case True
    then have "i \<in> held_auto w" using i by (simp add: held_auto_def)
    then show ?thesis unfolding used using inj by (simp add: inj_on_image_set_diff [OF inj])
  next
    case False
    have "in_port (the_inst w i) \<notin> (\<lambda>j. in_port (the_inst w j)) ` held_auto w"
      using auto_iff i(1) False by (auto simp: held_auto_def)
    moreover have "i \<notin> held_auto w" using False by (simp add: held_auto_def)
    ultimately show ?thesis unfolding used by simp
  qed
  finally have "pa_used (w_ports w') = (\<lambda>j. in_port (the_inst w' j)) ` held_auto w'" by (simp add: h p)
  moreover have "inj_on (\<lambda>j. in_port (the_inst w' j)) (held_auto w')"
    unfolding h p using inj by (rule inj_on_subset) blast
  moreover have "\<forall>ap \<in> set (w_apps w'). fixed_apart lo hi (a_site ap)"
    using inv sites_apart [OF sites_of_shape [OF w'(3)]] by (simp add: ports_inv_def)
  ultimately show ?thesis using inv w'(1) auto_iff len p by (simp add: ports_inv_def sup release_port_def)
qed

lemma slot_move_shape: "slot_move s w w' \<Longrightarrow> map app_shape (w_apps w') = map app_shape (w_apps w)"
  by (simp add: slot_move_def)

lemma after_crash_frame [sup]:
  assumes "s < length (w_slots w)"
  shows "w_ports (after_crash now lived up s w) = w_ports w" "w_insts (after_crash now lived up s w) = w_insts w"
  by (rule after_crash_slots [OF assms, of now lived up], assumption)+

lemma spawn_failed_frame [sup]:
  assumes "s < length (w_slots w)"
  shows "w_ports (spawn_failed now pu s w) = w_ports w" "w_insts (spawn_failed now pu s w) = w_insts w"
  using assms by (cases pu; simp add: spawn_failed_def sup)+

lemma retire_begin_frame [sup]:
  "w_ports (retire_begin i th s w) = w_ports w"
  "w_insts (retire_begin i th s w) = (w_insts w)[i := (the_inst w i)\<lparr> in_state := I_stopping \<rparr>]"
  by (simp_all add: retire_begin_def sup)

lemma ports_retire_begin:
  assumes "ports_inv lo hi w" and "w_ports w1 = w_ports w" and "w_insts w1 = w_insts w"
    and "map app_shape (w_apps (retire_begin i th s w1)) = map app_shape (w_apps w)"
  shows "ports_inv lo hi (retire_begin i th s w1)"
  using assms
  by (intro ports_inv_inst [OF assms(1), where i = i and x = "(the_inst w i)\<lparr> in_state := I_stopping \<rparr>"]) (simp_all add: sup)

lemma ports_retire_end:
  assumes inv: "ports_inv lo hi w" and s: "s < length (w_slots w)" and i: "i < length (w_insts w)" "in_held (the_inst w i)"
    and shape: "map app_shape (w_apps (retire_end now i th s w)) = map app_shape (w_apps w)"
  shows "ports_inv lo hi (retire_end now i th s w)"
proof -
  have s': "s < length (w_slots (release_inst i w))" using s by (simp add: sup)
  have "w_ports (retire_end now i th s w) = w_ports (release_inst i w)" "w_insts (retire_end now i th s w) = w_insts (release_inst i w)"
    using s' by (cases th; simp add: retire_end_def Let_def sup)+
  then show ?thesis by (rule ports_inv_release [OF inv i _ _ shape])
qed

lemma ports_inst_exited:
  assumes inv: "ports_inv lo hi w" and s: "s < length (w_slots w)" and i: "i < length (w_insts w)" "in_held (the_inst w i)"
    and shape: "map app_shape (w_apps (inst_exited now i s w)) = map app_shape (w_apps w)"
  shows "ports_inv lo hi (inst_exited now i s w)"
proof -
  have "w_ports (inst_exited now i s w) = w_ports (release_inst i w)" "w_insts (inst_exited now i s w) = w_insts (release_inst i w)"
    using s by (simp_all add: inst_exited_def Let_def sup split: prod.split)
  then show ?thesis by (rule ports_inv_release [OF inv i _ _ shape])
qed

text \<open>A new instance has a port of its own; a launch that fails gives the port back.\<close>

lemma spawn_port_cases:
  assumes inv: "ports_inv lo hi w" and lo: "0 < lo" and ap: "ap \<in> set (w_apps w)" and e: "spawn_port e ap (w_ports w) = (Inr port, pa)"
  shows "(pa = (w_ports w)\<lparr> pa_used := insert port (pa_used (w_ports w)) \<rparr> \<and> port \<notin> pa_used (w_ports w) \<and> port_within lo hi port \<and>
            site_Type (a_site ap) \<noteq> SiteWorker \<and> n_PortMode (node_of ap) \<noteq> ''fixed'') \<or>
         (pa = w_ports w \<and> \<not> port_within lo hi port \<and> \<not> (site_Type (a_site ap) \<noteq> SiteWorker \<and> n_PortMode (node_of ap) \<noteq> ''fixed''))"
proof -
  have r: "lo \<le> pa_start (w_ports w)" "pa_end (w_ports w) \<le> hi" and fx: "fixed_apart lo hi (a_site ap)"
    using inv ap by (simp_all add: ports_inv_def)
  show ?thesis
  proof (cases "site_Type (a_site ap) \<noteq> SiteWorker \<and> n_PortMode (node_of ap) \<noteq> ''fixed''")
    case True
    then have "allocate (sp_free e) (sp_off e) (w_ports w) = (Inr port, pa)" using e by (simp add: spawn_port_def)
    from allocate_Inr [OF this] show ?thesis using True r by (auto simp: in_range_def port_within_def)
  next
    case False
    then show ?thesis using e lo fx
      by (auto simp: spawn_port_def fixed_apart_def node_of_def port_within_def split: if_splits)
  qed
qed

lemma ports_new_inst:
  assumes inv: "ports_inv lo hi w" and w': "w_insts w' = w_insts w @ [x]" "w_apps w' = w_apps w"
    and x: "in_held x" "in_auto x \<longleftrightarrow> port_within lo hi (in_port x)"
    and p: "w_ports w' = (if in_auto x then (w_ports w)\<lparr> pa_used := insert (in_port x) (pa_used (w_ports w)) \<rparr> else w_ports w)"
      "in_auto x \<Longrightarrow> in_port x \<notin> pa_used (w_ports w)"
  shows "ports_inv lo hi w'"
proof -
  let ?n = "length (w_insts w)"
  have old: "the_inst w' i = the_inst w i" if "i < ?n" for i using that w'(1) by (simp add: nth_append)
  have new: "the_inst w' ?n = x" using w'(1) by simp
  have h: "held_auto w' = (if in_auto x then insert ?n (held_auto w) else held_auto w)"
    using w'(1) x(1) old new by (auto simp: held_auto_def less_Suc_eq)
  have port: "i \<in> held_auto w \<Longrightarrow> in_port (the_inst w' i) = in_port (the_inst w i)" for i using old by (simp add: held_auto_def)
  have n: "?n \<notin> held_auto w" by (simp add: held_auto_def)
  have img: "(\<lambda>i. in_port (the_inst w' i)) ` held_auto w = pa_used (w_ports w)"
    and inj: "inj_on (\<lambda>i. in_port (the_inst w' i)) (held_auto w)"
    using inv port by (auto simp: ports_inv_def cong: image_cong inj_on_cong)
  have "pa_used (w_ports w') = (\<lambda>i. in_port (the_inst w' i)) ` held_auto w'"
    using p(1) img new by (simp add: h)
  moreover have "inj_on (\<lambda>i. in_port (the_inst w' i)) (held_auto w')"
    using inj p(2) n new unfolding h by (simp add: img)
  moreover have "in_auto (the_inst w' i) \<longleftrightarrow> port_within lo hi (in_port (the_inst w' i))" if "i < length (w_insts w')" for i
    using that inv x(2) old new w'(1) by (cases "i < ?n") (auto simp: ports_inv_def less_Suc_eq)
  ultimately show ?thesis using inv p(1) w'(2) by (simp add: ports_inv_def)
qed

lemma ports_spawnOnce:
  assumes inv: "ports_inv lo hi w" and lo: "0 < lo" and s: "s < length (w_slots w)"
    and ap: "the_app w (s_app (the_slot w s)) \<in> set (w_apps w)"
    and shape: "map app_shape (w_apps (spawnOnce_begin e pu attempt s w)) = map app_shape (w_apps w)"
  shows "ports_inv lo hi (spawnOnce_begin e pu attempt s w)"
proof -
  let ?a = "s_app (the_slot w s)" let ?ap = "the_app w ?a" let ?r = "spawnOnce_begin e pu attempt s w"
  obtain res pa where sp: "spawn_port e ?ap (w_ports w) = (res, pa)" by fastforce
  show ?thesis
  proof (cases "sp_dirOK e \<and> (\<exists>port. res = Inr port)")
    case False
    then have "?r = spawn_failed (sp_now e) pu s w"
      using sp by (cases res) (auto simp: spawnOnce_begin_def Let_def)
    then show ?thesis using s by (intro ports_inv_frame [OF inv _ _ shape]) (simp_all add: sup)
  next
    case True
    then obtain port where port: "res = Inr port" and dir: "sp_dirOK e" by blast
    note c = spawn_port_cases [OF inv lo ap, of e port pa]
    show ?thesis
    proof (cases "sp_launch e")
      case False
      let ?p = "if port \<noteq> 0 then release_port port pa else pa"
      have r: "?r = spawn_failed (sp_now e) pu s (w\<lparr> w_ports := ?p \<rparr>)"
        using False dir sp port by (simp add: spawnOnce_begin_def Let_def)
      have "\<not> port_within lo hi 0" using lo by (simp add: port_within_def)
      moreover have "port \<notin> pa_used (w_ports w)" if "\<not> port_within lo hi port"
        using that inv by (auto simp: ports_inv_def held_auto_def)
      ultimately have "?p = w_ports w" using c sp port by (auto simp: release_port_def)
      then show ?thesis using s r by (intro ports_inv_frame [OF inv _ _ shape]) (simp_all add: sup)
    next
      case True
      let ?x = "new_inst (sp_now e) ?a s (s_index (the_slot w s)) port
                  (site_Type (a_site ?ap) \<noteq> SiteWorker \<and> n_PortMode (node_of ?ap) \<noteq> ''fixed'')"
      have r: "?r = set_pc (Spawning pu attempt (length (w_insts w))) s (w\<lparr> w_ports := pa, w_insts := w_insts w @ [?x] \<rparr>)"
        using True dir sp port by (simp add: spawnOnce_begin_def Let_def)
      show ?thesis unfolding r using c sp port
        by (intro ports_new_inst [OF inv, where x = ?x]) (auto simp: sup new_inst_def)
    qed
  qed
qed

lemma ports_slot_step:
  assumes inv: "ports_inv lo hi w" and sinv: "sup_inv w" and lo: "0 < lo" and s: "s < length (w_slots w)"
  shows "ports_inv lo hi (slot_step ev s w)"
proof -
  note ok = sup_inv_slot [OF sinv s]
  have ap: "the_app w (s_app (the_slot w s)) \<in> set (w_apps w)" using sinv s by (simp add: sup_inv_def slots_ok_def)
  have held: "i < length (w_insts w) \<and> in_held (the_inst w i)" if "i \<in> set (pc_insts (s_pc (the_slot w s)))" for i
    using that ok by (auto simp: slot_ok_def)
  have quiet: "ports_inv lo hi (set_pc pc s w)" for pc by (rule ports_inv_frame [OF inv]) (simp_all add: sup)
  have spawn: "ports_inv lo hi (spawnOnce_begin e pu attempt s w)" if "s_pc (the_slot w s) = At_spawn pu attempt" for e pu attempt
    by (rule ports_spawnOnce [OF inv lo s ap slot_move_shape [OF spawnOnce_begin_move [OF s that ok]]])
  have ready: "ports_inv lo hi (spawn_ok pu i s (setState I_ready i w))" if "s_pc (the_slot w s) = Spawning pu attempt i" for pu attempt i
    by (rule ports_inv_inst [OF inv _ _ slot_move_shape [OF spawn_ok_move [OF s that ok]], where i = i and x = "(the_inst w i)\<lparr> in_state := I_ready \<rparr>"])
       (cases pu; simp add: spawn_ok_def Let_def sup)+
  have start_retire: "ports_inv lo hi (retire_begin i th s w)" for i th
    by (rule ports_retire_begin [OF inv]) (simp_all add: retire_begin_def sup)
  have commit: "ports_inv lo hi (replace_commit old i s w)" if "s_pc (the_slot w s) = Overlap old i" for old i
    using slot_move_shape [OF replace_commit_move [OF s that ok]] unfolding replace_commit_def
    by (intro ports_retire_begin [OF inv]) (simp_all add: sup)
  have ended: "ports_inv lo hi (retire_end now i th s w)" if pc: "s_pc (the_slot w s) = Retiring i th" for now i th
    using held [of i] pc slot_move_shape [OF retire_finish_move [OF s _ ok]] slot_move_shape [OF retire_end_move [OF s pc _ ok]]
    by (intro ports_retire_end [OF inv s]) (cases "th = Then_finish"; simp)+
  have exited: "ports_inv lo hi (inst_exited now i s w)" if pc: "s_pc (the_slot w s) = Serving i" for now i
    using held [of i] pc slot_move_shape [OF inst_exited_move [OF s pc ok]] by (intro ports_inst_exited [OF inv s]) simp_all
  have cmd: "ports_inv lo hi (receive k s w)" if "receiving (s_pc (the_slot w s))" "k < length (s_cmds (the_slot w s))" for k
  proof -
    note shape = slot_move_shape [OF receive_move [OF s that ok]]
    have p: "w_ports (receive k s w) = w_ports w"
      and x: "w_insts (receive k s w) = w_insts w \<or>
        (\<exists>i. w_insts (receive k s w) = (w_insts w)[i := (the_inst w i)\<lparr> in_state := I_stopping \<rparr>])"
      using s by (auto simp: receive_def Let_def sup split: slot_pc.split)
    from x show ?thesis
    proof
      assume "w_insts (receive k s w) = w_insts w"
      then show ?thesis by (rule ports_inv_frame [OF inv p _ shape])
    next
      assume "\<exists>i. w_insts (receive k s w) = (w_insts w)[i := (the_inst w i)\<lparr> in_state := I_stopping \<rparr>]"
      then obtain i where i: "w_insts (receive k s w) = (w_insts w)[i := (the_inst w i)\<lparr> in_state := I_stopping \<rparr>]" ..
      show ?thesis by (rule ports_inv_inst [OF inv p i shape]) simp_all
    qed
  qed
  have trip: "ports_inv lo hi (set_pc Parked s (tripRapidFail now a w))" for now a
  proof -
    have "a_site ` set (w_apps (set_pc Parked s (tripRapidFail now a w))) = a_site ` set (w_apps w)"
    proof -
      have "map a_site ((w_apps w)[a := ap]) = map a_site (w_apps w)" if "a_site ap = a_site (the_app w a)" for ap
        using that by (metis list_update_id map_update)
      then show ?thesis unfolding list.set_map [symmetric]
        by (cases "a < length (w_apps w)") (simp_all add: tripRapidFail_def sup list_update_beyond)
    qed
    then show ?thesis by (intro ports_inv_cong [OF inv]) (simp_all add: tripRapidFail_def sup)
  qed
  show ?thesis
    using inv quiet spawn ready start_retire commit ended exited cmd trip unfolding slot_step_def Let_def
    by (simp split: sup_event.split slot_pc.split)
qed

text \<open>What configuration may change: ranges within the bounds, fixed ports outside.\<close>

definition ports_event :: "int \<Rightarrow> int \<Rightarrow> procs \<Rightarrow> sup_event \<Rightarrow> bool" where
  "ports_event lo hi w ev \<longleftrightarrow> sup_ok w ev \<and>
     (case ev of
        E_setRange start stop \<Rightarrow> lo \<le> start \<and> stop \<le> hi
      | E_configure _ st \<Rightarrow> fixed_apart lo hi st
      | E_register _ _ st \<Rightarrow> fixed_apart lo hi st
      | _ \<Rightarrow> True)"

lemma map_site_upd: "a_site y = a_site (as ! a) \<Longrightarrow> map a_site (as[a := y]) = map a_site as"
  by (metis list_update_id map_update)

lemma ports_inv_sites:
  assumes "ports_inv lo hi w" and "w_ports w' = w_ports w" and "w_insts w' = w_insts w" and "map a_site (w_apps w') = map a_site (w_apps w)"
  shows "ports_inv lo hi w'"
proof -
  have "a_site ` set (w_apps w') = a_site ` set (w_apps w)" using arg_cong [OF assms(4), of set] by simp
  then show ?thesis using assms by (intro ports_inv_cong [OF assms(1)]) simp_all
qed

lemma site_fields [simp]:
  "a_site (snd (scheduleRecoveryLocked now ap)) = a_site ap" "a_site (cancelRecoveryLocked ap) = a_site ap"
  by (simp_all add: scheduleRecoveryLocked_def cancelRecoveryLocked_def Let_def)

lemma app_start_frame [sup]:
  "w_ports (fst (app_start dirOK a w)) = w_ports w" "w_insts (fst (app_start dirOK a w)) = w_insts w"
  "map a_site (w_apps (fst (app_start dirOK a w))) = map a_site (w_apps w)"
proof -
  show "w_ports (fst (app_start dirOK a w)) = w_ports w" "w_insts (fst (app_start dirOK a w)) = w_insts w"
    by (simp_all add: app_start_def Let_def sup)
  show "map a_site (w_apps (fst (app_start dirOK a w))) = map a_site (w_apps w)"
    by (cases "a < length (w_apps w)") (simp_all add: app_start_def Let_def sup map_site_upd list_update_beyond)
qed

lemma ports_app_ops:
  assumes inv: "ports_inv lo hi w"
  shows "ports_inv lo hi (fst (app_start dirOK a w))" and "ports_inv lo hi (app_stop a w)"
    and "ports_inv lo hi (resize n a w)" and "ports_inv lo hi (publish a w)"
    and "ports_inv lo hi (roll_next r w)" and "ports_inv lo hi (requestRecycle s w)"
    and "ports_inv lo hi (autoRecover_begin now a w)" and "ports_inv lo hi (autoRecover_start now dirOK a w)"
proof -
  note f = ports_inv_sites [OF inv]
  have upd: "map a_site ((w_apps v)[a := g (the_app v a)]) = map a_site (w_apps v)" if "\<And>ap. a_site (g ap) = a_site ap" for g v
    using that by (simp add: map_site_upd)
  show "ports_inv lo hi (fst (app_start dirOK a w))" by (intro f) (simp_all add: sup)
  show "ports_inv lo hi (app_stop a w)" by (intro f) (simp_all add: app_stop_def Let_def sup map_site_upd)
  show pub: "ports_inv lo hi (publish a w)" by (intro f) (simp_all add: sup map_site_upd)
  show "ports_inv lo hi (resize n a w)"
    using inv by (cases "a < length (w_apps w)")
      (auto simp: resize_def Let_def sup map_site_upd list_update_beyond intro!: f)
  show "ports_inv lo hi (roll_next r w)" using inv
    by (auto simp: roll_next_def Let_def sup intro!: f split: option.split list.split)
  show "ports_inv lo hi (requestRecycle s w)" using inv by (auto simp: requestRecycle_def sup intro!: f)
  show "ports_inv lo hi (autoRecover_begin now a w)" using inv
    by (auto simp: autoRecover_begin_def Let_def sup map_site_upd intro!: f)
  let ?w = "upd_app a (\<lambda>ap. ap\<lparr> a_autoStarts := a_autoStarts ap - 1 \<rparr>) w"
  let ?g = "\<lambda>ap. let (d, ap') = scheduleRecoveryLocked now ap
        in ap'\<lparr> a_failMsg := Auto_failed # (case d of None \<Rightarrow> [] | Some d \<Rightarrow> [Retrying_in d]) \<rparr>"
  have w: "w_ports ?w = w_ports w" "w_insts ?w = w_insts w" "map a_site (w_apps ?w) = map a_site (w_apps w)"
    by (simp_all add: sup map_site_upd)
  obtain v r where st: "app_start dirOK a ?w = (v, r)" by fastforce
  have v: "w_ports v = w_ports w" "w_insts v = w_insts w" "map a_site (w_apps v) = map a_site (w_apps w)"
    using app_start_frame [of dirOK a ?w] w unfolding st by simp_all
  have "a_site (?g ap) = a_site ap" for ap
  proof -
    obtain d ap' where eq: "scheduleRecoveryLocked now ap = (d, ap')" by fastforce
    show ?thesis using site_fields(1) [of now ap, unfolded eq] by (simp add: eq)
  qed
  then have "map a_site (w_apps (upd_app a ?g v)) = map a_site (w_apps w)"
    unfolding upd_app_sup(1) using upd [of ?g v] v(3) by metis
  then have "ports_inv lo hi (upd_app a ?g v)" and "ports_inv lo hi v"
    using v by (intro f; simp add: sup)+
  then show "ports_inv lo hi (autoRecover_start now dirOK a w)"
    unfolding autoRecover_start_def Let_def [of ?w] st by (cases r) simp_all
qed

lemma ports_step:
  assumes inv: "ports_inv lo hi w" and sinv: "sup_inv w" and lo: "0 < lo" and ok: "ports_event lo hi w ev"
  shows "ports_inv lo hi (sup_step w ev)"
proof -
  have conf: "ports_inv lo hi (upd_app a (\<lambda>ap. ap\<lparr> a_site := st \<rparr>) w)" if "fixed_apart lo hi st" for a st
    using inv that unfolding ports_inv_def held_auto_def
    by (auto simp: sup dest!: subsetD [OF set_update_subset_insert])
  have reg: "ports_inv lo hi (register sid slot st w)" if "fixed_apart lo hi st" for sid slot st
    using inv that unfolding ports_inv_def held_auto_def by (simp add: register_def new_app_def)
  have range: "ports_inv lo hi (w\<lparr> w_ports := setRange start stop (w_ports w) \<rparr>)" if "lo \<le> start" "stop \<le> hi" for start stop
    using inv that unfolding ports_inv_def held_auto_def by (simp add: setRange_def)
  have inst: "ports_inv lo hi (upd_inst i f w)"
    if "in_held (f (the_inst w i)) = in_held (the_inst w i)" "in_port (f (the_inst w i)) = in_port (the_inst w i)"
      "in_auto (f (the_inst w i)) = in_auto (the_inst w i)" for i f
    using that by (intro ports_inv_inst [OF inv, where i = i and x = "f (the_inst w i)"]) (simp_all add: sup)
  have rolls: "ports_inv lo hi (w\<lparr> w_rolls := l \<rparr>)" for l by (rule ports_inv_frame [OF inv]) simp_all
  show ?thesis
    using ok inv conf reg range inst rolls ports_app_ops [OF inv] ports_slot_step [OF inv sinv lo]
    by (cases ev) (simp_all add: ports_event_def sup_step_def sup_ok_def app_recycle_def process_exit_def)
qed

lemma ports_new: "lo \<le> start \<Longrightarrow> stop \<le> hi \<Longrightarrow> ports_inv lo hi (new_procs start stop)"
  by (simp add: ports_inv_def new_procs_def newPortAllocator_def held_auto_def)

interpretation exclusive_ports: invariant_machine sup_step "ports_event (max 1 lo) hi" "\<lambda>w. sup_inv w \<and> ports_inv (max 1 lo) hi w"
  for lo hi
  by unfold_locales (auto intro: ports_step sup_inv_step simp: ports_event_def)

section \<open>Recycling without downtime\<close>

text \<open>Slot \<open>s\<close> of app \<open>a\<close> serves: its current instance \<open>i\<close> is ready and published.\<close>

definition place_ok :: "nat \<Rightarrow> procs \<Rightarrow> slot_pc \<Rightarrow> bool" where
  "place_ok s w pc \<longleftrightarrow>
     (case pc of
        Overlap _ j \<Rightarrow> j < length (w_insts w) \<and> in_slot (the_inst w j) = s \<and> in_state (the_inst w j) = I_ready
      | Retiring _ Then_spawn \<Rightarrow> False
      | _ \<Rightarrow> True)"

definition serves :: "nat \<Rightarrow> nat \<Rightarrow> nat \<Rightarrow> procs \<Rightarrow> bool" where
  "serves s a i w \<longleftrightarrow>
     s < length (w_slots w) \<and> a < length (w_apps w) \<and> i < length (w_insts w) \<and>
     s \<in> set (a_slots (the_app w a)) \<and> site_Type (a_site (the_app w a)) \<noteq> SiteWorker \<and>
     n_PortMode (node_of (the_app w a)) \<noteq> ''fixed'' \<and>
     s_cur (the_slot w s) = Some i \<and> in_state (the_inst w i) = I_ready \<and> in_slot (the_inst w i) = s \<and>
     i \<in> set (a_backends (the_app w a)) \<and> place_ok s w (s_pc (the_slot w s)) \<and>
     (\<forall>j < length (w_insts w). in_slot (the_inst w j) = s \<and> in_held (the_inst w j) \<longrightarrow> \<not> in_exited (the_inst w j))"

named_theorems keep_serving \<open>what leaves a slot serving\<close>

lemma place_ok_cong: "w_insts w' = w_insts w \<Longrightarrow> place_ok s w' pc = place_ok s w pc"
  by (simp add: place_ok_def split: slot_pc.split)

lemma serves_ports [keep_serving]: "serves s a i w \<Longrightarrow> serves s a i (w\<lparr> w_ports := p \<rparr>)"
  by (simp add: serves_def place_ok_cong [of "w\<lparr> w_ports := p \<rparr>" w])

lemma serves_rolls [keep_serving]: "serves s a i w \<Longrightarrow> serves s a i (w\<lparr> w_rolls := l \<rparr>)"
  by (simp add: serves_def place_ok_cong [of "w\<lparr> w_rolls := l \<rparr>" w])

lemma serves_upd_slot [keep_serving]:
  "serves s a i w \<Longrightarrow> t = s \<longrightarrow> s_cur (f (the_slot w s)) = Some i \<and> place_ok s w (s_pc (f (the_slot w s))) \<Longrightarrow>
   serves s a i (upd_slot t f w)"
  by (auto simp: serves_def sup nth_upd place_ok_cong [of "upd_slot t f w" w])

lemma serves_upd_slot_cur:
  "serves s a i w \<Longrightarrow> (\<And>sl. s_cur (f sl) = s_cur sl) \<Longrightarrow> t = s \<longrightarrow> place_ok s w (s_pc (f (the_slot w s))) \<Longrightarrow>
   serves s a i (upd_slot t f w)"
  by (rule serves_upd_slot) (simp_all add: serves_def)

lemma serves_upd_inst [keep_serving]:
  assumes "serves s a i w" and "in_slot (f (the_inst w j)) = in_slot (the_inst w j)"
    and "in_slot (the_inst w j) = s \<longrightarrow> in_state (f (the_inst w j)) = in_state (the_inst w j) \<and>
      in_exited (f (the_inst w j)) = in_exited (the_inst w j) \<and> (in_held (f (the_inst w j)) \<longrightarrow> in_held (the_inst w j))"
  shows "serves s a i (upd_inst j f w)"
proof -
  have "place_ok s (upd_inst j f w) pc" if "place_ok s w pc" for pc
    using that assms(2,3) by (auto simp: place_ok_def sup nth_upd split: slot_pc.split)
  then show ?thesis using assms by (auto simp: serves_def sup nth_upd)
qed

lemma serves_upd_app [keep_serving]:
  assumes "serves s a i w" and "b = a \<longrightarrow> s \<in> set (a_slots (f (the_app w a))) \<and>
    a_site (f (the_app w a)) = a_site (the_app w a) \<and> i \<in> set (a_backends (f (the_app w a)))"
  shows "serves s a i (upd_app b f w)"
  using assms by (auto simp: serves_def sup nth_upd node_of_def place_ok_cong [of "upd_app b f w" w])

lemma serves_publish [keep_serving]: "serves s a i w \<Longrightarrow> serves s a i (publish b w)"
  unfolding publish_def
  by (rule serves_upd_app) (auto simp: serves_def backends_now_def ready_of_def intro!: bexI [of _ s])

lemma serves_set_pc [keep_serving]:
  "serves s a i w \<Longrightarrow> t = s \<longrightarrow> place_ok s w pc \<Longrightarrow> serves s a i (set_pc pc t w)"
  unfolding set_pc_def by (rule serves_upd_slot) (simp_all add: serves_def)

lemma serves_send [keep_serving]: "serves s a i w \<Longrightarrow> serves s a i (send c t w)"
  unfolding send_def by (rule serves_upd_slot) (simp_all add: serves_def)

lemma serves_stopSlots [keep_serving]: "serves s a i w \<Longrightarrow> serves s a i (stopSlots ts w)"
  by (induction ts arbitrary: w) (simp_all add: stopSlots_def serves_send)

lemma serves_answer [keep_serving]: "serves s a i w \<Longrightarrow> serves s a i (answer t w)"
proof -
  assume srv: "serves s a i w"
  have keep: "serves s a i (upd_slot t f v)" if "serves s a i v" "\<And>sl. s_cur (f sl) = s_cur sl" "\<And>sl. s_pc (f sl) = s_pc sl" for f v
    using that by (intro serves_upd_slot_cur) (auto simp: serves_def)
  show ?thesis unfolding answer_def Let_def
    using srv by (auto intro!: keep serves_rolls split: option.split slot_cmd.split recycle_from.split)
qed

lemma serves_setCur [keep_serving]: "serves s a i w \<Longrightarrow> t \<noteq> s \<Longrightarrow> serves s a i (setCur c t w)"
  unfolding setCur_def by (rule serves_upd_slot) simp_all

lemma serves_setState [keep_serving]:
  "serves s a i w \<Longrightarrow> in_slot (the_inst w j) \<noteq> s \<Longrightarrow> serves s a i (setState st j w)"
  unfolding setState_def by (rule serves_upd_inst) simp_all

lemma serves_release [keep_serving]: "serves s a i w \<Longrightarrow> serves s a i (release_inst j w)"
  unfolding release_inst_def by (intro serves_ports serves_upd_inst) (simp_all add: serves_def)

lemma serves_add_slots [keep_serving]: "serves s a i w \<Longrightarrow> serves s a i (add_slots b k n w)"
  by (auto simp: serves_def sup nth_upd nth_append node_of_def place_ok_cong [of "add_slots b k n w" w])

lemma serves_crash [keep_serving]: "serves s a i w \<Longrightarrow> t \<noteq> s \<Longrightarrow> serves s a i (after_crash now lived up t w)"
proof -
  assume srv: "serves s a i w" and t: "t \<noteq> s"
  obtain tripped ap where c: "recordCrash now (the_app w (s_app (the_slot w t))) = (tripped, ap)" by fastforce
  have ap: "a_slots ap = a_slots (the_app w (s_app (the_slot w t)))" "a_site ap = a_site (the_app w (s_app (the_slot w t)))"
    "a_backends ap = a_backends (the_app w (s_app (the_slot w t)))"
    using c by (auto simp: recordCrash_def Let_def split: if_splits)
  have "serves s a i (upd_app (s_app (the_slot w t)) (\<lambda>_. ap) w)"
    using srv ap by (intro serves_upd_app) (auto simp: serves_def)
  then show ?thesis unfolding after_crash_def Let_def c split_conv
    using t by (auto intro!: serves_set_pc serves_upd_slot_cur)
qed

lemma serves_new:
  assumes "serves s a i w" and "\<not> in_exited x"
  shows "serves s a i (w\<lparr> w_ports := p, w_insts := w_insts w @ [x] \<rparr>)"
proof -
  have "place_ok s (w\<lparr> w_ports := p, w_insts := w_insts w @ [x] \<rparr>) pc" if "place_ok s w pc" for pc
    using that by (auto simp: place_ok_def nth_append split: slot_pc.splits)
  then show ?thesis using assms by (auto simp: serves_def nth_append less_Suc_eq)
qed

text \<open>Steps of other slots; they touch only their own instances.\<close>

lemma serves_other:
  assumes srv: "serves s a i w" and sinv: "sup_inv w" and t: "t < length (w_slots w)" "t \<noteq> s"
    and ev: "case ev of E_trip _ _ \<Rightarrow> s_app (the_slot w t) \<noteq> a | _ \<Rightarrow> True"
  shows "serves s a i (slot_step ev t w)"
proof -
  have own: "\<forall>j \<in> set (pc_insts (s_pc (the_slot w t))). in_slot (the_inst w j) \<noteq> s"
    using sup_inv_slot [OF sinv t(1)] t(2) by (auto simp: slot_ok_def)
  have failed: "serves s a i (spawn_failed now pu t v)" if "serves s a i v" for now pu v
    using that t(2) by (auto simp: spawn_failed_def intro!: keep_serving split: purpose.split)
  have retire: "serves s a i (retire_begin j th t v)" if "serves s a i v" "in_slot (the_inst v j) \<noteq> s" for j th v
    using that t(2) by (auto simp: retire_begin_def intro!: keep_serving)
  have spawn: "serves s a i (spawnOnce_begin e pu attempt t w)" for e pu attempt
  proof -
    show ?thesis unfolding spawnOnce_begin_def Let_def
      using srv t(2) by (auto intro!: failed serves_set_pc serves_ports serves_new simp: new_inst_def split: prod.split sum.split)
  qed
  have trip: "serves s a i (tripRapidFail now (s_app (the_slot w t)) w)" if "s_app (the_slot w t) \<noteq> a" for now
    unfolding tripRapidFail_def using srv that by (auto intro!: keep_serving)
  have exited: "serves s a i (inst_exited now j t w)" for now j
    unfolding inst_exited_def Let_def using srv t(2) by (auto intro!: keep_serving split: prod.split)
  have ended: "serves s a i (retire_end now j th t w)" for now j th
    unfolding retire_end_def Let_def using srv t(2) by (auto intro!: keep_serving failed split: retire_then.split)
  have ready: "serves s a i (spawn_ok pu j t (setState I_ready j w))" if "in_slot (the_inst w j) \<noteq> s" for pu j
    unfolding spawn_ok_def Let_def using srv that t(2) by (auto intro!: keep_serving split: purpose.split)
  have commit: "serves s a i (replace_commit old j t w)" if "in_slot (the_inst w old) \<noteq> s" for old j
    unfolding replace_commit_def using srv that t(2) by (intro retire keep_serving) (simp_all add: sup)
  have cmd: "serves s a i (receive k t w)" for k
  proof -
    have "serves s a i (take_cmd k t w)" unfolding take_cmd_def using srv t(2) by (intro serves_upd_slot) simp_all
    then show ?thesis unfolding receive_def Let_def using own t(2)
      by (auto intro!: retire keep_serving simp: sup split: slot_pc.split)
  qed
  show ?thesis unfolding slot_step_def Let_def
    using srv own ev spawn trip exited ended ready commit cmd t(2)
    by (auto intro!: retire serves_set_pc split: sup_event.split slot_pc.split)
qed

text \<open>The slot's own steps: the old instance is current until the new one is ready.\<close>

lemma serves_setState_own:
  assumes "serves s a i w" and "j \<noteq> i" and "\<And>old. s_pc (the_slot w s) \<noteq> Overlap old j"
  shows "serves s a i (setState st j w)"
proof -
  have "place_ok s (setState st j w) (s_pc (the_slot w s))"
    using assms by (auto simp: serves_def place_ok_def sup nth_upd split: slot_pc.splits)
  then show ?thesis using assms by (auto simp: serves_def sup nth_upd)
qed

lemma serves_switch:
  assumes srv: "serves s a i w" and j: "s_pc (the_slot w s) = Overlap i j"
  shows "serves s a j (publish a (upd_slot s (\<lambda>sl. sl\<lparr> s_cur := Some j, s_next := None \<rparr>) w))"
proof -
  let ?w = "upd_slot s (\<lambda>sl. sl\<lparr> s_cur := Some j, s_next := None \<rparr>) w"
  have rdy: "j < length (w_insts w)" "in_slot (the_inst w j) = s" "in_state (the_inst w j) = I_ready"
    using srv j by (simp_all add: serves_def place_ok_def)
  have "j \<in> set (backends_now ?w (the_app ?w a))"
    using srv rdy unfolding backends_now_def
    by (auto simp: serves_def sup ready_of_def intro!: bexI [of _ s])
  then show ?thesis using srv rdy j
    by (simp add: serves_def sup node_of_def place_ok_def)
qed

lemma serves_own:
  assumes srv: "serves s a i w" and sinv: "sup_inv w"
  shows "\<exists>j. serves s a j (slot_step ev s w)"
proof -
  have s: "s < length (w_slots w)" and a: "a < length (w_apps w)" and cur: "s_cur (the_slot w s) = Some i"
    and att: "s \<in> set (a_slots (the_app w a))" and mode: "n_PortMode (node_of (the_app w a)) \<noteq> ''fixed''"
    using srv by (simp_all add: serves_def)
  note ok = sup_inv_slot [OF sinv s]
  have app: "s_app (the_slot w s) = a" and stay: "\<not> leaving (the_slot w s)"
    using sinv a att by (auto simp: sup_inv_def apps_ok_def)
  have place: "place_ok s w pc" if "\<And>old j. pc \<noteq> Overlap old j" "\<And>j. pc \<noteq> Retiring j Then_spawn" for pc
    using that by (simp add: place_ok_def split: slot_pc.split retire_then.split)
  have failed: "serves s a i (spawn_failed now (For_replace i) s v)" if "serves s a i v" for now v
    using that by (auto simp: spawn_failed_def place_ok_def intro!: keep_serving)
  show ?thesis
  proof (cases "s_pc (the_slot w s)")
    case (At_spawn pu n)
    have pu: "pu = For_replace i" using slot_okD(1) [OF ok At_spawn] cur by (cases pu) simp_all
    have "serves s a i (spawnOnce_begin e pu n s w)" for e
      unfolding spawnOnce_begin_def Let_def pu using srv
      by (auto intro!: failed serves_set_pc serves_ports serves_new simp: new_inst_def place_ok_def split: prod.split sum.split)
    then show ?thesis using srv At_spawn by (cases ev) (auto simp: slot_step_def Let_def receiving_def)
  next
    case (Spawning pu n j)
    have pu: "pu = For_replace i" and ji: "j \<noteq> i" using slot_okD [OF ok Spawning] cur by (cases pu; simp)+
    have own: "serves s a i (setState st j w)" for st using Spawning by (intro serves_setState_own [OF srv ji]) simp
    have j: "j < length (w_insts w)" "in_slot (the_inst w j) = s" using ok Spawning by (auto simp: slot_ok_def)
    have "serves s a i (upd_slot s (\<lambda>sl. sl\<lparr> s_next := Some j \<rparr>) (setState I_ready j w))"
      using own [of I_ready] by (intro serves_upd_slot) (simp_all add: serves_def)
    then have "serves s a i (spawn_ok pu j s (setState I_ready j w))"
      unfolding spawn_ok_def Let_def pu purpose.case using j
      by (intro serves_set_pc serves_publish) (simp_all add: place_ok_def sup)
    moreover have "serves s a i (retire_begin j (Then_failed pu n lost) s w)" for lost
      unfolding retire_begin_def using own by (intro serves_set_pc serves_publish) (simp_all add: place_ok_def)
    ultimately show ?thesis using srv Spawning by (cases ev) (auto simp: slot_step_def Let_def receiving_def)
  next
    case (Overlap old j)
    have old: "old = i" and ji: "i \<noteq> j" using slot_okD [OF ok Overlap] cur by simp_all
    let ?v = "publish a (upd_slot s (\<lambda>sl. sl\<lparr> s_cur := Some j, s_next := None \<rparr>) w)"
    have "serves s a j (setState I_stopping i ?v)"
      using ji s Overlap by (intro serves_setState_own [OF serves_switch [OF srv Overlap [unfolded old]]]) (simp_all add: sup)
    then have "serves s a j (retire_begin i (Then_serve j) s ?v)"
      unfolding retire_begin_def by (intro serves_set_pc serves_publish) (simp_all add: place_ok_def)
    then have "serves s a j (replace_commit old j s w)"
      unfolding replace_commit_def old app .
    then show ?thesis using srv Overlap by (cases ev) (auto simp: slot_step_def Let_def receiving_def)
  next
    case (Retiring j th)
    have th: "th = Then_serve i \<or> (\<exists>n lost. th = Then_failed (For_replace i) n lost)"
    proof (cases th)
      case (Then_failed pu n lost)
      then show ?thesis using slot_okD(1) [OF ok Retiring] cur by (cases pu) simp_all
    qed (use slot_okD(1) [OF ok Retiring] cur stay srv Retiring in \<open>auto simp: leaving_def serves_def place_ok_def\<close>)
    have "serves s a i (retire_end now j th s w)" for now
      using th srv by (auto simp: retire_end_def Let_def place_ok_def intro!: keep_serving failed)
    then show ?thesis using srv Retiring by (cases ev) (auto simp: slot_step_def Let_def receiving_def)
  next
    case (Serving j)
    have j: "j = i" using slot_okD(1) [OF ok Serving] cur by simp
    have "in_held (the_inst w i)" using ok Serving j by (auto simp: slot_ok_def)
    then have "\<not> in_exited (the_inst w i)" using srv by (auto simp: serves_def)
    moreover have "serves s a i (receive k s w)" if k: "k < length (s_cmds (the_slot w s))" for k
    proof -
      have c: "s_cmds (the_slot w s) ! k \<noteq> Cmd_stop" using stay nth_mem [OF k] by (auto simp: leaving_def)
      have "serves s a i (take_cmd k s w)" unfolding take_cmd_def
        using srv cur by (intro serves_upd_slot) (simp_all add: serves_def)
      then show ?thesis unfolding receive_def Let_def app using c mode Serving j
        by (auto intro!: serves_set_pc simp: place_ok_def)
    qed
    ultimately show ?thesis using srv Serving j by (cases ev) (auto simp: slot_step_def Let_def receiving_def)
  qed (use slot_okD(1) [OF ok] cur in simp_all)
qed

text \<open>Events that neither stop the app nor change its settings, and no crash of this slot.\<close>

definition undisturbed :: "nat \<Rightarrow> nat \<Rightarrow> procs \<Rightarrow> sup_event \<Rightarrow> bool" where
  "undisturbed s a w ev \<longleftrightarrow> sup_ok w ev \<and>
     (case ev of
        E_stop b \<Rightarrow> b \<noteq> a
      | E_resize b _ \<Rightarrow> b \<noteq> a
      | E_configure b _ \<Rightarrow> b \<noteq> a
      | E_trip t _ \<Rightarrow> s_app (the_slot w t) \<noteq> a
      | E_processExit i _ \<Rightarrow> in_slot (the_inst w i) \<noteq> s
      | _ \<Rightarrow> True)"

lemma serves_slot_step:
  assumes srv: "serves s a i w" and sinv: "sup_inv w" and t: "t < length (w_slots w)"
    and ev: "case ev of E_trip _ _ \<Rightarrow> s_app (the_slot w t) \<noteq> a | _ \<Rightarrow> True"
  shows "\<exists>j. serves s a j (slot_step ev t w)"
  using serves_own [OF srv sinv] serves_other [OF srv sinv t _ ev] by (cases "t = s") auto

lemma serves_step:
  assumes srv: "serves s a i w" and sinv: "sup_inv w" and ev: "undisturbed s a w ev"
  shows "\<exists>j. serves s a j (sup_step w ev)"
proof -
  have run: "a_running (the_app w a)" using srv sinv by (fastforce simp: serves_def sup_inv_def apps_ok_def)
  have start: "serves s a i (fst (app_start dirOK b v))" if "serves s a i v" "b = a \<longrightarrow> a_running (the_app v b)" for dirOK b v
    using that by (auto simp: app_start_def Let_def intro!: keep_serving)
  have resize: "serves s a i (resize n b w)" if "b \<noteq> a" for n b
    unfolding resize_def Let_def using srv that by (auto intro!: keep_serving)
  have stop: "serves s a i (app_stop b w)" if "b \<noteq> a" for b
    unfolding app_stop_def Let_def using srv that by (auto intro!: keep_serving)
  have roll: "serves s a i (roll_next r w)" for r
    using srv by (auto simp: roll_next_def Let_def intro!: serves_send serves_rolls split: option.split list.split)
  have req: "serves s a i (requestRecycle t w)" for t
  proof -
    have "serves s a i (upd_slot t (\<lambda>sl. sl\<lparr> s_recyclePending := True \<rparr>) w)"
      using srv by (intro serves_upd_slot_cur) (simp_all add: serves_def)
    then show ?thesis using srv by (simp add: requestRecycle_def serves_send)
  qed
  have rec1: "serves s a i (autoRecover_begin now b w)" for now b
  proof -
    have "serves s a i (upd_app b f w)" if "\<And>ap. a_slots (f ap) = a_slots ap \<and> a_site (f ap) = a_site ap \<and> a_backends (f ap) = a_backends ap" for f
      using srv that by (intro serves_upd_app) (simp_all add: serves_def)
    then show ?thesis using srv unfolding autoRecover_begin_def Let_def by simp
  qed
  have reg: "serves s a i (register sid sn st w)" for sid sn st
  proof -
    have "place_ok s (register sid sn st w) pc = place_ok s w pc" for pc by (rule place_ok_cong) (simp add: register_def)
    then show ?thesis using srv by (simp add: serves_def register_def nth_append)
  qed
  have rec2: "serves s a i (autoRecover_start now dirOK b w)" for now dirOK b
  proof -
    let ?w = "upd_app b (\<lambda>ap. ap\<lparr> a_autoStarts := a_autoStarts ap - 1 \<rparr>) w"
    have w: "serves s a i ?w" using srv by (intro serves_upd_app) (auto simp: serves_def)
    have run': "b = a \<longrightarrow> a_running (the_app ?w b)" using run srv by (auto simp: sup serves_def nth_upd)
    obtain v r where st: "app_start dirOK b ?w = (v, r)" by fastforce
    have v: "serves s a i v" using start [OF w run', of dirOK] st by simp
    have "b \<noteq> a" if "r \<noteq> None" using that run' st by (auto simp: app_start_def Let_def split: if_splits)
    then show ?thesis unfolding autoRecover_start_def Let_def [of ?w] st using v
      by (cases r) (auto intro!: serves_upd_app)
  qed
  have exit: "serves s a i (process_exit j c w)" if "in_slot (the_inst w j) \<noteq> s" for j c
    using srv that by (auto simp: process_exit_def intro!: serves_upd_inst)
  have addr: "serves s a i (upd_inst j (\<lambda>x. x\<lparr> in_addrInUse := True \<rparr>) w)" for j
    using srv by (intro serves_upd_inst) simp_all
  have conf: "serves s a i (upd_app b (\<lambda>ap. ap\<lparr> a_site := st \<rparr>) w)" if "b \<noteq> a" for b st
    using srv that by (intro serves_upd_app) simp_all
  have pub: "serves s a i (publish b w)" for b by (rule serves_publish [OF srv])
  have recy: "serves s a i (fst (app_recycle b w))" for b using srv by (simp add: app_recycle_def serves_rolls)
  have rng: "serves s a i (w\<lparr> w_ports := p \<rparr>)" for p by (rule serves_ports [OF srv])
  have st: "serves s a i (fst (app_start dirOK b w))" for dirOK b
    by (rule start [OF srv]) (simp add: run)
  have step: "\<exists>j. serves s a j (slot_step e t w)"
    if "t < length (w_slots w)" "case e of E_trip _ _ \<Rightarrow> s_app (the_slot w t) \<noteq> a | _ \<Rightarrow> True" for e t
    using serves_slot_step [OF srv sinv that] .
  show ?thesis
  proof (cases ev)
    case (E_trip t now)
    then show ?thesis using step [of t ev] ev by (simp add: sup_step_def undisturbed_def sup_ok_def)
  qed (use ev in \<open>simp_all add: sup_step_def undisturbed_def sup_ok_def\<close>,
       ((rule step; simp) | (blast intro: st stop recy resize pub conf reg rng roll req exit addr rec1 rec2))+)
qed

lemma serves_run:
  assumes "serves s a i w" and "sup_inv w" and "run_ok sup_step (undisturbed s a) w es"
  shows "\<exists>j. serves s a j (foldl sup_step w es)"
  using assms
proof (induction es arbitrary: w i)
  case (Cons e es)
  then have "undisturbed s a w e" by simp
  moreover from this have "sup_inv (sup_step w e)" using Cons.prems(2) by (intro sup_inv_step) (simp_all add: undisturbed_def)
  moreover obtain j where "serves s a j (sup_step w e)" using serves_step [OF Cons.prems(1,2)] calculation by blast
  ultimately show ?case using Cons.IH Cons.prems(3) by simp
qed auto

end
