(* ===== verification/Supervisor_Claims.thy ===== *)
theory Supervisor_Claims
  imports Supervisor_Proofs
begin

text \<open>
  The properties of supervision that others rely on, with runs that show them at work.
\<close>

section \<open>A site to run\<close>

definition sample_health :: health_check where
  "sample_health = \<lparr> hc_Enabled = False, hc_Path = ''/'', hc_IntervalSec = 30, hc_TimeoutSec = 5, hc_UnhealthyThreshold = 3 \<rparr>"

definition sup_node :: "string \<Rightarrow> int \<Rightarrow> int \<Rightarrow> node_config" where
  "sup_node mode fixed_port maxRestarts =
     \<lparr> n_AppRoot = ''app'', n_Script = ''server.js'', n_NpmScript = [], n_Args = [], n_NodeArgs = [], n_NodeVersion = [],
       n_Env = [], n_Runtime = ''node'', n_RuntimeVersion = [], n_Python = None, n_Instances = 1, n_PortMode = mode,
       n_FixedPort = fixed_port, n_RestartPolicy = ''always'', n_MaxRestarts = maxRestarts, n_RestartWindowSec = 300,
       n_RapidFailAction = ''recover'', n_RecoverAfterSec = 60, n_StartupTimeoutSec = 30, n_ShutdownTimeoutSec = 10,
       n_AgentEnabled = True, n_WatchFiles = False, n_WatchIgnore = [], n_HealthCheck = sample_health,
       n_Recycle = \<lparr> rc_MemoryLimitMB = 0, rc_PeriodicMinutes = 0, rc_ScheduleTimes = [], rc_MaxRequests = 0 \<rparr>,
       n_Limits = \<lparr> pl_CPUPercent = 0, pl_MemoryLimitMB = 0 \<rparr>,
       n_RunAs = \<lparr> ra_Enabled = False, ra_Username = [], ra_Password = [] \<rparr>,
       n_LoadBalancer = \<lparr> lb_Enabled = False, lb_LocalWeight = 1, lb_Servers = [], lb_Strategy = ''round_robin'',
         lb_HealthCheck = sample_health, lb_InsecureSkipVerify = False \<rparr> \<rparr>"

definition sup_site :: "node_config \<Rightarrow> site" where
  "sup_site n =
     \<lparr> site_ID = ''s1'', site_Name = ''shop'', site_Type = SiteNode, site_Bindings = [], site_Node = Some n, site_Tasks = [],
       site_Alerts = \<lparr> sa_Disabled = False, sa_Rules = [] \<rparr>, site_ActiveRelease = [], site_Slots = [], site_Slot = [] \<rparr>"

definition sample_spawn :: "instant \<Rightarrow> spawn_env" where
  "sample_spawn now = \<lparr> sp_now = now, sp_dirOK = True, sp_off = 0, sp_free = (\<lambda>_. True), sp_launch = True \<rparr>"

text \<open>The site starts and its only instance becomes ready; then it is recycled.\<close>

definition up_run :: "sup_event list" where
  "up_run =
     [E_register ''s1'' [] (sup_site (sup_node ''auto'' 0 5)), E_start 0 True, E_top 0, E_spawn 0 (sample_spawn 10), E_ready 0]"

definition recycle_run :: "sup_event list" where
  "recycle_run = [E_request 0, E_command 0 0, E_spawn 0 (sample_spawn 20), E_ready 0, E_overlap 0, E_retired 0 30]"

lemmas sample_defs = sample_health_def sup_node_def sup_site_def sample_spawn_def up_run_def recycle_run_def

section \<open>Ports\<close>



section \<open>Processes and their slots\<close>

text \<open>
  C6. No process is orphaned: after any interleaving, an instance that still has its port
  and process is in the hands of the slot that spawned it, and that slot either is one of
  its app's slots, of a running app, or has been told to stop, is stopping its instance,
  or has ended.
\<close>

theorem no_orphaned_process:
  assumes "run_ok sup_step sup_ok (new_procs start stop) es"
    and "w = foldl sup_step (new_procs start stop) es"
    and "i < length (w_insts w)" and "in_held (the_inst w i)"
  shows "i \<in> set (pc_insts (s_pc (the_slot w (in_slot (the_inst w i))))) \<and>
         (if leaving (the_slot w (in_slot (the_inst w i))) then s_pc (the_slot w (in_slot (the_inst w i))) \<noteq> Finished
          else in_slot (the_inst w i) \<in> set (a_slots (the_app w (s_app (the_slot w (in_slot (the_inst w i)))))) \<and>
               a_running (the_app w (s_app (the_slot w (in_slot (the_inst w i))))))"
proof -
  have inv: "sup_inv w" using supervisor.run_keeps [OF sup_inv_new assms(1)] assms(2) by simp
  define s where "s = in_slot (the_inst w i)"
  have s: "s < length (w_slots w)" and a: "s_app (the_slot w s) < length (w_apps w)"
    using inv assms(3) by (auto simp: sup_inv_def slots_ok_def s_def)
  have i: "i \<in> set (pc_insts (s_pc (the_slot w s)))"
    using sup_inv_slot [OF inv s] assms(3,4) by (auto simp: slot_ok_def s_def)
  then have "s_pc (the_slot w s) \<noteq> Finished" by auto
  moreover have "s \<in> set (a_slots (the_app w (s_app (the_slot w s)))) \<and> a_running (the_app w (s_app (the_slot w s)))"
    if "\<not> leaving (the_slot w s)"
  proof -
    have *: "set (a_slots (the_app w (s_app (the_slot w s)))) =
        {t. t < length (w_slots w) \<and> s_app (the_slot w t) = s_app (the_slot w s) \<and> \<not> leaving (the_slot w t)}"
      "a_running (the_app w (s_app (the_slot w s))) \<or> a_slots (the_app w (s_app (the_slot w s))) = []"
      using inv a unfolding sup_inv_def apps_ok_def by blast+
    then have "s \<in> set (a_slots (the_app w (s_app (the_slot w s))))" using that s by simp
    with *(2) show ?thesis by auto
  qed
  ultimately show ?thesis using i by (simp add: s_def)
qed

theorem no_orphaned_process_witness:
  "let w = foldl sup_step (new_procs 41000 48999) (up_run @ [E_stop 0])
   in in_held (the_inst w 0) \<and> 0 \<in> set (pc_insts (s_pc (the_slot w 0))) \<and> s_pc (the_slot w 0) \<noteq> Finished"
proof -
  let ?w = "foldl sup_step (new_procs 41000 48999) (up_run @ [E_stop 0])"
  have ok: "run_ok sup_step sup_ok (new_procs 41000 48999) (up_run @ [E_stop 0])"
    and h: "0 < length (w_insts ?w)" "in_held (the_inst ?w 0)" "in_slot (the_inst ?w 0) = 0" "leaving (the_slot ?w 0)" by code_simp+
  show ?thesis using no_orphaned_process [OF ok refl h(1,2)] h by (simp add: Let_def)
qed



section \<open>Rapid-fail protection\<close>

text \<open>The crashes of an app at the times \<open>ts\<close>, since it was started.\<close>

definition crashes :: "app \<Rightarrow> instant list \<Rightarrow> app" where
  "crashes ap ts = foldl (\<lambda>ap t. snd (recordCrash t ap)) ap ts"

definition recent_crashes :: "duration \<Rightarrow> instant \<Rightarrow> instant list \<Rightarrow> instant list" where
  "recent_crashes window now ts = filter (\<lambda>t. now - t < window) ts"

lemma recordCrash_fields:
  "a_site (snd (recordCrash now ap)) = a_site ap"
  "a_crashTimes (snd (recordCrash now ap)) =
     filter (\<lambda>t. time_sub now t < secs (n_RestartWindowSec (node_of ap))) (a_crashTimes ap) @ [now]"
  by (simp_all add: recordCrash_def Let_def)

lemma crashes_site [simp]: "a_site (crashes ap ts) = a_site ap"
  unfolding crashes_def by (induction ts arbitrary: ap) (simp_all add: recordCrash_fields)

lemma crashes_node [simp]: "node_of (crashes ap ts) = node_of ap"
  by (simp add: node_of_def)

lemma time_sub_lt: "0 < d \<Longrightarrow> d \<le> max_duration \<Longrightarrow> time_sub now t < d \<longleftrightarrow> now - t < d"
  using time_sub_ge [of d now t] by (auto simp: duration_defs)

text \<open>What is dropped from the record never counts again, as time goes on.\<close>

lemma crashes_times:
  assumes "sorted (ts @ [now])" and "a_crashTimes ap = []" and "0 < win" and "win \<le> max_duration"
    and "win = secs (n_RestartWindowSec (node_of ap))"
  shows "filter (\<lambda>t. now - t < win) (a_crashTimes (crashes ap ts)) = recent_crashes win now ts"
  using assms(1)
proof (induction ts arbitrary: now rule: rev_induct)
  case Nil
  then show ?case by (simp add: crashes_def recent_crashes_def assms(2))
next
  case (snoc t ts)
  have IH: "filter (\<lambda>u. t - u < win) (a_crashTimes (crashes ap ts)) = recent_crashes win t ts"
    using snoc by (simp add: sorted_append)
  have le: "t \<le> now" and tt: "time_sub t u < win \<longleftrightarrow> t - u < win" for u
    using snoc.prems time_sub_lt [OF assms(3,4)] by (auto simp: sorted_append)
  have "a_crashTimes (crashes ap (ts @ [t])) = recent_crashes win t ts @ [t]"
    using IH tt by (simp add: crashes_def recordCrash_fields flip: assms(5))
      (simp add: crashes_def [symmetric] recordCrash_fields flip: assms(5))
  then show ?case using le by (auto simp: recent_crashes_def intro!: filter_cong)
qed

text \<open>
  C33. Rapid-fail protection trips exactly when it should: a crash stops an app that has not
  been stopped by it before if and only if a maximum is set and at least that many of
  the earlier crashes since the app was started happened within the window before it.
\<close>

theorem rapid_fail_exact:
  assumes "sorted (ts @ [now])" and "a_crashTimes ap = []" and "\<not> a_failed (crashes ap ts)"
    and "0 < n_RestartWindowSec (node_of ap)" and "n_RestartWindowSec (node_of ap) \<le> 86400"
  shows "fst (recordCrash now (crashes ap ts)) \<longleftrightarrow>
         0 < n_MaxRestarts (node_of ap) \<and>
         n_MaxRestarts (node_of ap) \<le> int (length (recent_crashes (n_RestartWindowSec (node_of ap) * second) now ts))"
proof -
  let ?win = "n_RestartWindowSec (node_of ap) * second"
  have pos: "0 < ?win" and le: "?win \<le> max_duration" using assms(4,5) by (simp_all add: duration_defs)
  have win: "?win = secs (n_RestartWindowSec (node_of ap))"
    using pos le by (simp add: secs_def wrap64_id in_int64_def duration_defs)
  have "filter (\<lambda>t. time_sub now t < ?win) (a_crashTimes (crashes ap ts)) = recent_crashes ?win now ts"
    using crashes_times [OF assms(1,2) pos le win] time_sub_lt [OF pos le] by simp
  then show ?thesis using assms(3) by (auto simp: recordCrash_def Let_def win [symmetric])
qed

theorem rapid_fail_exact_witness:
  "let ap = new_app ''s1'' [] (sup_site (sup_node ''auto'' 0 2)); s = second
   in \<not> fst (recordCrash (400 * s) (crashes ap [10 * s, 200 * s])) \<and> fst (recordCrash (400 * s) (crashes ap [10 * s, 200 * s, 350 * s]))"
proof -
  let ?ap = "new_app ''s1'' [] (sup_site (sup_node ''auto'' 0 2))"
  have n: "n_RestartWindowSec (node_of ?ap) = 300" "n_MaxRestarts (node_of ?ap) = 2" "a_crashTimes ?ap = []"
    by (simp_all add: new_app_def node_of_def sample_defs)
  have f: "\<not> a_failed (crashes ?ap [10 * second, 200 * second])" "\<not> a_failed (crashes ?ap [10 * second, 200 * second, 350 * second])"
    by code_simp+
  have "fst (recordCrash (400 * second) (crashes ?ap [10 * second, 200 * second])) = False"
    using rapid_fail_exact [of "[10 * second, 200 * second]" "400 * second" ?ap] f n
    by (simp add: recent_crashes_def second_def)
  moreover have "fst (recordCrash (400 * second) (crashes ?ap [10 * second, 200 * second, 350 * second])) = True"
    using rapid_fail_exact [of "[10 * second, 200 * second, 350 * second]" "400 * second" ?ap] f n
    by (simp add: recent_crashes_def second_def)
  ultimately show ?thesis by (simp add: Let_def)
qed

section \<open>A stopped site that starts again\<close>

text \<open>
  An operator stops the site while an instance is starting. That start fails, and is one
  crash too many: rapid-fail protection trips after the stop, arms its timer, and the
  timer starts the site again.
\<close>

definition comeback_start :: "sup_event list" where
  "comeback_start =
     [E_register ''s1'' [] (sup_site (sup_node ''auto'' 0 1)), E_start 0 True,
      E_top 0, E_spawn 0 (sample_spawn (1 * second)), E_startFailed 0 (\<lambda>_. True) True, E_retired 0 (2 * second), E_timer 0,
      E_top 0, E_spawn 0 (sample_spawn (3 * second))]"

definition comeback_stop :: "sup_event list" where
  "comeback_stop =
     [E_stop 0, E_startFailed 0 (\<lambda>_. True) True, E_retired 0 (4 * second), E_trip 0 (4 * second), E_command 0 0, E_publish 0]"

definition comeback_timer :: "sup_event list" where
  "comeback_timer = [E_recover 0 (70 * second), E_recoverStart 0 (70 * second) True]"


end
