(* ===== verification/Access.thy ===== *)
theory Access
  imports Go_Prelude
begin

text \<open>
  What a request to the administration interface may do: \<^verbatim>\<open>internal/auth/access.go\<close>,
  \<^verbatim>\<open>internal/auth/previews.go\<close>, the records of \<^verbatim>\<open>internal/model/other.go\<close> they read, and
  the guards of \<^verbatim>\<open>internal/api/access.go\<close> that stand before the handlers.

  A role is the string the code keeps. A nil slice of site identifiers in a token
  (no restriction to sites) is \<^term>\<open>None\<close>; an empty one is \<^term>\<open>Some []\<close>. A guard returns
  \<^term>\<open>None\<close> when it calls the next handler, else the status and message it answers with.
\<close>

section \<open>Roles, users and tokens\<close>

type_synonym role = string

definition RoleAdmin :: role where
  "RoleAdmin = ''admin''"

definition RoleOperator :: role where
  "RoleOperator = ''operator''"

definition RoleViewer :: role where
  "RoleViewer = ''viewer''"

definition RoleSites :: role where
  "RoleSites = ''sites''"

lemmas role_defs = RoleAdmin_def RoleOperator_def RoleViewer_def RoleSites_def

record site_grant =
  g_SiteID :: string
  g_Role :: role

record user =
  usr_ID :: string
  usr_Username :: string
  usr_Role :: role
  usr_Sites :: "site_grant list"
  usr_PasswordHash :: string
  usr_TOTPSecret :: string
  usr_TOTPEnabled :: bool
  usr_Disabled :: bool
  usr_LastLogin :: "instant option"
  usr_CreatedAt :: instant
  usr_SSO :: bool

record api_token =
  tok_ID :: string
  tok_UserID :: string
  tok_Name :: string
  tok_Prefix :: string
  tok_Hash :: string
  tok_Role :: role
  tok_SiteIDs :: "string list option"
  tok_ExpiresAt :: "instant option"
  tok_LastUsed :: "instant option"
  tok_CreatedAt :: instant

definition Restricted :: "api_token \<Rightarrow> bool" where
  "Restricted t = (tok_Role t \<noteq> [] \<or> tok_SiteIDs t \<noteq> None)"

section \<open>Access\<close>

record access =
  ac_Role :: role
  ac_Sites :: "site_grant list"

definition role_rank :: "role \<Rightarrow> nat" where
  "role_rank r =
     (if r = RoleViewer then 1 else if r = RoleOperator then 2 else if r = RoleAdmin then 3 else 0)"

definition lesser :: "role \<Rightarrow> role \<Rightarrow> role" where
  "lesser a b = (if role_rank a \<le> role_rank b then a else b)"

definition UserAccess :: "'a user_scheme \<Rightarrow> access" where
  "UserAccess u =
     (if usr_Role u \<noteq> RoleSites then \<lparr>ac_Role = usr_Role u, ac_Sites = []\<rparr>
      else \<lparr>ac_Role = RoleSites,
             ac_Sites = map (\<lambda>g. \<lparr>g_SiteID = g_SiteID g, g_Role = lesser (g_Role g) RoleOperator\<rparr>)
                            (usr_Sites u)\<rparr>)"

definition SiteScoped :: "access \<Rightarrow> bool" where
  "SiteScoped a = (ac_Role a = RoleSites)"

text \<open>\<^verbatim>\<open>limit\<close>, the local function of \<^verbatim>\<open>Restrict\<close>.\<close>

definition token_limit :: "api_token \<Rightarrow> role \<Rightarrow> role" where
  "token_limit t r = (if tok_Role t \<noteq> [] then lesser r (tok_Role t) else r)"

definition Restrict_token :: "access \<Rightarrow> api_token \<Rightarrow> access" where
  "Restrict_token a t =
     (if \<not> SiteScoped a \<and> tok_SiteIDs t = None
      then \<lparr>ac_Role = token_limit t (ac_Role a), ac_Sites = []\<rparr>
      else \<lparr>ac_Role = RoleSites,
             ac_Sites =
               (if SiteScoped a
                then map (\<lambda>g. \<lparr>g_SiteID = g_SiteID g, g_Role = token_limit t (g_Role g)\<rparr>)
                       (filter (\<lambda>g. case tok_SiteIDs t of None \<Rightarrow> True
                                    | Some ids \<Rightarrow> g_SiteID g \<in> set ids) (ac_Sites a))
                else map (\<lambda>i. \<lparr>g_SiteID = i, g_Role = token_limit t (lesser (ac_Role a) RoleOperator)\<rparr>)
                       (case tok_SiteIDs t of None \<Rightarrow> [] | Some ids \<Rightarrow> ids))\<rparr>)"

fun Restrict :: "access \<Rightarrow> api_token option \<Rightarrow> access" where
  "Restrict a None = a"
| "Restrict a (Some t) = (if \<not> Restricted t then a else Restrict_token a t)"

definition Allowed :: "role \<Rightarrow> role \<Rightarrow> bool" where
  "Allowed r need = (role_rank need > 0 \<and> role_rank r \<ge> role_rank need)"

definition Server :: "access \<Rightarrow> role \<Rightarrow> bool" where
  "Server a need = (\<not> SiteScoped a \<and> Allowed (ac_Role a) need)"

text \<open>The loop over the grants that \<^verbatim>\<open>SiteRole\<close> and \<^verbatim>\<open>Highest\<close> share.\<close>

fun best_grant :: "(site_grant \<Rightarrow> bool) \<Rightarrow> role \<Rightarrow> site_grant list \<Rightarrow> role" where
  "best_grant P best [] = best"
| "best_grant P best (g # gs) =
     best_grant P (if P g \<and> role_rank (g_Role g) > role_rank best then g_Role g else best) gs"

definition SiteRole :: "access \<Rightarrow> string \<Rightarrow> role" where
  "SiteRole a siteID =
     (if \<not> SiteScoped a then ac_Role a
      else best_grant (\<lambda>g. g_SiteID g = siteID) [] (ac_Sites a))"

definition OnSite :: "access \<Rightarrow> string \<Rightarrow> role \<Rightarrow> bool" where
  "OnSite a siteID need = (role_rank need > 0 \<and> role_rank (SiteRole a siteID) \<ge> role_rank need)"

definition CanSee :: "access \<Rightarrow> string \<Rightarrow> bool" where
  "CanSee a siteID = OnSite a siteID RoleViewer"

definition SiteIDs :: "access \<Rightarrow> string list option" where
  "SiteIDs a =
     (if \<not> SiteScoped a then None
      else Some (map g_SiteID (filter (\<lambda>g. role_rank (g_Role g) > 0) (ac_Sites a))))"

definition Highest :: "access \<Rightarrow> role" where
  "Highest a =
     (if \<not> SiteScoped a then ac_Role a else best_grant (\<lambda>g. True) [] (ac_Sites a))"

definition Weaker :: "role \<Rightarrow> role \<Rightarrow> bool" where
  "Weaker a b = (role_rank a < role_rank b)"

definition ValidRole :: "role \<Rightarrow> bool" where
  "ValidRole r = (r = RoleAdmin \<or> r = RoleOperator \<or> r = RoleViewer \<or> r = RoleSites)"

text \<open>\<^verbatim>\<open>model.ValidationError\<close>: the field and the message.\<close>

type_synonym validation_error = "string \<times> string"

fun check_grants ::
  "(string \<Rightarrow> bool) \<Rightarrow> nat \<Rightarrow> string list \<Rightarrow> site_grant list \<Rightarrow> validation_error option" where
  "check_grants siteExists i seen [] = None"
| "check_grants siteExists i seen (g # gs) =
     (let field = ''sites['' @ show_nat i @ '']'' in
      if g_Role g \<noteq> RoleViewer \<and> g_Role g \<noteq> RoleOperator
      then Some (field @ ''.role'',
             ''viewer or operator (changing a site's configuration needs a server administrator)'')
      else if g_SiteID g = [] \<or> \<not> siteExists (g_SiteID g)
      then Some (field @ ''.siteId'', ''no such site'')
      else if g_SiteID g \<in> set seen
      then Some (field @ ''.siteId'', ''the site is listed twice'')
      else check_grants siteExists (Suc i) (g_SiteID g # seen) gs)"

definition CheckUserAccess ::
  "role \<Rightarrow> site_grant list \<Rightarrow> (string \<Rightarrow> bool) \<Rightarrow> validation_error option" where
  "CheckUserAccess r grants siteExists =
     (if \<not> ValidRole r then Some (''role'', ''admin, operator, viewer or sites'')
      else if r \<noteq> RoleSites
      then (if grants \<noteq> []
            then Some (''sites'',
                   ''site grants need role \"sites\"; a server-wide role already covers every site'')
            else None)
      else if grants = [] then Some (''sites'', ''select at least one site'')
      else check_grants siteExists 0 [] grants)"

text \<open>\<^verbatim>\<open>previews\<close> lists the previews of a site; the callers pass \<^verbatim>\<open>Core.PreviewIDs\<close>.\<close>

definition WithPreviews :: "access \<Rightarrow> (string \<Rightarrow> string list) \<Rightarrow> access" where
  "WithPreviews a previews =
     (if \<not> SiteScoped a then a
      else \<lparr>ac_Role = ac_Role a,
             ac_Sites = ac_Sites a
               @ concat (map (\<lambda>g. map (\<lambda>i. \<lparr>g_SiteID = i, g_Role = g_Role g\<rparr>) (previews (g_SiteID g)))
                             (ac_Sites a))\<rparr>)"

section \<open>The guards of the routes\<close>

type_synonym refusal = "nat \<times> string"

text \<open>\<^verbatim>\<open>&model.APIToken{Role: lim}\<close>: every other field has its zero value.\<close>

definition cap_token :: "role \<Rightarrow> api_token" where
  "cap_token cap =
     \<lparr>tok_ID = [], tok_UserID = [], tok_Name = [], tok_Prefix = [], tok_Hash = [], tok_Role = cap,
      tok_SiteIDs = None, tok_ExpiresAt = None, tok_LastUsed = None, tok_CreatedAt = 0\<rparr>"

definition limitAccess :: "access \<Rightarrow> role \<Rightarrow> access option" where
  "limitAccess a cap =
     (if cap = RoleViewer \<or> cap = RoleOperator \<or> cap = RoleAdmin
      then Some (Restrict a (Some (cap_token cap))) else None)"

text \<open>
  The part of \<^verbatim>\<open>authenticate\<close> that works the access out; \<open>cap\<close> is the header
  \<^verbatim>\<open>X-NodeHoster-Role-Limit\<close> ("" when it is absent).
\<close>

definition request_access ::
  "'a user_scheme \<Rightarrow> api_token option \<Rightarrow> role \<Rightarrow> (string \<Rightarrow> string list) \<Rightarrow> refusal + access" where
  "request_access u tok cap previews =
     (let acc = Restrict (UserAccess u) tok in
      case (if cap \<noteq> [] then limitAccess acc cap else Some acc) of
        None \<Rightarrow> Inl (400, ''invalid X-NodeHoster-Role-Limit'')
      | Some acc' \<Rightarrow> Inr (WithPreviews acc' previews))"

text \<open>\<open>mustChange\<close> is the flag of the request's user; \<open>tok\<close> the token it came with.\<close>

definition passwordPending :: "bool \<Rightarrow> api_token option \<Rightarrow> refusal option" where
  "passwordPending mustChange tok =
     (if mustChange \<and> tok = None then Some (403, ''change your password first'') else None)"

definition require :: "role \<Rightarrow> access \<Rightarrow> bool \<Rightarrow> api_token option \<Rightarrow> refusal option" where
  "require need acc mustChange tok =
     (if SiteScoped acc then Some (403, ''your account only has access to some sites'')
      else if \<not> Server acc need then Some (403, ''your role does not allow this'')
      else passwordPending mustChange tok)"

definition requireSite ::
  "role \<Rightarrow> access \<Rightarrow> string \<Rightarrow> bool \<Rightarrow> api_token option \<Rightarrow> refusal option" where
  "requireSite need acc siteID mustChange tok =
     (if \<not> OnSite acc siteID need
      then (if SiteScoped acc \<and> \<not> CanSee acc siteID then Some (404, ''not found'')
            else Some (403, ''your role does not allow this''))
      else passwordPending mustChange tok)"

definition requireFiltered :: "access \<Rightarrow> bool \<Rightarrow> api_token option \<Rightarrow> refusal option" where
  "requireFiltered acc mustChange tok =
     (if \<not> SiteScoped acc \<and> \<not> Server acc RoleViewer
      then Some (403, ''your role does not allow this'')
      else passwordPending mustChange tok)"

definition restrictedToken :: "role \<Rightarrow> api_token option \<Rightarrow> refusal option" where
  "restrictedToken cap tok =
     (if cap \<noteq> []
      then Some (403, ''a request limited to a role (through a server connection) cannot manage the account'')
      else case tok of
             None \<Rightarrow> None
           | Some t \<Rightarrow> (if Restricted t
                        then Some (403, ''a restricted API token cannot manage the account'')
                        else None))"

definition eventVisible :: "access \<Rightarrow> string \<Rightarrow> bool" where
  "eventVisible acc siteID = (\<not> SiteScoped acc \<or> (siteID \<noteq> [] \<and> CanSee acc siteID))"

definition visibleSites :: "access \<Rightarrow> string list \<Rightarrow> string list" where
  "visibleSites acc sites = (if \<not> SiteScoped acc then sites else filter (CanSee acc) sites)"

text \<open>
  \<^verbatim>\<open>tokenRestriction\<close>: what a new token may be restricted to; \<open>siteExists\<close> is whether
  \<^verbatim>\<open>Core.Site\<close> finds the site. The identifiers are kept once each, in order.
\<close>

fun token_sites ::
  "access \<Rightarrow> (string \<Rightarrow> bool) \<Rightarrow> nat \<Rightarrow> string list \<Rightarrow> string list
   \<Rightarrow> validation_error + string list" where
  "token_sites acc siteExists i ids [] = Inr ids"
| "token_sites acc siteExists i ids (x # xs) =
     (if \<not> siteExists x \<or> \<not> CanSee acc x
      then Inl (''siteIds['' @ show_nat i @ '']'', ''no such site'')
      else token_sites acc siteExists (Suc i) (if x \<in> set ids then ids else ids @ [x]) xs)"

definition tokenRestriction ::
  "access \<Rightarrow> (string \<Rightarrow> bool) \<Rightarrow> role \<Rightarrow> string list
   \<Rightarrow> validation_error + (role \<times> string list option)" where
  "tokenRestriction acc siteExists r siteIDs =
     (if r \<noteq> [] \<and> r \<noteq> RoleViewer \<and> r \<noteq> RoleOperator \<and> r \<noteq> RoleAdmin
      then Inl (''role'', ''viewer, operator or admin (or empty for your own role)'')
      else if r \<noteq> [] \<and> Weaker (Highest acc) r
      then Inl (''role'', ''a token cannot have more rights than you have'')
      else if siteIDs = [] then Inr (r, None)
      else if r = RoleAdmin
      then Inl (''role'',
             ''a token restricted to sites is at most operator: site configuration needs a server administrator'')
      else case token_sites acc siteExists 0 [] siteIDs of
             Inl e \<Rightarrow> Inl e
           | Inr ids \<Rightarrow> Inr (r, Some ids))"


section \<open>The order of the roles\<close>

lemma role_rank_simps [simp]:
  "role_rank RoleAdmin = 3" "role_rank RoleOperator = 2" "role_rank RoleViewer = 1"
  "role_rank RoleSites = 0" "role_rank [] = 0"
  by (simp_all add: role_rank_def role_defs)

lemma role_rank_le: "role_rank r \<le> 3"
  by (simp add: role_rank_def)

lemma role_rank_lesser [simp]: "role_rank (lesser a b) = min (role_rank a) (role_rank b)"
  by (simp add: lesser_def)

lemma role_rank_limit:
  "role_rank (token_limit t r) = (if tok_Role t \<noteq> [] then min (role_rank r) (role_rank (tok_Role t)) else role_rank r)"
  by (simp add: token_limit_def)

lemma lesser_sites: "role_rank a > 0 \<or> a \<noteq> RoleSites \<Longrightarrow> lesser a b = RoleSites \<Longrightarrow> role_rank b = 0"
  by (auto simp: lesser_def split: if_splits)

lemma best_grant_ge:
  "0 < n \<Longrightarrow> n \<le> role_rank (best_grant P b gs) \<longleftrightarrow>
     n \<le> role_rank b \<or> (\<exists>g\<in>set gs. P g \<and> n \<le> role_rank (g_Role g))"
  by (induction gs arbitrary: b) auto

section \<open>What an access allows\<close>

text \<open>Site-scoped access allows what one of its grants allows, other access what its role does.\<close>

lemma OnSite_scoped:
  "SiteScoped a \<Longrightarrow> OnSite a s need \<longleftrightarrow>
     0 < role_rank need \<and> (\<exists>g\<in>set (ac_Sites a). g_SiteID g = s \<and> role_rank need \<le> role_rank (g_Role g))"
  by (auto simp: OnSite_def SiteRole_def best_grant_ge)

lemma OnSite_server: "\<not> SiteScoped a \<Longrightarrow> OnSite a s need \<longleftrightarrow> Server a need"
  by (simp add: OnSite_def SiteRole_def Server_def Allowed_def)

lemma Server_scoped: "SiteScoped a \<Longrightarrow> \<not> Server a need"
  by (simp add: Server_def)

text \<open>What a token permits beside its owner's access: the independent specification.\<close>

fun token_permits :: "access \<Rightarrow> api_token option \<Rightarrow> string \<Rightarrow> role \<Rightarrow> bool" where
  "token_permits a None s need = True"
| "token_permits a (Some t) s need =
     ((tok_Role t = [] \<or> role_rank need \<le> role_rank (tok_Role t))
      \<and> (case tok_SiteIDs t of
           None \<Rightarrow> True
         | Some ids \<Rightarrow> s \<in> set ids \<and> (SiteScoped a \<or> role_rank need \<le> role_rank RoleOperator)))"

lemma scoped_limit:
  "\<not> SiteScoped a \<Longrightarrow> token_limit t (ac_Role a) = RoleSites
   \<Longrightarrow> tok_Role t \<noteq> [] \<and> role_rank (tok_Role t) = 0"
  using lesser_sites [of "ac_Role a" "tok_Role t"]
  by (auto simp: token_limit_def SiteScoped_def split: if_splits)

lemma Server_Restrict_token:
  "Server (Restrict_token a t) need \<longleftrightarrow>
     Server a need \<and> tok_SiteIDs t = None \<and> (tok_Role t = [] \<or> role_rank need \<le> role_rank (tok_Role t))"
proof (cases "\<not> SiteScoped a \<and> tok_SiteIDs t = None")
  case True
  then show ?thesis
    using scoped_limit [of a t]
    by (auto simp: Restrict_token_def Server_def SiteScoped_def Allowed_def role_rank_limit)
next
  case False
  then show ?thesis by (auto simp: Restrict_token_def Server_def SiteScoped_def)
qed

lemma Restrict_scoped:
  "SiteScoped a \<or> tok_SiteIDs t \<noteq> None \<Longrightarrow> SiteScoped (Restrict_token a t)"
  by (auto simp: Restrict_token_def SiteScoped_def)

lemma OnSite_Restrict_token:
  "OnSite (Restrict_token a t) s need \<longleftrightarrow> OnSite a s need \<and> token_permits a (Some t) s need"
proof (cases "SiteScoped a")
  case True
  then have sc: "SiteScoped (Restrict_token a t)" by (simp add: Restrict_scoped)
  have sites: "ac_Sites (Restrict_token a t) =
    map (\<lambda>g. \<lparr>g_SiteID = g_SiteID g, g_Role = token_limit t (g_Role g)\<rparr>)
      (filter (\<lambda>g. case tok_SiteIDs t of None \<Rightarrow> True | Some ids \<Rightarrow> g_SiteID g \<in> set ids) (ac_Sites a))"
    using True by (simp add: Restrict_token_def)
  show ?thesis
    unfolding OnSite_scoped [OF sc] OnSite_scoped [OF True] sites
    by (auto simp: role_rank_limit True split: option.splits)
next
  case False
  show ?thesis
  proof (cases "tok_SiteIDs t")
    case None
    have "OnSite (Restrict_token a t) s need = Server (Restrict_token a t) need"
    proof (cases "SiteScoped (Restrict_token a t)")
      case True
      then have "ac_Sites (Restrict_token a t) = []" using False None by (simp add: Restrict_token_def)
      then show ?thesis using True by (simp add: OnSite_scoped Server_scoped)
    qed (rule OnSite_server)
    then show ?thesis using False None by (simp add: Server_Restrict_token OnSite_server)
  next
    case (Some ids)
    have sc: "SiteScoped (Restrict_token a t)" using Some by (simp add: Restrict_scoped)
    have sites: "ac_Sites (Restrict_token a t) =
      map (\<lambda>i. \<lparr>g_SiteID = i, g_Role = token_limit t (lesser (ac_Role a) RoleOperator)\<rparr>) ids"
      using False Some by (simp add: Restrict_token_def)
    show ?thesis
      unfolding OnSite_scoped [OF sc] sites
      using False Some by (auto simp: role_rank_limit OnSite_server Server_def Allowed_def)
  qed
qed

lemma OnSite_Restrict:
  "OnSite (Restrict a tok) s need \<longleftrightarrow> OnSite a s need \<and> token_permits a tok s need"
  by (cases tok) (auto simp: OnSite_Restrict_token Restricted_def)

lemma Server_Restrict:
  "Server (Restrict a tok) need \<longleftrightarrow>
     Server a need \<and> (\<forall>t. tok = Some t \<longrightarrow> tok_SiteIDs t = None
                           \<and> (tok_Role t = [] \<or> role_rank need \<le> role_rank (tok_Role t)))"
  by (cases tok) (auto simp: Server_Restrict_token Restricted_def)

lemma OnSite_WithPreviews:
  "OnSite (WithPreviews a pv) s need \<longleftrightarrow>
     OnSite a s need \<or> (SiteScoped a \<and> (\<exists>p. s \<in> set (pv p) \<and> OnSite a p need))"
proof (cases "SiteScoped a")
  case True
  then have sc: "SiteScoped (WithPreviews a pv)" by (simp add: WithPreviews_def SiteScoped_def)
  have sites: "set (ac_Sites (WithPreviews a pv)) = set (ac_Sites a) \<union>
    (\<Union>g\<in>set (ac_Sites a). (\<lambda>i. \<lparr>g_SiteID = i, g_Role = g_Role g\<rparr>) ` set (pv (g_SiteID g)))"
    using True by (simp add: WithPreviews_def)
  show ?thesis
    unfolding OnSite_scoped [OF sc] OnSite_scoped [OF True] sites bex_Un
    using True by (auto simp: bex_simps)
qed (simp add: WithPreviews_def)

lemma Server_WithPreviews [simp]: "Server (WithPreviews a pv) need = Server a need"
  by (auto simp: WithPreviews_def Server_def SiteScoped_def)

lemma cap_token_simps [simp]: "tok_Role (cap_token cap) = cap" "tok_SiteIDs (cap_token cap) = None"
  by (simp_all add: cap_token_def)

lemma limitAccess_Restrict:
  "limitAccess a cap = Some a' \<Longrightarrow> a' = Restrict a (Some (cap_token cap)) \<and> cap \<noteq> []"
  by (auto simp: limitAccess_def role_defs simp del: Restrict.simps split: if_splits)

lemma limitAccess_OnSite:
  "limitAccess a cap = Some a' \<Longrightarrow> OnSite a' s need = (OnSite a s need \<and> role_rank need \<le> role_rank cap)"
  by (drule limitAccess_Restrict) (simp add: OnSite_Restrict del: Restrict.simps)

lemma limitAccess_Server:
  "limitAccess a cap = Some a' \<Longrightarrow> Server a' need = (Server a need \<and> role_rank need \<le> role_rank cap)"
  by (drule limitAccess_Restrict) (simp add: Server_Restrict del: Restrict.simps)


section \<open>Requests on a site\<close>

text \<open>The end of \<^verbatim>\<open>authenticate\<close> followed by \<^verbatim>\<open>requireSite\<close>, as the routes chain them.\<close>

definition site_request ::
  "'a user_scheme \<Rightarrow> api_token option \<Rightarrow> role \<Rightarrow> (string \<Rightarrow> string list) \<Rightarrow> bool \<Rightarrow> string \<Rightarrow> role
   \<Rightarrow> refusal option" where
  "site_request u tok cap previews mustChange siteID need =
     (case request_access u tok cap previews of
        Inl e \<Rightarrow> Some e
      | Inr acc \<Rightarrow> requireSite need acc siteID mustChange tok)"

text \<open>
  The specification: the user's own right on a site, whether the caller is confined to
  some sites, and the limit of the header.
\<close>

definition user_permits :: "'a user_scheme \<Rightarrow> string \<Rightarrow> role \<Rightarrow> bool" where
  "user_permits u s need =
     (0 < role_rank need
      \<and> (if usr_Role u = RoleSites
         then (\<exists>g\<in>set (usr_Sites u). g_SiteID g = s
                 \<and> role_rank need \<le> min (role_rank RoleOperator) (role_rank (g_Role g)))
         else role_rank need \<le> role_rank (usr_Role u)))"

definition confined :: "'a user_scheme \<Rightarrow> api_token option \<Rightarrow> bool" where
  "confined u tok = (usr_Role u = RoleSites \<or> (\<exists>t. tok = Some t \<and> tok_SiteIDs t \<noteq> None))"

definition cap_permits :: "role \<Rightarrow> role \<Rightarrow> bool" where
  "cap_permits cap need = (cap = [] \<or> role_rank need \<le> role_rank cap)"

definition valid_cap :: "role \<Rightarrow> bool" where
  "valid_cap cap = (cap = [] \<or> cap = RoleViewer \<or> cap = RoleOperator \<or> cap = RoleAdmin)"

lemma SiteScoped_UserAccess [simp]: "SiteScoped (UserAccess u) = (usr_Role u = RoleSites)"
  by (simp add: UserAccess_def SiteScoped_def)

lemma OnSite_UserAccess: "OnSite (UserAccess u) s need = user_permits u s need"
proof (cases "usr_Role u = RoleSites")
  case True
  then have sc: "SiteScoped (UserAccess u)" by simp
  show ?thesis unfolding OnSite_scoped [OF sc] using True
    by (auto simp: user_permits_def UserAccess_def bex_simps)
next
  case False
  then show ?thesis
    by (simp add: OnSite_server Server_def Allowed_def) (auto simp: user_permits_def UserAccess_def)
qed

lemma SiteScoped_Restrict:
  "SiteScoped (Restrict (UserAccess u) tok) \<Longrightarrow> confined u tok \<or> (\<forall>s need. \<not> OnSite (Restrict (UserAccess u) tok) s need)"
proof (cases tok)
  case (Some t)
  assume sc: "SiteScoped (Restrict (UserAccess u) tok)"
  show ?thesis
  proof (rule disjCI)
    assume "\<not> (\<forall>s need. \<not> OnSite (Restrict (UserAccess u) tok) s need)"
    then obtain s need where on: "OnSite (Restrict (UserAccess u) tok) s need" by blast
    show "confined u tok"
    proof (rule ccontr)
      assume "\<not> confined u tok"
      then have "usr_Role u \<noteq> RoleSites" "tok_SiteIDs t = None" using Some by (auto simp: confined_def)
      then have "ac_Sites (Restrict (UserAccess u) tok) = []"
        using Some by (simp add: Restrict_token_def UserAccess_def SiteScoped_def)
      then show False using on sc by (simp add: OnSite_scoped)
    qed
  qed
qed (simp add: confined_def)

lemma confined_scoped: "confined u tok \<Longrightarrow> SiteScoped (Restrict (UserAccess u) tok)"
  by (cases tok) (auto simp: confined_def Restrict_scoped Restricted_def)

lemma SiteScoped_limitAccess:
  "limitAccess a cap = Some a' \<Longrightarrow> SiteScoped a' = SiteScoped a"
  by (auto simp: limitAccess_def Restricted_def Restrict_token_def SiteScoped_def token_limit_def
        lesser_def role_defs role_rank_def split: if_splits)


lemma passwordPending_None [simp]:
  "passwordPending m tok = None \<longleftrightarrow> \<not> (m \<and> tok = None)"
  by (simp add: passwordPending_def)

lemma requireSite_None: "requireSite need acc s m tok = None \<longleftrightarrow> OnSite acc s need \<and> \<not> (m \<and> tok = None)"
  by (simp add: requireSite_def)

lemma require_None: "require need acc m tok = None \<longleftrightarrow> Server acc need \<and> \<not> (m \<and> tok = None)"
  by (auto simp: require_def Server_scoped)

text \<open>The access of a request: that of the user, cut by the token and by the header.\<close>

lemma request_access_cases:
  assumes "request_access u tok cap pv = Inr acc"
  obtains a where "acc = WithPreviews a pv" "valid_cap cap"
    "\<forall>s need. OnSite a s need \<longleftrightarrow> user_permits u s need \<and> token_permits (UserAccess u) tok s need \<and> cap_permits cap need"
    "\<forall>need. Server a need \<longleftrightarrow> Server (Restrict (UserAccess u) tok) need \<and> cap_permits cap need"
    "SiteScoped a = SiteScoped (Restrict (UserAccess u) tok)"
proof (cases "cap = []")
  case True
  then show ?thesis
    using assms by (intro that [of "Restrict (UserAccess u) tok"])
      (auto simp: request_access_def valid_cap_def cap_permits_def OnSite_Restrict OnSite_UserAccess)
next
  case False
  then obtain a where a: "limitAccess (Restrict (UserAccess u) tok) cap = Some a" "acc = WithPreviews a pv"
    using assms by (auto simp: request_access_def Let_def split: option.splits)
  then have "valid_cap cap" by (auto simp: limitAccess_def valid_cap_def split: if_splits)
  then show ?thesis using a False
    by (intro that [of a])
      (auto simp: limitAccess_OnSite limitAccess_Server SiteScoped_limitAccess cap_permits_def
        OnSite_Restrict OnSite_UserAccess)
qed

lemma request_access_refused:
  "request_access u tok cap pv = Inl e \<longleftrightarrow> \<not> valid_cap cap \<and> e = (400, ''invalid X-NodeHoster-Role-Limit'')"
  by (auto simp: request_access_def Let_def limitAccess_def valid_cap_def split: option.splits if_splits)

text \<open>
  C4. A request on a site passes the guards exactly when the role limit of the header is one
  the code knows, no password change is pending for a session, and three permissions all
  cover the role the route needs on the site (or, for a caller confined to some sites, on
  the site it is a preview of): the user's own role or grant, grants counting as operator at
  most; the token's restriction; the limit of the header. A token or a header can only take
  rights away, and a token that names sites makes the caller at most an operator there.
\<close>

theorem site_request_exact:
  "site_request u tok cap pv mustChange s need = None \<longleftrightarrow>
     valid_cap cap \<and> \<not> (mustChange \<and> tok = None)
     \<and> (\<exists>p. (p = s \<or> confined u tok \<and> s \<in> set (pv p))
            \<and> user_permits u p need \<and> token_permits (UserAccess u) tok p need \<and> cap_permits cap need)"
proof (cases "request_access u tok cap pv")
  case (Inl e)
  then have "\<not> valid_cap cap" by (simp add: request_access_refused)
  with Inl show ?thesis by (simp add: site_request_def)
next
  case (Inr acc)
  let ?R = "Restrict (UserAccess u) tok"
  from Inr obtain a where a: "acc = WithPreviews a pv" "valid_cap cap"
    and on: "\<forall>s need. OnSite a s need \<longleftrightarrow> user_permits u s need \<and> token_permits (UserAccess u) tok s need \<and> cap_permits cap need"
    and "\<forall>need. Server a need \<longleftrightarrow> Server ?R need \<and> cap_permits cap need"
    and sc: "SiteScoped a = SiteScoped ?R"
    by (rule request_access_cases) blast
  have "SiteScoped a \<and> OnSite a p need \<longleftrightarrow> confined u tok \<and> OnSite a p need" for p
    using SiteScoped_Restrict [of u tok] confined_scoped [of u tok] sc on
    by (auto simp: OnSite_Restrict OnSite_UserAccess)
  then have "OnSite acc s need \<longleftrightarrow>
      (\<exists>p. (p = s \<or> confined u tok \<and> s \<in> set (pv p)) \<and> OnSite a p need)"
    unfolding a(1) OnSite_WithPreviews by blast
  then show ?thesis
    using Inr a(2) by (simp add: site_request_def requireSite_None on conj_commute)
qed

section \<open>What is accepted as a user's access\<close>

text \<open>Grants that make sense: on sites, viewer or operator, each site once.\<close>

definition grants_wf :: "role \<Rightarrow> site_grant list \<Rightarrow> bool" where
  "grants_wf r gs =
     (ValidRole r \<and> (r \<noteq> RoleSites \<longrightarrow> gs = []) \<and> distinct (map g_SiteID gs)
      \<and> (\<forall>g\<in>set gs. (g_Role g = RoleViewer \<or> g_Role g = RoleOperator) \<and> g_SiteID g \<noteq> []))"

lemma check_grants_None:
  "check_grants ex i seen gs = None \<longleftrightarrow>
     distinct (map g_SiteID gs) \<and> set (map g_SiteID gs) \<inter> set seen = {}
     \<and> (\<forall>g\<in>set gs. (g_Role g = RoleViewer \<or> g_Role g = RoleOperator) \<and> g_SiteID g \<noteq> [] \<and> ex (g_SiteID g))"
  by (induction gs arbitrary: i seen) (auto simp: Let_def)

lemma CheckUserAccess_None:
  "CheckUserAccess r gs ex = None \<longleftrightarrow>
     grants_wf r gs \<and> (r = RoleSites \<longrightarrow> gs \<noteq> []) \<and> (\<forall>g\<in>set gs. ex (g_SiteID g))"
  by (auto simp: CheckUserAccess_def grants_wf_def check_grants_None)

section \<open>New tokens\<close>

lemma token_sites_Inr:
  "token_sites acc ex i ids xs = Inr ys \<Longrightarrow>
     set ys = set ids \<union> set xs \<and> (distinct ids \<longrightarrow> distinct ys) \<and> (\<forall>x\<in>set xs. ex x \<and> CanSee acc x)"
  by (induction xs arbitrary: i ids) (auto split: if_splits)

lemma tokenRestriction_Inr:
  assumes "tokenRestriction acc ex r ids = Inr (r', sites)"
  shows "r' = r" and "r = [] \<or> role_rank r \<le> role_rank (Highest acc)"
    and "case sites of None \<Rightarrow> ids = []
         | Some ss \<Rightarrow> set ss = set ids \<and> distinct ss \<and> role_rank r \<le> role_rank RoleOperator
                      \<and> (\<forall>s\<in>set ss. ex s \<and> CanSee acc s)"
  using assms
  by (auto simp: tokenRestriction_def Weaker_def role_rank_le not_less dest!: token_sites_Inr
      split: if_splits sum.splits)

end
