(* ===== verification/Accounts.thy ===== *)
theory Accounts
  imports Access
begin

text \<open>
  Users, sessions, API tokens and sign-in: the tables of \<^verbatim>\<open>internal/store/auth.go\<close>, the
  service of \<^verbatim>\<open>internal/auth/auth.go\<close> and \<^verbatim>\<open>internal/auth/sso.go\<close>, and the handlers of
  \<^verbatim>\<open>internal/api/auth.go\<close> with the middleware of \<^verbatim>\<open>internal/api/api.go\<close> before them.

  A table is the list of its rows. A statement of SQLite is one step: its constraints
  (unique names, foreign keys with their cascade) are written out, its failures for other
  reasons are not modelled. Between two statements other requests run; the functions that
  read a user and write it back later are therefore cut where the code does slow work, so
  that the theorems can put other requests in between.

  The record \<^verbatim>\<open>auth_env\<close> holds what the code calls outside: the digest of tokens, bcrypt,
  the box that seals secrets, the generator of time-based codes, the calendar of the
  server's time zone, and what the core knows of sites. The clock, random tokens and new
  identifiers are arguments. The audit log is not modelled.
\<close>

section \<open>The clock, and characters of UTF-8\<close>

definition unix_epoch :: instant where
  "unix_epoch = 62135596800 * second"

definition unix_seconds :: "instant \<Rightarrow> int" where
  "unix_seconds t = (t - unix_epoch) div second"

definition ms :: "instant \<Rightarrow> int" where
  "ms t = (t - unix_epoch) div 1000000"

definition fromMS :: "int \<Rightarrow> instant" where
  "fromMS v = unix_epoch + v * 1000000"

text \<open>\<^verbatim>\<open>utf8.RuneCountInString\<close>: a byte that starts no valid sequence counts as one.\<close>

definition byte_in :: "nat \<Rightarrow> nat \<Rightarrow> string \<Rightarrow> nat \<Rightarrow> bool" where
  "byte_in lo hi s i = (i < length s \<and> lo \<le> of_char (s ! i) \<and> of_char (s ! i) \<le> hi)"

definition rune_size :: "string \<Rightarrow> nat" where
  "rune_size s =
     (if byte_in 0xC2 0xDF s 0 \<and> byte_in 0x80 0xBF s 1 then 2
      else if byte_in 0xE0 0xEF s 0 \<and> byte_in 0x80 0xBF s 2
              \<and> byte_in (if byte_in 0xE0 0xE0 s 0 then 0xA0 else 0x80)
                         (if byte_in 0xED 0xED s 0 then 0x9F else 0xBF) s 1 then 3
      else if byte_in 0xF0 0xF4 s 0 \<and> byte_in 0x80 0xBF s 2 \<and> byte_in 0x80 0xBF s 3
              \<and> byte_in (if byte_in 0xF0 0xF0 s 0 then 0x90 else 0x80)
                         (if byte_in 0xF4 0xF4 s 0 then 0x8F else 0xBF) s 1 then 4
      else 1)"

lemma rune_size_pos: "0 < rune_size s"
  by (simp add: rune_size_def)

function rune_count :: "string \<Rightarrow> nat" where
  "rune_count s = (if s = [] then 0 else Suc (rune_count (drop (rune_size s) s)))"
  by auto

termination
  by (relation "measure length") (auto simp: rune_size_pos)

declare rune_count.simps [simp del]

section \<open>The tables\<close>

record user_record = user +
  usr_MustChange :: bool

record session_row =
  ses_hash :: string
  ses_user :: string
  ses_created :: int
  ses_expires :: int
  ses_ip :: string
  ses_agent :: string

record auth_store =
  as_users :: "user_record list"
  as_sessions :: "session_row list"
  as_tokens :: "api_token list"

definition user_with :: "string \<Rightarrow> user_record \<Rightarrow> bool" where
  "user_with uid u = (usr_ID u = uid)"

definition same_name :: "string \<Rightarrow> user_record \<Rightarrow> bool" where
  "same_name name u = (to_lower (usr_Username u) = to_lower name)"

definition CountUsers :: "auth_store \<Rightarrow> nat" where
  "CountUsers st = length (as_users st)"

definition GetUser :: "string \<Rightarrow> auth_store \<Rightarrow> user_record option" where
  "GetUser uid st = find (user_with uid) (as_users st)"

definition GetUserByName :: "string \<Rightarrow> auth_store \<Rightarrow> user_record option" where
  "GetUserByName name st = find (same_name name) (as_users st)"

text \<open>
  A row as it is read back: times lose what is below a millisecond, and the grants are kept
  for a site-scoped user only.
\<close>

definition user_row :: "user_record \<Rightarrow> user_record" where
  "user_row u = u\<lparr>usr_Sites := (if usr_Role u = RoleSites then usr_Sites u else []),
                   usr_LastLogin := map_option (\<lambda>t. fromMS (ms t)) (usr_LastLogin u),
                   usr_CreatedAt := fromMS (ms (usr_CreatedAt u))\<rparr>"

text \<open>\<^verbatim>\<open>PutUser\<close> inserts or replaces by identifier; \<^term>\<open>None\<close> is \<^verbatim>\<open>username already exists\<close>.\<close>

definition PutUser :: "user_record \<Rightarrow> auth_store \<Rightarrow> auth_store option" where
  "PutUser u st =
     (if (\<exists>v\<in>set (as_users st). usr_ID v \<noteq> usr_ID u \<and> same_name (usr_Username u) v) then None
      else Some (st\<lparr>as_users :=
        (if (\<exists>v\<in>set (as_users st). usr_ID v = usr_ID u)
         then map (\<lambda>v. if usr_ID v = usr_ID u then (user_row u)\<lparr>usr_CreatedAt := usr_CreatedAt v\<rparr> else v)
                (as_users st)
         else as_users st @ [user_row u])\<rparr>))"

definition DeleteUser :: "string \<Rightarrow> auth_store \<Rightarrow> auth_store" where
  "DeleteUser uid st =
     \<lparr>as_users = filter (\<lambda>u. usr_ID u \<noteq> uid) (as_users st),
      as_sessions = filter (\<lambda>r. ses_user r \<noteq> uid) (as_sessions st),
      as_tokens = filter (\<lambda>t. tok_UserID t \<noteq> uid) (as_tokens st)\<rparr>"

definition CreateSession ::
  "instant \<Rightarrow> string \<Rightarrow> string \<Rightarrow> string \<Rightarrow> string \<Rightarrow> instant \<Rightarrow> auth_store \<Rightarrow> auth_store option" where
  "CreateSession now hash userID ip ua expires st =
     (if (\<exists>r\<in>set (as_sessions st). ses_hash r = hash) \<or> GetUser userID st = None then None
      else Some (st\<lparr>as_sessions := as_sessions st @
        [\<lparr>ses_hash = hash, ses_user = userID, ses_created = ms now, ses_expires = ms expires,
          ses_ip = ip, ses_agent = ua\<rparr>]\<rparr>))"

definition DeleteSession :: "string \<Rightarrow> auth_store \<Rightarrow> auth_store" where
  "DeleteSession hash st = st\<lparr>as_sessions := filter (\<lambda>r. ses_hash r \<noteq> hash) (as_sessions st)\<rparr>"

definition SessionUser ::
  "instant \<Rightarrow> string \<Rightarrow> auth_store \<Rightarrow> (user_record \<times> instant) option \<times> auth_store" where
  "SessionUser now hash st =
     (case find (\<lambda>r. ses_hash r = hash) (as_sessions st) of
        None \<Rightarrow> (None, st)
      | Some r \<Rightarrow> (if ms now > ses_expires r then (None, DeleteSession hash st)
                   else (map_option (\<lambda>u. (u, fromMS (ses_expires r))) (GetUser (ses_user r) st), st)))"

definition ExtendSession :: "string \<Rightarrow> instant \<Rightarrow> auth_store \<Rightarrow> auth_store" where
  "ExtendSession hash expires st =
     st\<lparr>as_sessions :=
       map (\<lambda>r. if ses_hash r = hash then r\<lparr>ses_expires := ms expires\<rparr> else r) (as_sessions st)\<rparr>"

definition DeleteUserSessions :: "string \<Rightarrow> string \<Rightarrow> auth_store \<Rightarrow> auth_store" where
  "DeleteUserSessions userID exceptHash st =
     st\<lparr>as_sessions := filter (\<lambda>r. \<not> (ses_user r = userID \<and> ses_hash r \<noteq> exceptHash)) (as_sessions st)\<rparr>"

definition store_CreateToken :: "api_token \<Rightarrow> auth_store \<Rightarrow> auth_store option" where
  "store_CreateToken t st =
     (if (\<exists>t'\<in>set (as_tokens st). tok_ID t' = tok_ID t \<or> tok_Hash t' = tok_Hash t)
         \<or> GetUser (tok_UserID t) st = None then None
      else Some (st\<lparr>as_tokens := as_tokens st @
        [t\<lparr>tok_ExpiresAt := map_option (\<lambda>e. fromMS (ms e)) (tok_ExpiresAt t), tok_LastUsed := None,
           tok_CreatedAt := fromMS (ms (tok_CreatedAt t))\<rparr>]\<rparr>))"

definition TokenByHash :: "string \<Rightarrow> auth_store \<Rightarrow> api_token option" where
  "TokenByHash hash st = find (\<lambda>t. tok_Hash t = hash) (as_tokens st)"

definition TouchToken :: "instant \<Rightarrow> string \<Rightarrow> auth_store \<Rightarrow> auth_store" where
  "TouchToken now tid st =
     st\<lparr>as_tokens :=
       map (\<lambda>t. if tok_ID t = tid then t\<lparr>tok_LastUsed := Some (fromMS (ms now))\<rparr> else t) (as_tokens st)\<rparr>"

definition DeleteToken :: "string \<Rightarrow> string \<Rightarrow> auth_store \<Rightarrow> auth_store option" where
  "DeleteToken userID tid st =
     (if (\<exists>t\<in>set (as_tokens st). tok_ID t = tid \<and> tok_UserID t = userID)
      then Some (st\<lparr>as_tokens := filter (\<lambda>t. \<not> (tok_ID t = tid \<and> tok_UserID t = userID)) (as_tokens st)\<rparr>)
      else None)"


section \<open>The service\<close>

datatype auth_error =
    ErrInvalid | ErrTOTPRequired | ErrTOTPInvalid | ErrLocked | ErrDisabled | ErrTOTPBroken
  | ErrSSOUnknownUser | ErrSSONoRole | ErrSSOBadUsername
  | ErrNotFound | ErrValidation string string | ErrText string

record auth_env =
  x_sha :: "string \<Rightarrow> string"
  x_compare :: "string \<Rightarrow> string \<Rightarrow> bool"
  x_generate :: "string \<Rightarrow> string option"
  x_unseal :: "string \<Rightarrow> string option"
  x_seal :: "string \<Rightarrow> string option"
  x_totp :: "string \<Rightarrow> instant \<Rightarrow> string option"
  x_addDays :: "instant \<Rightarrow> int \<Rightarrow> instant"
  x_site :: "string \<Rightarrow> bool"
  x_previews :: "string \<Rightarrow> string list"

record auth_service =
  sv_store :: auth_store
  sv_failures :: "string \<Rightarrow> instant list"
  sv_totpLastStep :: "string \<Rightarrow> int"

definition auth_New :: "auth_store \<Rightarrow> auth_service" where
  "auth_New st = \<lparr>sv_store = st, sv_failures = (\<lambda>k. []), sv_totpLastStep = (\<lambda>u. 0)\<rparr>"

definition SessionTTL :: duration where
  "SessionTTL = 12 * hour"

definition totpPeriod :: duration where
  "totpPeriod = 30 * second"

text \<open>\<^verbatim>\<open>at.Unix() / int64(totpPeriod/time.Second)\<close>; the quotient truncates.\<close>

definition totp_step :: "instant \<Rightarrow> int" where
  "totp_step t = sgn (unix_seconds t) * (\<bar>unix_seconds t\<bar> div 30)"

text \<open>The loop of \<^verbatim>\<open>totpValid\<close> over the previous, the current and the next step.\<close>

fun totp_try ::
  "auth_env \<Rightarrow> instant \<Rightarrow> string \<Rightarrow> string \<Rightarrow> string \<Rightarrow> int list \<Rightarrow> auth_service
   \<Rightarrow> bool \<times> auth_service" where
  "totp_try x now userID secret code [] s = (False, s)"
| "totp_try x now userID secret code (skew # skews) s =
     (let t = now + skew * totpPeriod in
      case x_totp x secret t of
        None \<Rightarrow> (False, s)
      | Some want \<Rightarrow>
          (if want \<noteq> code then totp_try x now userID secret code skews s
           else if totp_step t \<le> sv_totpLastStep s userID then (False, s)
           else (True, s\<lparr>sv_totpLastStep := (sv_totpLastStep s)(userID := totp_step t)\<rparr>)))"

definition totpValid ::
  "auth_env \<Rightarrow> instant \<Rightarrow> string \<Rightarrow> string \<Rightarrow> string \<Rightarrow> auth_service
   \<Rightarrow> (auth_error + bool) \<times> auth_service" where
  "totpValid x now userID sealed code s =
     (case x_unseal x sealed of
        None \<Rightarrow> (Inl ErrTOTPBroken, s)
      | Some secret \<Rightarrow>
          (if secret = [] then (Inl ErrTOTPBroken, s)
           else apfst Inr (totp_try x now userID secret (filter (\<lambda>c. c \<noteq> CHR '' '') code) [-1, 0, 1] s)))"

definition CheckPasswordPolicy :: "string \<Rightarrow> auth_error option" where
  "CheckPasswordPolicy pw =
     (if rune_count pw < 10 then Some (ErrText ''password must be at least 10 characters'')
      else if length pw > 72 then Some (ErrText ''password must be at most 72 bytes'')
      else None)"

definition HashPassword :: "auth_env \<Rightarrow> string \<Rightarrow> auth_error + string" where
  "HashPassword x pw =
     (case CheckPasswordPolicy pw of
        Some e \<Rightarrow> Inl e
      | None \<Rightarrow> (case x_generate x pw of None \<Rightarrow> Inl (ErrText ''bcrypt'') | Some h \<Rightarrow> Inr h))"

text \<open>Storing a user, with the error of a name that is taken.\<close>

definition put_user :: "user_record \<Rightarrow> auth_service \<Rightarrow> (auth_error + unit) \<times> auth_service" where
  "put_user u s =
     (case PutUser u (sv_store s) of
        None \<Rightarrow> (Inl (ErrText ''username already exists''), s)
      | Some st \<Rightarrow> (Inr (), s\<lparr>sv_store := st\<rparr>))"

definition new_user :: "instant \<Rightarrow> string \<Rightarrow> string \<Rightarrow> role \<Rightarrow> user_record" where
  "new_user now uid name r =
     \<lparr>usr_ID = uid, usr_Username = name, usr_Role = r, usr_Sites = [], usr_PasswordHash = [],
      usr_TOTPSecret = [], usr_TOTPEnabled = False, usr_Disabled = False, usr_LastLogin = None,
      usr_CreatedAt = now, usr_SSO = False, usr_MustChange = False\<rparr>"

definition EnsureAdmin ::
  "auth_env \<Rightarrow> instant \<Rightarrow> string \<Rightarrow> string \<Rightarrow> auth_service \<Rightarrow> (auth_error + string) \<times> auth_service" where
  "EnsureAdmin x now uid pw s =
     (if CountUsers (sv_store s) > 0 then (Inr [], s)
      else case x_generate x pw of
             None \<Rightarrow> (Inl (ErrText ''bcrypt''), s)
           | Some hash \<Rightarrow>
               (case put_user ((new_user now uid ''admin'' RoleAdmin)
                                 \<lparr>usr_PasswordHash := hash, usr_MustChange := True\<rparr>) s of
                  (Inl e, s') \<Rightarrow> (Inl e, s')
                | (Inr _, s') \<Rightarrow> (Inr pw, s')))"

text \<open>\<^verbatim>\<open>%q\<close> of a plain name.\<close>

definition quoted :: "string \<Rightarrow> string" where
  "quoted v = ''\"'' @ v @ ''\"''"

definition ResetPassword ::
  "auth_env \<Rightarrow> string \<Rightarrow> string \<Rightarrow> auth_service \<Rightarrow> (auth_error + string) \<times> auth_service" where
  "ResetPassword x username pw s =
     (case GetUserByName username (sv_store s) of
        None \<Rightarrow> (Inl (ErrText (''user '' @ quoted username @ '' not found'')), s)
      | Some u \<Rightarrow>
          (case x_generate x pw of
             None \<Rightarrow> (Inl (ErrText ''bcrypt''), s)
           | Some hash \<Rightarrow>
               (case put_user (u\<lparr>usr_PasswordHash := hash, usr_MustChange := True, usr_Disabled := False,
                                  usr_TOTPEnabled := False, usr_TOTPSecret := [], usr_SSO := False\<rparr>) s of
                  (Inl e, s') \<Rightarrow> (Inl e, s')
                | (Inr _, s') \<Rightarrow>
                    (Inr pw, s'\<lparr>sv_store := DeleteUserSessions (usr_ID u) [] (sv_store s')\<rparr>))))"

section \<open>Signing in with a password\<close>

definition throttled :: "instant \<Rightarrow> string \<Rightarrow> auth_service \<Rightarrow> bool \<times> auth_service" where
  "throttled now key s =
     (let recent = filter (\<lambda>t. now - 15 * minute < t) (sv_failures s key) in
      (length recent \<ge> 5, s\<lparr>sv_failures := (sv_failures s)(key := recent)\<rparr>))"

definition count_failure :: "instant \<Rightarrow> string \<Rightarrow> auth_service \<Rightarrow> auth_service" where
  "count_failure now key s = s\<lparr>sv_failures := (sv_failures s)(key := sv_failures s key @ [now])\<rparr>"

definition forget_failures :: "string \<Rightarrow> auth_service \<Rightarrow> auth_service" where
  "forget_failures key s = s\<lparr>sv_failures := (sv_failures s)(key := [])\<rparr>"

definition login_key :: "string \<Rightarrow> string \<Rightarrow> string" where
  "login_key ip username = ip @ ''|'' @ to_lower username"

definition newSession ::
  "auth_env \<Rightarrow> instant \<Rightarrow> string \<Rightarrow> user_record \<Rightarrow> string \<Rightarrow> string \<Rightarrow> auth_service
   \<Rightarrow> (auth_error + user_record) \<times> auth_service" where
  "newSession x now token u ip ua s =
     (case CreateSession now (x_sha x token) (usr_ID u) ip ua (now + SessionTTL) (sv_store s) of
        None \<Rightarrow> (Inl (ErrText ''constraint failed''), s)
      | Some st \<Rightarrow>
          (let u' = u\<lparr>usr_LastLogin := Some now\<rparr> in
           (Inr u', snd (put_user u' (s\<lparr>sv_store := st\<rparr>)))))"

text \<open>
  \<^verbatim>\<open>Login\<close> up to the point where the credentials are accepted (\<open>login_check\<close>, which reads the
  user and then compares the password, the slow part) and from there on (\<open>login_finish\<close>).
\<close>

definition login_totp ::
  "auth_env \<Rightarrow> instant \<Rightarrow> string \<Rightarrow> user_record \<Rightarrow> string \<Rightarrow> auth_service
   \<Rightarrow> (auth_error + user_record) \<times> auth_service" where
  "login_totp x now key u code s =
     (if \<not> usr_TOTPEnabled u then (Inr u, s)
      else if code = [] then (Inl ErrTOTPRequired, s)
      else case totpValid x now (usr_ID u) (usr_TOTPSecret u) code s of
             (Inl e, s') \<Rightarrow> (Inl e, s')
           | (Inr ok, s') \<Rightarrow>
               (if ok then (Inr u, s') else (Inl ErrTOTPInvalid, count_failure now key s')))"

definition login_check ::
  "auth_env \<Rightarrow> instant \<Rightarrow> string \<Rightarrow> string \<Rightarrow> string \<Rightarrow> string \<Rightarrow> auth_service
   \<Rightarrow> (auth_error + user_record) \<times> auth_service" where
  "login_check x now username password code ip s =
     (let key = login_key ip username in
      case throttled now key s of
        (True, s1) \<Rightarrow> (Inl ErrLocked, s1)
      | (False, s1) \<Rightarrow>
          (case GetUserByName username (sv_store s1) of
             None \<Rightarrow> (Inl ErrInvalid, count_failure now key s1)
           | Some u \<Rightarrow>
               (if usr_PasswordHash u = [] then (Inl ErrInvalid, count_failure now key s1)
                else if \<not> x_compare x (usr_PasswordHash u) password
                then (Inl ErrInvalid, count_failure now key s1)
                else if usr_Disabled u then (Inl ErrDisabled, s1)
                else login_totp x now key u code s1)))"

definition login_finish ::
  "auth_env \<Rightarrow> instant \<Rightarrow> string \<Rightarrow> string \<Rightarrow> user_record \<Rightarrow> string \<Rightarrow> string \<Rightarrow> auth_service
   \<Rightarrow> (auth_error + user_record) \<times> auth_service" where
  "login_finish x now key token u ip ua s =
     newSession x now token u ip ua (forget_failures key s)"

definition Login ::
  "auth_env \<Rightarrow> instant \<Rightarrow> string \<Rightarrow> string \<Rightarrow> string \<Rightarrow> string \<Rightarrow> string \<Rightarrow> string \<Rightarrow> auth_service
   \<Rightarrow> (auth_error + user_record) \<times> auth_service" where
  "Login x now token username password code ip ua s =
     (case login_check x now username password code ip s of
        (Inl e, s') \<Rightarrow> (Inl e, s')
      | (Inr u, s') \<Rightarrow> login_finish x now (login_key ip username) token u ip ua s')"

section \<open>Sessions, passwords and two-factor codes\<close>

definition Session ::
  "auth_env \<Rightarrow> instant \<Rightarrow> string \<Rightarrow> auth_service \<Rightarrow> (auth_error + user_record) \<times> auth_service" where
  "Session x now token s =
     (if token = [] then (Inl ErrNotFound, s)
      else case SessionUser now (x_sha x token) (sv_store s) of
             (None, st) \<Rightarrow> (Inl ErrNotFound, s\<lparr>sv_store := st\<rparr>)
           | (Some (u, expires), st) \<Rightarrow>
               (if usr_Disabled u then (Inl ErrDisabled, s\<lparr>sv_store := st\<rparr>)
                else if time_sub expires now < SessionTTL div 2
                then (Inr u, s\<lparr>sv_store := ExtendSession (x_sha x token) (now + SessionTTL) st\<rparr>)
                else (Inr u, s\<lparr>sv_store := st\<rparr>)))"

definition SessionAlive ::
  "auth_env \<Rightarrow> instant \<Rightarrow> string \<Rightarrow> auth_service \<Rightarrow> (auth_error + user_record) \<times> auth_service" where
  "SessionAlive x now token s =
     (if token = [] then (Inl ErrNotFound, s)
      else case SessionUser now (x_sha x token) (sv_store s) of
             (None, st) \<Rightarrow> (Inl ErrNotFound, s\<lparr>sv_store := st\<rparr>)
           | (Some (u, expires), st) \<Rightarrow>
               ((if usr_Disabled u then Inl ErrDisabled else Inr u), s\<lparr>sv_store := st\<rparr>))"

definition Logout :: "auth_env \<Rightarrow> string \<Rightarrow> auth_service \<Rightarrow> auth_service" where
  "Logout x token s = s\<lparr>sv_store := DeleteSession (x_sha x token) (sv_store s)\<rparr>"

definition ChangePassword ::
  "auth_env \<Rightarrow> user_record \<Rightarrow> string \<Rightarrow> string \<Rightarrow> string \<Rightarrow> auth_service
   \<Rightarrow> (auth_error + unit) \<times> auth_service" where
  "ChangePassword x u current next_pw keepToken s =
     (if usr_PasswordHash u = []
      then (Inl (ErrText ''this account signs in with single sign-on and has no password; an administrator can set one''), s)
      else if \<not> x_compare x (usr_PasswordHash u) current
      then (Inl (ErrText ''current password is incorrect''), s)
      else if current = next_pw
      then (Inl (ErrText ''choose a password different from the current one''), s)
      else case HashPassword x next_pw of
             Inl e \<Rightarrow> (Inl e, s)
           | Inr hash \<Rightarrow>
               (case put_user (u\<lparr>usr_PasswordHash := hash, usr_MustChange := False\<rparr>) s of
                  (Inl e, s') \<Rightarrow> (Inl e, s')
                | (Inr _, s') \<Rightarrow>
                    (Inr (), s'\<lparr>sv_store := DeleteUserSessions (usr_ID u) (x_sha x keepToken) (sv_store s')\<rparr>)))"

text \<open>\<open>secret\<close> is the key that \<^verbatim>\<open>totp.Generate\<close> makes.\<close>

definition TOTPSetup ::
  "auth_env \<Rightarrow> string \<Rightarrow> user_record \<Rightarrow> auth_service \<Rightarrow> (auth_error + string) \<times> auth_service" where
  "TOTPSetup x secret u s =
     (if usr_TOTPEnabled u
      then (Inl (ErrText ''two-factor authentication is already on; turn it off with a current code first''), s)
      else case x_seal x secret of
             None \<Rightarrow> (Inl (ErrText ''seal''), s)
           | Some sealed \<Rightarrow>
               (case put_user (u\<lparr>usr_TOTPSecret := sealed, usr_TOTPEnabled := False\<rparr>) s of
                  (Inl e, s') \<Rightarrow> (Inl e, s')
                | (Inr _, s') \<Rightarrow> (Inr secret, s')))"

definition TOTPEnable ::
  "auth_env \<Rightarrow> instant \<Rightarrow> user_record \<Rightarrow> string \<Rightarrow> auth_service \<Rightarrow> (auth_error + unit) \<times> auth_service" where
  "TOTPEnable x now u code s =
     (if usr_TOTPSecret u = [] then (Inl (ErrText ''start two-factor setup first''), s)
      else case totpValid x now (usr_ID u) (usr_TOTPSecret u) code s of
             (Inl e, s') \<Rightarrow> (Inl e, s')
           | (Inr ok, s') \<Rightarrow>
               (if \<not> ok then (Inl ErrTOTPInvalid, s')
                else put_user (u\<lparr>usr_TOTPEnabled := True\<rparr>) s'))"

definition TOTPDisable ::
  "auth_env \<Rightarrow> instant \<Rightarrow> user_record \<Rightarrow> string \<Rightarrow> auth_service \<Rightarrow> (auth_error + unit) \<times> auth_service" where
  "TOTPDisable x now u code s =
     (if \<not> usr_TOTPEnabled u then (Inr (), s)
      else case totpValid x now (usr_ID u) (usr_TOTPSecret u) code s of
             (Inl e, s') \<Rightarrow> (Inl e, s')
           | (Inr ok, s') \<Rightarrow>
               (if \<not> ok then (Inl ErrTOTPInvalid, s')
                else put_user (u\<lparr>usr_TOTPEnabled := False, usr_TOTPSecret := []\<rparr>) s'))"

section \<open>API tokens\<close>

text \<open>\<open>raw\<close> is the new token, \<open>nh_\<close> and random characters; \<open>tid\<close> its new identifier.\<close>

definition CreateRestrictedToken ::
  "auth_env \<Rightarrow> instant \<Rightarrow> string \<Rightarrow> string \<Rightarrow> string \<Rightarrow> string \<Rightarrow> int \<Rightarrow> role \<Rightarrow> string list option
   \<Rightarrow> auth_service \<Rightarrow> (auth_error + api_token) \<times> auth_service" where
  "CreateRestrictedToken x now tid raw userID name expiresDays r siteIDs s =
     (let name' = trim_space name in
      if name' = [] then (Inl (ErrText ''give the token a name''), s)
      else let t = \<lparr>tok_ID = tid, tok_UserID = userID, tok_Name = name', tok_Prefix = take 10 raw,
                    tok_Hash = x_sha x raw, tok_Role = r, tok_SiteIDs = siteIDs,
                    tok_ExpiresAt = (if expiresDays > 0 then Some (x_addDays x now expiresDays) else None),
                    tok_LastUsed = None, tok_CreatedAt = now\<rparr> in
        case store_CreateToken t (sv_store s) of
          None \<Rightarrow> (Inl (ErrText ''constraint failed''), s)
        | Some st \<Rightarrow> (Inr t, s\<lparr>sv_store := st\<rparr>))"

definition token_expired :: "instant \<Rightarrow> api_token \<Rightarrow> bool" where
  "token_expired now t = (case tok_ExpiresAt t of None \<Rightarrow> False | Some e \<Rightarrow> e < now)"

definition Token ::
  "auth_env \<Rightarrow> instant \<Rightarrow> string \<Rightarrow> auth_service \<Rightarrow> auth_error + (user_record \<times> api_token)" where
  "Token x now raw s =
     (if take 3 raw \<noteq> ''nh_'' then Inl ErrNotFound
      else case TokenByHash (x_sha x raw) (sv_store s) of
             None \<Rightarrow> Inl ErrNotFound
           | Some t \<Rightarrow>
               (if token_expired now t then Inl (ErrText ''token expired'')
                else case GetUser (tok_UserID t) (sv_store s) of
                       None \<Rightarrow> Inl ErrNotFound
                     | Some u \<Rightarrow> (if usr_Disabled u then Inl ErrDisabled else Inr (u, t))))"

definition TokenAlive :: "instant \<Rightarrow> api_token \<Rightarrow> auth_service \<Rightarrow> auth_error + user_record" where
  "TokenAlive now t s =
     (case TokenByHash (tok_Hash t) (sv_store s) of
        None \<Rightarrow> Inl ErrNotFound
      | Some fresh \<Rightarrow>
          (if token_expired now fresh then Inl (ErrText ''token expired'')
           else if tok_ID fresh \<noteq> tok_ID t \<or> tok_UserID fresh \<noteq> tok_UserID t \<or> tok_Role fresh \<noteq> tok_Role t
                   \<or> tok_SiteIDs fresh \<noteq> tok_SiteIDs t
           then Inl (ErrText ''token changed'')
           else case GetUser (tok_UserID t) (sv_store s) of
                  None \<Rightarrow> Inl ErrNotFound
                | Some u \<Rightarrow> (if usr_Disabled u then Inl ErrDisabled else Inr u)))"


section \<open>Single sign-on\<close>

record sso_role_rule =
  srr_Value :: string
  srr_Role :: role

record sso_settings =
  sso_Enabled :: bool
  sso_Label :: string
  sso_Issuer :: string
  sso_ClientID :: string
  sso_ClientSecret :: string
  sso_Scopes :: "string list"
  sso_UsernameClaim :: string
  sso_DisablePassword :: bool
  sso_AutoCreate :: bool
  sso_DefaultRole :: role
  sso_RoleClaim :: string
  sso_RoleMap :: "sso_role_rule list"

definition PasswordAllowed :: "sso_settings \<Rightarrow> bool" where
  "PasswordAllowed cfg = (\<not> sso_Enabled cfg \<or> \<not> sso_DisablePassword cfg)"

definition MapsRoles :: "sso_settings \<Rightarrow> bool" where
  "MapsRoles cfg = (sso_RoleClaim cfg \<noteq> [] \<and> sso_RoleMap cfg \<noteq> [])"

definition serverRole :: "role \<Rightarrow> bool" where
  "serverRole r = (r = RoleAdmin \<or> r = RoleOperator \<or> r = RoleViewer)"

text \<open>The roles that \<^verbatim>\<open>SSOSettings.Validate\<close> lets a configuration name.\<close>

definition sso_roles_valid :: "sso_settings \<Rightarrow> bool" where
  "sso_roles_valid cfg =
     ((sso_DefaultRole cfg = [] \<or> serverRole (sso_DefaultRole cfg))
      \<and> list_all (\<lambda>r. srr_Value r \<noteq> [] \<and> serverRole (srr_Role r)) (sso_RoleMap cfg)
      \<and> (sso_RoleMap cfg = [] \<or> sso_RoleClaim cfg \<noteq> []))"

record sso_identity =
  si_Username :: string
  si_RoleValues :: "string list"

record sso_result =
  sr_Created :: bool
  sr_RoleChanged :: string
  sr_KeptAdmin :: bool

definition no_sso_result :: sso_result where
  "no_sso_result = \<lparr>sr_Created = False, sr_RoleChanged = [], sr_KeptAdmin = False\<rparr>"

definition ssoFailureKey :: "string \<Rightarrow> string" where
  "ssoFailureKey ip = ip @ ''|#sso''"

definition SSOThrottled :: "instant \<Rightarrow> string \<Rightarrow> auth_service \<Rightarrow> bool \<times> auth_service" where
  "SSOThrottled now ip s = throttled now (ssoFailureKey ip) s"

definition SSOFailed :: "instant \<Rightarrow> string \<Rightarrow> auth_service \<Rightarrow> auth_service" where
  "SSOFailed now ip s = count_failure now (ssoFailureKey ip) s"

definition same_fold :: "string \<Rightarrow> string \<Rightarrow> bool" where
  "same_fold a b = (to_lower a = to_lower b)"

fun mapped_role :: "sso_role_rule list \<Rightarrow> string list \<Rightarrow> role" where
  "mapped_role [] values = []"
| "mapped_role (rule # rules) values =
     (if list_ex (\<lambda>v. same_fold v (srr_Value rule)) values then srr_Role rule
      else mapped_role rules values)"

definition mappedRole :: "sso_settings \<Rightarrow> string list \<Rightarrow> role" where
  "mappedRole cfg values = mapped_role (sso_RoleMap cfg) values"

definition lastAdmin :: "string \<Rightarrow> auth_store \<Rightarrow> bool" where
  "lastAdmin uid st =
     (\<not> list_ex (\<lambda>u. usr_ID u \<noteq> uid \<and> usr_Role u = RoleAdmin \<and> \<not> usr_Disabled u) (as_users st))"

text \<open>\<^verbatim>\<open>SSOLogin\<close> for a name nobody has, then for an existing user, then the whole.\<close>

definition sso_create ::
  "instant \<Rightarrow> string \<Rightarrow> sso_settings \<Rightarrow> sso_identity \<Rightarrow> string \<Rightarrow> auth_service
   \<Rightarrow> (auth_error + (user_record \<times> sso_result)) \<times> auth_service" where
  "sso_create now uid cfg ident key s =
     (if \<not> sso_AutoCreate cfg then (Inl ErrSSOUnknownUser, count_failure now key s)
      else let r = (if MapsRoles cfg then mappedRole cfg (si_RoleValues ident) else []);
               r = (if r = [] then sso_DefaultRole cfg else r);
               n = rune_count (si_Username ident) in
        if r = [] then (Inl ErrSSONoRole, count_failure now key s)
        else if n < 2 \<or> n > 64 then (Inl ErrSSOBadUsername, s)
        else let u = (new_user now uid (si_Username ident) r)\<lparr>usr_SSO := True\<rparr> in
          case put_user u s of
            (Inl e, s') \<Rightarrow> (Inl e, s')
          | (Inr _, s') \<Rightarrow> (Inr (u, no_sso_result\<lparr>sr_Created := True\<rparr>), s'))"

definition sso_existing ::
  "instant \<Rightarrow> sso_settings \<Rightarrow> sso_identity \<Rightarrow> string \<Rightarrow> user_record \<Rightarrow> auth_service
   \<Rightarrow> (auth_error + (user_record \<times> sso_result)) \<times> auth_service" where
  "sso_existing now cfg ident key u s =
     (if usr_Disabled u then (Inl ErrDisabled, s)
      else if \<not> MapsRoles cfg then (Inr (u, no_sso_result), s)
      else let r = mappedRole cfg (si_RoleValues ident);
               r = (if r = [] \<and> usr_Role u \<noteq> RoleSites then sso_DefaultRole cfg else r) in
        if r = [] \<and> usr_Role u \<noteq> RoleSites then (Inl ErrSSONoRole, count_failure now key s)
        else if r \<noteq> [] \<and> r \<noteq> usr_Role u
        then (if usr_Role u = RoleAdmin \<and> lastAdmin (usr_ID u) (sv_store s)
              then (Inr (u, no_sso_result\<lparr>sr_KeptAdmin := True\<rparr>), s)
              else (Inr (u\<lparr>usr_Role := r, usr_Sites := []\<rparr>,
                         no_sso_result\<lparr>sr_RoleChanged := usr_Role u @ '' -> '' @ r\<rparr>), s))
        else (Inr (u, no_sso_result), s))"

definition SSOLogin ::
  "auth_env \<Rightarrow> instant \<Rightarrow> string \<Rightarrow> string \<Rightarrow> sso_settings \<Rightarrow> sso_identity \<Rightarrow> string \<Rightarrow> string
   \<Rightarrow> auth_service \<Rightarrow> (auth_error + (user_record \<times> sso_result)) \<times> auth_service" where
  "SSOLogin x now uid token cfg ident ip ua s =
     (let key = login_key ip (si_Username ident) in
      case throttled now key s of
        (True, s1) \<Rightarrow> (Inl ErrLocked, s1)
      | (False, s1) \<Rightarrow>
          (case (case GetUserByName (si_Username ident) (sv_store s1) of
                   None \<Rightarrow> sso_create now uid cfg ident key s1
                 | Some u \<Rightarrow> sso_existing now cfg ident key u s1) of
             (Inl e, s2) \<Rightarrow> (Inl e, s2)
           | (Inr (u, res), s2) \<Rightarrow>
               (case newSession x now token u ip ua (forget_failures key s2) of
                  (Inl e, s3) \<Rightarrow> (Inl e, s3)
                | (Inr u', s3) \<Rightarrow> (Inr (u', res), s3))))"

section \<open>The handlers of the administration interface\<close>

type_synonym api_response = "nat \<times> string"

fun error_text :: "auth_error \<Rightarrow> string" where
  "error_text ErrInvalid = ''invalid username or password''"
| "error_text ErrTOTPRequired = ''two-factor code required''"
| "error_text ErrTOTPInvalid = ''invalid two-factor code''"
| "error_text ErrLocked = ''too many failed attempts; try again in a few minutes''"
| "error_text ErrDisabled = ''this account is disabled''"
| "error_text ErrTOTPBroken = ''the two-factor secret cannot be read on this server; reset the account with `nodehoster reset-password`''"
| "error_text ErrSSOUnknownUser = ''there is no NodeHoster user with this name''"
| "error_text ErrSSONoRole = ''no role mapping rule matches this user''"
| "error_text ErrSSOBadUsername = ''the user name from the identity provider is not usable (2-64 characters)''"
| "error_text ErrNotFound = ''not found''"
| "error_text (ErrValidation field msg) = msg"
| "error_text (ErrText msg) = msg"

fun fail_response :: "auth_error \<Rightarrow> api_response" where
  "fail_response (ErrValidation field msg) = (422, msg)"
| "fail_response ErrNotFound = (404, ''not found'')"
| "fail_response e = (400, error_text e)"

definition answer_of :: "nat \<Rightarrow> (auth_error + 'a) \<times> auth_service \<Rightarrow> api_response \<times> auth_service" where
  "answer_of ok r = ((case fst r of Inl e \<Rightarrow> fail_response e | Inr _ \<Rightarrow> (ok, [])), snd r)"

text \<open>
  \<^verbatim>\<open>login\<close>, after the body is decoded. The second component is whether the failure is
  recorded against the client's address (\<^verbatim>\<open>Bans.Record\<close>).
\<close>

definition api_login ::
  "auth_env \<Rightarrow> sso_settings \<Rightarrow> instant \<Rightarrow> string \<Rightarrow> string \<Rightarrow> string \<Rightarrow> string \<Rightarrow> string \<Rightarrow> string
   \<Rightarrow> auth_service \<Rightarrow> (api_response \<times> bool) \<times> auth_service" where
  "api_login x cfg now token username password code ip ua s =
     (if \<not> PasswordAllowed cfg
      then (((403, ''password sign-in is turned off; sign in with single sign-on''), False), s)
      else case Login x now token username password code ip ua s of
             (Inl e, s') \<Rightarrow>
               (if e = ErrTOTPRequired then (((401, error_text e), False), s')
                else if e = ErrLocked then (((429, error_text e), True), s')
                else (((401, error_text e), True), s'))
           | (Inr u, s') \<Rightarrow> (((200, []), False), s'))"

record create_user_in =
  cu_Username :: string
  cu_Password :: string
  cu_Role :: role
  cu_Sites :: "site_grant list"
  cu_SSO :: bool

definition new_user_of ::
  "auth_env \<Rightarrow> instant \<Rightarrow> string \<Rightarrow> create_user_in \<Rightarrow> auth_error + user_record" where
  "new_user_of x now uid inp =
     (if length (cu_Username inp) < 2 \<or> length (cu_Username inp) > 64
      then Inl (ErrValidation ''username'' ''2-64 characters'')
      else case CheckUserAccess (cu_Role inp) (cu_Sites inp) (x_site x) of
             Some (f, m) \<Rightarrow> Inl (ErrValidation f m)
           | None \<Rightarrow>
               (let u = (new_user now uid (cu_Username inp) (cu_Role inp))
                          \<lparr>usr_Sites := cu_Sites inp, usr_MustChange := True\<rparr> in
                if cu_SSO inp then Inr (u\<lparr>usr_SSO := True, usr_MustChange := False\<rparr>)
                else case HashPassword x (cu_Password inp) of
                       Inl e \<Rightarrow> Inl (ErrValidation ''password'' (error_text e))
                     | Inr hash \<Rightarrow> Inr (u\<lparr>usr_PasswordHash := hash\<rparr>)))"

definition createUser ::
  "auth_env \<Rightarrow> instant \<Rightarrow> string \<Rightarrow> create_user_in \<Rightarrow> auth_service \<Rightarrow> api_response \<times> auth_service" where
  "createUser x now uid inp s =
     (case new_user_of x now uid inp of
        Inl e \<Rightarrow> (fail_response e, s)
      | Inr u \<Rightarrow>
          (case put_user u s of
             (Inl e, s') \<Rightarrow> (fail_response (ErrValidation ''username'' (error_text e)), s')
           | (Inr _, s') \<Rightarrow> ((201, []), s')))"

record update_user_in =
  uu_Role :: "role option"
  uu_Sites :: "site_grant list option"
  uu_Disabled :: "bool option"
  uu_Password :: "string option"
  uu_ResetTOTP :: bool

definition last_admin_error :: auth_error where
  "last_admin_error = ErrText ''this is the last administrator''"

text \<open>The first block of \<^verbatim>\<open>updateUser\<close>: the role and the grants.\<close>

definition update_access ::
  "auth_env \<Rightarrow> auth_store \<Rightarrow> update_user_in \<Rightarrow> user_record \<Rightarrow> auth_error + user_record" where
  "update_access x st inp u =
     (if uu_Role inp = None \<and> uu_Sites inp = None then Inr u
      else let r = (case uu_Role inp of None \<Rightarrow> usr_Role u | Some r \<Rightarrow> r);
               gs = (case uu_Role inp of None \<Rightarrow> usr_Sites u
                     | Some r \<Rightarrow> if r \<noteq> RoleSites then [] else usr_Sites u);
               gs = (case uu_Sites inp of None \<Rightarrow> gs | Some g \<Rightarrow> g) in
        case CheckUserAccess r gs (x_site x) of
          Some (f, m) \<Rightarrow> Inl (ErrValidation f m)
        | None \<Rightarrow>
            (if r \<noteq> RoleAdmin \<and> usr_Role u = RoleAdmin \<and> lastAdmin (usr_ID u) st
             then Inl last_admin_error
             else Inr (u\<lparr>usr_Role := r, usr_Sites := gs\<rparr>)))"

definition update_disabled ::
  "auth_store \<Rightarrow> update_user_in \<Rightarrow> user_record \<Rightarrow> auth_error + user_record" where
  "update_disabled st inp u =
     (case uu_Disabled inp of
        None \<Rightarrow> Inr u
      | Some d \<Rightarrow>
          (if d \<and> usr_Role u = RoleAdmin \<and> lastAdmin (usr_ID u) st then Inl last_admin_error
           else Inr (u\<lparr>usr_Disabled := d\<rparr>)))"

definition gives_password :: "update_user_in \<Rightarrow> bool" where
  "gives_password inp = (case uu_Password inp of None \<Rightarrow> False | Some pw \<Rightarrow> pw \<noteq> [])"

definition update_password ::
  "auth_env \<Rightarrow> string \<Rightarrow> update_user_in \<Rightarrow> user_record \<Rightarrow> auth_error + user_record" where
  "update_password x me inp u =
     (case uu_Password inp of
        None \<Rightarrow> Inr u
      | Some pw \<Rightarrow>
          (if pw = [] then Inr u
           else case HashPassword x pw of
                  Inl e \<Rightarrow> Inl (ErrValidation ''password'' (error_text e))
                | Inr hash \<Rightarrow>
                    Inr (u\<lparr>usr_PasswordHash := hash, usr_MustChange := (usr_ID u \<noteq> me), usr_SSO := False\<rparr>)))"

text \<open>
  \<^verbatim>\<open>updateUser\<close> up to \<^verbatim>\<open>PutUser\<close>, on the user read before, and from \<^verbatim>\<open>PutUser\<close> on. \<open>me\<close> is the
  identifier of the caller.
\<close>

definition update_decide ::
  "auth_env \<Rightarrow> string \<Rightarrow> update_user_in \<Rightarrow> user_record \<Rightarrow> auth_store \<Rightarrow> auth_error + user_record" where
  "update_decide x me inp u st =
     (case update_access x st inp u of
        Inl e \<Rightarrow> Inl e
      | Inr u1 \<Rightarrow>
          (case update_disabled st inp u1 of
             Inl e \<Rightarrow> Inl e
           | Inr u2 \<Rightarrow>
               (case update_password x me inp u2 of
                  Inl e \<Rightarrow> Inl e
                | Inr u3 \<Rightarrow>
                    Inr (if uu_ResetTOTP inp then u3\<lparr>usr_TOTPEnabled := False, usr_TOTPSecret := []\<rparr>
                         else u3))))"

definition update_commit ::
  "update_user_in \<Rightarrow> user_record \<Rightarrow> auth_service \<Rightarrow> api_response \<times> auth_service" where
  "update_commit inp u s =
     (case put_user u s of
        (Inl e, s') \<Rightarrow> (fail_response e, s')
      | (Inr _, s') \<Rightarrow>
          ((200, []),
           if usr_Disabled u \<or> uu_ResetTOTP inp \<or> gives_password inp
           then s'\<lparr>sv_store := DeleteUserSessions (usr_ID u) [] (sv_store s')\<rparr> else s'))"

definition updateUser ::
  "auth_env \<Rightarrow> string \<Rightarrow> role \<Rightarrow> api_token option \<Rightarrow> string \<Rightarrow> update_user_in \<Rightarrow> auth_service
   \<Rightarrow> api_response \<times> auth_service" where
  "updateUser x me cap tok uid inp s =
     (case (if uid = me then restrictedToken cap tok else None) of
        Some refused \<Rightarrow> (refused, s)
      | None \<Rightarrow>
          (case GetUser uid (sv_store s) of
             None \<Rightarrow> (fail_response ErrNotFound, s)
           | Some u \<Rightarrow>
               (case update_decide x me inp u (sv_store s) of
                  Inl e \<Rightarrow> (fail_response e, s)
                | Inr u' \<Rightarrow> update_commit inp u' s)))"

definition api_deleteUser :: "string \<Rightarrow> string \<Rightarrow> auth_service \<Rightarrow> api_response \<times> auth_service" where
  "api_deleteUser me uid s =
     (if uid = me then (fail_response (ErrText ''you cannot delete your own account''), s)
      else case GetUser uid (sv_store s) of
             None \<Rightarrow> (fail_response ErrNotFound, s)
           | Some u \<Rightarrow>
               (if usr_Role u = RoleAdmin \<and> lastAdmin uid (sv_store s)
                then (fail_response last_admin_error, s)
                else ((204, []), s\<lparr>sv_store := DeleteUser uid (sv_store s)\<rparr>)))"

definition createToken ::
  "auth_env \<Rightarrow> instant \<Rightarrow> string \<Rightarrow> string \<Rightarrow> user_record \<Rightarrow> access \<Rightarrow> string \<Rightarrow> int \<Rightarrow> role \<Rightarrow> string list
   \<Rightarrow> auth_service \<Rightarrow> api_response \<times> auth_service" where
  "createToken x now tid raw u acc name days r ids s =
     (if usr_MustChange u then ((403, ''change your password first''), s)
      else case tokenRestriction acc (x_site x) r ids of
             Inl (f, m) \<Rightarrow> (fail_response (ErrValidation f m), s)
           | Inr (r', sites) \<Rightarrow>
               answer_of 201 (CreateRestrictedToken x now tid raw (usr_ID u) name days r' sites s))"

definition api_deleteToken :: "user_record \<Rightarrow> string \<Rightarrow> auth_service \<Rightarrow> api_response \<times> auth_service" where
  "api_deleteToken u tid s =
     (case DeleteToken (usr_ID u) tid (sv_store s) of
        None \<Rightarrow> (fail_response ErrNotFound, s)
      | Some st \<Rightarrow> ((204, []), s\<lparr>sv_store := st\<rparr>))"


section \<open>Requests\<close>

text \<open>
  What the middleware and these handlers read of a request, with the fresh values it may
  need: a new identifier, a random token and a new two-factor secret.
\<close>

record auth_request =
  ar_now :: instant
  ar_Authorization :: string
  ar_Cookie :: "string option"
  ar_RoleLimit :: role
  ar_RequestedWith :: string
  ar_newID :: string
  ar_random :: string
  ar_secret :: string

definition authenticate ::
  "auth_env \<Rightarrow> auth_request \<Rightarrow> auth_service
   \<Rightarrow> (refusal + (user_record \<times> api_token option \<times> access)) \<times> auth_service" where
  "authenticate x q s =
     (let (found, s1) =
        (if take 7 (ar_Authorization q) = ''Bearer ''
         then (case Token x (ar_now q) (drop 7 (ar_Authorization q)) s of
                 Inl e \<Rightarrow> (None, s) | Inr (u, t) \<Rightarrow> (Some (u, Some t), s))
         else case ar_Cookie q of
                Some ck \<Rightarrow>
                  (case Session x (ar_now q) ck s of
                     (Inl e, s') \<Rightarrow> (None, s') | (Inr u, s') \<Rightarrow> (Some (u, None), s'))
              | None \<Rightarrow> (None, s)) in
      case found of
        None \<Rightarrow> (Inl (401, ''not signed in''), s1)
      | Some (u, tok) \<Rightarrow>
          (case request_access u tok (ar_RoleLimit q) (x_previews x) of
             Inl e \<Rightarrow> (Inl e, s1)
           | Inr acc \<Rightarrow> (Inr (u, tok, acc), s1)))"

datatype account_request =
    ReqLogout
  | ReqPassword string string
  | ReqTOTPSetup
  | ReqTOTPEnable string
  | ReqTOTPDisable string
  | ReqCreateToken string int role "string list"
  | ReqDeleteToken string
  | ReqCreateUser create_user_in
  | ReqUpdateUser string update_user_in
  | ReqDeleteUser string

text \<open>All of them change state (POST, PUT or DELETE), so that a session needs the header.\<close>

definition csrf :: "auth_request \<Rightarrow> api_token option \<Rightarrow> refusal option" where
  "csrf q tok =
     (if tok = None \<and> ar_RequestedWith q \<noteq> ''NodeHoster''
      then Some (403, ''missing X-Requested-With header'') else None)"

fun administers :: "account_request \<Rightarrow> bool" where
  "administers (ReqCreateUser inp) = True"
| "administers (ReqUpdateUser uid inp) = True"
| "administers (ReqDeleteUser uid) = True"
| "administers _ = False"

text \<open>The guard of the group that \<^verbatim>\<open>Handler\<close> and \<^verbatim>\<open>routes\<close> put a request in.\<close>

definition route_guard ::
  "auth_request \<Rightarrow> user_record \<Rightarrow> api_token option \<Rightarrow> access \<Rightarrow> account_request \<Rightarrow> refusal option" where
  "route_guard q u tok acc rq =
     (if rq = ReqLogout then None
      else if administers rq then require RoleAdmin acc (usr_MustChange u) tok
      else restrictedToken (ar_RoleLimit q) tok)"

fun handle ::
  "auth_env \<Rightarrow> auth_request \<Rightarrow> user_record \<Rightarrow> api_token option \<Rightarrow> access \<Rightarrow> account_request
   \<Rightarrow> auth_service \<Rightarrow> api_response \<times> auth_service" where
  "handle x q u tok acc ReqLogout s =
     ((204, []), case ar_Cookie q of None \<Rightarrow> s | Some ck \<Rightarrow> Logout x ck s)"
| "handle x q u tok acc (ReqPassword current next_pw) s =
     answer_of 204 (ChangePassword x u current next_pw (case ar_Cookie q of None \<Rightarrow> [] | Some ck \<Rightarrow> ck) s)"
| "handle x q u tok acc ReqTOTPSetup s = answer_of 200 (TOTPSetup x (ar_secret q) u s)"
| "handle x q u tok acc (ReqTOTPEnable code) s = answer_of 204 (TOTPEnable x (ar_now q) u code s)"
| "handle x q u tok acc (ReqTOTPDisable code) s = answer_of 204 (TOTPDisable x (ar_now q) u code s)"
| "handle x q u tok acc (ReqCreateToken name days r ids) s =
     createToken x (ar_now q) (ar_newID q) (''nh_'' @ ar_random q) u acc name days r ids s"
| "handle x q u tok acc (ReqDeleteToken tid) s = api_deleteToken u tid s"
| "handle x q u tok acc (ReqCreateUser inp) s = createUser x (ar_now q) (ar_newID q) inp s"
| "handle x q u tok acc (ReqUpdateUser uid inp) s =
     updateUser x (usr_ID u) (ar_RoleLimit q) tok uid inp s"
| "handle x q u tok acc (ReqDeleteUser uid) s = api_deleteUser (usr_ID u) uid s"

definition api_request ::
  "auth_env \<Rightarrow> auth_request \<Rightarrow> account_request \<Rightarrow> auth_service \<Rightarrow> api_response \<times> auth_service" where
  "api_request x q rq s =
     (case authenticate x q s of
        (Inl refused, s1) \<Rightarrow> (refused, s1)
      | (Inr (u, tok, acc), s1) \<Rightarrow>
          (case csrf q tok of
             Some refused \<Rightarrow> (refused, s1)
           | None \<Rightarrow>
               (case route_guard q u tok acc rq of
                  Some refused \<Rightarrow> (refused, s1)
                | None \<Rightarrow> handle x q u tok acc rq s1)))"

text \<open>
  The desktop manager comes over the local pipe: \<^verbatim>\<open>localIdentity\<close> makes it an administrator
  that is not stored, and only the routes guarded by a role are mounted there.
\<close>

definition local_user :: "string \<Rightarrow> user_record" where
  "local_user account =
     (new_user 0 (''local:'' @ account) (account @ '' (desktop)'') RoleAdmin)\<lparr>usr_CreatedAt := 0\<rparr>"

definition local_request ::
  "auth_env \<Rightarrow> string \<Rightarrow> auth_request \<Rightarrow> account_request \<Rightarrow> auth_service \<Rightarrow> api_response \<times> auth_service" where
  "local_request x account q rq s =
     (if account = [] then ((401, ''not a local administrator connection''), s)
      else if \<not> administers rq then ((404, ''no such endpoint''), s)
      else handle x q (local_user account) None \<lparr>ac_Role = RoleAdmin, ac_Sites = []\<rparr> rq s)"

text \<open>
  \<^verbatim>\<open>currentAccess\<close>, for a stream opened by the stored user \<open>u\<close> with the token \<open>tok\<close> or a cookie;
  the desktop manager's access is not looked up again.
\<close>

definition currentAccess ::
  "auth_env \<Rightarrow> instant \<Rightarrow> user_record \<Rightarrow> api_token option \<Rightarrow> string option \<Rightarrow> auth_service
   \<Rightarrow> access option \<times> auth_service" where
  "currentAccess x now u tok cookie s =
     (let (fresh, s1) =
        (case tok of
           Some t \<Rightarrow> (case TokenAlive now t s of Inl e \<Rightarrow> (None, s) | Inr v \<Rightarrow> (Some v, s))
         | None \<Rightarrow>
             (case cookie of
                None \<Rightarrow> (None, s)
              | Some ck \<Rightarrow>
                  (case SessionAlive x now ck s of (Inl e, s') \<Rightarrow> (None, s') | (Inr v, s') \<Rightarrow> (Some v, s')))) in
      ((case fresh of
          None \<Rightarrow> None
        | Some v \<Rightarrow>
            (if usr_Disabled v \<or> usr_ID v \<noteq> usr_ID u then None
             else Some (WithPreviews (Restrict (UserAccess v) tok) (x_previews x)))), s1))"

section \<open>The machine\<close>

text \<open>
  Everything that reaches the service: sign-ins, requests, the command line's recovery of a
  password, the first administrator at startup, and the note of a token's last use.
\<close>

datatype auth_event =
    EvLogin sso_settings instant string string string string string string
  | EvSSO sso_settings instant string string sso_identity string string
  | EvSSOFailed instant string
  | EvRequest auth_request account_request
  | EvLocal string auth_request account_request
  | EvReset string string
  | EvEnsureAdmin instant string string
  | EvTouch instant string

fun auth_step :: "auth_env \<Rightarrow> auth_service \<Rightarrow> auth_event \<Rightarrow> auth_service" where
  "auth_step x s (EvLogin cfg now token username password code ip ua) =
     snd (api_login x cfg now token username password code ip ua s)"
| "auth_step x s (EvSSO cfg now uid token ident ip ua) = snd (SSOLogin x now uid token cfg ident ip ua s)"
| "auth_step x s (EvSSOFailed now ip) =
     (case SSOThrottled now ip s of (True, s') \<Rightarrow> s' | (False, s') \<Rightarrow> SSOFailed now ip s')"
| "auth_step x s (EvRequest q rq) = snd (api_request x q rq s)"
| "auth_step x s (EvLocal account q rq) = snd (local_request x account q rq s)"
| "auth_step x s (EvReset username pw) = snd (ResetPassword x username pw s)"
| "auth_step x s (EvEnsureAdmin now uid pw) = snd (EnsureAdmin x now uid pw s)"
| "auth_step x s (EvTouch now tid) = s\<lparr>sv_store := TouchToken now tid (sv_store s)\<rparr>"

end
