(* ===== verification/Accounts_Proofs.thy ===== *)
theory Accounts_Proofs
  imports Accounts
begin

text \<open>
  The tables stay well formed, an enabled administrator stays, rights change only at an
  administrator's hands, failed sign-ins are spaced out and a two-factor code is accepted
  once; and what two requests can do to each other when one runs inside the other.
\<close>

section \<open>The rights of the users\<close>

text \<open>What of a user decides what it may do: identifier, name, role, grants, disabled.\<close>

type_synonym user_rights = "string \<times> string \<times> role \<times> site_grant list \<times> bool"

definition rights_of :: "user_record \<Rightarrow> user_rights" where
  "rights_of u = (usr_ID u, usr_Username u, usr_Role u, usr_Sites u, usr_Disabled u)"

definition rights :: "auth_service \<Rightarrow> user_rights list" where
  "rights s = map rights_of (as_users (sv_store s))"

definition sane_rights :: "user_rights list \<Rightarrow> bool" where
  "sane_rights rs =
     (distinct (map fst rs) \<and> distinct (map (\<lambda>r. to_lower (fst (snd r))) rs)
      \<and> (\<forall>(uid, name, r, gs, d) \<in> set rs. grants_wf r gs))"

definition is_admin :: "user_rights \<Rightarrow> bool" where
  "is_admin w = (case w of (uid, name, r, gs, d) \<Rightarrow> r = RoleAdmin \<and> \<not> d)"

definition admin_in :: "user_rights list \<Rightarrow> bool" where
  "admin_in rs = list_ex is_admin rs"

text \<open>Replacing or adding the rights of one user, as \<^verbatim>\<open>PutUser\<close> does.\<close>

definition put_rights :: "user_rights \<Rightarrow> user_rights list \<Rightarrow> user_rights list" where
  "put_rights w rs =
     (if \<exists>r\<in>set rs. fst r = fst w then map (\<lambda>r. if fst r = fst w then w else r) rs else rs @ [w])"

lemma fst_rights_of [simp]: "fst (rights_of u) = usr_ID u"
  by (simp add: rights_of_def)

lemma user_row_simps [simp]:
  "usr_ID (user_row u) = usr_ID u" "usr_Role (user_row u) = usr_Role u"
  "usr_Disabled (user_row u) = usr_Disabled u"
  by (simp_all add: user_row_def)

lemma rights_of_row [simp]:
  "rights_of (user_row u) =
     (usr_ID u, usr_Username u, usr_Role u, if usr_Role u = RoleSites then usr_Sites u else [], usr_Disabled u)"
  "rights_of (u\<lparr>usr_CreatedAt := c\<rparr>) = rights_of u"
  by (simp_all add: rights_of_def user_row_def)

lemma GetUser_Some: "GetUser uid st = Some u \<Longrightarrow> u \<in> set (as_users st) \<and> usr_ID u = uid"
  by (auto simp: GetUser_def user_with_def find_Some_iff)

lemma GetUser_None: "GetUser uid st = None \<longleftrightarrow> uid \<notin> usr_ID ` set (as_users st)"
  by (auto simp: GetUser_def user_with_def find_None_iff)

lemma GetUserByName_Some: "GetUserByName name st = Some u \<Longrightarrow> u \<in> set (as_users st) \<and> same_name name u"
  by (auto simp: GetUserByName_def find_Some_iff)

lemma ids_rights: "fst ` set (rights s) = usr_ID ` set (as_users (sv_store s))"
  by (force simp: rights_def)

lemma distinct_ids: "sane_rights (rights s) \<Longrightarrow> distinct (map usr_ID (as_users (sv_store s)))"
  by (simp add: sane_rights_def rights_def comp_def)

lemma user_unique:
  assumes "sane_rights (rights s)" "u \<in> set (as_users (sv_store s))" "v \<in> set (as_users (sv_store s))"
    and "usr_ID u = usr_ID v"
  shows "u = v"
  using distinct_ids [OF assms(1)] assms(2-) by (auto simp: distinct_map inj_on_def)

lemma GetUser_in:
  "sane_rights (rights s) \<Longrightarrow> u \<in> set (as_users (sv_store s)) \<Longrightarrow> GetUser (usr_ID u) (sv_store s) = Some u"
  by (cases "GetUser (usr_ID u) (sv_store s)")
    (auto simp: GetUser_None dest!: GetUser_Some intro: user_unique)

section \<open>Storing a user\<close>

lemma put_user_rights:
  "put_user u s = (Inr r, s') \<Longrightarrow> rights s' = put_rights (rights_of (user_row u)) (rights s)"
  by (auto simp: put_user_def PutUser_def rights_def put_rights_def simp del: rights_of_row(1)
      split: option.splits if_splits)

lemma put_user_failed: "put_user u s = (Inl e, s') \<Longrightarrow> s' = s"
  by (auto simp: put_user_def split: option.splits)

lemma put_user_other [simp]:
  "sv_failures (snd (put_user u s)) = sv_failures s"
  "sv_totpLastStep (snd (put_user u s)) = sv_totpLastStep s"
  "as_sessions (sv_store (snd (put_user u s))) = as_sessions (sv_store s)"
  "as_tokens (sv_store (snd (put_user u s))) = as_tokens (sv_store s)"
  by (auto simp: put_user_def PutUser_def split: option.splits)

lemma put_rights_same: "distinct (map fst rs) \<Longrightarrow> w \<in> set rs \<Longrightarrow> put_rights w rs = rs"
  by (force simp: put_rights_def distinct_map inj_on_def intro!: map_idI)

text \<open>A user written back with the rights it is stored with changes nobody's rights.\<close>

lemma put_user_same_rights:
  assumes "sane_rights (rights s)" "u \<in> set (as_users (sv_store s))" "rights_of w = rights_of u"
  shows "rights (snd (put_user w s)) = rights s"
proof (cases "put_user w s")
  case (Pair r s')
  have "rights_of u \<in> set (rights s)" using assms(2) by (simp add: rights_def)
  moreover have "grants_wf (usr_Role u) (usr_Sites u)"
    using calculation assms(1) by (fastforce simp: sane_rights_def rights_of_def)
  then have "rights_of (user_row w) = rights_of u"
    using assms(3) by (auto simp: rights_of_def user_row_def grants_wf_def)
  ultimately show ?thesis
    using Pair assms(1) put_rights_same [of "rights s" "rights_of u"]
    by (cases r) (auto dest: put_user_rights put_user_failed simp: sane_rights_def)
qed


section \<open>What the operations do to the users\<close>

lemma rights_cong: "as_users (sv_store s) = as_users (sv_store s') \<Longrightarrow> rights s = rights s'"
  by (simp add: rights_def)

lemma store_users [simp]:
  "as_users (DeleteSession h st) = as_users st"
  "as_users (ExtendSession h e st) = as_users st"
  "as_users (DeleteUserSessions i h st) = as_users st"
  "as_users (TouchToken now tid st) = as_users st"
  by (simp_all add: DeleteSession_def ExtendSession_def DeleteUserSessions_def TouchToken_def)

lemma service_users [simp]:
  "sv_store (snd (throttled now k s)) = sv_store s"
  "sv_store (count_failure now k s) = sv_store s"
  "sv_store (forget_failures k s) = sv_store s"
  "as_users (sv_store (Logout x tk s)) = as_users (sv_store s)"
  by (simp_all add: throttled_def count_failure_def forget_failures_def Let_def Logout_def)

lemma totp_try_store: "sv_store (snd (totp_try x now i sec code ks s)) = sv_store s"
  by (induction ks) (auto simp: Let_def split: option.splits)

lemma totpValid_store [simp]: "sv_store (snd (totpValid x now i sec code s)) = sv_store s"
  by (auto simp: totpValid_def totp_try_store simp del: totp_try.simps split: option.splits)

lemma totpValid_storeD: "totpValid x now i sec code s = (r, s') \<Longrightarrow> sv_store s' = sv_store s"
  using totpValid_store [of x now i sec code s] by simp

lemma throttled_storeD: "throttled now k s = (b, s') \<Longrightarrow> sv_store s' = sv_store s"
  using service_users(1) [of now k s] by simp

lemma rights_update [simp]:
  "rights (s\<lparr>sv_failures := f\<rparr>) = rights s" "rights (s\<lparr>sv_totpLastStep := g\<rparr>) = rights s"
  by (simp_all add: rights_def)

lemma CreateSession_users: "CreateSession now h i ip ua e st = Some st' \<Longrightarrow> as_users st' = as_users st"
  by (auto simp: CreateSession_def split: if_splits)

lemma store_CreateToken_users: "store_CreateToken t st = Some st' \<Longrightarrow> as_users st' = as_users st"
  by (auto simp: store_CreateToken_def split: if_splits)

lemma DeleteToken_users: "DeleteToken i t st = Some st' \<Longrightarrow> as_users st' = as_users st"
  by (auto simp: DeleteToken_def split: if_splits)

lemma login_check_store [simp]:
  "sv_store (snd (login_check x now n p c ip s)) = sv_store s"
proof -
  have totp: "sv_store (snd (login_totp x now k u c s1)) = sv_store s1" for k u s1
    by (auto simp: login_totp_def dest: totpValid_storeD split: prod.splits sum.splits)
  show ?thesis
    by (auto simp: login_check_def Let_def totp dest: throttled_storeD split: prod.splits option.splits bool.splits)
qed

lemma login_check_user:
  assumes "login_check x now n p c ip s = (Inr u, s')"
  shows "u \<in> set (as_users (sv_store s)) \<and> same_name n u \<and> \<not> usr_Disabled u
         \<and> usr_PasswordHash u \<noteq> [] \<and> x_compare x (usr_PasswordHash u) p"
proof -
  have totp: "login_totp x now k v c s1 = (Inr u, s') \<Longrightarrow> v = u" for k v s1
    by (auto simp: login_totp_def split: prod.splits sum.splits if_splits)
  show ?thesis
    using assms
    by (auto simp: login_check_def Let_def dest!: totp GetUserByName_Some throttled_storeD
        split: prod.splits option.splits bool.splits if_splits)
qed

lemma newSession_rights:
  assumes "sane_rights (rights s)" "u \<in> set (as_users (sv_store s))" "rights_of w = rights_of u"
  shows "rights (snd (newSession x now tk w ip ua s)) = rights s"
proof (cases "CreateSession now (x_sha x tk) (usr_ID w) ip ua (now + SessionTTL) (sv_store s)")
  case None
  then show ?thesis by (simp add: newSession_def)
next
  case (Some st)
  let ?s = "s\<lparr>sv_store := st\<rparr>"
  have "rights ?s = rights s" "u \<in> set (as_users (sv_store ?s))"
    using CreateSession_users [OF Some] assms(2) by (simp_all add: rights_def)
  then show ?thesis
    using assms Some put_user_same_rights [of ?s u "w\<lparr>usr_LastLogin := Some now\<rparr>"]
    by (simp add: newSession_def Let_def rights_of_def)
qed

lemma Login_rights:
  assumes "sane_rights (rights s)"
  shows "rights (snd (Login x now tk n p c ip ua s)) = rights s"
proof (cases "login_check x now n p c ip s")
  case (Pair r s')
  have st: "sv_store s' = sv_store s" using login_check_store [of x now n p c ip s] Pair by simp
  show ?thesis
  proof (cases r)
    case (Inl e)
    then show ?thesis using Pair st by (simp add: Login_def rights_def)
  next
    case (Inr u)
    let ?s = "forget_failures (login_key ip n) s'"
    have "rights ?s = rights s" "u \<in> set (as_users (sv_store ?s))"
      using st login_check_user Pair Inr by (force simp: rights_def)+
    then show ?thesis
      using assms newSession_rights [of ?s u u] Pair Inr by (simp add: Login_def login_finish_def)
  qed
qed


lemma SessionUser_users: "SessionUser now h st = (r, st') \<Longrightarrow> as_users st' = as_users st"
  by (auto simp: SessionUser_def split: option.splits if_splits)

lemma SessionUser_Some:
  "SessionUser now h st = (Some (u, e), st') \<Longrightarrow> u \<in> set (as_users st)"
  by (auto simp: SessionUser_def dest: GetUser_Some split: option.splits if_splits)

lemma Session_users: "Session x now tk s = (r, s') \<Longrightarrow> as_users (sv_store s') = as_users (sv_store s)"
  by (auto simp: Session_def dest: SessionUser_users split: prod.splits option.splits if_splits)

lemma Session_Inr:
  "Session x now tk s = (Inr u, s') \<Longrightarrow> u \<in> set (as_users (sv_store s)) \<and> \<not> usr_Disabled u"
  by (auto simp: Session_def dest: SessionUser_Some split: prod.splits option.splits if_splits)

lemma Token_Inr:
  "Token x now raw s = Inr (u, t) \<Longrightarrow>
     u \<in> set (as_users (sv_store s)) \<and> \<not> usr_Disabled u \<and> t \<in> set (as_tokens (sv_store s))
     \<and> tok_UserID t = usr_ID u"
  by (auto simp: Token_def TokenByHash_def find_Some_iff dest!: GetUser_Some split: option.splits if_splits)

lemma authenticate_users:
  "authenticate x q s = (r, s') \<Longrightarrow> as_users (sv_store s') = as_users (sv_store s)"
  by (auto simp: authenticate_def Let_def dest: Session_users
      split: prod.splits option.splits sum.splits if_splits)

lemma authenticate_Inr:
  "authenticate x q s = (Inr (u, tok, acc), s') \<Longrightarrow>
     u \<in> set (as_users (sv_store s)) \<and> \<not> usr_Disabled u
     \<and> request_access u tok (ar_RoleLimit q) (x_previews x) = Inr acc"
  by (auto simp: authenticate_def Let_def dest: Session_Inr Token_Inr
      split: prod.splits option.splits sum.splits if_splits)

lemma answer_of_snd [simp]: "snd (answer_of n r) = snd r"
  by (simp add: answer_of_def)

text \<open>The account endpoints act on the caller's own user and leave everyone's rights alone.\<close>

lemma put_same_rights_cases:
  assumes "sane_rights (rights s)" "u \<in> set (as_users (sv_store s))" "put_user w s = (r, s')"
    and "rights_of w = rights_of u"
  shows "rights s' = rights s"
  using put_user_same_rights [OF assms(1,2,4)] assms(3) by simp

lemma rights_ChangePassword:
  assumes "sane_rights (rights s)" "u \<in> set (as_users (sv_store s))"
  shows "rights (snd (ChangePassword x u cur nx keep s)) = rights s"
  using put_same_rights_cases [OF assms]
  by (auto simp: ChangePassword_def rights_of_def rights_def split: sum.splits prod.splits)

lemma rights_TOTPSetup:
  assumes "sane_rights (rights s)" "u \<in> set (as_users (sv_store s))"
  shows "rights (snd (TOTPSetup x sec u s)) = rights s"
  using put_same_rights_cases [OF assms]
  by (auto simp: TOTPSetup_def rights_of_def split: option.splits sum.splits prod.splits)

lemma rights_after_totp:
  assumes "totpValid x now i sec code s = (r, s')" "sane_rights (rights s)" "u \<in> set (as_users (sv_store s))"
    and "rights_of w = rights_of u"
  shows "rights s' = rights s \<and> rights (snd (put_user w s')) = rights s"
  using totpValid_storeD [OF assms(1)] put_user_same_rights [of s' u w] assms(2-)
  by (simp add: rights_def)

lemma rights_TOTPEnable:
  assumes "sane_rights (rights s)" "u \<in> set (as_users (sv_store s))"
  shows "rights (snd (TOTPEnable x now u code s)) = rights s"
  using rights_after_totp [OF _ assms, of x now "usr_ID u" "usr_TOTPSecret u" code]
  by (auto simp: TOTPEnable_def rights_of_def split: sum.splits prod.splits)

lemma rights_TOTPDisable:
  assumes "sane_rights (rights s)" "u \<in> set (as_users (sv_store s))"
  shows "rights (snd (TOTPDisable x now u code s)) = rights s"
  using rights_after_totp [OF _ assms, of x now "usr_ID u" "usr_TOTPSecret u" code]
  by (auto simp: TOTPDisable_def rights_of_def split: sum.splits prod.splits)

lemma rights_createToken: "rights (snd (createToken x now tid raw u acc nm d r ids s)) = rights s"
  by (auto simp: createToken_def CreateRestrictedToken_def Let_def rights_def dest: store_CreateToken_users
      split: sum.splits option.splits)

lemma rights_deleteToken: "rights (snd (api_deleteToken u tid s)) = rights s"
  by (auto simp: api_deleteToken_def rights_def dest: DeleteToken_users split: option.splits)

lemma handle_account_rights:
  assumes "sane_rights (rights s)" "u \<in> set (as_users (sv_store s))" "\<not> administers rq"
  shows "rights (snd (handle x q u tok acc rq s)) = rights s"
  using assms
  by (cases rq)
    (auto simp: rights_ChangePassword rights_TOTPSetup rights_TOTPEnable rights_TOTPDisable
      rights_createToken rights_deleteToken intro: rights_cong split: option.splits)

text \<open>A request is refused, changing at most sessions, or handled for an enabled user.\<close>

lemma api_request_cases [consumes 0, case_names refused handled]:
  obtains "as_users (sv_store (snd (api_request x q rq s))) = as_users (sv_store s)"
  | u tok acc s1 where "authenticate x q s = (Inr (u, tok, acc), s1)" "u \<in> set (as_users (sv_store s1))"
      "\<not> usr_Disabled u" "request_access u tok (ar_RoleLimit q) (x_previews x) = Inr acc"
      "csrf q tok = None" "route_guard q u tok acc rq = None"
      "as_users (sv_store s1) = as_users (sv_store s)"
      "snd (api_request x q rq s) = snd (handle x q u tok acc rq s1)"
proof (cases "authenticate x q s")
  case (Pair r s1)
  note users = authenticate_users [OF Pair]
  show ?thesis
  proof (cases r)
    case (Inl e)
    then show ?thesis using that(1) Pair users by (simp add: api_request_def)
  next
    case (Inr b)
    obtain u tok acc where b: "b = (u, tok, acc)" by (cases b)
    show ?thesis
    proof (cases "csrf q tok = None \<and> route_guard q u tok acc rq = None")
      case True
      then have "snd (api_request x q rq s) = snd (handle x q u tok acc rq s1)"
        using Pair Inr b by (simp add: api_request_def)
      then show ?thesis
        using that(2) [of u tok acc s1] True Pair Inr b users authenticate_Inr [of x q s u tok acc s1] by simp
    next
      case False
      then show ?thesis using that(1) Pair Inr b users by (auto simp: api_request_def split: option.splits)
    qed
  qed
qed

section \<open>The handlers for users\<close>

lemma is_admin_rights [simp]: "is_admin (rights_of u) = (usr_Role u = RoleAdmin \<and> \<not> usr_Disabled u)"
  by (simp add: is_admin_def rights_of_def)

lemma is_admin_row: "is_admin (rights_of (user_row u)) = (usr_Role u = RoleAdmin \<and> \<not> usr_Disabled u)"
  by (simp add: user_row_def)

lemma lastAdmin_rights:
  "lastAdmin uid (sv_store s) \<longleftrightarrow> \<not> (\<exists>r\<in>set (rights s). fst r \<noteq> uid \<and> is_admin r)"
  by (auto simp: lastAdmin_def rights_def list_ex_iff)

lemma admin_in_put:
  "is_admin w \<or> (\<exists>r\<in>set rs. fst r \<noteq> fst w \<and> is_admin r) \<Longrightarrow> admin_in (put_rights w rs)"
  by (auto simp: admin_in_def put_rights_def list_ex_iff)

lemma distinct_map_replace:
  assumes "distinct (map fst rs)" "distinct (map g rs)" "\<forall>r\<in>set rs. fst r \<noteq> i \<longrightarrow> g r \<noteq> c"
  shows "distinct (map (\<lambda>r. if fst r = i then c else g r) rs)"
proof -
  have "inj_on fst (set rs)" "inj_on g (set rs)" "distinct rs"
    using assms(1,2) by (simp_all add: distinct_map)
  moreover have "inj_on (\<lambda>r. if fst r = i then c else g r) (set rs)"
  proof (rule inj_onI)
    fix p q assume in_rs: "p \<in> set rs" "q \<in> set rs"
      and eq: "(if fst p = i then c else g p) = (if fst q = i then c else g q)"
    have "fst p = fst q \<or> g p = g q" using assms(3) in_rs eq by (auto split: if_splits)
    then show "p = q" using calculation(1,2) in_rs by (auto dest: inj_onD)
  qed
  ultimately show ?thesis by (simp add: distinct_map)
qed

lemma sane_rightsI:
  "distinct (map fst rs) \<Longrightarrow> distinct (map (\<lambda>r. to_lower (fst (snd r))) rs)
   \<Longrightarrow> (\<And>uid name r gs d. (uid, name, r, gs, d) \<in> set rs \<Longrightarrow> grants_wf r gs) \<Longrightarrow> sane_rights rs"
  by (auto simp: sane_rights_def)

lemma sane_rightsD:
  assumes "sane_rights rs"
  shows "distinct (map fst rs)" "distinct (map (\<lambda>r. to_lower (fst (snd r))) rs)"
    and "(uid, name, r, gs, d) \<in> set rs \<Longrightarrow> grants_wf r gs"
  using assms by (auto simp: sane_rights_def)

lemma sane_put:
  assumes "sane_rights rs" "\<forall>r\<in>set rs. fst r \<noteq> uid \<longrightarrow> to_lower (fst (snd r)) \<noteq> to_lower name"
    and "grants_wf ro gs"
  shows "sane_rights (put_rights (uid, name, ro, gs, d) rs)"
proof (cases "\<exists>r\<in>set rs. fst r = uid")
  case True
  let ?w = "(uid, name, ro, gs, d)"
  let ?f = "\<lambda>r. if fst r = uid then ?w else r"
  have put: "put_rights ?w rs = map ?f rs" using True by (simp add: put_rights_def)
  have "map fst (map ?f rs) = map fst rs" by simp
  moreover have "map (\<lambda>r. to_lower (fst (snd r))) (map ?f rs)
      = map (\<lambda>r. if fst r = uid then to_lower name else to_lower (fst (snd r))) rs" by simp
  moreover have "grants_wf r' gs'" if "(uid', name', r', gs', d') \<in> set (map ?f rs)" for uid' name' r' gs' d'
    using that assms(1,3) by (auto dest: sane_rightsD(3) split: if_splits)
  ultimately show ?thesis
    unfolding put using distinct_map_replace [OF sane_rightsD(1,2) [OF assms(1)] assms(2)]
      sane_rightsD(1) [OF assms(1)]
    by (intro sane_rightsI) (simp_all only:)
next
  case False
  then have put: "put_rights (uid, name, ro, gs, d) rs = rs @ [(uid, name, ro, gs, d)]"
    by (simp add: put_rights_def)
  show ?thesis
    unfolding put
  proof (rule sane_rightsI)
    show "distinct (map fst (rs @ [(uid, name, ro, gs, d)]))"
      using False sane_rightsD(1) [OF assms(1)] by auto
    show "distinct (map (\<lambda>r. to_lower (fst (snd r))) (rs @ [(uid, name, ro, gs, d)]))"
      using False assms(2) sane_rightsD(2) [OF assms(1)] by fastforce
  qed (use assms(1,3) in \<open>auto dest: sane_rightsD(3)\<close>)
qed

lemma put_user_sane:
  assumes "sane_rights (rights s)" "grants_wf (usr_Role w) (if usr_Role w = RoleSites then usr_Sites w else [])"
  shows "sane_rights (rights (snd (put_user w s)))"
proof (cases "put_user w s")
  case (Pair r s')
  show ?thesis
  proof (cases r)
    case (Inl e)
    then show ?thesis using Pair put_user_failed assms(1) by force
  next
    case (Inr b)
    have "\<forall>v\<in>set (as_users (sv_store s)). usr_ID v \<noteq> usr_ID w \<longrightarrow> \<not> same_name (usr_Username w) v"
      using Pair Inr by (auto simp: put_user_def PutUser_def split: option.splits if_splits)
    then have "\<forall>r\<in>set (rights s). fst r \<noteq> usr_ID w \<longrightarrow> to_lower (fst (snd r)) \<noteq> to_lower (usr_Username w)"
      by (auto simp: rights_def rights_of_def same_name_def)
    then show ?thesis
      using sane_put [OF assms(1) _ assms(2)] put_user_rights Pair Inr by simp
  qed
qed

lemma rights_in: "u \<in> set (as_users (sv_store s)) \<Longrightarrow> rights_of u \<in> set (rights s)"
  by (simp add: rights_def)

lemma stored_grants: "sane_rights (rights s) \<Longrightarrow> u \<in> set (as_users (sv_store s)) \<Longrightarrow> grants_wf (usr_Role u) (usr_Sites u)"
  using rights_in [of u s] by (fastforce simp: sane_rights_def rights_of_def)

text \<open>Writing back a stored user: administrators remain if it stays one or there is another.\<close>

lemma put_user_admin:
  assumes "sane_rights (rights s)" "admin_in (rights s)" "u \<in> set (as_users (sv_store s))" "usr_ID w = usr_ID u"
    and keep: "usr_Role u = RoleAdmin \<and> \<not> usr_Disabled u
               \<Longrightarrow> (usr_Role w = RoleAdmin \<and> \<not> usr_Disabled w) \<or> \<not> lastAdmin (usr_ID u) (sv_store s)"
  shows "admin_in (rights (snd (put_user w s)))"
proof (cases "put_user w s")
  case (Pair r s')
  show ?thesis
  proof (cases r)
    case (Inl e)
    then show ?thesis using Pair put_user_failed assms(2) by force
  next
    case (Inr b)
    obtain v where v: "v \<in> set (as_users (sv_store s))" "is_admin (rights_of v)"
      using assms(2) by (auto simp: admin_in_def list_ex_iff rights_def)
    have "is_admin (rights_of (user_row w)) \<or> (\<exists>r\<in>set (rights s). fst r \<noteq> usr_ID w \<and> is_admin r)"
    proof (cases "usr_ID v = usr_ID u")
      case True
      then have "v = u" using user_unique assms(1,3) v(1) by blast
      then show ?thesis using keep v(2) assms(4) by (auto simp: lastAdmin_rights is_admin_row simp del: rights_of_row)
    next
      case False
      then show ?thesis using v assms(4) rights_in [OF v(1)] by (intro disjI2 bexI [of _ "rights_of v"]) simp_all
    qed
    then show ?thesis
      using admin_in_put [of "rights_of (user_row w)" "rights s"] put_user_rights Pair Inr by simp
  qed
qed

lemma update_access_Inr:
  assumes "update_access x st inp u = Inr u1"
  shows "usr_ID u1 = usr_ID u \<and> usr_Username u1 = usr_Username u \<and> usr_Disabled u1 = usr_Disabled u
    \<and> (grants_wf (usr_Role u) (usr_Sites u) \<longrightarrow> grants_wf (usr_Role u1) (usr_Sites u1))
    \<and> (usr_Role u = RoleAdmin \<longrightarrow> usr_Role u1 = RoleAdmin \<or> \<not> lastAdmin (usr_ID u) st)"
  using assms
  by (auto simp: update_access_def Let_def CheckUserAccess_None split: if_splits option.splits)

lemma update_disabled_Inr:
  "update_disabled st inp u = Inr u2 \<Longrightarrow>
     usr_ID u2 = usr_ID u \<and> usr_Username u2 = usr_Username u \<and> usr_Role u2 = usr_Role u \<and> usr_Sites u2 = usr_Sites u
     \<and> (usr_Disabled u2 \<noteq> usr_Disabled u \<longrightarrow> uu_Disabled inp = Some (usr_Disabled u2))
     \<and> (usr_Role u = RoleAdmin \<and> \<not> usr_Disabled u \<longrightarrow> \<not> usr_Disabled u2 \<or> \<not> lastAdmin (usr_ID u) st)"
  by (auto simp: update_disabled_def split: option.splits if_splits)

lemma update_password_Inr:
  "update_password x me inp u = Inr u3 \<Longrightarrow> rights_of u3 = rights_of u"
  by (auto simp: update_password_def rights_of_def split: option.splits if_splits sum.splits)

lemma update_decide_Inr:
  assumes "update_decide x me inp u st = Inr w"
  shows "usr_ID w = usr_ID u" and "usr_Username w = usr_Username u"
    and "grants_wf (usr_Role u) (usr_Sites u) \<Longrightarrow> grants_wf (usr_Role w) (usr_Sites w)"
    and "usr_Disabled w \<noteq> usr_Disabled u \<Longrightarrow> uu_Disabled inp = Some (usr_Disabled w)"
    and "usr_Role u = RoleAdmin \<and> \<not> usr_Disabled u \<Longrightarrow>
         (usr_Role w = RoleAdmin \<and> \<not> usr_Disabled w) \<or> \<not> lastAdmin (usr_ID u) st"
proof -
  obtain u1 u2 u3 where steps: "update_access x st inp u = Inr u1" "update_disabled st inp u1 = Inr u2"
      "update_password x me inp u2 = Inr u3"
    and w: "rights_of w = rights_of u3"
    using assms by (auto simp: update_decide_def rights_of_def split: sum.splits)
  note facts = update_access_Inr [OF steps(1)] update_disabled_Inr [OF steps(2)]
  have r: "rights_of w = rights_of u2" using w update_password_Inr [OF steps(3)] by simp
  then have eqs: "usr_ID w = usr_ID u2" "usr_Username w = usr_Username u2" "usr_Role w = usr_Role u2"
    "usr_Sites w = usr_Sites u2" "usr_Disabled w = usr_Disabled u2"
    by (simp_all add: rights_of_def)
  show "usr_ID w = usr_ID u" "usr_Username w = usr_Username u"
    using facts eqs by simp_all
  show "grants_wf (usr_Role u) (usr_Sites u) \<Longrightarrow> grants_wf (usr_Role w) (usr_Sites w)"
    using facts eqs by simp
  show "usr_Disabled w \<noteq> usr_Disabled u \<Longrightarrow> uu_Disabled inp = Some (usr_Disabled w)"
    using facts eqs by simp
  show "usr_Role u = RoleAdmin \<and> \<not> usr_Disabled u \<Longrightarrow>
         (usr_Role w = RoleAdmin \<and> \<not> usr_Disabled w) \<or> \<not> lastAdmin (usr_ID u) st"
    using facts eqs by auto
qed


section \<open>Administrators remain\<close>

definition account_inv :: "auth_service \<Rightarrow> bool" where
  "account_inv s = (sane_rights (rights s) \<and> admin_in (rights s))"

lemma account_inv_cong: "rights s' = rights s \<Longrightarrow> account_inv s \<Longrightarrow> account_inv s'"
  by (simp add: account_inv_def)

text \<open>The row of a user has grants that make sense.\<close>

definition row_wf :: "user_record \<Rightarrow> bool" where
  "row_wf w = grants_wf (usr_Role w) (if usr_Role w = RoleSites then usr_Sites w else [])"

lemma row_wf_simps [simp]:
  "row_wf (w\<lparr>usr_LastLogin := v\<rparr>) = row_wf w" "row_wf (w\<lparr>usr_SSO := b\<rparr>) = row_wf w"
  "row_wf (w\<lparr>usr_Disabled := b\<rparr>) = row_wf w" "row_wf (w\<lparr>usr_MustChange := b\<rparr>) = row_wf w"
  "row_wf (w\<lparr>usr_PasswordHash := h\<rparr>) = row_wf w" "row_wf (w\<lparr>usr_TOTPSecret := h\<rparr>) = row_wf w"
  "row_wf (w\<lparr>usr_TOTPEnabled := b\<rparr>) = row_wf w"
  by (simp_all add: row_wf_def)

lemma row_wfI: "grants_wf (usr_Role w) (usr_Sites w) \<Longrightarrow> row_wf w"
  by (auto simp: row_wf_def grants_wf_def)

lemma row_wf_stored: "account_inv s \<Longrightarrow> u \<in> set (as_users (sv_store s)) \<Longrightarrow> row_wf u"
  using stored_grants by (auto simp: account_inv_def intro: row_wfI)

lemma row_wf_role: "serverRole r \<Longrightarrow> row_wf (u\<lparr>usr_Role := r, usr_Sites := []\<rparr>)"
  by (rule row_wfI) (auto simp: serverRole_def grants_wf_def ValidRole_def)

lemma put_user_inv:
  assumes "account_inv s" "u \<in> set (as_users (sv_store s))" "usr_ID w = usr_ID u"
    and "row_wf w"
    and "usr_Role u = RoleAdmin \<and> \<not> usr_Disabled u
         \<Longrightarrow> (usr_Role w = RoleAdmin \<and> \<not> usr_Disabled w) \<or> \<not> lastAdmin (usr_ID u) (sv_store s)"
  shows "account_inv (snd (put_user w s))"
  using assms put_user_sane put_user_admin by (auto simp: account_inv_def row_wf_def)

lemma put_new_user_inv:
  assumes "account_inv s" "usr_ID w \<notin> usr_ID ` set (as_users (sv_store s))"
    and "row_wf w"
  shows "account_inv (snd (put_user w s))"
proof (cases "put_user w s")
  case (Pair r s')
  have other: "fst r \<noteq> usr_ID w" if "r \<in> set (rights s)" for r
    using that assms(2) ids_rights [of s] by (metis imageI)
  have "admin_in (put_rights (rights_of (user_row w)) (rights s))"
    using assms(1) other by (intro admin_in_put) (auto simp: account_inv_def admin_in_def list_ex_iff)
  then show ?thesis
    using Pair assms put_user_sane [of s w] put_user_rights [of w s] put_user_failed [of w s]
    by (cases r) (auto simp: account_inv_def row_wf_def)
qed

lemma newSession_cases:
  obtains "snd (newSession x now tk w ip ua s) = s"
  | s1 where "as_users (sv_store s1) = as_users (sv_store s)"
      "snd (newSession x now tk w ip ua s) = snd (put_user (w\<lparr>usr_LastLogin := Some now\<rparr>) s1)"
proof (cases "CreateSession now (x_sha x tk) (usr_ID w) ip ua (now + SessionTTL) (sv_store s)")
  case None
  then show ?thesis using that(1) by (simp add: newSession_def)
next
  case (Some st)
  then show ?thesis
    using that(2) [of "s\<lparr>sv_store := st\<rparr>"] CreateSession_users [OF Some] by (simp add: newSession_def Let_def)
qed

lemma mapped_role_valid:
  "list_all (\<lambda>r. srr_Value r \<noteq> [] \<and> serverRole (srr_Role r)) rules \<Longrightarrow>
     mapped_role rules vs = [] \<or> serverRole (mapped_role rules vs)"
  by (induction rules) auto

lemma serverRole_wf: "serverRole r \<Longrightarrow> r \<noteq> RoleSites \<and> grants_wf r []"
  by (auto simp: serverRole_def grants_wf_def ValidRole_def role_defs)

lemma users_throttled: "throttled now k s = (b, s') \<Longrightarrow> rights s' = rights s"
  by (auto dest: throttled_storeD simp: rights_def)

lemma newSession_inv:
  assumes "account_inv s" "u \<in> set (as_users (sv_store s))" "usr_ID w = usr_ID u"
    and "row_wf w"
    and "usr_Role u = RoleAdmin \<and> \<not> usr_Disabled u
         \<Longrightarrow> (usr_Role w = RoleAdmin \<and> \<not> usr_Disabled w) \<or> \<not> lastAdmin (usr_ID u) (sv_store s)"
  shows "account_inv (snd (newSession x now tk w ip ua s))"
proof (rule newSession_cases [of x now tk w ip ua s])
  fix s1 assume s1: "as_users (sv_store s1) = as_users (sv_store s)"
    and run: "snd (newSession x now tk w ip ua s) = snd (put_user (w\<lparr>usr_LastLogin := Some now\<rparr>) s1)"
  have "account_inv s1" using assms(1) rights_cong [OF s1] by (simp add: account_inv_def)
  moreover have "lastAdmin (usr_ID u) (sv_store s1) = lastAdmin (usr_ID u) (sv_store s)"
    using s1 by (simp add: lastAdmin_def)
  ultimately show ?thesis
    unfolding run using assms s1 by (intro put_user_inv [of s1 u]) simp_all
qed (use assms(1) in simp)

lemma put_user_stored:
  "put_user u s = (Inr r, s') \<Longrightarrow>
     \<exists>v\<in>set (as_users (sv_store s')). usr_ID v = usr_ID u \<and> usr_Role v = usr_Role u
       \<and> usr_Disabled v = usr_Disabled u"
proof -
  assume "put_user u s = (Inr r, s')"
  then have "rights_of (user_row u) \<in> set (rights s')"
    by (simp only: put_user_rights) (auto simp: put_rights_def simp del: rights_of_row)
  then obtain v where "v \<in> set (as_users (sv_store s'))" "rights_of v = rights_of (user_row u)"
    by (auto simp: rights_def simp del: rights_of_row)
  then show ?thesis by (intro bexI [of _ v]) (simp_all add: rights_of_def)
qed

lemma newSession_user: "newSession x now tk w ip ua s = (Inr v, s') \<Longrightarrow> usr_ID v = usr_ID w"
  by (auto simp: newSession_def Let_def split: option.splits)

lemma mappedRole_valid: "sso_roles_valid cfg \<Longrightarrow> mappedRole cfg vs = [] \<or> serverRole (mappedRole cfg vs)"
  by (simp add: mappedRole_def sso_roles_valid_def mapped_role_valid)

abbreviation sso_user :: "instant \<Rightarrow> string \<Rightarrow> sso_identity \<Rightarrow> role \<Rightarrow> user_record" where
  "sso_user now uid ident r \<equiv> (new_user now uid (si_Username ident) r)\<lparr>usr_SSO := True\<rparr>"

lemma sso_create_cases [consumes 1, case_names refused created]:
  assumes "sso_create now uid cfg ident key s = (r, s')"
  obtains e where "r = Inl e" "s' = s \<or> s' = count_failure now key s"
  | r0 res where "r = Inr (sso_user now uid ident r0, res)" "put_user (sso_user now uid ident r0) s = (Inr (), s')"
      "sso_roles_valid cfg \<longrightarrow> serverRole r0"
proof -
  define r0 where "r0 = (if (if MapsRoles cfg then mappedRole cfg (si_RoleValues ident) else []) = []
    then sso_DefaultRole cfg else (if MapsRoles cfg then mappedRole cfg (si_RoleValues ident) else []))"
  define u0 where "u0 = sso_user now uid ident r0"
  have r0: "sso_roles_valid cfg \<longrightarrow> r0 = [] \<or> serverRole r0"
    using mappedRole_valid [of cfg "si_RoleValues ident"] by (auto simp: sso_roles_valid_def r0_def)
  note run = assms [unfolded sso_create_def Let_def, folded r0_def, folded u0_def]
  obtain y sp where put: "put_user u0 s = (y, sp)" by (cases "put_user u0 s")
  have "(\<exists>e. r = Inl e) \<and> (s' = s \<or> s' = count_failure now key s)
      \<or> (y = Inr () \<and> s' = sp \<and> r0 \<noteq> [] \<and> (\<exists>res. r = Inr (u0, res)))"
    using run [unfolded put] put_user_failed [of u0 s] put by (cases y) (auto split: if_splits)
  then show ?thesis
    using that r0 put unfolding u0_def by blast
qed

lemma sso_existing_cases [consumes 1, case_names refused kept mapped]:
  assumes "sso_existing now cfg ident key u s = (r, s')"
  obtains e where "r = Inl e" "s' = s \<or> s' = count_failure now key s"
  | res where "r = Inr (u, res)" "s' = s" "\<not> usr_Disabled u"
  | r0 res where "r = Inr (u\<lparr>usr_Role := r0, usr_Sites := []\<rparr>, res)" "s' = s" "\<not> usr_Disabled u"
      "sso_roles_valid cfg \<longrightarrow> serverRole r0" "usr_Role u = RoleAdmin \<longrightarrow> \<not> lastAdmin (usr_ID u) (sv_store s)"
proof -
  define r0 where "r0 = (if mappedRole cfg (si_RoleValues ident) = [] \<and> usr_Role u \<noteq> RoleSites
    then sso_DefaultRole cfg else mappedRole cfg (si_RoleValues ident))"
  have r0: "sso_roles_valid cfg \<longrightarrow> r0 = [] \<or> serverRole r0"
    using mappedRole_valid [of cfg "si_RoleValues ident"] by (auto simp: sso_roles_valid_def r0_def)
  note run = assms [unfolded sso_existing_def Let_def, folded r0_def]
  define w0 where "w0 = u\<lparr>usr_Role := r0, usr_Sites := []\<rparr>"
  have "(\<exists>e. r = Inl e) \<and> (s' = s \<or> s' = count_failure now key s)
      \<or> (\<exists>res. r = Inr (u, res)) \<and> s' = s \<and> \<not> usr_Disabled u
      \<or> (\<exists>res. r = Inr (w0, res)) \<and> s' = s \<and> \<not> usr_Disabled u \<and> r0 \<noteq> []
         \<and> (usr_Role u = RoleAdmin \<longrightarrow> \<not> lastAdmin (usr_ID u) (sv_store s))"
    using run [folded w0_def] by (auto split: if_splits)
  then show ?thesis using that r0 unfolding w0_def by blast
qed

text \<open>A single sign-on is refused, or ends in a session of a user that it created or found.\<close>

lemma SSOLogin_cases [consumes 3, case_names refused created found]:
  assumes "SSOLogin x now uid tk cfg ident ip ua s = (r, s')" "key = login_key ip (si_Username ident)"
    and "s1 = snd (throttled now key s)"
  obtains e where "r = Inl e" "s' = s1 \<or> s' = count_failure now key s1"
  | r0 s2 where "put_user (sso_user now uid ident r0) s1 = (Inr (), s2)" "sso_roles_valid cfg \<longrightarrow> serverRole r0"
      "s' = snd (newSession x now tk (sso_user now uid ident r0) ip ua (forget_failures key s2))"
      "\<forall>v res. r = Inr (v, res) \<longrightarrow> usr_ID v = uid"
  | u w where "u \<in> set (as_users (sv_store s1))" "usr_ID w = usr_ID u" "\<not> usr_Disabled u"
      "sso_roles_valid cfg \<and> row_wf u \<longrightarrow> row_wf w"
      "usr_Role u = RoleAdmin \<longrightarrow> (usr_Role w = RoleAdmin \<and> \<not> usr_Disabled w) \<or> \<not> lastAdmin (usr_ID u) (sv_store s1)"
      "s' = snd (newSession x now tk w ip ua (forget_failures key s1))"
      "\<forall>v res. r = Inr (v, res) \<longrightarrow> usr_ID v = usr_ID u"
proof (cases "throttled now key s")
  case (Pair b s0)
  then have s0: "s0 = s1" using assms(3) by simp
  define prov where "prov = (case GetUserByName (si_Username ident) (sv_store s1) of
      None \<Rightarrow> sso_create now uid cfg ident key s1 | Some u \<Rightarrow> sso_existing now cfg ident key u s1)"
  obtain rp s2 where prov2: "prov = (rp, s2)" by (cases prov)
  note run = assms(1) [unfolded SSOLogin_def Let_def, folded assms(2), unfolded Pair s0, simplified,
      folded prov_def, unfolded prov2]
  note refuse = that(1) and create = that(2) and find_user = that(3)
  have finish: "s' = snd (newSession x now tk w ip ua (forget_failures key s2))
      \<and> (\<forall>v res'. r = Inr (v, res') \<longrightarrow> usr_ID v = usr_ID w)" if "\<not> b" "rp = Inr (w, res)" for w res
    using run that by (auto dest: newSession_user split: prod.splits sum.splits)
  show ?thesis
  proof (cases b)
    case True
    then show ?thesis using run by (intro refuse [of ErrLocked]) auto
  next
    case b: False
    have stop: "r = Inl e \<and> s' = s2" if "rp = Inl e" for e using run b that by simp
    show ?thesis
    proof (cases "GetUserByName (si_Username ident) (sv_store s1)")
      case None
      then have "sso_create now uid cfg ident key s1 = (rp, s2)" using prov2 by (simp add: prov_def)
      then show ?thesis
      proof (cases rule: sso_create_cases)
        case (refused e)
        then show ?thesis using refuse stop by blast
      next
        case (created r0 res)
        then show ?thesis using finish [OF b created(1)] by (intro create [of r0 s2]) (simp_all add: new_user_def)
      qed
    next
      case (Some u)
      have u: "u \<in> set (as_users (sv_store s1))" using GetUserByName_Some [OF Some] by simp
      have "sso_existing now cfg ident key u s1 = (rp, s2)" using prov2 Some by (simp add: prov_def)
      then show ?thesis
      proof (cases rule: sso_existing_cases)
        case (refused e)
        then show ?thesis using refuse stop by blast
      next
        case (kept res)
        note fin = finish [OF b kept(1)]
        show ?thesis
        proof (rule find_user [of u u])
          show "s' = snd (newSession x now tk u ip ua (forget_failures key s1))" using fin kept(2) by simp
          show "\<forall>v res. r = Inr (v, res) \<longrightarrow> usr_ID v = usr_ID u" using fin by blast
        qed (use kept(3) u in simp_all)
      next
        case (mapped r0 res)
        note fin = finish [OF b mapped(1)]
        show ?thesis
        proof (rule find_user [of u "u\<lparr>usr_Role := r0, usr_Sites := []\<rparr>"])
          show "sso_roles_valid cfg \<and> row_wf u \<longrightarrow> row_wf (u\<lparr>usr_Role := r0, usr_Sites := []\<rparr>)"
            using mapped(4) row_wf_role by blast
          show "s' = snd (newSession x now tk (u\<lparr>usr_Role := r0, usr_Sites := []\<rparr>) ip ua (forget_failures key s1))"
            using fin mapped(2) by simp
          have "usr_ID (u\<lparr>usr_Role := r0, usr_Sites := []\<rparr>) = usr_ID u" by simp
          then show "\<forall>v res. r = Inr (v, res) \<longrightarrow> usr_ID v = usr_ID u" using fin by metis
        qed (use mapped u in simp_all)
      qed
    qed
  qed
qed

lemma account_inv_forget [simp]: "account_inv (forget_failures k s) = account_inv s"
  by (simp add: account_inv_def rights_def)

lemma SSOLogin_inv:
  assumes "account_inv s" "uid \<notin> usr_ID ` set (as_users (sv_store s))" "sso_roles_valid cfg"
  shows "account_inv (snd (SSOLogin x now uid tk cfg ident ip ua s))"
proof -
  define key where "key = login_key ip (si_Username ident)"
  define s1 where "s1 = snd (throttled now key s)"
  have s1: "account_inv s1" "uid \<notin> usr_ID ` set (as_users (sv_store s1))"
    using assms(1,2) by (simp_all add: s1_def account_inv_def rights_def)
  obtain r s' where run: "SSOLogin x now uid tk cfg ident ip ua s = (r, s')"
    by (cases "SSOLogin x now uid tk cfg ident ip ua s")
  from run key_def s1_def have "account_inv s'"
  proof (cases rule: SSOLogin_cases)
    case (refused e)
    then show ?thesis using s1(1) by (auto simp: account_inv_def rights_def)
  next
    case (created r0 s2)
    then have "row_wf (sso_user now uid ident r0)"
      using assms(3) by (intro row_wfI) (auto simp: new_user_def dest: serverRole_wf)
    moreover from this have "account_inv s2"
      using put_new_user_inv [OF s1(1), of "sso_user now uid ident r0"] s1(2) created(1) by (simp add: new_user_def)
    moreover obtain v where "v \<in> set (as_users (sv_store s2))" "usr_ID v = uid" "usr_Role v = r0" "\<not> usr_Disabled v"
      using put_user_stored [OF created(1)] by (auto simp: new_user_def)
    ultimately show ?thesis unfolding created(3) by (intro newSession_inv [of _ v]) (simp_all add: new_user_def)
  next
    case (found u w)
    show ?thesis
      unfolding found(6)
      by (rule newSession_inv [of _ u])
        (use found s1(1) assms(3) row_wf_stored [OF s1(1) found(1)] in \<open>simp_all add: lastAdmin_def\<close>)
  qed
  then show ?thesis using run by simp
qed

lemma createUser_inv:
  assumes "account_inv s" "uid \<notin> usr_ID ` set (as_users (sv_store s))"
  shows "account_inv (snd (createUser x now uid inp s))"
proof (cases "new_user_of x now uid inp")
  case (Inl e)
  then show ?thesis using assms(1) by (simp add: createUser_def)
next
  case (Inr w)
  then have "usr_ID w = uid \<and> grants_wf (usr_Role w) (usr_Sites w)"
    by (auto simp: new_user_of_def new_user_def Let_def CheckUserAccess_None split: if_splits option.splits sum.splits)
  then have "account_inv (snd (put_user w s))"
    using assms row_wfI by (intro put_new_user_inv) simp_all
  then show ?thesis using Inr by (auto simp: createUser_def split: prod.splits sum.splits)
qed

lemma updateUser_inv:
  assumes "account_inv s"
  shows "account_inv (snd (updateUser x me cap tok uid inp s))"
proof -
  have "account_inv (snd (update_commit inp w s))"
    if "GetUser uid (sv_store s) = Some u" "update_decide x me inp u (sv_store s) = Inr w" for u w
  proof -
    have u: "u \<in> set (as_users (sv_store s))" using GetUser_Some that(1) by blast
    have wf: "row_wf w" using update_decide_Inr(3) [OF that(2)] stored_grants u assms
      by (auto simp: account_inv_def intro: row_wfI)
    have "account_inv (snd (put_user w s))"
      using put_user_inv [OF assms u update_decide_Inr(1) [OF that(2)] wf update_decide_Inr(5) [OF that(2)]] .
    then show ?thesis by (auto simp: update_commit_def account_inv_def rights_def split: prod.splits sum.splits)
  qed
  then show ?thesis
    using assms by (auto simp: updateUser_def split: option.splits sum.splits)
qed

lemma deleteUser_inv:
  assumes "account_inv s"
  shows "account_inv (snd (api_deleteUser me uid s))"
proof -
  let ?s = "s\<lparr>sv_store := DeleteUser uid (sv_store s)\<rparr>"
  have r: "rights ?s = filter (\<lambda>r. fst r \<noteq> uid) (rights s)"
    by (simp add: rights_def DeleteUser_def filter_map comp_def)
  have sane: "sane_rights (rights ?s)"
    using assms unfolding r account_inv_def sane_rights_def by (auto simp: distinct_map inj_on_def)
  have "admin_in (rights ?s)"
    if u: "GetUser uid (sv_store s) = Some u" and keep: "\<not> (usr_Role u = RoleAdmin \<and> lastAdmin uid (sv_store s))" for u
  proof -
    obtain v where v: "v \<in> set (as_users (sv_store s))" "is_admin (rights_of v)"
      using assms by (auto simp: account_inv_def admin_in_def list_ex_iff rights_def)
    have "\<exists>r\<in>set (rights s). fst r \<noteq> uid \<and> is_admin r"
    proof (cases "usr_ID v = uid")
      case True
      then have "v = u" using user_unique [of s v u] v(1) assms GetUser_Some [OF u] by (simp add: account_inv_def)
      then show ?thesis using keep v(2) by (auto simp: lastAdmin_rights)
    next
      case False
      then show ?thesis using v rights_in [OF v(1)] by (intro bexI [of _ "rights_of v"]) simp_all
    qed
    then obtain w where "w \<in> set (rights s)" "fst w \<noteq> uid" "is_admin w" by blast
    then show ?thesis unfolding r admin_in_def list_ex_iff by (intro bexI [of _ w]) simp_all
  qed
  then show ?thesis
    using assms sane by (auto simp: api_deleteUser_def account_inv_def split: option.splits)
qed


text \<open>New identifiers are new, and configurations of single sign-on have been validated.\<close>

fun auth_ok :: "auth_service \<Rightarrow> auth_event \<Rightarrow> bool" where
  "auth_ok s (EvSSO cfg now uid token ident ip ua) = (sso_roles_valid cfg \<and> GetUser uid (sv_store s) = None)"
| "auth_ok s (EvRequest q rq) = (GetUser (ar_newID q) (sv_store s) = None)"
| "auth_ok s (EvLocal account q rq) = (GetUser (ar_newID q) (sv_store s) = None)"
| "auth_ok s _ = True"

lemma handle_inv:
  assumes "account_inv s" "administers rq" "GetUser (ar_newID q) (sv_store s) = None"
  shows "account_inv (snd (handle x q u tok acc rq s))"
  using assms by (cases rq) (auto simp: createUser_inv updateUser_inv deleteUser_inv GetUser_None)

lemma api_request_inv:
  assumes "account_inv s" "GetUser (ar_newID q) (sv_store s) = None"
  shows "account_inv (snd (api_request x q rq s))"
proof (cases x q rq s rule: api_request_cases)
  case refused
  then show ?thesis using assms(1) by (simp add: account_inv_def rights_def)
next
  case (handled u tok acc s1)
  have s1: "account_inv s1" "GetUser (ar_newID q) (sv_store s1) = None"
    using assms handled(7) by (simp_all add: account_inv_def rights_def GetUser_def)
  show ?thesis
  proof (cases "administers rq")
    case True
    then show ?thesis using handle_inv s1 handled(8) by simp
  next
    case False
    then show ?thesis
      using handle_account_rights [OF _ handled(2) False] s1(1) handled(8) by (simp add: account_inv_def)
  qed
qed

lemma account_inv_sessions [simp]:
  "account_inv (s\<lparr>sv_store := DeleteUserSessions i h (sv_store s)\<rparr>) = account_inv s"
  by (simp add: account_inv_def rights_def)

lemma put_user_case: "put_user w s = (r, s') \<Longrightarrow> account_inv (snd (put_user w s)) \<Longrightarrow> account_inv s'"
  by simp

lemma ResetPassword_inv:
  assumes "account_inv s"
  shows "account_inv (snd (ResetPassword x n pw s))"
proof -
  have "account_inv (snd (put_user (u\<lparr>usr_PasswordHash := h, usr_MustChange := True, usr_Disabled := False,
          usr_TOTPEnabled := False, usr_TOTPSecret := [], usr_SSO := False\<rparr>) s))"
    if "GetUserByName n (sv_store s) = Some u" for u h
    using assms GetUserByName_Some [OF that] row_wf_stored by (intro put_user_inv [of s u]) auto
  note put = put_user_case [OF _ this]
  show ?thesis
  proof (cases "GetUserByName n (sv_store s)")
    case (Some u)
    then show ?thesis
      using put assms by (auto simp: ResetPassword_def split: option.splits prod.splits sum.splits)
  qed (use assms in \<open>simp add: ResetPassword_def\<close>)
qed

lemma auth_step_inv:
  assumes "account_inv s" "auth_ok s e"
  shows "account_inv (auth_step x s e)"
proof (cases e)
  case (EvLogin cfg now tk n p c ip ua)
  have "snd (api_login x cfg now tk n p c ip ua s) = s
      \<or> snd (api_login x cfg now tk n p c ip ua s) = snd (Login x now tk n p c ip ua s)"
    by (auto simp: api_login_def split: prod.splits sum.splits)
  then show ?thesis
    using EvLogin assms(1) Login_rights by (auto simp: account_inv_def)
next
  case (EvSSO cfg now uid tk ident ip ua)
  then show ?thesis using assms SSOLogin_inv by (auto simp: GetUser_None)
next
  case (EvSSOFailed now ip)
  then show ?thesis
    using assms(1) by (auto simp: SSOThrottled_def SSOFailed_def account_inv_def rights_def
        dest: throttled_storeD split: prod.splits bool.splits)
next
  case (EvRequest q rq)
  then show ?thesis using assms api_request_inv by simp
next
  case (EvLocal account q rq)
  then show ?thesis using assms handle_inv by (auto simp: local_request_def)
next
  case (EvReset n pw)
  then show ?thesis using assms ResetPassword_inv by simp
next
  case (EvEnsureAdmin now uid pw)
  have "CountUsers (sv_store s) > 0"
    using assms(1) by (auto simp: account_inv_def admin_in_def CountUsers_def rights_def)
  then show ?thesis using EvEnsureAdmin assms(1) by (simp add: EnsureAdmin_def)
next
  case (EvTouch now tid)
  then show ?thesis using assms(1) by (simp add: account_inv_def rights_def)
qed

interpretation accounts: invariant_machine "auth_step x" auth_ok account_inv for x
  by unfold_locales (rule auth_step_inv)

end
