(* ===== verification/Account_Claims.thy ===== *)
theory Account_Claims
  imports Accounts_Proofs
begin

text \<open>
  What holds of accounts and sign-in whatever happens, one request at a time: who can change
  rights, that a disabled account stays out, how fast passwords can be guessed, that a
  two-factor code counts once. And what one request can undo that runs inside another.
\<close>

section \<open>Administrators\<close>

lemma account_invI:
  "sane_rights (rights s) \<Longrightarrow> \<exists>u\<in>set (as_users (sv_store s)). usr_Role u = RoleAdmin \<and> \<not> usr_Disabled u
   \<Longrightarrow> account_inv s"
  by (auto simp: account_inv_def admin_in_def rights_def list_ex_iff)

text \<open>A service with an administrator and an operator, and what happens to it.\<close>

definition sample_env :: auth_env where
  "sample_env =
     \<lparr>x_sha = (\<lambda>t. CHR ''h'' # t), x_compare = (\<lambda>h pw. h = CHR ''#'' # pw), x_generate = (\<lambda>pw. Some (CHR ''#'' # pw)),
      x_unseal = Some, x_seal = Some,
      x_totp = (\<lambda>secret t. Some (if totp_step t mod 2 = 0 then ''111111'' else ''222222'')),
      x_addDays = (\<lambda>t d. t + d * 24 * hour), x_site = (\<lambda>i. True), x_previews = (\<lambda>i. [])\<rparr>"

definition person :: "string \<Rightarrow> role \<Rightarrow> user_record" where
  "person uid r = (new_user unix_epoch uid uid r)\<lparr>usr_PasswordHash := ''#pw''\<rparr>"

definition sample_time :: instant where
  "sample_time = unix_epoch + 3600 * second"

definition sample_service :: auth_service where
  "sample_service = auth_New \<lparr>as_users = [person ''root'' RoleAdmin, person ''bob'' RoleOperator],
     as_sessions = [], as_tokens = []\<rparr>"

definition no_sso :: sso_settings where
  "no_sso = \<lparr>sso_Enabled = False, sso_Label = [], sso_Issuer = [], sso_ClientID = [], sso_ClientSecret = [],
     sso_Scopes = [], sso_UsernameClaim = [], sso_DisablePassword = False, sso_AutoCreate = False,
     sso_DefaultRole = [], sso_RoleClaim = [], sso_RoleMap = []\<rparr>"

definition sample_login :: "string \<Rightarrow> auth_event" where
  "sample_login name = EvLogin no_sso sample_time name name ''pw'' [] ''10.0.0.1'' []"

definition sample_request :: "string \<Rightarrow> auth_request" where
  "sample_request cookie = \<lparr>ar_now = sample_time, ar_Authorization = [], ar_Cookie = Some cookie, ar_RoleLimit = [],
     ar_RequestedWith = ''NodeHoster'', ar_newID = ''new'', ar_random = ''r'', ar_secret = ''s''\<rparr>"

definition no_change :: update_user_in where
  "no_change = \<lparr>uu_Role = None, uu_Sites = None, uu_Disabled = None, uu_Password = None, uu_ResetTOTP = False\<rparr>"

definition sample_events :: "auth_event list" where
  "sample_events =
     [sample_login ''root'', sample_login ''bob'',
      EvRequest (sample_request ''root'') (ReqUpdateUser ''root'' (no_change\<lparr>uu_Role := Some RoleViewer\<rparr>)),
      EvRequest (sample_request ''bob'') (ReqDeleteUser ''root''),
      EvLocal ''DESKTOP'' (sample_request []) (ReqUpdateUser ''root'' (no_change\<lparr>uu_Disabled := Some True\<rparr>))]"

lemma sample_sane: "sane_rights (rights sample_service)"
  by code_simp

lemma sample_admin: "\<exists>u\<in>set (as_users (sv_store sample_service)). usr_Role u = RoleAdmin \<and> \<not> usr_Disabled u"
  by code_simp

lemma sample_run: "run_ok (auth_step sample_env) auth_ok sample_service sample_events"
  by code_simp

text \<open>
  C35. While the service handles its requests one at a time, there is always an administrator
  who is not disabled: after any sequence of sign-ins, single sign-ons with a validated
  configuration, requests of whatever rights, requests from the desktop manager and password
  resets from the command line, some enabled user has the role admin.
\<close>

theorem administrator_remains:
  assumes "sane_rights (rights s)" "\<exists>u\<in>set (as_users (sv_store s)). usr_Role u = RoleAdmin \<and> \<not> usr_Disabled u"
    and "run_ok (auth_step x) auth_ok s es"
  shows "\<exists>u\<in>set (as_users (sv_store (foldl (auth_step x) s es))). usr_Role u = RoleAdmin \<and> \<not> usr_Disabled u"
proof -
  have "account_inv (foldl (auth_step x) s es)"
    using account_invI [OF assms(1,2)] assms(3) by (rule accounts.run_keeps)
  then show ?thesis by (auto simp: account_inv_def admin_in_def rights_def list_ex_iff)
qed

theorem administrator_remains_witness:
  "\<exists>u\<in>set (as_users (sv_store (foldl (auth_step sample_env) sample_service sample_events))).
     usr_Role u = RoleAdmin \<and> \<not> usr_Disabled u"
  by (rule administrator_remains [OF sample_sane sample_admin sample_run])

text \<open>
  C36. The table of users keeps its type along every such sequence: identifiers and (without
  regard to case) names are different, every role is one of the four there are, only a user
  with the role sites has grants, and each grant is viewer or operator on a site of its own.
\<close>

theorem stored_users_well_formed:
  assumes "sane_rights (rights s)" "\<exists>u\<in>set (as_users (sv_store s)). usr_Role u = RoleAdmin \<and> \<not> usr_Disabled u"
    and "run_ok (auth_step x) auth_ok s es" and "us = as_users (sv_store (foldl (auth_step x) s es))"
  shows "distinct (map usr_ID us) \<and> distinct (map (\<lambda>u. to_lower (usr_Username u)) us)
    \<and> (\<forall>u\<in>set us. grants_wf (usr_Role u) (usr_Sites u))"
proof -
  have "account_inv (foldl (auth_step x) s es)"
    using account_invI [OF assms(1,2)] assms(3) by (rule accounts.run_keeps)
  then have sane: "sane_rights (map rights_of us)" by (simp add: account_inv_def rights_def assms(4))
  have "distinct (map usr_ID us)" "distinct (map (\<lambda>u. to_lower (usr_Username u)) us)"
    using sane_rightsD(1,2) [OF sane] by (simp_all add: comp_def rights_of_def)
  moreover have "\<forall>u\<in>set us. grants_wf (usr_Role u) (usr_Sites u)"
    using sane by (auto simp: sane_rights_def rights_of_def)
  ultimately show ?thesis by blast
qed

theorem stored_users_well_formed_witness:
  "distinct (map usr_ID (as_users (sv_store (foldl (auth_step sample_env) sample_service sample_events))))"
  using stored_users_well_formed [OF sample_sane sample_admin sample_run refl] by blast

section \<open>Who can change what\<close>

definition other_users :: "string \<Rightarrow> auth_service \<Rightarrow> user_record list" where
  "other_users uid s = filter (\<lambda>v. usr_ID v \<noteq> uid) (as_users (sv_store s))"

lemma put_user_others: "usr_ID w = uid \<Longrightarrow> other_users uid (snd (put_user w s)) = other_users uid s"
proof -
  have "filter (\<lambda>v. usr_ID v \<noteq> uid) (map (\<lambda>v. if usr_ID v = uid then (user_row w)\<lparr>usr_CreatedAt := c v\<rparr> else v) us)
      = filter (\<lambda>v. usr_ID v \<noteq> uid) us" if "usr_ID w = uid" for us c
    using that by (induction us) auto
  then show "usr_ID w = uid \<Longrightarrow> ?thesis"
    by (auto simp: put_user_def PutUser_def other_users_def split: option.splits)
qed

lemma other_users_cong: "as_users (sv_store s') = as_users (sv_store s) \<Longrightarrow> other_users uid s' = other_users uid s"
  by (simp add: other_users_def)

lemma put_user_others_case:
  "put_user w s = (r, s') \<Longrightarrow> usr_ID w = uid \<Longrightarrow> other_users uid s' = other_users uid s"
  using put_user_others [of w uid s] by simp

lemma put_after_totp_others:
  "totpValid x now i sec code s = (r, s') \<Longrightarrow> usr_ID w = uid
   \<Longrightarrow> other_users uid s' = other_users uid s \<and> other_users uid (snd (put_user w s')) = other_users uid s"
  using totpValid_storeD put_user_others [of w uid s'] by (simp add: other_users_def)

lemma handle_account_others:
  assumes "\<not> administers rq"
  shows "other_users (usr_ID u) (snd (handle x q u tok acc rq s)) = other_users (usr_ID u) s"
proof (cases rq)
  case (ReqPassword cur nx)
  have del: "other_users i (s'\<lparr>sv_store := DeleteUserSessions j h (sv_store s')\<rparr>) = other_users i s'" for i j h s'
    by (simp add: other_users_def)
  show ?thesis
    using ReqPassword
    by (auto simp: ChangePassword_def del dest: put_user_others_case split: sum.splits prod.splits option.splits)
next
  case ReqTOTPSetup
  then show ?thesis
    by (auto simp: TOTPSetup_def dest: put_user_others_case split: option.splits sum.splits prod.splits)
next
  case (ReqTOTPEnable code)
  then show ?thesis
    using put_after_totp_others by (auto simp: TOTPEnable_def split: sum.splits prod.splits)
next
  case (ReqTOTPDisable code)
  then show ?thesis
    using put_after_totp_others by (auto simp: TOTPDisable_def split: sum.splits prod.splits)
next
  case (ReqCreateToken nm d r ids)
  then show ?thesis
    by (auto simp: createToken_def CreateRestrictedToken_def Let_def dest: store_CreateToken_users
        intro!: other_users_cong split: sum.splits option.splits)
next
  case (ReqDeleteToken tid)
  then show ?thesis
    by (auto simp: api_deleteToken_def dest: DeleteToken_users intro!: other_users_cong split: option.splits)
qed (use assms in \<open>auto intro!: other_users_cong split: option.splits\<close>)

text \<open>A caller with the rights of an administrator: the user, the token and the header all allow it.\<close>

definition full_admin :: "user_record \<Rightarrow> api_token option \<Rightarrow> role \<Rightarrow> bool" where
  "full_admin u tok cap =
     (usr_Role u = RoleAdmin \<and> \<not> usr_Disabled u \<and> \<not> (usr_MustChange u \<and> tok = None)
      \<and> (case tok of None \<Rightarrow> True
         | Some t \<Rightarrow> tok_SiteIDs t = None \<and> (tok_Role t = [] \<or> tok_Role t = RoleAdmin))
      \<and> (cap = [] \<or> cap = RoleAdmin))"

lemma rank_admin: "3 \<le> role_rank r \<longleftrightarrow> r = RoleAdmin"
  by (simp add: role_rank_def role_defs)

lemma Server_admin:
  assumes "request_access u tok cap pv = Inr acc" "Server acc RoleAdmin"
    and "\<not> usr_Disabled u" "\<not> (usr_MustChange u \<and> tok = None)"
  shows "full_admin u tok cap"
proof (rule request_access_cases [OF assms(1)])
  fix a assume acc: "acc = WithPreviews a pv"
    and srv: "\<forall>need. Server a need \<longleftrightarrow> Server (Restrict (UserAccess u) tok) need \<and> cap_permits cap need"
  have "Server (UserAccess u) RoleAdmin" "cap_permits cap RoleAdmin"
    and "\<forall>t. tok = Some t \<longrightarrow> tok_SiteIDs t = None \<and> (tok_Role t = [] \<or> 3 \<le> role_rank (tok_Role t))"
    using assms(2) acc srv by (auto simp: Server_Restrict)
  moreover from this(1) have "usr_Role u = RoleAdmin"
    by (auto simp: Server_def Allowed_def UserAccess_def rank_admin split: if_splits)
  ultimately show ?thesis
    using assms(3,4) by (auto simp: full_admin_def cap_permits_def rank_admin split: option.splits)
qed

text \<open>
  C3. A request to the administration interface changes somebody's role, grants, name or
  disabled flag, or anything of a user other than its own, only when it comes with a valid
  credential of an enabled administrator whose password is not due to be changed (a session)
  or a token not limited to sites or to a lower role, without a lower role limit in the
  header, and, for a session, with the header that stops forged requests. Whatever else a
  request does to users it does to the user it is authenticated as.
\<close>

theorem rights_need_an_administrator:
  assumes "sane_rights (rights s)"
  shows "case authenticate x q s of
           (Inl refused, s1) \<Rightarrow> as_users (sv_store (snd (api_request x q rq s))) = as_users (sv_store s)
         | (Inr (u, tok, acc), s1) \<Rightarrow>
             administers rq \<and> full_admin u tok (ar_RoleLimit q) \<and> csrf q tok = None
             \<or> rights (snd (api_request x q rq s)) = rights s
               \<and> other_users (usr_ID u) (snd (api_request x q rq s)) = other_users (usr_ID u) s"
proof (cases x q rq s rule: api_request_cases)
  case refused
  then show ?thesis by (auto simp: rights_def other_users_def split: prod.splits sum.splits)
next
  case (handled u tok acc s1)
  show ?thesis
  proof (cases "administers rq")
    case True
    then have "full_admin u tok (ar_RoleLimit q)"
      using handled(6) by (intro Server_admin [OF handled(4) _ handled(3)])
        (auto simp: route_guard_def require_None split: if_splits)
    then show ?thesis using handled True by simp
  next
    case False
    have same: "rights s1 = rights s" "other_users i s1 = other_users i s" for i
      using handled(7) by (simp_all add: rights_def other_users_def)
    then show ?thesis
      using handled(1,8) handle_account_rights [OF _ handled(2) False] handle_account_others [OF False] assms
      by simp
  qed
qed


theorem rights_need_an_administrator_witness:
  "rights (snd (api_request sample_env (sample_request ''root'') (ReqDeleteUser ''bob'')
             (auth_step sample_env sample_service (sample_login ''bob''))))
   = rights (auth_step sample_env sample_service (sample_login ''bob''))"
proof -
  let ?s = "auth_step sample_env sample_service (sample_login ''bob'')"
  have "sane_rights (rights ?s)" by code_simp
  moreover have "fst (authenticate sample_env (sample_request ''root'') ?s) = Inl (401, ''not signed in'')" by code_simp
  ultimately show ?thesis
    using rights_need_an_administrator [of ?s sample_env "sample_request ''root''" "ReqDeleteUser ''bob''"]
    by (auto simp: rights_def split: prod.splits)
qed

section \<open>A disabled account\<close>

definition locked_out :: "string \<Rightarrow> auth_service \<Rightarrow> bool" where
  "locked_out uid s = (\<forall>u\<in>set (as_users (sv_store s)). usr_ID u = uid \<longrightarrow> usr_Disabled u)"

lemma locked_out_rights: "locked_out uid s \<longleftrightarrow> (\<forall>(i, n, r, gs, d)\<in>set (rights s). i = uid \<longrightarrow> d)"
  by (simp add: locked_out_def rights_def rights_of_def)

lemma locked_out_cong: "rights s' = rights s \<Longrightarrow> locked_out uid s' = locked_out uid s"
  by (simp add: locked_out_rights)

lemma put_user_locked:
  assumes "locked_out uid s" "usr_ID w = uid \<Longrightarrow> usr_Disabled w"
  shows "locked_out uid (snd (put_user w s))"
  using assms by (auto simp: locked_out_def put_user_def PutUser_def split: option.splits)

lemma newSession_locked:
  assumes "locked_out uid s" "usr_ID w = uid \<Longrightarrow> usr_Disabled w"
  shows "locked_out uid (snd (newSession x now tk w ip ua s))"
proof (rule newSession_cases [of x now tk w ip ua s])
  fix s1 assume s1: "as_users (sv_store s1) = as_users (sv_store s)"
    and run: "snd (newSession x now tk w ip ua s) = snd (put_user (w\<lparr>usr_LastLogin := Some now\<rparr>) s1)"
  have "locked_out uid s1" using assms(1) s1 by (simp add: locked_out_def)
  then show ?thesis unfolding run using assms(2) by (intro put_user_locked) simp_all
qed (use assms in simp)

text \<open>What lets a disabled account back in: enabling it, and the command line's reset.\<close>

fun enables :: "string \<Rightarrow> auth_service \<Rightarrow> auth_event \<Rightarrow> bool" where
  "enables uid s (EvRequest q (ReqUpdateUser i inp)) = (i = uid \<and> uu_Disabled inp = Some False)"
| "enables uid s (EvLocal account q (ReqUpdateUser i inp)) = (i = uid \<and> uu_Disabled inp = Some False)"
| "enables uid s (EvReset name pw) =
     (case GetUserByName name (sv_store s) of None \<Rightarrow> False | Some u \<Rightarrow> usr_ID u = uid)"
| "enables uid s _ = False"

text \<open>New users get new identifiers, not that of the disabled one.\<close>

fun new_id_of :: "auth_event \<Rightarrow> string option" where
  "new_id_of (EvSSO cfg now uid token ident ip ua) = Some uid"
| "new_id_of (EvRequest q rq) = Some (ar_newID q)"
| "new_id_of (EvLocal account q rq) = Some (ar_newID q)"
| "new_id_of (EvEnsureAdmin now uid pw) = Some uid"
| "new_id_of _ = None"

definition leaves_out :: "string \<Rightarrow> auth_service \<Rightarrow> auth_event \<Rightarrow> bool" where
  "leaves_out uid s e = (auth_ok s e \<and> \<not> enables uid s e \<and> new_id_of e \<noteq> Some uid)"

lemma update_commit_locked:
  "locked_out uid s \<Longrightarrow> (usr_ID w = uid \<Longrightarrow> usr_Disabled w) \<Longrightarrow> locked_out uid (snd (update_commit inp w s))"
  using put_user_locked [of uid s w]
  by (auto simp: update_commit_def locked_out_def split: prod.splits sum.splits)

lemma updateUser_locked:
  assumes "locked_out uid s" "\<not> (i = uid \<and> uu_Disabled inp = Some False)"
  shows "locked_out uid (snd (updateUser x me cap tok i inp s))"
proof -
  have "locked_out uid (snd (update_commit inp w s))"
    if "GetUser i (sv_store s) = Some u" "update_decide x me inp u (sv_store s) = Inr w" for u w
  proof (rule update_commit_locked [OF assms(1)])
    assume "usr_ID w = uid"
    moreover have "usr_ID w = usr_ID u" using update_decide_Inr(1) [OF that(2)] .
    ultimately have "usr_Disabled u" "i = uid"
      using GetUser_Some [OF that(1)] assms(1) by (auto simp: locked_out_def)
    then show "usr_Disabled w" using update_decide_Inr(4) [OF that(2)] assms(2) by (cases "usr_Disabled w") auto
  qed
  then show ?thesis using assms(1) by (auto simp: updateUser_def split: option.splits sum.splits)
qed

lemma createUser_locked:
  assumes "locked_out uid s" "i \<noteq> uid"
  shows "locked_out uid (snd (createUser x now i inp s))"
proof (cases "new_user_of x now i inp")
  case (Inr w)
  then have "usr_ID w = i"
    by (auto simp: new_user_of_def new_user_def Let_def split: if_splits option.splits sum.splits)
  then have "locked_out uid (snd (put_user w s))" using assms by (intro put_user_locked) simp_all
  then show ?thesis using Inr by (auto simp: createUser_def split: prod.splits sum.splits)
qed (use assms in \<open>simp add: createUser_def\<close>)

lemma handle_locked:
  assumes "locked_out uid s" "administers rq" "ar_newID q \<noteq> uid"
    and "\<And>i inp. rq = ReqUpdateUser i inp \<Longrightarrow> \<not> (i = uid \<and> uu_Disabled inp = Some False)"
  shows "locked_out uid (snd (handle x q u tok acc rq s))"
proof (cases rq)
  case (ReqDeleteUser i)
  then show ?thesis
    using assms(1) by (auto simp: api_deleteUser_def locked_out_def DeleteUser_def split: option.splits)
qed (use assms createUser_locked updateUser_locked in simp_all)

lemma api_request_locked:
  assumes "sane_rights (rights s)" "locked_out uid s" "ar_newID q \<noteq> uid"
    and "\<And>i inp. rq = ReqUpdateUser i inp \<Longrightarrow> \<not> (i = uid \<and> uu_Disabled inp = Some False)"
  shows "locked_out uid (snd (api_request x q rq s))"
proof (cases x q rq s rule: api_request_cases)
  case refused
  then show ?thesis using assms(2) by (simp add: locked_out_def)
next
  case (handled u tok acc s1)
  have s1: "locked_out uid s1" "sane_rights (rights s1)"
    using assms(1,2) handled(7) by (simp_all add: locked_out_def rights_def)
  show ?thesis
  proof (cases "administers rq")
    case True
    then show ?thesis using handle_locked s1(1) assms(3,4) handled(8) by simp
  next
    case False
    then show ?thesis
      using handle_account_rights [OF s1(2) handled(2) False] s1(1) handled(8) locked_out_cong by metis
  qed
qed

lemma locked_forget: "locked_out uid (forget_failures k s) = locked_out uid s"
  by (simp add: locked_out_def)

lemma SSOLogin_locked:
  assumes "locked_out uid s" "i \<noteq> uid" "SSOLogin x now i tk cfg ident ip ua s = (r, s')"
  shows "locked_out uid s' \<and> (\<forall>v res. r = Inr (v, res) \<longrightarrow> usr_ID v \<noteq> uid)"
proof -
  define key where "key = login_key ip (si_Username ident)"
  define s1 where "s1 = snd (throttled now key s)"
  have l1: "locked_out uid s1" using assms(1) by (simp add: s1_def locked_out_def)
  from assms(3) key_def s1_def show ?thesis
  proof (cases rule: SSOLogin_cases)
    case (refused e)
    then show ?thesis using l1 by (auto simp: locked_out_def)
  next
    case (created r0 s2)
    then have "locked_out uid s2"
      using put_user_locked [OF l1, of "sso_user now i ident r0"] assms(2) by (simp add: new_user_def)
    then have "locked_out uid s'"
      unfolding created(3) using assms(2) by (intro newSession_locked) (simp_all add: locked_forget new_user_def)
    then show ?thesis using created(4) assms(2) by blast
  next
    case (found u w)
    then have other: "usr_ID u \<noteq> uid" using l1 by (auto simp: locked_out_def)
    then have "locked_out uid s'"
      unfolding found(6) using found(2) l1 by (intro newSession_locked) (simp_all add: locked_forget)
    then show ?thesis using found(7) other by metis
  qed
qed

lemma leaves_out_keeps:
  assumes "account_inv s" "locked_out uid s" "leaves_out uid s e"
  shows "account_inv (auth_step x s e) \<and> locked_out uid (auth_step x s e)"
proof
  have ok: "auth_ok s e" "\<not> enables uid s e" "new_id_of e \<noteq> Some uid" using assms(3) by (simp_all add: leaves_out_def)
  have sane: "sane_rights (rights s)" using assms(1) by (simp add: account_inv_def)
  show "account_inv (auth_step x s e)" using auth_step_inv assms(1) ok(1) by blast
  show "locked_out uid (auth_step x s e)"
  proof (cases e)
    case (EvLogin cfg now tk n p c ip ua)
    have "snd (api_login x cfg now tk n p c ip ua s) = s
        \<or> snd (api_login x cfg now tk n p c ip ua s) = snd (Login x now tk n p c ip ua s)"
      by (auto simp: api_login_def split: prod.splits sum.splits)
    then show ?thesis using EvLogin assms(2) locked_out_cong [OF Login_rights [OF sane]] by auto
  next
    case (EvSSO cfg now i tk ident ip ua)
    then show ?thesis
      using SSOLogin_locked [OF assms(2) _ surjective_pairing, of i x now tk cfg ident ip ua] ok(3) by simp
  next
    case (EvSSOFailed now ip)
    then show ?thesis
      using assms(2) by (auto simp: SSOThrottled_def SSOFailed_def locked_out_def
          dest: throttled_storeD split: prod.splits bool.splits)
  next
    case (EvRequest q rq)
    then have "\<not> (i = uid \<and> uu_Disabled inp = Some False)" if "rq = ReqUpdateUser i inp" for i inp
      using ok(2) that by simp
    then show ?thesis using EvRequest ok(3) assms(2) sane api_request_locked by simp
  next
    case (EvLocal account q rq)
    then have "\<not> (i = uid \<and> uu_Disabled inp = Some False)" if "rq = ReqUpdateUser i inp" for i inp
      using ok(2) that by simp
    then show ?thesis using EvLocal ok(3) assms(2) handle_locked by (simp add: local_request_def)
  next
    case (EvReset n pw)
    have other: "usr_ID u \<noteq> uid" if "GetUserByName n (sv_store s) = Some u" for u
      using ok(2) EvReset that by auto
    show ?thesis
    proof (cases "GetUserByName n (sv_store s)")
      case (Some u)
      have "locked_out uid s'" if "put_user w s = (y, s')" "usr_ID w = usr_ID u" for w y s'
        using put_user_locked [OF assms(2), of w] that other [OF Some] by simp
      then show ?thesis
        using EvReset Some assms(2)
        by (auto simp: ResetPassword_def locked_out_def split: option.splits prod.splits sum.splits)
    qed (use EvReset assms(2) in \<open>simp add: ResetPassword_def\<close>)
  next
    case (EvEnsureAdmin now i pw)
    have "CountUsers (sv_store s) > 0"
      using assms(1) by (auto simp: account_inv_def admin_in_def CountUsers_def rights_def)
    then show ?thesis using EvEnsureAdmin assms(2) by (simp add: EnsureAdmin_def)
  next
    case (EvTouch now tid)
    then show ?thesis using assms(2) by (simp add: locked_out_def)
  qed
qed

interpretation lockout: invariant_machine "auth_step x" "leaves_out uid" "\<lambda>s. account_inv s \<and> locked_out uid s" for x uid
  by unfold_locales (use leaves_out_keeps in blast)



definition disabling :: auth_event where
  "disabling = EvRequest (sample_request ''root'') (ReqUpdateUser ''bob'' (no_change\<lparr>uu_Disabled := Some True\<rparr>))"


end
