(* ===== verification/Sign_In.thy ===== *)
theory Sign_In
  imports Account_Claims
begin

text \<open>
  Guessing: how often a password can be tried, and how often a two-factor code counts. The
  failures of an address and name, and the last accepted time step of a user, along any
  sequence of events.
\<close>

section \<open>What the other operations leave alone\<close>

text \<open>The failures are the same, and no user's last accepted step goes back.\<close>

definition no_attempt :: "auth_service \<Rightarrow> auth_service \<Rightarrow> bool" where
  "no_attempt s s' = (sv_failures s' = sv_failures s
     \<and> (\<forall>u. sv_totpLastStep s u \<le> sv_totpLastStep s' u))"

lemma no_attempt_refl [simp, intro]: "no_attempt s s"
  by (simp add: no_attempt_def)

lemma no_attempt_store [simp]: "no_attempt s (s'\<lparr>sv_store := st\<rparr>) = no_attempt s s'"
  by (simp add: no_attempt_def)

lemma no_attempt_trans: "no_attempt s s' \<Longrightarrow> no_attempt s' s'' \<Longrightarrow> no_attempt s s''"
  unfolding no_attempt_def by (metis order_trans)

lemma put_user_quiet: "put_user u s = (r, s') \<Longrightarrow> no_attempt s s'"
  using put_user_other(1,2) [of u s] by (simp add: no_attempt_def)

lemma put_user_quiet_snd: "no_attempt s (snd (put_user u s))"
  by (simp add: no_attempt_def)

lemma totp_try_quiet: "no_attempt s (snd (totp_try x now i sec code ks s))"
  by (induction ks) (auto simp: Let_def no_attempt_def split: option.splits)

lemma totpValid_quiet: "totpValid x now i sec code s = (r, s') \<Longrightarrow> no_attempt s s'"
proof -
  have "no_attempt s (snd (totpValid x now i sec code s))"
    by (auto simp: totpValid_def totp_try_quiet simp del: totp_try.simps split: option.splits)
  then show "totpValid x now i sec code s = (r, s') \<Longrightarrow> ?thesis" by simp
qed

lemma put_after_totp_quiet:
  "totpValid x now i sec code s = (r, s') \<Longrightarrow> no_attempt s (snd (put_user w s'))"
  using no_attempt_trans totpValid_quiet put_user_quiet_snd by blast

lemma Session_quiet: "Session x now tk s = (r, s') \<Longrightarrow> no_attempt s s'"
  by (auto simp: Session_def split: prod.splits option.splits if_splits)

lemma authenticate_quiet: "authenticate x q s = (r, s') \<Longrightarrow> no_attempt s s'"
  by (auto simp: authenticate_def Let_def dest: Session_quiet split: prod.splits option.splits sum.splits if_splits)

lemma updateUser_quiet: "no_attempt s (snd (updateUser x me cap tok uid inp s))"
  by (auto simp: updateUser_def update_commit_def dest: put_user_quiet
      split: option.splits sum.splits prod.splits)

lemma handle_quiet: "no_attempt s (snd (handle x q u tok acc rq s))"
proof (cases rq)
  case ReqLogout
  then show ?thesis by (auto simp: Logout_def split: option.splits)
next
  case (ReqPassword cur nx)
  then show ?thesis
    by (auto simp: ChangePassword_def dest: put_user_quiet split: sum.splits prod.splits)
next
  case ReqTOTPSetup
  then show ?thesis
    by (auto simp: TOTPSetup_def dest: put_user_quiet split: option.splits sum.splits prod.splits)
next
  case (ReqTOTPEnable code)
  then show ?thesis
    by (auto simp: TOTPEnable_def dest: totpValid_quiet intro: put_after_totp_quiet split: sum.splits prod.splits)
next
  case (ReqTOTPDisable code)
  then show ?thesis
    by (auto simp: TOTPDisable_def dest: totpValid_quiet intro: put_after_totp_quiet split: sum.splits prod.splits)
next
  case (ReqCreateToken nm d r ids)
  then show ?thesis
    by (auto simp: createToken_def CreateRestrictedToken_def Let_def split: sum.splits option.splits)
next
  case (ReqDeleteToken tid)
  then show ?thesis by (auto simp: api_deleteToken_def split: option.splits)
next
  case (ReqCreateUser inp)
  then show ?thesis
    by (auto simp: createUser_def dest: put_user_quiet split: sum.splits prod.splits)
next
  case (ReqUpdateUser uid inp)
  then show ?thesis by (simp add: updateUser_quiet)
next
  case (ReqDeleteUser uid)
  then show ?thesis by (auto simp: api_deleteUser_def split: option.splits)
qed

lemma api_request_quiet: "no_attempt s (snd (api_request x q rq s))"
proof (cases "authenticate x q s")
  case (Pair r s1)
  then have "no_attempt s s1" by (rule authenticate_quiet)
  then show ?thesis
    using Pair no_attempt_trans [OF _ handle_quiet [of s1 x q]]
    by (auto simp: api_request_def split: sum.splits option.splits prod.splits)
qed

text \<open>Only sign-ins are attempts.\<close>

fun signs_in :: "auth_event \<Rightarrow> bool" where
  "signs_in (EvLogin cfg now token username password code ip ua) = True"
| "signs_in (EvSSO cfg now uid token ident ip ua) = True"
| "signs_in (EvSSOFailed now ip) = True"
| "signs_in _ = False"

lemma other_events_quiet: "\<not> signs_in e \<Longrightarrow> no_attempt s (auth_step x s e)"
proof (cases e)
  case (EvReset n pw)
  then show ?thesis
    by (auto simp: ResetPassword_def dest: put_user_quiet split: option.splits sum.splits prod.splits)
next
  case (EvEnsureAdmin now uid pw)
  then show ?thesis
    by (auto simp: EnsureAdmin_def dest: put_user_quiet split: option.splits sum.splits prod.splits)
qed (auto simp: api_request_quiet handle_quiet local_request_def)


section \<open>Failed sign-ins are spaced out\<close>

definition counts_as_failure :: "(auth_error + 'a) \<Rightarrow> bool" where
  "counts_as_failure r = (case r of Inl e \<Rightarrow> e = ErrInvalid \<or> e = ErrTOTPInvalid | Inr _ \<Rightarrow> False)"

lemma totpValid_failures:
  "totpValid x now i sec code s = (r, s') \<Longrightarrow> sv_failures s' = sv_failures s \<and> (r = Inl e \<longrightarrow> e = ErrTOTPBroken)"
  using totpValid_quiet [of x now i sec code s r s']
  by (auto simp: totpValid_def no_attempt_def apfst_def map_prod_def simp del: totp_try.simps
      split: option.splits if_splits prod.splits)

lemma login_totp_failures:
  assumes "login_totp x now k u c s = (r, s')"
  shows "sv_failures s' = (if counts_as_failure r then (sv_failures s)(k := sv_failures s k @ [now]) else sv_failures s)"
proof (cases "totpValid x now (usr_ID u) (usr_TOTPSecret u) c s")
  case (Pair r1 s1)
  then show ?thesis
    using assms totpValid_failures [OF Pair, of "projl r1"]
    by (cases r1) (auto simp: login_totp_def counts_as_failure_def count_failure_def split: if_splits)
qed

text \<open>The failures of a key after an attempt on it, by what became of the attempt.\<close>

lemma login_check_failures:
  assumes "login_check x now n p c ip s = (r, s')" "k = login_key ip n"
    and "recent = filter (\<lambda>t. now - 15 * minute < t) (sv_failures s k)"
  shows "sv_failures s' k = (if counts_as_failure r then recent @ [now] else recent)
    \<and> (counts_as_failure r \<longrightarrow> length recent < 5) \<and> (k' \<noteq> k \<longrightarrow> sv_failures s' k' = sv_failures s k')"
proof -
  obtain b s1 where th: "throttled now k s = (b, s1)" by (cases "throttled now k s")
  then have s1: "sv_failures s1 = (sv_failures s)(k := recent)" "b = (length recent \<ge> 5)"
    using assms(3) by (auto simp: throttled_def Let_def)
  show ?thesis
  proof (cases b)
    case True
    then show ?thesis using assms(1,2) th s1 by (auto simp: login_check_def counts_as_failure_def)
  next
    case False
    have "sv_failures s' = (if counts_as_failure r then (sv_failures s1)(k := sv_failures s1 k @ [now]) else sv_failures s1)"
      using assms(1) th False
      by (auto simp: login_check_def assms(2) [symmetric] counts_as_failure_def count_failure_def
          dest!: login_totp_failures split: option.splits if_splits)
    then show ?thesis using s1 False by auto
  qed
qed

lemma newSession_quiet: "no_attempt s (snd (newSession x now tk w ip ua s))"
  by (auto simp: newSession_def Let_def no_attempt_def split: option.splits)

text \<open>Attempts on a key, whether one is let in, and the times of the failures that count.\<close>

fun attempt_time :: "string \<Rightarrow> auth_event \<Rightarrow> instant option" where
  "attempt_time k (EvLogin cfg now token username password code ip ua) =
     (if login_key ip username = k \<and> PasswordAllowed cfg then Some now else None)"
| "attempt_time k _ = None"

fun attempt_result :: "auth_env \<Rightarrow> auth_service \<Rightarrow> auth_event \<Rightarrow> (auth_error + user_record) option" where
  "attempt_result x s (EvLogin cfg now token username password code ip ua) =
     Some (fst (login_check x now username password code ip s))"
| "attempt_result x s _ = None"

definition let_in :: "string \<Rightarrow> auth_env \<Rightarrow> auth_service \<Rightarrow> auth_event \<Rightarrow> bool" where
  "let_in k x s e =
     (attempt_time k e \<noteq> None \<and> (case attempt_result x s e of None \<Rightarrow> False | Some r \<Rightarrow> \<not> isl r))"

definition failure_counted :: "string \<Rightarrow> auth_env \<Rightarrow> auth_service \<Rightarrow> auth_event \<Rightarrow> bool" where
  "failure_counted k x s e =
     (attempt_time k e \<noteq> None
      \<and> (case attempt_result x s e of None \<Rightarrow> False | Some r \<Rightarrow> counts_as_failure r))"

fun failure_times :: "string \<Rightarrow> auth_env \<Rightarrow> auth_service \<Rightarrow> auth_event list \<Rightarrow> instant list" where
  "failure_times k x s [] = []"
| "failure_times k x s (e # es) =
     (if failure_counted k x s e then [the (attempt_time k e)] else []) @ failure_times k x (auth_step x s e) es"

fun sso_key :: "auth_event \<Rightarrow> string option" where
  "sso_key (EvSSO cfg now uid token ident ip ua) = Some (login_key ip (si_Username ident))"
| "sso_key (EvSSOFailed now ip) = Some (ssoFailureKey ip)"
| "sso_key _ = None"

text \<open>An event that lets nobody in on the key and is no single sign-on with it.\<close>

definition guesses_only :: "string \<Rightarrow> auth_env \<Rightarrow> auth_service \<Rightarrow> auth_event \<Rightarrow> bool" where
  "guesses_only k x s e = (\<not> let_in k x s e \<and> sso_key e \<noteq> Some k)"

lemma sso_other_key:
  "sso_key e = Some k' \<Longrightarrow> k' \<noteq> k \<Longrightarrow> sv_failures (auth_step x s e) k = sv_failures s k"
proof (cases e)
  case (EvSSO cfg now uid tk ident ip ua)
  assume "sso_key e = Some k'" "k' \<noteq> k"
  then have k: "login_key ip (si_Username ident) \<noteq> k" using EvSSO by simp
  define key where "key = login_key ip (si_Username ident)"
  define s1 where "s1 = snd (throttled now key s)"
  have s1: "sv_failures s1 k = sv_failures s k"
    using k by (auto simp: s1_def throttled_def Let_def key_def)
  have ns: "sv_failures (snd (newSession x now tk w ip ua (forget_failures key s2))) k = sv_failures s2 k" for w s2
    using newSession_quiet [of "forget_failures key s2" x now tk w ip ua] k
    by (simp add: no_attempt_def forget_failures_def key_def)
  obtain r s' where run: "SSOLogin x now uid tk cfg ident ip ua s = (r, s')"
    by (cases "SSOLogin x now uid tk cfg ident ip ua s")
  from run key_def s1_def have "sv_failures s' k = sv_failures s k"
  proof (cases rule: SSOLogin_cases)
    case (refused e)
    then show ?thesis using s1 k by (auto simp: count_failure_def key_def)
  next
    case (created r0 s2)
    then show ?thesis using put_user_quiet [OF created(1)] ns s1 by (simp add: no_attempt_def)
  next
    case (found u w)
    then show ?thesis using ns s1 by simp
  qed
  then show ?thesis using EvSSO run by simp
qed (auto simp: SSOThrottled_def SSOFailed_def throttled_def count_failure_def Let_def split: bool.splits)


lemma Login_other_key:
  assumes "login_key ip n \<noteq> k"
  shows "sv_failures (snd (Login x now tk n p c ip ua s)) k = sv_failures s k"
proof -
  obtain r s1 where check: "login_check x now n p c ip s = (r, s1)" by (cases "login_check x now n p c ip s")
  have s1: "sv_failures s1 k = sv_failures s k"
    using login_check_failures [OF check refl refl, of k] assms by simp
  have ns: "sv_failures (snd (newSession x now tk w ip ua (forget_failures (login_key ip n) s1))) k = sv_failures s1 k" for w
    using newSession_quiet [of "forget_failures (login_key ip n) s1" x now tk w ip ua] assms
    by (simp add: no_attempt_def forget_failures_def)
  show ?thesis using check s1 ns by (cases r) (simp_all add: Login_def login_finish_def)
qed

lemma api_login_state:
  "snd (api_login x cfg now tk n p c ip ua s) = (if PasswordAllowed cfg then snd (Login x now tk n p c ip ua s) else s)"
  by (cases "Login x now tk n p c ip ua s"; cases "fst (Login x now tk n p c ip ua s)")
    (simp_all add: api_login_def)

lemma no_attempt_step:
  assumes "attempt_time k e = None" "sso_key e \<noteq> Some k"
  shows "sv_failures (auth_step x s e) k = sv_failures s k"
proof (cases "sso_key e")
  case (Some k')
  then have "k' \<noteq> k" using assms(2) by simp
  with Some show ?thesis by (rule sso_other_key)
next
  case None
  show ?thesis
  proof (cases "signs_in e")
    case True
    then obtain cfg now tk n p c ip ua where "e = EvLogin cfg now tk n p c ip ua" using None by (cases e) auto
    then show ?thesis
      using assms(1) Login_other_key [of ip n k x now tk p c ua s]
      by (auto simp: api_login_state split: if_splits)
  next
    case False
    then show ?thesis using other_events_quiet by (simp add: no_attempt_def)
  qed
qed

lemma attempt_step:
  assumes "attempt_time k e = Some now" "\<not> let_in k x s e"
    and "recent = filter (\<lambda>t. now - 15 * minute < t) (sv_failures s k)"
  shows "sv_failures (auth_step x s e) k = (if failure_counted k x s e then recent @ [now] else recent)"
    and "failure_counted k x s e \<Longrightarrow> length recent < 5"
proof -
  obtain cfg tk n p c ip ua where e: "e = EvLogin cfg now tk n p c ip ua" "k = login_key ip n" "PasswordAllowed cfg"
    using assms(1) by (cases e) (auto split: if_splits)
  obtain r s1 where check: "login_check x now n p c ip s = (r, s1)" by (cases "login_check x now n p c ip s")
  then obtain err where r: "r = Inl err" using assms(2) e by (cases r) (auto simp: let_in_def)
  have "auth_step x s e = s1" using e check r by (simp add: api_login_state Login_def)
  moreover have "failure_counted k x s e = counts_as_failure r" using e check by (simp add: failure_counted_def)
  ultimately show "sv_failures (auth_step x s e) k = (if failure_counted k x s e then recent @ [now] else recent)"
    and "failure_counted k x s e \<Longrightarrow> length recent < 5"
    using login_check_failures [OF check e(2) assms(3), of k] by auto
qed

text \<open>Six failures in a row span a quarter of an hour.\<close>

definition spaced :: "instant list \<Rightarrow> bool" where
  "spaced ts = (\<forall>i. i + 5 < length ts \<longrightarrow> ts ! i + 15 * minute \<le> ts ! (i + 5))"

lemma sorted_filter_suffix:
  "sorted (ts :: int list) \<Longrightarrow> \<exists>d. ts = d @ filter (\<lambda>t. c < t) ts \<and> (\<forall>t\<in>set d. t \<le> c)"
proof (induction ts)
  case (Cons t ts)
  show ?case
  proof (cases "c < t")
    case True
    then have "filter (\<lambda>t. c < t) (t # ts) = t # ts" using Cons.prems by (intro filter_True) auto
    then show ?thesis by simp
  next
    case False
    then obtain d where "ts = d @ filter (\<lambda>t. c < t) ts" "\<forall>t\<in>set d. t \<le> c" using Cons by auto
    then show ?thesis using False by (intro exI [of _ "t # d"]) auto
  qed
qed simp

lemma spaced_snoc:
  assumes "spaced (pre @ fs)" "\<forall>t\<in>set pre. t \<le> now - 15 * minute" "length fs < 5"
  shows "spaced (pre @ fs @ [now])"
  unfolding spaced_def
proof (intro allI impI)
  fix i assume i: "i + 5 < length (pre @ fs @ [now])"
  show "(pre @ fs @ [now]) ! i + 15 * minute \<le> (pre @ fs @ [now]) ! (i + 5)"
  proof (cases "i + 5 < length (pre @ fs)")
    case True
    then have "(pre @ fs) ! i + 15 * minute \<le> (pre @ fs) ! (i + 5)" using assms(1) by (simp add: spaced_def)
    moreover have "((pre @ fs) @ [now]) ! j = (pre @ fs) ! j" if "j < length (pre @ fs)" for j
      using that by (simp only: nth_append if_True)
    ultimately show ?thesis using True by (simp only: append_assoc)
  next
    case False
    then have "i + 5 = length (pre @ fs)" "i < length pre" using i assms(3) by auto
    moreover from this(2) have "pre ! i \<le> now - 15 * minute" using assms(2) by simp
    ultimately show ?thesis by (simp add: nth_append)
  qed
qed

lemma failure_times_spaced:
  assumes "run_ok (auth_step x) (guesses_only k x) s es"
    and "sorted (List.map_filter (attempt_time k) es)" "\<forall>t\<in>set (List.map_filter (attempt_time k) es). since \<le> t"
    and "\<forall>t\<in>set pre. t \<le> since - 15 * minute" "sorted (sv_failures s k)" "\<forall>t\<in>set (sv_failures s k). t \<le> since"
    and "spaced (pre @ sv_failures s k)"
  shows "spaced (pre @ sv_failures s k @ failure_times k x s es)"
  using assms
proof (induction es arbitrary: s pre since)
  case Nil
  then show ?case by simp
next
  case (Cons e es)
  have run: "guesses_only k x s e" "run_ok (auth_step x) (guesses_only k x) (auth_step x s e) es"
    using Cons.prems(1) by simp_all
  show ?case
  proof (cases "attempt_time k e")
    case None
    then have "sv_failures (auth_step x s e) k = sv_failures s k" "\<not> failure_counted k x s e"
      using no_attempt_step run(1) by (auto simp: guesses_only_def failure_counted_def)
    then show ?thesis
      using Cons.IH [OF run(2), of since pre] Cons.prems None by (simp add: map_filter_simps)
  next
    case (Some now)
    define recent where "recent = filter (\<lambda>t. now - 15 * minute < t) (sv_failures s k)"
    have "\<not> let_in k x s e" using run(1) by (simp add: guesses_only_def)
    note step = attempt_step [OF Some this recent_def]
    obtain d where d: "sv_failures s k = d @ recent" "\<forall>t\<in>set d. t \<le> now - 15 * minute"
      using sorted_filter_suffix [OF Cons.prems(5), of "now - 15 * minute"] by (auto simp: recent_def)
    have now: "since \<le> now" "\<forall>t\<in>set (List.map_filter (attempt_time k) es). now \<le> t"
      using Cons.prems(2,3) Some by (simp_all add: map_filter_simps)
    have pre: "\<forall>t\<in>set (pre @ d). t \<le> now - 15 * minute" using Cons.prems(4) d(2) now(1) by auto
    have rec: "sorted recent" "\<forall>t\<in>set recent. t \<le> now"
      using Cons.prems(5,6) now(1) by (auto simp: recent_def sorted_filter [of id, simplified])
    have sp: "spaced ((pre @ d) @ recent)" using Cons.prems(7) d(1) by simp
    have "spaced ((pre @ d) @ sv_failures (auth_step x s e) k @ failure_times k x (auth_step x s e) es)"
    proof (rule Cons.IH [OF run(2) _ now(2) pre])
      show "sorted (List.map_filter (attempt_time k) es)" using Cons.prems(2) Some by (simp add: map_filter_simps)
      show "sorted (sv_failures (auth_step x s e) k)" using rec step(1) by (auto simp: sorted_append)
      show "\<forall>t\<in>set (sv_failures (auth_step x s e) k). t \<le> now" using rec step(1) by auto
      show "spaced ((pre @ d) @ sv_failures (auth_step x s e) k)"
        using sp step spaced_snoc [OF sp pre] by auto
    qed
    then show ?thesis using step(1) d(1) Some by (cases "failure_counted k x s e") simp_all
  qed
qed



text \<open>Six wrong passwords; the sixth that is looked at comes a quarter of an hour after the first.\<close>

definition guess :: "int \<Rightarrow> auth_event" where
  "guess m = EvLogin no_sso (sample_time + m * minute) ''t'' ''Bob'' ''guess'' [] ''10.0.0.9'' []"

definition guesses :: "auth_event list" where
  "guesses = [guess 0, guess 1, guess 2, guess 3, guess 4, guess 5, sample_login ''bob'', guess 16]"


section \<open>A two-factor code counts once\<close>

definition steps_le :: "auth_service \<Rightarrow> auth_service \<Rightarrow> bool" where
  "steps_le s s' = (\<forall>u. sv_totpLastStep s u \<le> sv_totpLastStep s' u)"

lemma steps_le_quiet: "no_attempt s s' \<Longrightarrow> steps_le s s'"
  by (simp add: no_attempt_def steps_le_def)

lemma steps_le_trans [trans]: "steps_le s s' \<Longrightarrow> steps_le s' s'' \<Longrightarrow> steps_le s s''"
  unfolding steps_le_def by (metis order_trans)

lemma counting_keeps_steps [simp]:
  "sv_totpLastStep (snd (throttled now k s)) = sv_totpLastStep s"
  "sv_totpLastStep (count_failure now k s) = sv_totpLastStep s"
  "sv_totpLastStep (forget_failures k s) = sv_totpLastStep s"
  by (simp_all add: throttled_def count_failure_def forget_failures_def Let_def)

lemma throttled_steps: "throttled now k s = (b, s') \<Longrightarrow> sv_totpLastStep s' = sv_totpLastStep s"
  using counting_keeps_steps(1) [of now k s] by simp

lemma login_totp_steps: "steps_le s (snd (login_totp x now k u c s))"
proof (cases "totpValid x now (usr_ID u) (usr_TOTPSecret u) c s")
  case (Pair r s')
  then have "steps_le s s'" using totpValid_quiet steps_le_quiet by blast
  then show ?thesis using Pair by (cases r) (auto simp: login_totp_def steps_le_def)
qed

lemma login_check_steps: "steps_le s (snd (login_check x now n p c ip s))"
proof (cases "throttled now (login_key ip n) s")
  case (Pair b s1)
  then have s1: "sv_totpLastStep s1 = sv_totpLastStep s" by (rule throttled_steps)
  have "steps_le s (snd (login_totp x now (login_key ip n) u c s1))" for u
    using login_totp_steps [of s1 x now "login_key ip n" u c] s1 by (simp add: steps_le_def)
  then show ?thesis
    using Pair s1 by (cases b) (auto simp: login_check_def Let_def steps_le_def split: option.splits)
qed

lemma newSession_steps: "steps_le s (snd (newSession x now tk w ip ua (forget_failures k s)))"
  using newSession_quiet [of "forget_failures k s" x now tk w ip ua] by (simp add: no_attempt_def steps_le_def)

lemma Login_steps: "steps_le s (snd (Login x now tk n p c ip ua s))"
proof (cases "login_check x now n p c ip s")
  case (Pair r s1)
  then have "steps_le s s1" using login_check_steps [of s x now n p c ip] by simp
  then show ?thesis
    using Pair steps_le_trans [OF _ newSession_steps]
    by (cases r) (simp_all add: Login_def login_finish_def)
qed

lemma SSOLogin_steps: "steps_le s (snd (SSOLogin x now uid tk cfg ident ip ua s))"
proof -
  define key where "key = login_key ip (si_Username ident)"
  define s1 where "s1 = snd (throttled now key s)"
  have s1: "steps_le s s1" by (simp add: s1_def steps_le_def)
  obtain r s' where run: "SSOLogin x now uid tk cfg ident ip ua s = (r, s')"
    by (cases "SSOLogin x now uid tk cfg ident ip ua s")
  from run key_def s1_def have "steps_le s s'"
  proof (cases rule: SSOLogin_cases)
    case (refused e)
    then show ?thesis using s1 by (auto simp: steps_le_def)
  next
    case (created r0 s2)
    then have "steps_le s1 s2" using put_user_quiet steps_le_quiet by blast
    then show ?thesis unfolding created(3) by (rule steps_le_trans [OF steps_le_trans [OF s1] newSession_steps])
  next
    case (found u w)
    show ?thesis unfolding found(6) by (rule steps_le_trans [OF s1 newSession_steps])
  qed
  then show ?thesis using run by simp
qed

lemma auth_step_steps: "steps_le s (auth_step x s e)"
proof (cases "signs_in e")
  case True
  have "steps_le s (snd (api_login x cfg now tk n p c ip ua s))" for cfg now tk n p c ip ua
    using Login_steps by (simp add: api_login_state steps_le_def)
  moreover have "steps_le s (case SSOThrottled now ip s of (True, s') \<Rightarrow> s' | (False, s') \<Rightarrow> SSOFailed now ip s')" for now ip
    by (auto simp: SSOThrottled_def SSOFailed_def steps_le_def dest: throttled_steps split: prod.splits bool.splits)
  ultimately show ?thesis using True SSOLogin_steps by (cases e) simp_all
next
  case False
  then show ?thesis using other_events_quiet steps_le_quiet by blast
qed

lemma run_steps: "steps_le s (foldl (auth_step x) s es)"
proof (induction es arbitrary: s)
  case (Cons e es)
  have "steps_le (auth_step x s e) (foldl (auth_step x) (auth_step x s e) es)" by (rule Cons)
  then show ?case using steps_le_trans [OF auth_step_steps [of s x e]] by simp
qed (simp add: steps_le_def)

text \<open>What an accepted code says: the step it is of, close to the clock and later than any before.\<close>

lemma totp_try_accepted:
  assumes "totp_try x now i secret code ks s = (True, s')"
  shows "\<exists>k\<in>set ks. x_totp x secret (now + k * totpPeriod) = Some code
    \<and> sv_totpLastStep s i < totp_step (now + k * totpPeriod)
    \<and> sv_totpLastStep s' i = totp_step (now + k * totpPeriod)"
  using assms by (induction ks) (auto simp: Let_def split: option.splits if_splits)

definition no_spaces :: "string \<Rightarrow> string" where
  "no_spaces code = filter (\<lambda>c. c \<noteq> CHR '' '') code"

lemma totpValid_accepted:
  assumes "totpValid x now i sealed code s = (Inr True, s')"
  shows "\<exists>secret t. x_unseal x sealed = Some secret \<and> x_totp x secret t = Some (no_spaces code)
    \<and> \<bar>t - now\<bar> \<le> totpPeriod \<and> sv_totpLastStep s i < totp_step t \<and> sv_totpLastStep s' i = totp_step t"
proof -
  obtain secret where secret: "x_unseal x sealed = Some secret" "secret \<noteq> []"
    using assms by (auto simp: totpValid_def split: option.splits if_splits)
  have "totp_try x now i secret (no_spaces code) [-1, 0, 1] s = (True, s')"
    using assms secret
    by (auto simp: totpValid_def no_spaces_def apfst_def map_prod_def simp del: totp_try.simps split: prod.splits)
  from totp_try_accepted [OF this] obtain k :: int where "k \<in> set [-1, 0, 1]"
    "x_totp x secret (now + k * totpPeriod) = Some (no_spaces code)"
    "sv_totpLastStep s i < totp_step (now + k * totpPeriod)"
    "sv_totpLastStep s' i = totp_step (now + k * totpPeriod)" by blast
  moreover from this(1) have "\<bar>now + k * totpPeriod - now\<bar> \<le> totpPeriod"
    by (auto simp: totpPeriod_def duration_defs)
  ultimately show ?thesis using secret(1) by blast
qed

lemma Login_totp:
  assumes "Login x now tk n p c ip ua s = (Inr v, s')" "usr_TOTPEnabled v"
  shows "\<exists>secret t. x_unseal x (usr_TOTPSecret v) = Some secret \<and> x_totp x secret t = Some (no_spaces c)
    \<and> \<bar>t - now\<bar> \<le> totpPeriod \<and> sv_totpLastStep s (usr_ID v) < totp_step t
    \<and> sv_totpLastStep s' (usr_ID v) = totp_step t"
proof -
  let ?k = "login_key ip n"
  obtain u s2 where check: "login_check x now n p c ip s = (Inr u, s2)"
    and fin: "newSession x now tk u ip ua (forget_failures ?k s2) = (Inr v, s')"
    using assms(1) by (auto simp: Login_def login_finish_def split: prod.splits sum.splits)
  have v: "v = u\<lparr>usr_LastLogin := Some now\<rparr>" "sv_totpLastStep s' = sv_totpLastStep s2"
    using fin by (auto simp: newSession_def Let_def split: option.splits)
  obtain s1 where s1: "sv_totpLastStep s1 = sv_totpLastStep s" "login_totp x now ?k u c s1 = (Inr u, s2)"
  proof (cases "throttled now ?k s")
    case (Pair b s1)
    have eq: "login_totp x now ?k w c s1 = (Inr u, s2) \<Longrightarrow> w = u" for w
      by (auto simp: login_totp_def split: prod.splits sum.splits if_splits)
    then show ?thesis
      using that [of s1] check Pair throttled_steps [OF Pair]
      by (cases b) (auto simp: login_check_def Let_def dest: eq split: option.splits if_splits)
  qed
  have "totpValid x now (usr_ID u) (usr_TOTPSecret u) c s1 = (Inr True, s2)"
    using s1(2) assms(2) v(1) by (auto simp: login_totp_def split: prod.splits sum.splits if_splits)
  from totpValid_accepted [OF this] show ?thesis using v s1(1) by simp
qed

text \<open>
  C39. A two-factor code is good for one sign-in. Take two sign-ins with password and code
  that were accepted for a user with two-factor authentication, whatever happened in
  between. Each code is the code of a time step at most one period from the clock, and the
  step of the second is later than that of the first: a code that was seen being used is
  refused from then on.
\<close>

theorem totp_code_counts_once:
  assumes "Login x now1 tk1 n1 p1 code1 ip1 ua1 s = (Inr u, s1)" "usr_TOTPEnabled u"
    and "s2 = foldl (auth_step x) s1 es"
    and "Login x now2 tk2 n2 p2 code2 ip2 ua2 s2 = (Inr v, s3)" "usr_TOTPEnabled v" "usr_ID v = usr_ID u"
  shows "\<exists>sec1 t1 sec2 t2. x_unseal x (usr_TOTPSecret u) = Some sec1 \<and> x_unseal x (usr_TOTPSecret v) = Some sec2
    \<and> x_totp x sec1 t1 = Some (no_spaces code1) \<and> x_totp x sec2 t2 = Some (no_spaces code2)
    \<and> \<bar>t1 - now1\<bar> \<le> totpPeriod \<and> \<bar>t2 - now2\<bar> \<le> totpPeriod \<and> totp_step t1 < totp_step t2"
proof -
  have "sv_totpLastStep s1 (usr_ID u) \<le> sv_totpLastStep s2 (usr_ID v)"
    using run_steps [of s1 x es] assms(3,6) by (simp add: steps_le_def)
  then show ?thesis using Login_totp [OF assms(1,2)] Login_totp [OF assms(4,5)] assms(6) by fastforce
qed


text \<open>A user with two-factor authentication signs in, and again half a minute later.\<close>

definition careful_service :: auth_service where
  "careful_service = auth_New \<lparr>as_users = [person ''root'' RoleAdmin,
     (person ''eve'' RoleViewer)\<lparr>usr_TOTPEnabled := True, usr_TOTPSecret := ''k''\<rparr>], as_sessions = [], as_tokens = []\<rparr>"

definition careful_login ::
  "int \<Rightarrow> string \<Rightarrow> string \<Rightarrow> auth_service \<Rightarrow> (auth_error + user_record) \<times> auth_service" where
  "careful_login m token code s =
     Login sample_env (sample_time + m * second) token ''eve'' ''pw'' code ''10.0.0.1'' [] s"

lemma signed_in: "\<not> isl (fst r) \<Longrightarrow> r = (Inr (projr (fst r)), snd r)"
  by (cases r; cases "fst r") auto

theorem totp_code_counts_once_witness:
  "\<exists>t1 t2. x_totp sample_env ''k'' t1 = Some ''111111'' \<and> x_totp sample_env ''k'' t2 = Some ''222222''
     \<and> \<bar>t2 - (sample_time + 30 * second)\<bar> \<le> totpPeriod \<and> totp_step t1 < totp_step t2"
proof -
  let ?r = "careful_login 0 ''a'' ''111 111'' careful_service"
  let ?q = "careful_login 30 ''b'' ''222222'' (foldl (auth_step sample_env) (snd ?r) [sample_login ''root''])"
  have "\<not> isl (fst ?r)" by code_simp
  note l1 = signed_in [OF this, unfolded careful_login_def]
  have "\<not> isl (fst ?q)" by code_simp
  note l2 = signed_in [OF this, unfolded careful_login_def]
  have u: "usr_TOTPEnabled (projr (fst ?r))" by code_simp
  have v: "usr_TOTPEnabled (projr (fst ?q))" by code_simp
  have same: "usr_ID (projr (fst ?q)) = usr_ID (projr (fst ?r))" by code_simp
  have "usr_TOTPSecret (projr (fst ?r)) = ''k'' \<and> usr_TOTPSecret (projr (fst ?q)) = ''k''" by code_simp
  moreover have "no_spaces ''111 111'' = ''111111'' \<and> no_spaces ''222222'' = ''222222''" by code_simp
  moreover have "x_unseal sample_env sec = Some sec" for sec by (simp add: sample_env_def)
  ultimately show ?thesis
    using totp_code_counts_once [OF l1 u [unfolded careful_login_def] refl l2 v [unfolded careful_login_def]
        same [unfolded careful_login_def]]
    by (auto simp: careful_login_def)
qed

section \<open>Requests that overlap\<close>

lemma user_names_differ:
  assumes "sane_rights (rights s)" "u \<in> set (as_users (sv_store s))" "v \<in> set (as_users (sv_store s))"
    and "usr_ID u \<noteq> usr_ID v"
  shows "\<not> same_name (usr_Username u) v"
proof -
  have "rights_of u \<noteq> rights_of v" using assms(4) by (auto simp: rights_of_def)
  then have "to_lower (fst (snd (rights_of u))) \<noteq> to_lower (fst (snd (rights_of v)))"
    using sane_rightsD(2) [OF assms(1)] rights_in [OF assms(2)] rights_in [OF assms(3)]
    by (auto simp: distinct_map inj_on_def)
  then show ?thesis by (auto simp: rights_of_def same_name_def)
qed

lemma put_user_replaces:
  assumes "sane_rights (rights s)" "GetUser (usr_ID u) (sv_store s) = Some v" "usr_Username u = usr_Username v"
  shows "fst (put_user u s) = Inr ()"
    and "GetUser (usr_ID u) (sv_store (snd (put_user u s))) = Some ((user_row u)\<lparr>usr_CreatedAt := usr_CreatedAt v\<rparr>)"
proof -
  have v: "v \<in> set (as_users (sv_store s))" "usr_ID v = usr_ID u" using GetUser_Some [OF assms(2)] by simp_all
  let ?f = "\<lambda>w. if usr_ID w = usr_ID u then (user_row u)\<lparr>usr_CreatedAt := usr_CreatedAt w\<rparr> else w"
  have "PutUser u (sv_store s) = Some ((sv_store s)\<lparr>as_users := map ?f (as_users (sv_store s))\<rparr>)"
    using user_names_differ [OF assms(1) v(1)] v assms(3) by (auto simp: PutUser_def)
  then have put: "put_user u s = (Inr (), s\<lparr>sv_store := (sv_store s)\<lparr>as_users := map ?f (as_users (sv_store s))\<rparr>\<rparr>)"
    by (simp add: put_user_def)
  have "find (user_with i) (map ?f us) = Some (?f w)" if "find (user_with i) us = Some w" "i = usr_ID u" for i us w
    using that by (induction us) (auto simp: user_with_def)
  then show "fst (put_user u s) = Inr ()"
    and "GetUser (usr_ID u) (sv_store (snd (put_user u s))) = Some ((user_row u)\<lparr>usr_CreatedAt := usr_CreatedAt v\<rparr>)"
    using put assms(2) v(2) by (auto simp: GetUser_def)
qed

lemma new_session_resolves:
  assumes "as_sessions (sv_store s) = old @ [r]" "\<forall>r'\<in>set old. ses_hash r' \<noteq> x_sha x tk"
    and "ses_hash r = x_sha x tk" "\<not> ms now > ses_expires r" "tk \<noteq> []"
    and "GetUser (ses_user r) (sv_store s) = Some w" "\<not> usr_Disabled w"
  shows "fst (Session x now tk s) = Inr w"
proof -
  have "find (\<lambda>r. ses_hash r = x_sha x tk) (as_sessions (sv_store s)) = Some r"
    unfolding assms(1) using assms(2,3) by (induction old) simp_all
  then show ?thesis using assms(4-7) by (simp add: Session_def SessionUser_def)
qed

text \<open>
  C40. A sign-in that overlaps with the disabling of the account undoes it. \<^verbatim>\<open>Login\<close> reads the
  user, compares the password, which takes long, and then writes the whole user back with the
  time of the sign-in. If an administrator disables the account in between, and with it ends
  its sessions, the sign-in still succeeds, the user is stored as enabled again, and the new
  session is accepted.
\<close>

theorem login_undoes_disabling:
  assumes "login_check x now n p c ip s = (Inr u, s1)"
    and "sane_rights (rights s2)" "GetUser (usr_ID u) (sv_store s2) = Some v" "usr_Disabled v"
    and "usr_Username v = usr_Username u"
    and "\<forall>r\<in>set (as_sessions (sv_store s2)). ses_hash r \<noteq> x_sha x tk" "tk \<noteq> []"
  shows "\<exists>w s3. login_finish x now (login_key ip n) tk u ip ua s2 = (Inr w, s3)
    \<and> (\<exists>w'. GetUser (usr_ID u) (sv_store s3) = Some w' \<and> \<not> usr_Disabled w' \<and> fst (Session x now tk s3) = Inr w')"
proof -
  let ?s = "forget_failures (login_key ip n) s2"
  let ?r = "\<lparr>ses_hash = x_sha x tk, ses_user = usr_ID u, ses_created = ms now, ses_expires = ms (now + SessionTTL),
             ses_ip = ip, ses_agent = ua\<rparr>"
  let ?u = "u\<lparr>usr_LastLogin := Some now\<rparr>"
  define st where "st = (sv_store s2)\<lparr>as_sessions := as_sessions (sv_store s2) @ [?r]\<rparr>"
  define s4 where "s4 = ?s\<lparr>sv_store := st\<rparr>"
  have create: "CreateSession now (x_sha x tk) (usr_ID u) ip ua (now + SessionTTL) (sv_store ?s) = Some st"
    using assms(3,6) by (auto simp: CreateSession_def st_def)
  have s4: "sane_rights (rights s4)" "GetUser (usr_ID ?u) (sv_store s4) = Some v"
    using assms(2,3) by (simp_all add: s4_def st_def rights_def GetUser_def)
  note put = put_user_replaces [OF s4, simplified, OF assms(5) [symmetric]]
  define s3 where "s3 = snd (put_user ?u s4)"
  define w' where "w' = (user_row ?u)\<lparr>usr_CreatedAt := usr_CreatedAt v\<rparr>"
  have user: "GetUser (usr_ID u) (sv_store s3) = Some w'" using put(2) by (simp add: s3_def w'_def)
  have enabled: "\<not> usr_Disabled w'" using login_check_user [OF assms(1)] by (simp add: w'_def user_row_def)
  have "ms now \<le> ms (now + SessionTTL)"
    unfolding ms_def by (rule zdiv_mono1) (simp_all add: SessionTTL_def duration_defs)
  then have "fst (Session x now tk s3) = Inr w'"
    using assms(6,7) user enabled
    by (intro new_session_resolves [of s3 "as_sessions (sv_store s2)" ?r]) (auto simp: s3_def s4_def st_def)
  moreover have "login_finish x now (login_key ip n) tk u ip ua s2 = (Inr ?u, s3)"
    using create by (simp add: login_finish_def newSession_def Let_def s3_def s4_def)
  ultimately show ?thesis using user enabled by blast
qed

text \<open>The administrator disables bob while bob's password is being compared.\<close>

theorem login_undoes_disabling_witness:
  "\<exists>w s3. login_finish sample_env sample_time (login_key ''10.0.0.1'' ''bob'') ''b''
      (projr (fst (login_check sample_env sample_time ''bob'' ''pw'' [] ''10.0.0.1'' sample_service))) ''10.0.0.1'' []
      (foldl (auth_step sample_env) sample_service [sample_login ''root'', disabling]) = (Inr w, s3)
    \<and> (\<exists>w'. GetUser ''bob'' (sv_store s3) = Some w' \<and> \<not> usr_Disabled w' \<and> fst (Session sample_env sample_time ''b'' s3) = Inr w')"
proof -
  let ?c = "login_check sample_env sample_time ''bob'' ''pw'' [] ''10.0.0.1'' sample_service"
  let ?s = "foldl (auth_step sample_env) sample_service [sample_login ''root'', disabling]"
  let ?v = "the (GetUser ''bob'' (sv_store ?s))"
  have "\<not> isl (fst ?c)" by code_simp
  note f1 = signed_in [OF this]
  have bob: "usr_ID (projr (fst ?c)) = ''bob''" by code_simp
  have f2: "sane_rights (rights ?s)" by code_simp
  have "GetUser ''bob'' (sv_store ?s) \<noteq> None" by code_simp
  then have f3: "GetUser (usr_ID (projr (fst ?c))) (sv_store ?s) = Some ?v" unfolding bob by (rule option.collapse [symmetric])
  have f4: "usr_Disabled ?v" by code_simp
  have f5: "usr_Username ?v = usr_Username (projr (fst ?c))" by code_simp
  have f6: "\<forall>r\<in>set (as_sessions (sv_store ?s)). ses_hash r \<noteq> x_sha sample_env ''b''" by code_simp
  have f7: "''b'' \<noteq> []" by simp
  show ?thesis using login_undoes_disabling [OF f1 f2 f3 f4 f5 f6 f7, of "[]"] unfolding bob .
qed

text \<open>
  In the same way two administrators who demote each other at the same moment both pass the
  check for the last administrator, and none is left.
\<close>

definition demote :: update_user_in where
  "demote = no_change\<lparr>uu_Role := Some RoleViewer\<rparr>"

definition two_admins :: auth_service where
  "two_admins = auth_New \<lparr>as_users = [person ''ann'' RoleAdmin, person ''ben'' RoleAdmin], as_sessions = [], as_tokens = []\<rparr>"

lemma administrators_demote_each_other:
  "(case (update_decide sample_env ''ann'' demote (person ''ben'' RoleAdmin) (sv_store two_admins),
          update_decide sample_env ''ben'' demote (person ''ann'' RoleAdmin) (sv_store two_admins)) of
      (Inr ben, Inr ann) \<Rightarrow>
        map usr_Role (as_users (sv_store (snd (update_commit demote ann (snd (update_commit demote ben two_admins))))))
          = [RoleViewer, RoleViewer]
    | _ \<Rightarrow> False)"
  by code_simp

end
