(* ===== verification/Spec2Isabelle.thy ===== *)
theory Spec2Isabelle
  imports Alert_Engine Tasks Ipban_Proofs Cache_Proofs Front_Proofs Supervisor_Claims Sign_In
begin

text \<open>
  \<^bold>\<open>NodeHoster\<close> is a service that hosts Node.js applications, static sites and reverse
  proxies on a Windows or Linux server. Its core is one process: a proxy that owns the
  public listeners, matches requests to sites and forwards them to instances or
  upstreams; a process manager that runs the instances; and services around them:
  scheduled tasks, alerts on resources, automatic IP bans, a response cache, and an
  administration interface with users, roles and tokens. This
  development models the parts that decide, in Isabelle/HOL, from the Go code under
  \<^verbatim>\<open>src/internal\<close>, and proves what makes them correct.

  \<^bold>\<open>Theories.\<close>

  \<^item> \<open>Go_Prelude\<close>: instants and durations (nanoseconds, with Go's saturating \<^verbatim>\<open>Sub\<close> and
    64-bit wrap-around), the string functions the code uses, maps as association lists,
    and the locale \<open>invariant_machine\<close>: what every step keeps holds after every run.
    Every stateful component interprets it on its own step function.
  \<^item> \<open>Go_List\<close>: \<^verbatim>\<open>container/list\<close> with an index by key, shared by bans and the cache.
  \<^item> \<open>Site_Model\<close>: the configuration records of \<^verbatim>\<open>internal/model\<close> and slot keys.
  \<^item> \<open>Net_Addr\<close>: addresses and networks as 128-bit words, parsed and printed as
    \<^verbatim>\<open>net\<close> does; the locale \<open>codec\<close> (what is printed is read back) is interpreted for
    numbers, addresses and networks.
  \<^item> \<open>Http_Model\<close>: headers, Cache-Control, Vary, Accept-Encoding (\<^verbatim>\<open>proxy/compress.go\<close>)
    and the canonical forms of paths (\<^verbatim>\<open>proxy/clientcert.go\<close>).
  \<^item> \<open>Alert_State\<close>, \<open>Alert_Rules\<close>, \<open>Alert_Measure\<close>, \<open>Alert_Message\<close>, \<open>Alert_Engine\<close>:
    \<^verbatim>\<open>internal/alerts\<close> and \<^verbatim>\<open>model/alerts.go\<close>, from one rule's state machine up to the
    engine that evaluates, notifies, remembers and silences.
  \<^item> \<open>Cron\<close>, \<open>Tasks\<close>: \<^verbatim>\<open>internal/cron\<close> and \<^verbatim>\<open>internal/tasks\<close>: schedules with time zones,
    and the scheduler with its overlap policies.
  \<^item> \<open>Ipban\<close>, \<open>Ipban_Proofs\<close>: \<^verbatim>\<open>internal/ipban\<close> and \<^verbatim>\<open>model/ipban.go\<close>.
  \<^item> \<open>Cache\<close>, \<open>Cache_Proofs\<close>: \<^verbatim>\<open>proxy/cache.go\<close>, with the interleavings of requests that
    wait for each other.
  \<^item> \<open>Affinity\<close>, \<open>Balancer\<close>, \<open>Traffic\<close>: \<^verbatim>\<open>proxy/affinity.go\<close>, \<^verbatim>\<open>upstreams.go\<close>,
    \<^verbatim>\<open>ratelimit.go\<close>, \<^verbatim>\<open>latency.go\<close>, \<^verbatim>\<open>stats.go\<close>.
  \<^item> \<open>Client_Cert\<close>, \<open>Routing\<close>, \<open>Front_Door\<close>, \<open>Front_Proofs\<close>: client certificate policies
    (\<^verbatim>\<open>model/tls.go\<close>, \<^verbatim>\<open>proxy/clientcert.go\<close>), bindings, the route table and listeners
    (\<^verbatim>\<open>model/validate.go\<close>, \<^verbatim>\<open>proxy/server.go\<close>, \<^verbatim>\<open>h3.go\<close>), and the way of a request from
    the listener through bans, certificates and the checks of its site (\<^verbatim>\<open>server.go\<close>,
    \<^verbatim>\<open>site.go\<close>, \<^verbatim>\<open>waf.go\<close>).
  \<^item> \<open>Ports\<close>, \<open>Supervisor\<close>, \<open>Supervisor_Proofs\<close>, \<open>Supervisor_Claims\<close>:
    \<^verbatim>\<open>procmgr/ports.go\<close>, and \<^verbatim>\<open>procmgr/app.go\<close> with what it needs of \<^verbatim>\<open>instance.go\<close> and
    \<^verbatim>\<open>manager.go\<close>. Each slot of an app is a goroutine; where it stands between two points
    at which others may run is its program counter (\<open>slot_pc\<close>), instances, slots and apps
    live in stores, and \<open>sup_step\<close> takes one step of one of them. The theorems are about
    every interleaving.
  \<^item> \<open>Access\<close>: roles, grants and restricted tokens (\<^verbatim>\<open>auth/access.go\<close>, \<^verbatim>\<open>previews.go\<close>) and
    the guards of the routes (\<^verbatim>\<open>api/access.go\<close>).
  \<^item> \<open>Accounts\<close>, \<open>Accounts_Proofs\<close>, \<open>Account_Claims\<close>, \<open>Sign_In\<close>: the tables of users,
    sessions and tokens (\<^verbatim>\<open>store/auth.go\<close>), sign-in with passwords, two-factor codes and
    single sign-on (\<^verbatim>\<open>auth/auth.go\<close>, \<^verbatim>\<open>auth/sso.go\<close>) and the handlers behind
    authentication (\<^verbatim>\<open>api/auth.go\<close>, \<^verbatim>\<open>api/api.go\<close>, \<^verbatim>\<open>api/local.go\<close>). \<open>auth_step\<close> is one
    request or sign-in from start to end; those that read a user and write it back later
    are also given in two parts.

  \<^bold>\<open>How the model corresponds to the code.\<close> A struct is a record with the fields the
  modelled code reads; an operation with a receiver is a function that takes the record
  and returns it updated, one function per Go function where possible, and one per stage
  where a Go function is long (the pipeline of a site, storing a cache entry). What a
  critical section does is one step; where code releases a lock in between (a trap, a
  request waiting for another's response, saving bans) the parts are separate steps and
  theorems quantify over their interleavings. An error is a value of an error datatype or
  \<open>None\<close>. The clock is read once per operation and is an argument; random numbers, new
  IDs, HMAC, SHA-256, bcrypt, X.509, the token bucket, the parsers of \<^verbatim>\<open>net/http\<close>, the
  firewall's verdict and the rewrite engine's result are arguments too, with what is
  assumed of them stated where a theorem needs it. Strings are lists of bytes; case
  mapping and white space are those of ASCII. Go's \<^verbatim>\<open>float64\<close> is a rational number.
  Integers are unbounded where their range is small, and wrap around at 64 bits where
  the code can be driven there (steps of schedules, lifetimes, ban windows); hashes,
  counters of the balancer and address bits are words.

  \<^bold>\<open>What the theorems show.\<close> Alerts: a rule fires and resolves exactly after its hold and
  recovery times, alerts are announced once, the engine's record agrees with the state
  machines. Schedules: \<^verbatim>\<open>Next\<close> gives the first matching wall-clock minute, across changes
  of the clocks. Tasks: at most ten runs, overlap policies kept, waiting runs start.
  Bans: after any operations an address is banned exactly when a ban in force contains it
  and nothing exempts it; memory is bounded. Cache: memory is within its budget in every
  interleaving, and nothing is served that may not be shared. Balancing: round robin is
  fair by weight, health checks have the configured hysteresis, affinity cookies round
  trip and cannot be forged without the key. Front door: the most specific binding
  answers, sockets do not collide and follow the configuration, a client cannot choose
  the address it is taken for, banned clients are refused, and no request reaches a
  handler past a check that should have stopped it, client certificates included.
  Supervision: no two instances share a port, no process is left without a slot that
  minds it, a recycle of a site with automatic ports never leaves it without a ready
  instance, rapid-fail protection trips exactly at its limit; and a site that an operator
  stopped can come back by its recovery timer. Access: a request passes exactly when
  user, token and header all permit it; rights change only at the hands of an unlimited
  administrator; an administrator always remains and disabled accounts stay out when
  requests do not overlap; guesses are limited to five in fifteen minutes and a two-factor
  code counts once; and a sign-in that overlaps with the disabling of its account undoes
  it.

  \<^bold>\<open>Loops and fuel.\<close> Recursions are structural or have a measure, except reading a bundle
  of certificates, whose fuel is the length of the bundle (every block takes bytes), and
  the search for a port number in a line of output, which would not end for an empty
  number and is shown to return for the numbers it is called with.

  \<^bold>\<open>Not modelled.\<close> The other handlers of the HTTP API, the command line, the desktop
  manager and the web console (presentation of what is modelled); certificates and ACME,
  the exchange with identity providers, mail, backups, deployment and previews, log
  shipping and search, the other tables of the store, updates (I/O and formats); the
  environment, logs and file watching of instances, and swapping deployment slots; the
  firewall's rules and the URL rewrite engine (regular expressions); the streaming of
  bodies, compression and static files; timers and goroutines other than as steps.
\<close>

end
